(* ===== verification/Prelude.thy ===== *)
theory Prelude
  imports Main "HOL-Library.Word" "HOL-Library.Monad_Syntax"
begin

unbundle bit_operations_syntax

text \<open>
  What every component shares: the machine integers of the C code, the convention for
  undefined behaviour, little-endian loads and stores on a byte block, and blocks of the
  C heap (\<open>malloc\<close>, \<open>realloc\<close>, \<open>free\<close>).

  Undefined behaviour of C (an access outside an allocated block, through a wild or freed
  pointer, of an indeterminate value, a shift by 64 or more, a call through a null function
  pointer) is the value \<^term>\<open>None\<close>; a defined run of a C function is \<^term>\<open>Some\<close>
  of its result and the new state. Error returns and VM exceptions are part of that result,
  so a model never hides one behind \<^term>\<open>None\<close>.
\<close>

section \<open>Machine integers\<close>

type_synonym u8 = "8 word"
type_synonym u16 = "16 word"
type_synonym u32 = "32 word"
type_synonym u64 = "64 word"
type_synonym i32 = "32 word"
type_synonym i64 = "64 word"

named_theorems frame_simps \<open>fields an operation does not write\<close>
named_theorems vm_wf_intros \<open>operations that keep the well-formedness of the machine\<close>
named_theorems load_store \<open>loads and stores on a byte block\<close>

section \<open>Little-endian byte sequences\<close>

fun le_bytes :: "nat \<Rightarrow> nat \<Rightarrow> u8 list" where
  "le_bytes 0 k = []"
| "le_bytes (Suc n) k = of_nat (k mod 256) # le_bytes n (k div 256)"

fun le_nat :: "u8 list \<Rightarrow> nat" where
  "le_nat [] = 0"
| "le_nat (b # bs) = unat b + 256 * le_nat bs"

lemma length_le_bytes [simp]: "length (le_bytes n k) = n"
  by (induction n arbitrary: k) auto

lemma le_bytes_ne [simp]: "le_bytes (Suc n) k \<noteq> []" by simp

lemma le_bytes_ne_2 [simp]: "le_bytes 2 k \<noteq> []" "le_bytes 4 k \<noteq> []"
  by (metis length_le_bytes list.size(3) zero_neq_numeral)+

lemma le_nat_bound: "le_nat bs < 256 ^ length bs"
proof (induction bs)
  case Nil
  then show ?case by simp
next
  case (Cons b bs)
  have "unat b < 256" using unsigned_less [of b] by simp
  then show ?case using Cons by simp
qed

lemma le_nat_le_bytes [simp]: "le_nat (le_bytes n k) = k mod 256 ^ n"
proof (induction n arbitrary: k)
  case 0
  then show ?case by simp
next
  case (Suc n)
  have b: "unat (of_nat (k mod 256) :: u8) = k mod 256"
    by (simp add: unat_of_nat)
  have "k mod 256 + 256 * (k div 256 mod 256 ^ n) = k mod (256 * 256 ^ n)"
    by (simp add: mod_mult2_eq)
  then show ?case by (simp add: Suc b)
qed

lemma le_bytes_le_nat: "length bs = n \<Longrightarrow> le_bytes n (le_nat bs) = bs"
proof (induction bs arbitrary: n)
  case Nil
  then show ?case by simp
next
  case (Cons b bs)
  have lt: "unat b < 256" using unsigned_less [of b] by simp
  have "(unat b + 256 * le_nat bs) mod 256 = unat b"
    using lt by simp
  moreover have "(unat b + 256 * le_nat bs) div 256 = le_nat bs"
    using lt by simp
  ultimately show ?case using Cons by auto
qed

lemma le_bytes_mod: "le_bytes n (k mod 256 ^ n) = le_bytes n k"
  using le_bytes_le_nat [of "le_bytes n k" n] by simp

section \<open>Loads and stores on a byte block\<close>

text \<open>
  A pointer into a byte block is its offset. \<open>load n m p\<close> reads \<open>n\<close> bytes at \<open>p\<close>,
  least significant first, as the C code does through a cast pointer on a little-endian
  host; it is undefined when any of the bytes lies outside the block.
\<close>

definition load :: "nat \<Rightarrow> u8 list \<Rightarrow> nat \<Rightarrow> nat option" where
  "load n m p = (if p + n \<le> length m then Some (le_nat (take n (drop p m))) else None)"

definition store_bytes :: "u8 list \<Rightarrow> nat \<Rightarrow> u8 list \<Rightarrow> u8 list option" where
  "store_bytes m p bs =
     (if p + length bs \<le> length m then Some (take p m @ bs @ drop (p + length bs) m) else None)"

definition store :: "nat \<Rightarrow> u8 list \<Rightarrow> nat \<Rightarrow> nat \<Rightarrow> u8 list option" where
  "store n m p k = store_bytes m p (le_bytes n k)"

lemma load_defined [load_store]: "load n m p \<noteq> None \<longleftrightarrow> p + n \<le> length m"
  by (simp add: load_def)

lemma load_Some_iff [load_store]:
  "load n m p = Some k \<longleftrightarrow> p + n \<le> length m \<and> k = le_nat (take n (drop p m))"
  by (auto simp: load_def)

lemma load_bound:
  assumes "load n m p = Some k"
  shows "k < 256 ^ n"
proof -
  from assms have "length (take n (drop p m)) = n" by (auto simp: load_Some_iff)
  then show ?thesis using le_nat_bound [of "take n (drop p m)"] assms by (simp add: load_Some_iff)
qed

lemma store_bytes_Some_iff [load_store]:
  "store_bytes m p bs = Some m' \<longleftrightarrow>
     p + length bs \<le> length m \<and> m' = take p m @ bs @ drop (p + length bs) m"
  by (auto simp: store_bytes_def)

lemma store_bytes_length [load_store]: "store_bytes m p bs = Some m' \<Longrightarrow> length m' = length m"
  by (auto simp: store_bytes_Some_iff)

lemma store_length [load_store]: "store n m p k = Some m' \<Longrightarrow> length m' = length m"
  by (simp add: store_def store_bytes_length)

lemma store_defined [load_store]: "store n m p k \<noteq> None \<longleftrightarrow> p + n \<le> length m"
  by (simp add: store_def store_bytes_def)

lemma store_ex: "p + n \<le> length m \<Longrightarrow> \<exists>m'. store n m p k = Some m'"
  using store_defined by blast

lemma load_ex: "p + n \<le> length m \<Longrightarrow> \<exists>k. load n m p = Some k"
  using load_defined by blast

lemma load_store_same [load_store]:
  assumes "store n m p k = Some m'"
  shows "load n m' p = Some (k mod 256 ^ n)"
proof -
  from assms have b: "p + n \<le> length m"
    and m': "m' = take p m @ le_bytes n k @ drop (p + n) m"
    by (auto simp: store_def store_bytes_Some_iff)
  from b have "take n (drop p m') = le_bytes n k" by (simp add: m')
  with b show ?thesis by (simp add: load_def m')
qed

lemma nth_store_bytes:
  assumes "store_bytes m p bs = Some m'" and "i < length m"
  shows "m' ! i = (if p \<le> i \<and> i < p + length bs then bs ! (i - p) else m ! i)"
  using assms by (auto simp: store_bytes_Some_iff nth_append)

lemma load_cong:
  assumes "length m' = length m" and "\<And>i. p \<le> i \<Longrightarrow> i < p + n \<Longrightarrow> m' ! i = m ! i"
  shows "load n m' p = load n m p"
proof (cases "p + n \<le> length m")
  case True
  then have "take n (drop p m') = take n (drop p m)"
    using assms by (intro nth_equalityI) auto
  then show ?thesis by (simp add: load_def assms)
next
  case False
  then show ?thesis by (simp add: load_def assms)
qed

lemma load_store_disjoint [load_store]:
  assumes "store n m p k = Some m'" and "q + j \<le> p \<or> p + n \<le> q"
  shows "load j m' q = load j m q"
proof (cases "q + j \<le> length m")
  case False
  then show ?thesis using store_length [OF assms(1)] by (simp add: load_def)
next
  case True
  show ?thesis
  proof (rule load_cong)
    show "length m' = length m" by (rule store_length [OF assms(1)])
    fix i assume "q \<le> i" "i < q + j"
    then show "m' ! i = m ! i"
      using assms True nth_store_bytes [of m p "le_bytes n k" m' i] by (auto simp: store_def)
  qed
qed

section \<open>Blocks of the C heap\<close>

text \<open>
  A pointer field that owns a heap block is \<open>Null\<close>, points to a \<open>Freed\<close> block, or
  to a block of slots of a fixed size, a slot being \<^term>\<open>None\<close> while its content is
  indeterminate. \<open>realloc\<close> takes a size in bytes, exactly as the code passes it: slots
  that no longer fit are lost, new ones are indeterminate.
\<close>

datatype 'a block = Null | Freed | Slots "'a option list"

fun blk_realloc :: "nat \<Rightarrow> nat \<Rightarrow> 'a block \<Rightarrow> 'a block option" where
  "blk_realloc slot bytes Null = Some (Slots (replicate (bytes div slot) None))"
| "blk_realloc slot bytes Freed = None"
| "blk_realloc slot bytes (Slots xs) =
     Some (Slots (take (bytes div slot) xs @ replicate (bytes div slot - length xs) None))"

fun blk_read :: "'a block \<Rightarrow> nat \<Rightarrow> 'a option" where
  "blk_read (Slots xs) i = (if i < length xs then xs ! i else None)"
| "blk_read _ i = None"

fun blk_write :: "'a block \<Rightarrow> nat \<Rightarrow> 'a \<Rightarrow> 'a block option" where
  "blk_write (Slots xs) i x = (if i < length xs then Some (Slots (xs[i := Some x])) else None)"
| "blk_write _ i x = None"

fun blk_slots :: "'a block \<Rightarrow> nat" where
  "blk_slots (Slots xs) = length xs"
| "blk_slots _ = 0"

fun blk_free :: "'a block \<Rightarrow> 'a block option" where
  "blk_free Null = Some Null"
| "blk_free Freed = None"
| "blk_free (Slots xs) = Some Freed"

lemma blk_write_Some: "i < blk_slots b \<Longrightarrow> \<exists>b'. blk_write b i x = Some b'"
  by (cases b) auto

lemma blk_read_write:
  "blk_write b i x = Some b' \<Longrightarrow> blk_read b' j = (if j = i then Some x else blk_read b j)"
  by (cases b) (auto split: if_splits)

lemma blk_slots_write [simp]: "blk_write b i x = Some b' \<Longrightarrow> blk_slots b' = blk_slots b"
  by (cases b) (auto split: if_splits)

lemma blk_slots_realloc: "blk_realloc s n b = Some b' \<Longrightarrow> blk_slots b' = n div s"
  by (cases b) auto

lemma blk_read_realloc:
  "blk_realloc s n b = Some b' \<Longrightarrow> i < blk_slots b \<Longrightarrow> i < n div s \<Longrightarrow> blk_read b' i = blk_read b i"
  by (cases b) (auto simp: nth_append)

lemma blk_read_bound: "blk_read b i = Some x \<Longrightarrow> i < blk_slots b"
  by (cases b) (auto split: if_splits)

section \<open>Options as possibly undefined results\<close>

lemma bind_Some_iff [simp]: "Option.bind m f = Some y \<longleftrightarrow> (\<exists>x. m = Some x \<and> f x = Some y)"
  by (simp add: Option.bind_eq_Some_conv)

lemma bind_None_iff: "Option.bind m f = None \<longleftrightarrow> m = None \<or> (\<exists>x. m = Some x \<and> f x = None)"
  by (cases m) auto

lemma unat_of_nat_u64 [simp]: "unat (of_nat n :: u64) = n mod 2 ^ 64"
  by (simp add: unat_of_nat)

lemma unat_of_nat_u32 [simp]: "unat (of_nat n :: u32) = n mod 2 ^ 32"
  by (simp add: unat_of_nat)

lemma unat_of_nat_u16 [simp]: "unat (of_nat n :: u16) = n mod 2 ^ 16"
  by (simp add: unat_of_nat)

lemma unat_of_nat_u8 [simp]: "unat (of_nat n :: u8) = n mod 2 ^ 8"
  by (simp add: unat_of_nat)

lemma unat_u64_lt: "unat (x :: u64) < 18446744073709551616"
  using unsigned_less [of x] by simp

lemma unat_u32_lt: "unat (x :: u32) < 4294967296"
  using unsigned_less [of x] by simp

lemma unat_mod_u16 [simp]: "unat (x :: u16) mod 65536 = unat x"
proof -
  have "unat x < 2 ^ LENGTH(16)" by (rule unsigned_less)
  then show ?thesis by simp
qed

lemma unat_mod_u32 [simp]: "unat (x :: u32) mod 4294967296 = unat x"
proof -
  have "unat x < 2 ^ LENGTH(32)" by (rule unsigned_less)
  then show ?thesis by simp
qed

lemma unat_ucast_u32_u64 [simp]: "unat (ucast (a :: u32) :: u64) = unat a"
  by (simp add: unsigned_ucast_eq take_bit_nat_eq_self_iff unat_u32_lt less_trans [OF unat_u32_lt])

lemma unat_ucast_u64_u32: "unat (ucast (s :: u64) :: u32) = unat s mod 4294967296"
  by (simp add: unsigned_ucast_eq take_bit_eq_mod)

end
