(* ===== verification/LinkedList.thy ===== *)
theory LinkedList
  imports Prelude
begin

text \<open>
  The doubly linked lists of \<open>src/util/list.c\<close> on an explicit store of nodes: every
  operation of the header, with the pointer updates in the order of the C code. A pointer is
  an optional address, \<^term>\<open>None\<close> being \<open>NULL\<close>; following a pointer to a node that is
  not in the store is undefined. The lemmas show that on a well-formed chain the operations
  are insertion, deletion, length, first and last element of an ordinary list. The rest of
  the development uses lists for the chains on the strength of these lemmas.
\<close>

section \<open>Nodes and operations\<close>

record 'd list_t =
  nd_prev :: "nat option"
  nd_next :: "nat option"
  nd_data :: "'d"

type_synonym 'd store = "nat \<rightharpoonup> 'd list_t"

text \<open>The address of a new node is the choice of \<open>malloc\<close>, the argument \<open>a\<close>.\<close>

definition list_make_node :: "nat \<Rightarrow> 'd \<Rightarrow> 'd store \<Rightarrow> nat \<times> 'd store" where
  "list_make_node a d h = (a, h(a \<mapsto> \<lparr>nd_prev = None, nd_next = None, nd_data = d\<rparr>))"

definition set_next :: "nat option \<Rightarrow> nat option \<Rightarrow> 'd store \<Rightarrow> 'd store option" where
  "set_next p v h = do { a \<leftarrow> p; nd \<leftarrow> h a; Some (h(a \<mapsto> nd\<lparr>nd_next := v\<rparr>)) }"

definition set_prev :: "nat option \<Rightarrow> nat option \<Rightarrow> 'd store \<Rightarrow> 'd store option" where
  "set_prev p v h = do { a \<leftarrow> p; nd \<leftarrow> h a; Some (h(a \<mapsto> nd\<lparr>nd_prev := v\<rparr>)) }"

definition list_unlink :: "nat \<Rightarrow> 'd store \<Rightarrow> 'd store option" where
  "list_unlink node h = do {
     nd \<leftarrow> h node;
     h1 \<leftarrow> (if nd_prev nd \<noteq> None then set_next (nd_prev nd) (nd_next nd) h else Some h);
     nd1 \<leftarrow> h1 node;
     (if nd_next nd1 \<noteq> None then set_prev (nd_next nd1) (nd_prev nd1) h1 else Some h1) }"

definition list_destroy_node :: "nat \<Rightarrow> 'd store \<Rightarrow> 'd store option" where
  "list_destroy_node node h = do { h1 \<leftarrow> list_unlink node h; Some (h1(node := None)) }"

partial_function (option) list_destroy_loop ::
  "nat option \<Rightarrow> nat option \<Rightarrow> 'd store \<Rightarrow> 'd store option" where
  "list_destroy_loop node nxt h =
     (case node of
        None \<Rightarrow> Some h
      | Some a \<Rightarrow>
          (if h a = None then None
           else let h1 = h(a := None) in
             (case nxt of
                None \<Rightarrow> list_destroy_loop None None h1
              | Some b \<Rightarrow> (case h1 b of
                    None \<Rightarrow> None
                  | Some nd \<Rightarrow> list_destroy_loop (Some b) (nd_next nd) h1))))"

definition list_destroy :: "nat option \<Rightarrow> 'd store \<Rightarrow> 'd store option" where
  "list_destroy head h =
     (case head of
        None \<Rightarrow> list_destroy_loop None None h
      | Some a \<Rightarrow> (case h a of None \<Rightarrow> None | Some nd \<Rightarrow> list_destroy_loop (Some a) (nd_next nd) h))"

definition list_append :: "nat option \<Rightarrow> nat \<Rightarrow> 'd store \<Rightarrow> (nat option \<times> 'd store) option" where
  "list_append list node h =
     (case list of
        None \<Rightarrow> Some (Some node, h)
      | Some l \<Rightarrow> do {
          ln \<leftarrow> h l;
          h1 \<leftarrow> set_next (Some node) (nd_next ln) h;
          ln1 \<leftarrow> h1 l;
          h2 \<leftarrow> (if nd_next ln1 \<noteq> None then set_prev (nd_next ln1) (Some node) h1 else Some h1);
          h3 \<leftarrow> set_next (Some l) (Some node) h2;
          h4 \<leftarrow> set_prev (Some node) (Some l) h3;
          Some (list, h4) })"

definition list_prepend :: "nat option \<Rightarrow> nat \<Rightarrow> 'd store \<Rightarrow> (nat option \<times> 'd store) option" where
  "list_prepend list node h =
     (case list of
        None \<Rightarrow> Some (Some node, h)
      | Some l \<Rightarrow> do {
          ln \<leftarrow> h l;
          h1 \<leftarrow> set_prev (Some node) (nd_prev ln) h;
          ln1 \<leftarrow> h1 l;
          h2 \<leftarrow> (if nd_prev ln1 \<noteq> None then set_next (nd_prev ln1) (Some node) h1 else Some h1);
          h3 \<leftarrow> set_prev (Some l) (Some node) h2;
          h4 \<leftarrow> set_next (Some node) (Some l) h3;
          Some (Some node, h4) })"

partial_function (option) list_size_loop :: "nat option \<Rightarrow> u32 \<Rightarrow> 'd store \<Rightarrow> u32 option" where
  "list_size_loop n sz h =
     (case n of
        None \<Rightarrow> Some sz
      | Some a \<Rightarrow> (case h a of None \<Rightarrow> None | Some nd \<Rightarrow> list_size_loop (nd_next nd) (sz + 1) h))"

definition list_size :: "nat option \<Rightarrow> 'd store \<Rightarrow> u32 option" where
  "list_size head h = list_size_loop head 0 h"

partial_function (option) list_head :: "nat \<Rightarrow> 'd store \<Rightarrow> nat option" where
  "list_head node h =
     (case h node of
        None \<Rightarrow> None
      | Some nd \<Rightarrow> (case nd_prev nd of None \<Rightarrow> Some node | Some p \<Rightarrow> list_head p h))"

partial_function (option) list_tail :: "nat \<Rightarrow> 'd store \<Rightarrow> nat option" where
  "list_tail node h =
     (case h node of
        None \<Rightarrow> None
      | Some nd \<Rightarrow> (case nd_next nd of None \<Rightarrow> Some node | Some p \<Rightarrow> list_tail p h))"

section \<open>Chains\<close>

text \<open>
  \<open>chain h xs ds\<close>: the nodes at the distinct addresses \<open>xs\<close> form, in this order, a
  complete doubly linked list that carries the data \<open>ds\<close>.
\<close>

definition at :: "'a list \<Rightarrow> nat \<Rightarrow> 'a option" where
  "at xs i = (if i < length xs then Some (xs ! i) else None)"

definition node_at :: "nat list \<Rightarrow> 'd list \<Rightarrow> nat \<Rightarrow> 'd list_t" where
  "node_at xs ds i =
     \<lparr>nd_prev = (if i = 0 then None else Some (xs ! (i - 1))),
      nd_next = at xs (Suc i), nd_data = ds ! i\<rparr>"

definition chain :: "'d store \<Rightarrow> nat list \<Rightarrow> 'd list \<Rightarrow> bool" where
  "chain h xs ds \<longleftrightarrow> distinct xs \<and> length ds = length xs \<and>
     (\<forall>i < length xs. h (xs ! i) = Some (node_at xs ds i))"

text \<open>\<open>insert_at i x xs\<close> puts \<open>x\<close> before the \<open>i\<close>-th element, \<open>delete_at\<close> removes it.\<close>

definition insert_at :: "nat \<Rightarrow> 'a \<Rightarrow> 'a list \<Rightarrow> 'a list" where
  "insert_at i x xs = take i xs @ x # drop i xs"

definition delete_at :: "nat \<Rightarrow> 'a list \<Rightarrow> 'a list" where
  "delete_at i xs = take i xs @ drop (Suc i) xs"

lemma at_simps [simp]:
  "i < length xs \<Longrightarrow> at xs i = Some (xs ! i)"
  "\<not> i < length xs \<Longrightarrow> at xs i = None"
  by (simp_all add: at_def)

lemma length_insert_at [simp]: "length (insert_at i x xs) = Suc (length xs)"
  by (simp add: insert_at_def)

lemma length_delete_at [simp]: "i < length xs \<Longrightarrow> length (delete_at i xs) = length xs - 1"
  by (simp add: delete_at_def)

lemma nth_insert_at:
  "i \<le> length xs \<Longrightarrow> j \<le> length xs \<Longrightarrow>
     insert_at i x xs ! j = (if j < i then xs ! j else if j = i then x else xs ! (j - 1))"
  by (auto simp: insert_at_def nth_append nth_Cons')

lemma nth_delete_at:
  "i < length xs \<Longrightarrow> j < length xs - 1 \<Longrightarrow>
     delete_at i xs ! j = (if j < i then xs ! j else xs ! Suc j)"
  by (auto simp: delete_at_def nth_append)

lemma distinct_insert_at: "distinct xs \<Longrightarrow> x \<notin> set xs \<Longrightarrow> distinct (insert_at i x xs)"
proof -
  assume d: "distinct xs" and x: "x \<notin> set xs"
  from d have "set (take i xs) \<inter> set (drop i xs) = {}"
    by (metis append_take_drop_id distinct_append)
  with d x show ?thesis
    by (auto simp: insert_at_def dest: in_set_takeD in_set_dropD)
qed

lemma distinct_delete_at: "distinct xs \<Longrightarrow> distinct (delete_at i xs)"
proof -
  assume d: "distinct xs"
  have "set (take i xs) \<inter> set (drop (Suc i) xs) = {}"
    using d set_take_disj_set_drop_if_distinct [of xs i "Suc i"] by simp
  with d show ?thesis by (simp add: delete_at_def)
qed

lemma chainD:
  assumes "chain h xs ds" "i < length xs"
  shows "h (xs ! i) = Some (node_at xs ds i)"
  using assms by (simp add: chain_def)

lemma chain_distinct: "chain h xs ds \<Longrightarrow> distinct xs"
  by (simp add: chain_def)

lemma chain_nth_eq:
  "chain h xs ds \<Longrightarrow> i < length xs \<Longrightarrow> j < length xs \<Longrightarrow> xs ! i = xs ! j \<longleftrightarrow> i = j"
  by (simp add: chain_def nth_eq_iff_index_eq)

lemma chain_singleton: "chain ((snd (list_make_node a d h))) [a] [d]"
  by (simp add: chain_def list_make_node_def node_at_def)

section \<open>Insertion and deletion\<close>

lemma list_append_chain:
  assumes c: "chain h xs ds" and i: "i < length xs" and nd: "h a = Some nd" and a: "a \<notin> set xs"
  shows "\<exists>h'. list_append (Some (xs ! i)) a h = Some (Some (xs ! i), h') \<and>
           chain h' (insert_at (Suc i) a xs) (insert_at (Suc i) (nd_data nd) ds) \<and>
           (\<forall>p. p \<noteq> a \<and> p \<notin> set xs \<longrightarrow> h' p = h p)"
proof -
  have ne: "\<And>j. j < length xs \<Longrightarrow> xs ! j \<noteq> a" using a by (metis nth_mem)
  note hx = chainD [OF c]
  note inj = chain_nth_eq [OF c]
  have len: "length ds = length xs" using c by (simp add: chain_def)
  define h1 where "h1 = h(a \<mapsto> nd\<lparr>nd_next := at xs (Suc i)\<rparr>)"
  define h2 where "h2 = (if Suc i < length xs
      then h1(xs ! Suc i \<mapsto> (node_at xs ds (Suc i))\<lparr>nd_prev := Some a\<rparr>) else h1)"
  define h3 where "h3 = h2(xs ! i \<mapsto> (node_at xs ds i)\<lparr>nd_next := Some a\<rparr>)"
  define h4 where "h4 = h3(a \<mapsto> nd\<lparr>nd_next := at xs (Suc i), nd_prev := Some (xs ! i)\<rparr>)"
  have "list_append (Some (xs ! i)) a h = Some (Some (xs ! i), h4)"
    using i ne inj nd
    by (auto simp: list_append_def set_next_def set_prev_def hx h1_def h2_def h3_def h4_def
          node_at_def fun_upd_twist)
  moreover have "chain h4 (insert_at (Suc i) a xs) (insert_at (Suc i) (nd_data nd) ds)"
    unfolding chain_def
  proof (intro conjI allI impI)
    show "distinct (insert_at (Suc i) a xs)"
      using chain_distinct [OF c] a by (rule distinct_insert_at)
    show "length (insert_at (Suc i) (nd_data nd) ds) = length (insert_at (Suc i) a xs)"
      by (simp add: len)
    fix j assume "j < length (insert_at (Suc i) a xs)"
    then have j: "j \<le> length xs" by simp
    consider "j < i" | "j = i" | "j = Suc i" | "j = Suc (Suc i)" | "Suc (Suc i) < j" by linarith
    then show "h4 (insert_at (Suc i) a xs ! j) =
        Some (node_at (insert_at (Suc i) a xs) (insert_at (Suc i) (nd_data nd) ds) j)"
      using i j ne
      by cases (auto simp: nth_insert_at len node_at_def at_def h4_def h3_def h2_def h1_def hx inj)
  qed
  moreover have "\<forall>p. p \<noteq> a \<and> p \<notin> set xs \<longrightarrow> h4 p = h p"
    using i by (auto simp: h4_def h3_def h2_def h1_def)
  ultimately show ?thesis by blast
qed

lemma list_prepend_chain:
  assumes c: "chain h xs ds" and i: "i < length xs" and nd: "h a = Some nd" and a: "a \<notin> set xs"
  shows "\<exists>h'. list_prepend (Some (xs ! i)) a h = Some (Some a, h') \<and>
           chain h' (insert_at i a xs) (insert_at i (nd_data nd) ds) \<and>
           (\<forall>p. p \<noteq> a \<and> p \<notin> set xs \<longrightarrow> h' p = h p)"
proof -
  have ne: "\<And>j. j < length xs \<Longrightarrow> xs ! j \<noteq> a" using a by (metis nth_mem)
  note hx = chainD [OF c]
  note inj = chain_nth_eq [OF c]
  have len: "length ds = length xs" using c by (simp add: chain_def)
  define pv where "pv = (if i = 0 then None else Some (xs ! (i - 1)))"
  define h1 where "h1 = h(a \<mapsto> nd\<lparr>nd_prev := pv\<rparr>)"
  define h2 where "h2 = (if i = 0 then h1
      else h1(xs ! (i - 1) \<mapsto> (node_at xs ds (i - 1))\<lparr>nd_next := Some a\<rparr>))"
  define h3 where "h3 = h2(xs ! i \<mapsto> (node_at xs ds i)\<lparr>nd_prev := Some a\<rparr>)"
  define h4 where "h4 = h3(a \<mapsto> nd\<lparr>nd_prev := pv, nd_next := Some (xs ! i)\<rparr>)"
  have ne': "a \<noteq> xs ! j" if "j < length xs" for j using ne [OF that] by simp
  have "list_prepend (Some (xs ! i)) a h = Some (Some a, h4)"
  proof (cases "i = 0")
    case True
    then show ?thesis
      using i nd ne [of i] ne' [of i]
      by (simp add: list_prepend_def set_next_def set_prev_def hx h1_def h2_def h3_def h4_def
          node_at_def pv_def fun_upd_twist)
  next
    case False
    then obtain k where k: "i = Suc k" by (cases i) auto
    then show ?thesis
      using i nd ne [of i] ne' [of i] ne [of k] ne' [of k] inj [of i k] inj [of k i]
      by (auto simp: list_prepend_def set_next_def set_prev_def hx h1_def h2_def h3_def h4_def
          node_at_def pv_def fun_eq_iff)
  qed
  moreover have "chain h4 (insert_at i a xs) (insert_at i (nd_data nd) ds)"
    unfolding chain_def
  proof (intro conjI allI impI)
    show "distinct (insert_at i a xs)"
      using chain_distinct [OF c] a by (rule distinct_insert_at)
    show "length (insert_at i (nd_data nd) ds) = length (insert_at i a xs)"
      by (simp add: len)
    fix j assume "j < length (insert_at i a xs)"
    then have j: "j \<le> length xs" by simp
    consider "Suc j < i" | "Suc j = i" | "j = i" | "j = Suc i" | "Suc i < j" by linarith
    then show "h4 (insert_at i a xs ! j) =
        Some (node_at (insert_at i a xs) (insert_at i (nd_data nd) ds) j)"
      using i j ne
      by cases
        (auto simp: nth_insert_at len node_at_def at_def h4_def h3_def h2_def h1_def pv_def hx inj)
  qed
  moreover have "\<forall>p. p \<noteq> a \<and> p \<notin> set xs \<longrightarrow> h4 p = h p"
    using i by (auto simp: h4_def h3_def h2_def h1_def)
  ultimately show ?thesis by blast
qed

lemma list_unlink_chain:
  assumes c: "chain h xs ds" and i: "i < length xs"
  shows "\<exists>h'. list_unlink (xs ! i) h = Some h' \<and>
           chain h' (delete_at i xs) (delete_at i ds) \<and> h' (xs ! i) = h (xs ! i) \<and>
           (\<forall>p. p \<notin> set xs \<longrightarrow> h' p = h p)"
proof -
  note hx = chainD [OF c]
  note inj = chain_nth_eq [OF c]
  have len: "length ds = length xs" using c by (simp add: chain_def)
  define h1 where "h1 = (if i = 0 then h
      else h(xs ! (i - 1) \<mapsto> (node_at xs ds (i - 1))\<lparr>nd_next := at xs (Suc i)\<rparr>))"
  define h2 where "h2 = (if Suc i < length xs
      then h1(xs ! Suc i \<mapsto> (node_at xs ds (Suc i))
               \<lparr>nd_prev := (if i = 0 then None else Some (xs ! (i - 1)))\<rparr>) else h1)"
  have "list_unlink (xs ! i) h = Some h2"
    using i inj
    by (auto simp: list_unlink_def set_next_def set_prev_def hx h1_def h2_def node_at_def at_def)
  moreover have "chain h2 (delete_at i xs) (delete_at i ds)"
    unfolding chain_def
  proof (intro conjI allI impI)
    show "distinct (delete_at i xs)" using chain_distinct [OF c] by (rule distinct_delete_at)
    show "length (delete_at i ds) = length (delete_at i xs)" using i by (simp add: len)
    fix j assume "j < length (delete_at i xs)"
    then have j: "j < length xs - 1" using i by simp
    consider "Suc j < i" | "Suc j = i" | "j = i" | "i < j" by linarith
    then show "h2 (delete_at i xs ! j) = Some (node_at (delete_at i xs) (delete_at i ds) j)"
      using i j
      by cases (auto simp: nth_delete_at len node_at_def at_def h2_def h1_def hx inj)
  qed
  moreover have "h2 (xs ! i) = h (xs ! i)" using i by (auto simp: h2_def h1_def inj)
  moreover have "\<forall>p. p \<notin> set xs \<longrightarrow> h2 p = h p"
    using i by (auto simp: h2_def h1_def)
  ultimately show ?thesis by blast
qed


section \<open>Traversal\<close>

lemma list_tail_chain:
  assumes c: "chain h xs ds"
  shows "i < length xs \<Longrightarrow> list_tail (xs ! i) h = Some (last xs)"
proof (induction "length xs - i" arbitrary: i rule: less_induct)
  case less
  show ?case
  proof (cases "Suc i < length xs")
    case True
    then have "list_tail (xs ! Suc i) h = Some (last xs)"
      using less.hyps [of "Suc i"] by simp
    then show ?thesis
      using True less.prems by (subst list_tail.simps) (simp add: chainD [OF c] node_at_def)
  next
    case False
    with less.prems have "i = length xs - 1" by simp
    with less.prems have "last xs = xs ! i" by (metis last_conv_nth list.size(3) not_less_zero)
    then show ?thesis
      using False less.prems by (subst list_tail.simps) (simp add: chainD [OF c] node_at_def)
  qed
qed

lemma list_head_chain:
  assumes c: "chain h xs ds"
  shows "i < length xs \<Longrightarrow> list_head (xs ! i) h = Some (hd xs)"
proof (induction i)
  case 0
  then show ?case
    by (subst list_head.simps) (simp add: chainD [OF c] node_at_def hd_conv_nth)
next
  case (Suc i)
  then show ?case
    by (subst list_head.simps) (simp add: chainD [OF c] node_at_def)
qed

lemma list_size_loop_chain:
  assumes c: "chain h xs ds"
  shows "i \<le> length xs \<Longrightarrow> list_size_loop (at xs i) k h = Some (k + of_nat (length xs - i))"
proof (induction "length xs - i" arbitrary: i k rule: less_induct)
  case less
  show ?case
  proof (cases "i < length xs")
    case True
    then have "list_size_loop (at xs (Suc i)) (k + 1) h = Some (k + 1 + of_nat (length xs - Suc i))"
      using less.hyps [of "Suc i" "k + 1"] by simp
    moreover have "length xs - i = Suc (length xs - Suc i)" using True by simp
    ultimately show ?thesis
      using True by (subst list_size_loop.simps) (simp add: chainD [OF c] node_at_def)
  next
    case False
    with less.prems show ?thesis by (subst list_size_loop.simps) simp
  qed
qed

lemma list_size_chain: "chain h xs ds \<Longrightarrow> list_size (at xs 0) h = Some (of_nat (length xs))"
  by (simp add: list_size_def list_size_loop_chain)

text \<open>
  Freeing a list from its head removes exactly its nodes: each successor is read from the
  node it was stored in before that node is freed.
\<close>

lemma list_destroy_loop_chain:
  assumes "\<forall>j. i \<le> j \<and> j < length xs \<longrightarrow> h (xs ! j) = Some (node_at xs ds j)"
    and "distinct xs" and "i < length xs"
  shows "list_destroy_loop (Some (xs ! i)) (at xs (Suc i)) h =
           Some (\<lambda>p. if p \<in> set (drop i xs) then None else h p)"
  using assms
proof (induction "length xs - i" arbitrary: i h rule: less_induct)
  case less
  define h1 where "h1 = h(xs ! i := None)"
  have hi: "h (xs ! i) = Some (node_at xs ds i)" using less.prems by simp
  have d: "drop i xs = xs ! i # drop (Suc i) xs"
    using less.prems(3) by (simp add: Cons_nth_drop_Suc)
  show ?case
  proof (cases "Suc i < length xs")
    case False
    with less.prems hi d show ?thesis
      by (subst list_destroy_loop.simps) (subst list_destroy_loop.simps, auto simp: fun_eq_iff)
  next
    case True
    have old: "h1 (xs ! j) = Some (node_at xs ds j)" if "Suc i \<le> j" "j < length xs" for j
      using that less.prems by (auto simp: h1_def nth_eq_iff_index_eq)
    then have "list_destroy_loop (Some (xs ! Suc i)) (at xs (Suc (Suc i))) h1 =
        Some (\<lambda>p. if p \<in> set (drop (Suc i) xs) then None else h1 p)"
      using less.hyps [of "Suc i" h1] less.prems True by simp
    then show ?thesis
      using True hi d old [of "Suc i"]
      by (subst list_destroy_loop.simps) (auto simp: h1_def node_at_def fun_eq_iff Let_def)
  qed
qed

lemma list_destroy_chain:
  assumes "chain h xs ds"
  shows "list_destroy (at xs 0) h = Some (\<lambda>p. if p \<in> set xs then None else h p)"
proof (cases "xs = []")
  case True
  then show ?thesis by (simp add: list_destroy_def list_destroy_loop.simps)
next
  case False
  then show ?thesis
    using list_destroy_loop_chain [of 0 xs h ds] assms
    by (auto simp: list_destroy_def chain_def node_at_def)
qed

lemma list_destroy_node_chain:
  assumes "chain h xs ds" "i < length xs"
  shows "\<exists>h'. list_destroy_node (xs ! i) h = Some h' \<and>
           chain h' (delete_at i xs) (delete_at i ds) \<and> h' (xs ! i) = None"
proof -
  from list_unlink_chain [OF assms] obtain h1 where
    h1: "list_unlink (xs ! i) h = Some h1" and c1: "chain h1 (delete_at i xs) (delete_at i ds)"
    by blast
  have notin: "xs ! i \<notin> set (delete_at i xs)"
    using assms chain_distinct [OF assms(1)]
    by (metis delete_at_def distinct_append id_take_nth_drop distinct.simps(2) Un_iff
        disjoint_insert(2) list.simps(15) set_append)
  have "chain (h1(xs ! i := None)) (delete_at i xs) (delete_at i ds)"
    using c1 notin by (auto simp: chain_def) (metis nth_mem)
  with h1 show ?thesis by (auto simp: list_destroy_node_def)
qed

end
