(* ===== verification/HashMap.thy ===== *)
theory HashMap
  imports Prelude
begin

text \<open>
  The open-addressing hash table of \<open>src/util/hashmap.c\<close>: CRC-32 of the key, an integer
  mix, linear probing over at most eight slots, doubling of the table when a chain is full or
  the table is half full. Keys are C strings; \<open>unsigned long\<close> is 64 bits wide. A stored
  value is a pointer, \<^term>\<open>None\<close> being \<open>NULL\<close>. \<open>calloc\<close> is a parameter that says for
  which element counts the allocation succeeds.

  The lemmas show that, as long as no key is removed, the table is a finite map from keys to
  values (the interface \<open>symbol_table\<close> at the end), that rehashing keeps the map, and that an
  insertion returns when the allocator cannot grow the table for ever.
\<close>

section \<open>The hash function\<close>

definition crc32_tab :: "u64 list" where
  "crc32_tab = [
     0x00000000, 0x77073096, 0xee0e612c, 0x990951ba, 0x076dc419, 0x706af48f,
     0xe963a535, 0x9e6495a3, 0x0edb8832, 0x79dcb8a4, 0xe0d5e91e, 0x97d2d988,
     0x09b64c2b, 0x7eb17cbd, 0xe7b82d07, 0x90bf1d91, 0x1db71064, 0x6ab020f2,
     0xf3b97148, 0x84be41de, 0x1adad47d, 0x6ddde4eb, 0xf4d4b551, 0x83d385c7,
     0x136c9856, 0x646ba8c0, 0xfd62f97a, 0x8a65c9ec, 0x14015c4f, 0x63066cd9,
     0xfa0f3d63, 0x8d080df5, 0x3b6e20c8, 0x4c69105e, 0xd56041e4, 0xa2677172,
     0x3c03e4d1, 0x4b04d447, 0xd20d85fd, 0xa50ab56b, 0x35b5a8fa, 0x42b2986c,
     0xdbbbc9d6, 0xacbcf940, 0x32d86ce3, 0x45df5c75, 0xdcd60dcf, 0xabd13d59,
     0x26d930ac, 0x51de003a, 0xc8d75180, 0xbfd06116, 0x21b4f4b5, 0x56b3c423,
     0xcfba9599, 0xb8bda50f, 0x2802b89e, 0x5f058808, 0xc60cd9b2, 0xb10be924,
     0x2f6f7c87, 0x58684c11, 0xc1611dab, 0xb6662d3d, 0x76dc4190, 0x01db7106,
     0x98d220bc, 0xefd5102a, 0x71b18589, 0x06b6b51f, 0x9fbfe4a5, 0xe8b8d433,
     0x7807c9a2, 0x0f00f934, 0x9609a88e, 0xe10e9818, 0x7f6a0dbb, 0x086d3d2d,
     0x91646c97, 0xe6635c01, 0x6b6b51f4, 0x1c6c6162, 0x856530d8, 0xf262004e,
     0x6c0695ed, 0x1b01a57b, 0x8208f4c1, 0xf50fc457, 0x65b0d9c6, 0x12b7e950,
     0x8bbeb8ea, 0xfcb9887c, 0x62dd1ddf, 0x15da2d49, 0x8cd37cf3, 0xfbd44c65,
     0x4db26158, 0x3ab551ce, 0xa3bc0074, 0xd4bb30e2, 0x4adfa541, 0x3dd895d7,
     0xa4d1c46d, 0xd3d6f4fb, 0x4369e96a, 0x346ed9fc, 0xad678846, 0xda60b8d0,
     0x44042d73, 0x33031de5, 0xaa0a4c5f, 0xdd0d7cc9, 0x5005713c, 0x270241aa,
     0xbe0b1010, 0xc90c2086, 0x5768b525, 0x206f85b3, 0xb966d409, 0xce61e49f,
     0x5edef90e, 0x29d9c998, 0xb0d09822, 0xc7d7a8b4, 0x59b33d17, 0x2eb40d81,
     0xb7bd5c3b, 0xc0ba6cad, 0xedb88320, 0x9abfb3b6, 0x03b6e20c, 0x74b1d29a,
     0xead54739, 0x9dd277af, 0x04db2615, 0x73dc1683, 0xe3630b12, 0x94643b84,
     0x0d6d6a3e, 0x7a6a5aa8, 0xe40ecf0b, 0x9309ff9d, 0x0a00ae27, 0x7d079eb1,
     0xf00f9344, 0x8708a3d2, 0x1e01f268, 0x6906c2fe, 0xf762575d, 0x806567cb,
     0x196c3671, 0x6e6b06e7, 0xfed41b76, 0x89d32be0, 0x10da7a5a, 0x67dd4acc,
     0xf9b9df6f, 0x8ebeeff9, 0x17b7be43, 0x60b08ed5, 0xd6d6a3e8, 0xa1d1937e,
     0x38d8c2c4, 0x4fdff252, 0xd1bb67f1, 0xa6bc5767, 0x3fb506dd, 0x48b2364b,
     0xd80d2bda, 0xaf0a1b4c, 0x36034af6, 0x41047a60, 0xdf60efc3, 0xa867df55,
     0x316e8eef, 0x4669be79, 0xcb61b38c, 0xbc66831a, 0x256fd2a0, 0x5268e236,
     0xcc0c7795, 0xbb0b4703, 0x220216b9, 0x5505262f, 0xc5ba3bbe, 0xb2bd0b28,
     0x2bb45a92, 0x5cb36a04, 0xc2d7ffa7, 0xb5d0cf31, 0x2cd99e8b, 0x5bdeae1d,
     0x9b64c2b0, 0xec63f226, 0x756aa39c, 0x026d930a, 0x9c0906a9, 0xeb0e363f,
     0x72076785, 0x05005713, 0x95bf4a82, 0xe2b87a14, 0x7bb12bae, 0x0cb61b38,
     0x92d28e9b, 0xe5d5be0d, 0x7cdcefb7, 0x0bdbdf21, 0x86d3d2d4, 0xf1d4e242,
     0x68ddb3f8, 0x1fda836e, 0x81be16cd, 0xf6b9265b, 0x6fb077e1, 0x18b74777,
     0x88085ae6, 0xff0f6a70, 0x66063bca, 0x11010b5c, 0x8f659eff, 0xf862ae69,
     0x616bffd3, 0x166ccf45, 0xa00ae278, 0xd70dd2ee, 0x4e048354, 0x3903b3c2,
     0xa7672661, 0xd06016f7, 0x4969474d, 0x3e6e77db, 0xaed16a4a, 0xd9d65adc,
     0x40df0b66, 0x37d83bf0, 0xa9bcae53, 0xdebb9ec5, 0x47b2cf7f, 0x30b5ffe9,
     0xbdbdf21c, 0xcabac28a, 0x53b39330, 0x24b4a3a6, 0xbad03605, 0xcdd70693,
     0x54de5729, 0x23d967bf, 0xb3667a2e, 0xc4614ab8, 0x5d681b02, 0x2a6f2b94,
     0xb40bbe37, 0xc30c8ea1, 0x5a05df1b, 0x2d02ef8d]"

definition char_byte :: "char \<Rightarrow> u64" where
  "char_byte c = of_char c"

fun crc32_loop :: "string \<Rightarrow> u64 \<Rightarrow> u64" where
  "crc32_loop [] v = v"
| "crc32_loop (c # cs) v =
     crc32_loop cs ((crc32_tab ! unat ((v XOR char_byte c) AND 0xff)) XOR drop_bit 8 v)"

definition crc32 :: "string \<Rightarrow> u64" where
  "crc32 s = crc32_loop s 0"

definition jenkins_mix :: "u64 \<Rightarrow> u64" where
  "jenkins_mix key0 =
     (let key1 = key0 + push_bit 12 key0;
          key2 = key1 XOR drop_bit 22 key1;
          key3 = key2 + push_bit 4 key2;
          key4 = key3 XOR drop_bit 9 key3;
          key5 = key4 + push_bit 10 key4;
          key6 = key5 XOR drop_bit 2 key5;
          key7 = key6 + push_bit 7 key6;
          key8 = key7 XOR drop_bit 12 key7
      in drop_bit 3 key8 * 2654435761)"

definition hash_of :: "nat \<Rightarrow> string \<Rightarrow> nat" where
  "hash_of n k = nat (uint (jenkins_mix (crc32 k)) mod int n)"

section \<open>The table and its operations\<close>

record 'v hashmap_element =
  key :: "string option"
  in_use :: bool
  edata :: "'v option"

record 'v hashmap_map =
  table_size :: nat
  hsize :: int
  hdata :: "'v hashmap_element list"

datatype map_status = MAP_OK | MAP_MISSING | MAP_FULL | MAP_OMEM

definition INITIAL_SIZE :: nat where "INITIAL_SIZE = 256"

definition MAX_CHAIN_LENGTH :: nat where "MAX_CHAIN_LENGTH = 8"

definition blank_element :: "'v hashmap_element" where
  "blank_element = \<lparr>key = None, in_use = False, edata = None\<rparr>"

definition hmap_create :: "(nat \<Rightarrow> bool) \<Rightarrow> 'v hashmap_map option" where
  "hmap_create calloc =
     (if \<not> calloc INITIAL_SIZE then None
      else Some \<lparr>table_size = INITIAL_SIZE, hsize = 0,
                 hdata = replicate INITIAL_SIZE blank_element\<rparr>)"

definition hashmap_hash_int :: "'v hashmap_map \<Rightarrow> string \<Rightarrow> nat" where
  "hashmap_hash_int m k = hash_of (table_size m) k"

fun probe_free :: "'v hashmap_element list \<Rightarrow> nat \<Rightarrow> string \<Rightarrow> nat \<Rightarrow> nat \<Rightarrow> nat option" where
  "probe_free es n k 0 cur = None"
| "probe_free es n k (Suc i) cur =
     (if \<not> in_use (es ! cur) then Some cur
      else if in_use (es ! cur) \<and> key (es ! cur) = Some k then Some cur
      else probe_free es n k i ((cur + 1) mod n))"

text \<open>\<^term>\<open>None\<close> is \<open>MAP_FULL\<close>.\<close>

definition hashmap_hash :: "'v hashmap_map \<Rightarrow> string \<Rightarrow> nat option" where
  "hashmap_hash m k =
     (if hsize m \<ge> int (table_size m div 2) then None
      else probe_free (hdata m) (table_size m) k MAX_CHAIN_LENGTH (hashmap_hash_int m k))"

definition put_at :: "nat \<Rightarrow> string \<Rightarrow> 'v option \<Rightarrow> 'v hashmap_map \<Rightarrow> 'v hashmap_map" where
  "put_at index k v m =
     m\<lparr>hdata := (hdata m)[index := \<lparr>key = Some k, in_use = True, edata = v\<rparr>],
       hsize := hsize m + 1\<rparr>"

text \<open>
  \<open>hmap_put\<close> and \<open>hashmap_rehash\<close> call each other. \<open>hashmap_rehash\<close> is written over the
  insertion it uses for the old elements; the fuel of \<open>hmap_put_f\<close> bounds how deep these
  calls nest, \<^term>\<open>None\<close> meaning that it ran out.
\<close>

type_synonym 'v put_fun = "'v hashmap_map \<Rightarrow> string \<Rightarrow> 'v option \<Rightarrow> (map_status \<times> 'v hashmap_map) option"

fun reinsert :: "'v put_fun \<Rightarrow> 'v hashmap_element list \<Rightarrow> 'v hashmap_map
    \<Rightarrow> (map_status \<times> 'v hashmap_map) option" where
  "reinsert put [] m = Some (MAP_OK, m)"
| "reinsert put (e # es) m =
     (if \<not> in_use e then reinsert put es m
      else (case put m (the (key e)) (edata e) of
              None \<Rightarrow> None
            | Some (st, m') \<Rightarrow> if st \<noteq> MAP_OK then Some (st, m') else reinsert put es m'))"

definition hashmap_rehash :: "(nat \<Rightarrow> bool) \<Rightarrow> 'v put_fun \<Rightarrow> 'v hashmap_map
    \<Rightarrow> (map_status \<times> 'v hashmap_map) option" where
  "hashmap_rehash calloc put m =
     (if \<not> calloc (2 * table_size m) then Some (MAP_OMEM, m)
      else reinsert put (hdata m)
             \<lparr>table_size = 2 * table_size m, hsize = 0,
              hdata = replicate (2 * table_size m) blank_element\<rparr>)"

fun hmap_put_f :: "nat \<Rightarrow> (nat \<Rightarrow> bool) \<Rightarrow> 'v put_fun" where
  "hmap_put_f 0 calloc m k v =
     map_option (\<lambda>index. (MAP_OK, put_at index k v m)) (hashmap_hash m k)"
| "hmap_put_f (Suc f) calloc m k v =
     (case hashmap_hash m k of
        Some index \<Rightarrow> Some (MAP_OK, put_at index k v m)
      | None \<Rightarrow>
          (case hashmap_rehash calloc (hmap_put_f f calloc) m of
             None \<Rightarrow> None
           | Some (st, m') \<Rightarrow>
               if st = MAP_OMEM then Some (MAP_OMEM, m') else hmap_put_f f calloc m' k v))"

definition hmap_put :: "(nat \<Rightarrow> bool) \<Rightarrow> 'v put_fun" where
  "hmap_put calloc m k v = hmap_put_f 32 calloc m k v"

fun probe_key :: "'v hashmap_element list \<Rightarrow> nat \<Rightarrow> string \<Rightarrow> nat \<Rightarrow> nat \<Rightarrow> nat option" where
  "probe_key es n k 0 cur = None"
| "probe_key es n k (Suc i) cur =
     (if in_use (es ! cur) \<and> key (es ! cur) = Some k then Some cur
      else probe_key es n k i ((cur + 1) mod n))"

definition hmap_get :: "'v hashmap_map \<Rightarrow> string \<Rightarrow> map_status \<times> 'v option" where
  "hmap_get m k =
     (case probe_key (hdata m) (table_size m) k MAX_CHAIN_LENGTH (hashmap_hash_int m k) of
        Some cur \<Rightarrow> (MAP_OK, edata (hdata m ! cur))
      | None \<Rightarrow> (MAP_MISSING, None))"

definition hmap_remove :: "'v hashmap_map \<Rightarrow> string \<Rightarrow> map_status \<times> 'v hashmap_map" where
  "hmap_remove m k =
     (case probe_key (hdata m) (table_size m) k MAX_CHAIN_LENGTH (hashmap_hash_int m k) of
        Some cur \<Rightarrow>
          (MAP_OK, m\<lparr>hdata := (hdata m)[cur := \<lparr>key = None, in_use = False, edata = None\<rparr>],
                     hsize := hsize m - 1\<rparr>)
      | None \<Rightarrow> (MAP_MISSING, m))"

definition hmap_size :: "'v hashmap_map \<Rightarrow> int" where
  "hmap_size m = hsize m"

text \<open>The visitor of \<open>hmap_iterate\<close> updates the state that \<open>arg0\<close> points to.\<close>

fun iterate_slots :: "('s \<Rightarrow> string \<Rightarrow> 'v option \<Rightarrow> 's) \<Rightarrow> 'v hashmap_element list \<Rightarrow> 's \<Rightarrow> 's" where
  "iterate_slots visitor [] s = s"
| "iterate_slots visitor (e # es) s =
     iterate_slots visitor es (if in_use e then visitor s (the (key e)) (edata e) else s)"

definition hmap_iterate ::
    "'v hashmap_map \<Rightarrow> 's \<Rightarrow> ('s \<Rightarrow> string \<Rightarrow> 'v option \<Rightarrow> 's) \<Rightarrow> map_status \<times> 's" where
  "hmap_iterate m arg0 visitor =
     (if hmap_size m \<le> 0 then (MAP_MISSING, arg0)
      else (MAP_OK, iterate_slots visitor (take (table_size m) (hdata m)) arg0))"


section \<open>Probing\<close>

definition slot :: "nat \<Rightarrow> string \<Rightarrow> nat \<Rightarrow> nat" where
  "slot n k j = (hash_of n k + j) mod n"

definition holds_key :: "'v hashmap_element list \<Rightarrow> nat \<Rightarrow> string \<Rightarrow> bool" where
  "holds_key es i k \<longleftrightarrow> in_use (es ! i) \<and> key (es ! i) = Some k"

lemma slot_less [simp]: "0 < n \<Longrightarrow> slot n k j < n"
  by (simp add: slot_def)

lemma hash_of_less: "0 < n \<Longrightarrow> hash_of n k < n"
  by (simp add: hash_of_def nat_less_iff)

lemma slot_0: "hash_of n k = slot n k 0"
  by (cases "n = 0") (simp_all add: slot_def hash_of_less)

lemma slot_Suc: "Suc (slot n k j) mod n = slot n k (Suc j)"
  by (simp add: slot_def mod_Suc_eq)

text \<open>Both probes stop at the first slot of the chain that satisfies a predicate.\<close>

fun first_from :: "(nat \<Rightarrow> bool) \<Rightarrow> nat \<Rightarrow> nat \<Rightarrow> nat option" where
  "first_from P 0 j = None"
| "first_from P (Suc r) j = (if P j then Some j else first_from P r (Suc j))"

lemma first_from_Some:
  "first_from P r j = Some i \<longleftrightarrow> j \<le> i \<and> i < j + r \<and> P i \<and> (\<forall>l. j \<le> l \<and> l < i \<longrightarrow> \<not> P l)"
proof (induction r arbitrary: j)
  case 0
  then show ?case by auto
next
  case (Suc r)
  have "(j \<le> i \<and> i < j + Suc r \<and> P i \<and> (\<forall>l. j \<le> l \<and> l < i \<longrightarrow> \<not> P l)) \<longleftrightarrow>
      (Suc j \<le> i \<and> i < Suc j + r \<and> P i \<and> (\<forall>l. Suc j \<le> l \<and> l < i \<longrightarrow> \<not> P l))"
    if "\<not> P j"
  proof -
    have "j \<le> i \<and> P i \<longleftrightarrow> Suc j \<le> i \<and> P i" using that by (metis Suc_leD Suc_leI le_neq_implies_less)
    moreover have "(\<forall>l. j \<le> l \<and> l < i \<longrightarrow> \<not> P l) \<longleftrightarrow> (\<forall>l. Suc j \<le> l \<and> l < i \<longrightarrow> \<not> P l)"
      using that by (metis Suc_leD Suc_leI le_neq_implies_less)
    ultimately show ?thesis by auto
  qed
  moreover have "i = j" if "P j" "j \<le> i" "\<forall>l. j \<le> l \<and> l < i \<longrightarrow> \<not> P l"
    using that by (metis le_neq_implies_less le_refl)
  ultimately show ?case
  proof (cases "P j")
    case True
    then have "(j \<le> i \<and> i < j + Suc r \<and> P i \<and> (\<forall>l. j \<le> l \<and> l < i \<longrightarrow> \<not> P l)) \<longleftrightarrow> i = j"
      using \<open>\<lbrakk>P j; j \<le> i; \<forall>l. j \<le> l \<and> l < i \<longrightarrow> \<not> P l\<rbrakk> \<Longrightarrow> i = j\<close> by fastforce
    with True show ?thesis by auto
  next
    case False
    with Suc.IH [of "Suc j"] show ?thesis
      using \<open>\<not> P j \<Longrightarrow> _\<close> by simp
  qed
qed

lemma probe_free_first:
  "probe_free es n k r (slot n k j) =
     map_option (slot n k) (first_from (\<lambda>d. \<not> in_use (es ! slot n k d) \<or> holds_key es (slot n k d) k) r j)"
  by (induction r arbitrary: j) (auto simp: holds_key_def slot_Suc)

lemma probe_key_first:
  "probe_key es n k r (slot n k j) =
     map_option (slot n k) (first_from (\<lambda>d. holds_key es (slot n k d) k) r j)"
  by (induction r arbitrary: j) (auto simp: holds_key_def slot_Suc)

section \<open>The invariant and the abstract map\<close>

text \<open>
  An element with key \<open>k\<close> sits on the probe chain of \<open>k\<close>, and every slot before it on that
  chain is in use by another key. So the first slot that stops the probe of an insertion is
  the element of the key, when there is one.
\<close>

definition placed :: "'v hashmap_element list \<Rightarrow> nat \<Rightarrow> string \<Rightarrow> nat \<Rightarrow> bool" where
  "placed es n k j \<longleftrightarrow> j < MAX_CHAIN_LENGTH \<and>
     (\<forall>j' < j. in_use (es ! slot n k j') \<and> \<not> holds_key es (slot n k j') k)"

definition hm_inv :: "'v hashmap_map \<Rightarrow> bool" where
  "hm_inv m \<longleftrightarrow> 0 < table_size m \<and> length (hdata m) = table_size m \<and>
     int (length (filter in_use (hdata m))) \<le> hsize m \<and>
     (\<forall>i < table_size m. in_use (hdata m ! i) \<longrightarrow>
        (\<exists>k j. key (hdata m ! i) = Some k \<and> i = slot (table_size m) k j \<and>
               placed (hdata m) (table_size m) k j))"

definition hm_find :: "'v hashmap_map \<Rightarrow> string \<Rightarrow> nat option" where
  "hm_find m k = probe_key (hdata m) (table_size m) k MAX_CHAIN_LENGTH (hashmap_hash_int m k)"

definition hm_abs :: "'v hashmap_map \<Rightarrow> string \<Rightarrow> 'v option option" where
  "hm_abs m k = map_option (\<lambda>i. edata (hdata m ! i)) (hm_find m k)"

lemma hm_find_first:
  "hm_find m k = map_option (slot (table_size m) k)
     (first_from (\<lambda>d. holds_key (hdata m) (slot (table_size m) k d) k) MAX_CHAIN_LENGTH 0)"
  unfolding hm_find_def hashmap_hash_int_def slot_0 by (rule probe_key_first)

lemma hm_find_SomeD:
  assumes "hm_find m k = Some i"
  shows "holds_key (hdata m) i k" and "0 < table_size m \<Longrightarrow> i < table_size m"
  using assms by (auto simp: hm_find_first first_from_Some)

text \<open>Under the invariant a key is found exactly when some slot holds it, and in that slot.\<close>

lemma hm_find_iff:
  assumes inv: "hm_inv m"
  shows "hm_find m k = Some i \<longleftrightarrow> i < table_size m \<and> holds_key (hdata m) i k"
proof
  assume "hm_find m k = Some i"
  then show "i < table_size m \<and> holds_key (hdata m) i k"
    using hm_find_SomeD [of m k i] inv by (auto simp: hm_inv_def)
next
  assume i: "i < table_size m \<and> holds_key (hdata m) i k"
  then obtain j where j: "i = slot (table_size m) k j" "placed (hdata m) (table_size m) k j"
    using inv by (auto simp: hm_inv_def holds_key_def)
  then have "first_from (\<lambda>d. holds_key (hdata m) (slot (table_size m) k d) k) MAX_CHAIN_LENGTH 0 = Some j"
    using i by (auto simp: first_from_Some placed_def)
  then show "hm_find m k = Some i" by (simp add: hm_find_first j)
qed

lemma hm_abs_Some:
  assumes "hm_inv m"
  shows "hm_abs m k = Some v \<longleftrightarrow>
    (\<exists>i < table_size m. holds_key (hdata m) i k \<and> edata (hdata m ! i) = v)"
  by (auto simp: hm_abs_def hm_find_iff [OF assms])

lemma hm_abs_None:
  assumes "hm_inv m"
  shows "hm_abs m k = None \<longleftrightarrow> (\<forall>i < table_size m. \<not> holds_key (hdata m) i k)"
  using hm_find_iff [OF assms, of k] by (cases "hm_find m k") (auto simp: hm_abs_def)

lemma hmap_get_abs:
  "hmap_get m k = (case hm_abs m k of Some v \<Rightarrow> (MAP_OK, v) | None \<Rightarrow> (MAP_MISSING, None))"
  by (auto simp: hmap_get_def hm_abs_def hm_find_def split: option.split)

lemma hm_inv_blank: "0 < n \<Longrightarrow> hm_inv \<lparr>table_size = n, hsize = 0, hdata = replicate n blank_element\<rparr>"
  by (simp add: hm_inv_def blank_element_def)

lemma hm_abs_blank:
  "0 < n \<Longrightarrow> hm_abs \<lparr>table_size = n, hsize = 0, hdata = replicate n blank_element\<rparr> = Map.empty"
  using hm_abs_None [OF hm_inv_blank] by (auto simp: fun_eq_iff holds_key_def blank_element_def)

section \<open>Storing in the slot found by the probe\<close>

lemma hashmap_hash_Some:
  assumes "hashmap_hash m k = Some i"
  shows "\<exists>j. i = slot (table_size m) k j \<and> placed (hdata m) (table_size m) k j \<and>
             (in_use (hdata m ! i) \<longrightarrow> holds_key (hdata m) i k)"
  using assms
  unfolding hashmap_hash_def hashmap_hash_int_def slot_0 probe_free_first
  by (auto simp: first_from_Some placed_def split: if_splits)

lemma holds_key_put_at:
  "i < length (hdata m) \<Longrightarrow>
   holds_key (hdata (put_at idx k v m)) i k' \<longleftrightarrow> (if i = idx then k' = k else holds_key (hdata m) i k')"
  by (auto simp: holds_key_def put_at_def nth_list_update)

lemma filter_in_use_update:
  "length (filter in_use (es[i := e])) \<le> Suc (length (filter in_use es))"
  by (induction es arbitrary: i) (auto split: nat.splits intro: le_SucI)

text \<open>
  Putting into the slot that was found: the slot was free or held the same key, so the other
  elements keep their places, and no other slot holds the key.
\<close>

lemma put_at_keeps_places:
  assumes n: "0 < n" "length (hdata m) = n" "table_size m = n" and idx: "idx < n"
    and old: "in_use (hdata m ! idx) \<longrightarrow> holds_key (hdata m) idx k" and p: "placed (hdata m) n k' j'"
  shows "placed (hdata (put_at idx k v m)) n k' j'"
  unfolding placed_def
proof (intro conjI allI impI)
  show "j' < MAX_CHAIN_LENGTH" using p by (simp add: placed_def)
  fix l assume "l < j'"
  then have l: "in_use (hdata m ! slot n k' l)" "\<not> holds_key (hdata m) (slot n k' l) k'"
    using p by (auto simp: placed_def)
  have s: "slot n k' l < n" using n(1) by simp
  show "in_use (hdata (put_at idx k v m) ! slot n k' l)"
    using l(1) n s by (cases "slot n k' l = idx") (auto simp: put_at_def)
  show "\<not> holds_key (hdata (put_at idx k v m)) (slot n k' l) k'"
    using l old n s by (auto simp: holds_key_put_at)
qed

lemma key_only_there:
  assumes inv: "hm_inv m" and j: "idx = slot (table_size m) k j" "placed (hdata m) (table_size m) k j"
    and old: "in_use (hdata m ! idx) \<longrightarrow> holds_key (hdata m) idx k" and i: "i < table_size m" "i \<noteq> idx"
  shows "\<not> holds_key (hdata m) i k"
proof
  assume hi: "holds_key (hdata m) i k"
  then obtain j' where j': "i = slot (table_size m) k j'" "placed (hdata m) (table_size m) k j'"
    using inv i by (auto simp: hm_inv_def holds_key_def)
  consider "j' < j" | "j' = j" | "j < j'" by linarith
  then show False using i hi j j' old by cases (auto simp: placed_def)
qed

lemma put_at_inv:
  assumes inv: "hm_inv m" and j: "idx = slot (table_size m) k j" "placed (hdata m) (table_size m) k j"
    and old: "in_use (hdata m ! idx) \<longrightarrow> holds_key (hdata m) idx k"
  shows "hm_inv (put_at idx k v m)"
  unfolding hm_inv_def
proof (intro conjI allI impI)
  let ?m = "put_at idx k v m" and ?n = "table_size m" and ?es = "hdata m"
  have n: "0 < ?n" "length ?es = ?n" using inv by (auto simp: hm_inv_def)
  then have idx: "idx < ?n" using j by simp
  show "0 < table_size ?m" "length (hdata ?m) = table_size ?m" using n by (simp_all add: put_at_def)
  show "int (length (filter in_use (hdata ?m))) \<le> hsize ?m"
    using inv filter_in_use_update [of ?es idx "\<lparr>key = Some k, in_use = True, edata = v\<rparr>"]
    by (auto simp: hm_inv_def put_at_def)
  fix i assume "i < table_size ?m" "in_use (hdata ?m ! i)"
  then have i: "i < ?n" "i = idx \<or> in_use (?es ! i)" using n by (cases "i = idx"; auto simp: put_at_def)+
  note keep = put_at_keeps_places [OF n refl idx old]
  show "\<exists>k' j'. key (hdata ?m ! i) = Some k' \<and> i = slot (table_size ?m) k' j' \<and> placed (hdata ?m) (table_size ?m) k' j'"
  proof (cases "i = idx")
    case True
    then show ?thesis using j keep n idx by (auto simp: put_at_def)
  next
    case False
    with i obtain k' j' where "key (?es ! i) = Some k'" "i = slot ?n k' j'" "placed ?es ?n k' j'"
      using inv by (auto simp: hm_inv_def)
    then show ?thesis using False keep by (auto simp: put_at_def)
  qed
qed

lemma put_at_correct:
  assumes inv: "hm_inv m" and h: "hashmap_hash m k = Some idx"
  shows "hm_inv (put_at idx k v m)" and "hm_abs (put_at idx k v m) = (hm_abs m)(k \<mapsto> v)"
proof -
  let ?m = "put_at idx k v m" and ?n = "table_size m" and ?es = "hdata m"
  have n: "0 < ?n" "length ?es = ?n" using inv by (auto simp: hm_inv_def)
  obtain j where j: "idx = slot ?n k j" "placed ?es ?n k j"
    and old: "in_use (?es ! idx) \<longrightarrow> holds_key ?es idx k"
    using hashmap_hash_Some [OF h] by blast
  have idx: "idx < ?n" using n j by simp
  have [simp]: "table_size ?m = ?n" "length (hdata ?m) = ?n" by (simp_all add: put_at_def n)
  have hk: "holds_key (hdata ?m) i k' \<longleftrightarrow> (if i = idx then k' = k else holds_key ?es i k')"
    if "i < ?n" for i k' using that n by (simp add: holds_key_put_at)
  have only: "\<not> holds_key ?es i k" if "i < ?n" "i \<noteq> idx" for i
    by (rule key_only_there [OF inv j old that])
  show inv': "hm_inv ?m" by (rule put_at_inv [OF inv j old])
  have ed: "edata (hdata ?m ! i) = (if i = idx then v else edata (?es ! i))" if "i < ?n" for i
    using that n by (auto simp: put_at_def)
  have new: "hm_abs ?m k' = Some w \<longleftrightarrow> (\<exists>i < ?n. (if i = idx then k' = k \<and> v = w
      else holds_key ?es i k' \<and> edata (?es ! i) = w))" for k' w
    unfolding hm_abs_Some [OF inv'] by (rule ex_cong1) (use hk ed in auto)
  have "hm_abs ?m k' = Some w \<longleftrightarrow> ((hm_abs m)(k \<mapsto> v)) k' = Some w" for k' w
  proof (cases "k' = k")
    case True
    then show ?thesis unfolding new using idx only by auto
  next
    case False
    have "\<not> holds_key ?es idx k'" using old False by (auto simp: holds_key_def)
    then show ?thesis unfolding new using False by (auto simp: hm_abs_Some [OF inv])
  qed
  then show "hm_abs ?m = (hm_abs m)(k \<mapsto> v)"
    by (intro ext) (metis not_Some_eq)
qed


section \<open>Rehashing keeps the map\<close>

text \<open>What an insertion promises when it reports success.\<close>

definition put_ok :: "'v put_fun \<Rightarrow> bool" where
  "put_ok put \<longleftrightarrow> (\<forall>m k v m'. hm_inv m \<longrightarrow> put m k v = Some (MAP_OK, m') \<longrightarrow>
     hm_inv m' \<and> hm_abs m' = (hm_abs m)(k \<mapsto> v))"

fun upd_all :: "'v hashmap_element list \<Rightarrow> (string \<Rightarrow> 'v option option) \<Rightarrow> string \<Rightarrow> 'v option option" where
  "upd_all [] f = f"
| "upd_all (e # es) f = upd_all es (if in_use e then f(the (key e) \<mapsto> edata e) else f)"

lemma reinsert_correct:
  assumes "put_ok put"
  shows "hm_inv m \<Longrightarrow> reinsert put es m = Some (MAP_OK, m') \<Longrightarrow>
    hm_inv m' \<and> hm_abs m' = upd_all es (hm_abs m)"
proof (induction es arbitrary: m)
  case Nil
  then show ?case by simp
next
  case (Cons e es)
  show ?case
  proof (cases "in_use e")
    case False
    with Cons show ?thesis by simp
  next
    case True
    with Cons.prems obtain m1 where m1: "put m (the (key e)) (edata e) = Some (MAP_OK, m1)"
      and r: "reinsert put es m1 = Some (MAP_OK, m')"
      by (auto split: option.splits if_splits)
    from m1 assms Cons.prems(1) have "hm_inv m1" "hm_abs m1 = (hm_abs m)(the (key e) \<mapsto> edata e)"
      by (auto simp: put_ok_def)
    with Cons.IH [OF _ r] True show ?thesis by (simp add: fun_upd_def)
  qed
qed

lemma upd_all_lookup:
  assumes "\<forall>e \<in> set es. in_use e \<longrightarrow> (\<exists>k. key e = Some k \<and> A k = Some (edata e))"
    and "\<forall>k v. f k = Some v \<longrightarrow> A k = Some v"
  shows "upd_all es f k = (if \<exists>e \<in> set es. in_use e \<and> key e = Some k then A k else f k)"
  using assms
proof (induction es arbitrary: f)
  case Nil
  then show ?case by simp
next
  case (Cons e es)
  show ?case
  proof (cases "in_use e")
    case False
    with Cons show ?thesis by auto
  next
    case True
    with Cons.prems(1) obtain k' where k': "key e = Some k'" "A k' = Some (edata e)" by auto
    with Cons.prems have "upd_all es (f(k' \<mapsto> edata e)) k =
        (if \<exists>e \<in> set es. in_use e \<and> key e = Some k then A k else (f(k' \<mapsto> edata e)) k)"
      by (intro Cons.IH) auto
    with True k' show ?thesis by auto
  qed
qed

lemma upd_all_table:
  assumes inv: "hm_inv m"
  shows "upd_all (hdata m) Map.empty = hm_abs m"
proof
  fix k
  have n: "length (hdata m) = table_size m" using inv by (simp add: hm_inv_def)
  have "upd_all (hdata m) Map.empty k =
      (if \<exists>e \<in> set (hdata m). in_use e \<and> key e = Some k then hm_abs m k else None)"
  proof (rule upd_all_lookup)
    show "\<forall>e \<in> set (hdata m). in_use e \<longrightarrow> (\<exists>k. key e = Some k \<and> hm_abs m k = Some (edata e))"
      using inv n by (auto simp: in_set_conv_nth hm_abs_Some [OF inv] holds_key_def hm_inv_def) metis
  qed simp
  moreover have "hm_abs m k = None" if "\<not> (\<exists>e \<in> set (hdata m). in_use e \<and> key e = Some k)"
    using that n by (auto simp: hm_abs_None [OF inv] holds_key_def)
  ultimately show "upd_all (hdata m) Map.empty k = hm_abs m k" by auto
qed

lemma rehash_correct:
  assumes "put_ok put" and inv: "hm_inv m" and "hashmap_rehash calloc put m = Some (MAP_OK, m')"
  shows "hm_inv m' \<and> hm_abs m' = hm_abs m"
proof -
  have n: "0 < 2 * table_size m" using inv by (simp add: hm_inv_def)
  show ?thesis
    using assms(3) reinsert_correct [OF assms(1) hm_inv_blank [OF n], of "hdata m" m']
    by (simp add: hashmap_rehash_def hm_abs_blank [OF n] upd_all_table [OF inv] split: if_splits)
qed

lemma reinsert_status:
  assumes "\<And>m k v st m'. put m k v = Some (st, m') \<Longrightarrow> st = MAP_OK \<or> st = MAP_OMEM"
  shows "reinsert put es m = Some (st, m') \<Longrightarrow> st = MAP_OK \<or> st = MAP_OMEM"
proof (induction es arbitrary: m)
  case Nil
  then show ?case by auto
next
  case (Cons e es)
  then show ?case by (auto split: if_splits option.splits dest: assms)
qed

lemma hmap_put_f_status:
  "hmap_put_f f calloc m k v = Some (st, m') \<Longrightarrow> st = MAP_OK \<or> st = MAP_OMEM"
proof (induction f arbitrary: m k v st m')
  case 0
  then show ?case by auto
next
  case (Suc f)
  from Suc.prems show ?case by (auto split: option.splits if_splits dest: Suc.IH)
qed

lemma reinsert_put_f_status:
  "reinsert (hmap_put_f f calloc) es m = Some (st, m') \<Longrightarrow> st = MAP_OK \<or> st = MAP_OMEM"
  by (erule reinsert_status [rotated]) (erule hmap_put_f_status)

lemma hmap_put_f_ok: "put_ok (hmap_put_f f calloc :: 'v put_fun)"
proof (induction f)
  case 0
  then show ?case by (auto simp: put_ok_def put_at_correct)
next
  case (Suc f)
  show ?case
    unfolding put_ok_def
  proof (intro allI impI)
    fix m m' :: "'v hashmap_map" and k v
    assume inv: "hm_inv m" and r: "hmap_put_f (Suc f) calloc m k v = Some (MAP_OK, m')"
    show "hm_inv m' \<and> hm_abs m' = (hm_abs m)(k \<mapsto> v)"
    proof (cases "hashmap_hash m k")
      case (Some idx)
      with r inv show ?thesis by (auto simp: put_at_correct)
    next
      case None
      with r obtain st m1 where m1: "hashmap_rehash calloc (hmap_put_f f calloc) m = Some (st, m1)"
        and st: "st \<noteq> MAP_OMEM" and r1: "hmap_put_f f calloc m1 k v = Some (MAP_OK, m')"
        by (auto split: option.splits if_splits)
      have "st = MAP_OK"
        using m1 st by (auto simp: hashmap_rehash_def split: if_splits dest: reinsert_put_f_status)
      with rehash_correct [OF Suc.IH inv] m1 have "hm_inv m1 \<and> hm_abs m1 = hm_abs m" by simp
      with Suc.IH r1 show ?thesis by (auto simp: put_ok_def)
    qed
  qed
qed

section \<open>An insertion returns\<close>

text \<open>
  If no block of \<open>N\<close> or more elements can be allocated, fuel \<open>f\<close> with
  \<open>N \<le> table_size m * 2 ^ f\<close> is enough: every nested call has a table twice as large.
\<close>

lemma reinsert_returns:
  assumes "\<And>m' k v. t \<le> table_size m' \<Longrightarrow>
      \<exists>st m''. put m' k v = Some (st, m'') \<and> table_size m' \<le> table_size m''"
  shows "t \<le> table_size m \<Longrightarrow>
    \<exists>st m'. reinsert put es m = Some (st, m') \<and> t \<le> table_size m'"
proof (induction es arbitrary: m)
  case Nil
  then show ?case by simp
next
  case (Cons e es)
  show ?case
  proof (cases "in_use e")
    case False
    with Cons show ?thesis by simp
  next
    case True
    from assms [OF Cons.prems] obtain st m1 where
      m1: "put m (the (key e)) (edata e) = Some (st, m1)" and le: "table_size m \<le> table_size m1"
      by blast
    have "t \<le> table_size m1" using le Cons.prems by linarith
    then show ?thesis using Cons.IH [of m1] m1 True by auto
  qed
qed

lemma put_at_table_size [simp]: "table_size (put_at i k v m) = table_size m"
  by (simp add: put_at_def)

lemma hmap_put_f_returns:
  assumes cap: "\<And>n. N \<le> n \<Longrightarrow> \<not> calloc n"
  shows "0 < table_size m \<Longrightarrow> N \<le> table_size m * 2 ^ f \<Longrightarrow>
    \<exists>st m'. hmap_put_f (Suc f) calloc m k v = Some (st, m') \<and> table_size m \<le> table_size m'"
proof (induction f arbitrary: m k v)
  case 0
  then have "\<not> calloc (2 * table_size m)" using cap by simp
  then show ?case by (auto simp: hashmap_rehash_def split: option.split)
next
  case (Suc f)
  show ?case
  proof (cases "hashmap_hash m k \<noteq> None \<or> \<not> calloc (2 * table_size m)")
    case True
    then show ?thesis by (auto simp: hashmap_rehash_def split: option.split)
  next
    case False
    have step: "\<exists>st m''. hmap_put_f (Suc f) calloc m' k v = Some (st, m'') \<and> table_size m' \<le> table_size m''"
      if t: "2 * table_size m \<le> table_size m'" for m' :: "'a hashmap_map" and k v
    proof (rule Suc.IH)
      show "0 < table_size m'" using t Suc.prems(1) by simp
      have "N \<le> (2 * table_size m) * 2 ^ f" using Suc.prems(2) by simp
      also have "\<dots> \<le> table_size m' * 2 ^ f" using t by simp
      finally show "N \<le> table_size m' * 2 ^ f" .
    qed
    have "\<exists>st m1. hashmap_rehash calloc (hmap_put_f (Suc f) calloc) m = Some (st, m1) \<and>
        2 * table_size m \<le> table_size m1"
      using False reinsert_returns [of "2 * table_size m" "hmap_put_f (Suc f) calloc", OF step]
      by (simp add: hashmap_rehash_def)
    then obtain st m1 where m1: "hashmap_rehash calloc (hmap_put_f (Suc f) calloc) m = Some (st, m1)"
      and t: "2 * table_size m \<le> table_size m1" by blast
    from step [OF t, of k v] obtain st' m2 where
      "hmap_put_f (Suc f) calloc m1 k v = Some (st', m2)" "table_size m1 \<le> table_size m2" by blast
    then show ?thesis using m1 t False by (auto simp del: hmap_put_f.simps(1) simp: hmap_put_f.simps(2) [of "Suc f"])
  qed
qed


section \<open>The interface: a symbol table\<close>

text \<open>
  What the assembler and the debugger rely on: insertions that succeed make a finite map. The
  lemmas of the interface follow a sequence of insertions, a later one winning over an earlier
  one of the same key.
\<close>

fun insert_all :: "('m \<Rightarrow> string \<Rightarrow> 'v \<Rightarrow> 'm option) \<Rightarrow> 'm \<Rightarrow> (string \<times> 'v) list \<Rightarrow> 'm option" where
  "insert_all ins m [] = Some m"
| "insert_all ins m ((k, v) # kvs) = do { m' \<leftarrow> ins m k v; insert_all ins m' kvs }"

lemma insert_all_append:
  "insert_all ins m (xs @ ys) = Option.bind (insert_all ins m xs) (\<lambda>m. insert_all ins m ys)"
proof (induction xs arbitrary: m)
  case (Cons x xs)
  obtain k v where "x = (k, v)" by fastforce
  with Cons.IH show ?case by (cases "ins m k v") simp_all
qed simp

locale symbol_table =
  fixes inv :: "'m \<Rightarrow> bool"
    and new :: "'m"
    and ins :: "'m \<Rightarrow> string \<Rightarrow> 'v \<Rightarrow> 'm option"
    and look :: "'m \<Rightarrow> string \<Rightarrow> 'v option"
  assumes inv_new: "inv new"
    and look_new: "look new k = None"
    and inv_ins: "inv m \<Longrightarrow> ins m k v = Some m' \<Longrightarrow> inv m'"
    and look_ins: "inv m \<Longrightarrow> ins m k v = Some m' \<Longrightarrow> look m' = (look m)(k \<mapsto> v)"
begin

lemma inv_insert_all: "inv m \<Longrightarrow> insert_all ins m kvs = Some m' \<Longrightarrow> inv m'"
  by (induction kvs arbitrary: m) (auto, blast dest: inv_ins)

lemma look_insert_all:
  "inv m \<Longrightarrow> insert_all ins m kvs = Some m' \<Longrightarrow> look m' = look m ++ map_of (rev kvs)"
proof (induction kvs arbitrary: m)
  case Nil
  then show ?case by simp
next
  case (Cons kv kvs)
  obtain k v where [simp]: "kv = (k, v)" by (cases kv)
  from Cons.prems obtain m1 where m1: "ins m k v = Some m1" "insert_all ins m1 kvs = Some m'"
    by auto
  from Cons.prems m1 have "look m' = look m1 ++ map_of (rev kvs)"
    by (intro Cons.IH) (auto dest: inv_ins)
  then show ?case using look_ins [OF Cons.prems(1) m1(1)] by simp
qed

lemma look_built:
  "insert_all ins new kvs = Some m \<Longrightarrow> look m k = map_of (rev kvs) k"
  using look_insert_all [OF inv_new] by (simp add: look_new map_add_def split: option.split)

end

definition hm_insert :: "(nat \<Rightarrow> bool) \<Rightarrow> 'v hashmap_map \<Rightarrow> string \<Rightarrow> 'v option \<Rightarrow> 'v hashmap_map option" where
  "hm_insert calloc m k v =
     (case hmap_put calloc m k v of Some (MAP_OK, m') \<Rightarrow> Some m' | _ \<Rightarrow> None)"

definition hm_new :: "'v hashmap_map" where
  "hm_new = \<lparr>table_size = INITIAL_SIZE, hsize = 0, hdata = replicate INITIAL_SIZE blank_element\<rparr>"

lemma hmap_create_new: "hmap_create calloc = (if calloc INITIAL_SIZE then Some hm_new else None)"
  by (simp add: hmap_create_def hm_new_def)

lemma hm_insert_Some: "hm_insert calloc m k v = Some m' \<longleftrightarrow> hmap_put calloc m k v = Some (MAP_OK, m')"
  by (auto simp: hm_insert_def split: option.splits map_status.splits)

lemma hmap_put_correct:
  assumes "hm_inv m" and "hmap_put calloc m k v = Some (MAP_OK, m')"
  shows "hm_inv m'" and "hm_abs m' = (hm_abs m)(k \<mapsto> v)"
  using hmap_put_f_ok [of 32 calloc] assms by (auto simp: hmap_put_def put_ok_def)

interpretation hm: symbol_table hm_inv hm_new "hm_insert calloc" hm_abs
  for calloc :: "nat \<Rightarrow> bool"
proof unfold_locales
  have n: "0 < INITIAL_SIZE" by (simp add: INITIAL_SIZE_def)
  show "hm_inv hm_new" unfolding hm_new_def using n by (rule hm_inv_blank)
  show "hm_abs hm_new k = None" for k unfolding hm_new_def hm_abs_blank [OF n] by simp
qed (auto simp: hm_insert_Some dest: hmap_put_correct)

lemma hmap_get_iff:
  "hmap_get m k = (MAP_OK, v) \<longleftrightarrow> hm_abs m k = Some v"
  "fst (hmap_get m k) = MAP_MISSING \<longleftrightarrow> hm_abs m k = None"
  by (auto simp: hmap_get_abs split: option.split)

section \<open>Properties of the table\<close>

lemma hmap_get_hm_abs: "hmap_get m k = (case hm_abs m k of None \<Rightarrow> (MAP_MISSING, None) | Some v \<Rightarrow> (MAP_OK, v))"
  by (simp add: hmap_get_abs)

lemma probe_free_blank: "c < n \<Longrightarrow> probe_free (replicate n blank_element) n k (Suc i) c = Some c"
  by (simp add: blank_element_def)

lemma hmap_put_f_free:
  "hashmap_hash m k = Some i \<Longrightarrow> hmap_put_f f calloc m k v = Some (MAP_OK, put_at i k v m)"
  by (cases f) simp_all

lemma hmap_put_blank: "hmap_put calloc hm_new k v = Some (MAP_OK, put_at (hash_of INITIAL_SIZE k) k v hm_new)"
proof -
  have "hash_of INITIAL_SIZE k < INITIAL_SIZE" by (rule hash_of_less) (simp add: INITIAL_SIZE_def)
  then have "probe_free (replicate INITIAL_SIZE blank_element) INITIAL_SIZE k (Suc 7) (hash_of INITIAL_SIZE k) =
      Some (hash_of INITIAL_SIZE k)" by (rule probe_free_blank)
  moreover have "MAX_CHAIN_LENGTH = Suc 7" by (simp add: MAX_CHAIN_LENGTH_def)
  moreover have "(0 :: int) < int (INITIAL_SIZE div 2)" by (simp add: INITIAL_SIZE_def)
  ultimately have "hashmap_hash hm_new k = Some (hash_of INITIAL_SIZE k)"
    by (simp add: hashmap_hash_def hm_new_def hashmap_hash_int_def del: probe_free.simps)
  then show ?thesis unfolding hmap_put_def by (rule hmap_put_f_free)
qed

text \<open>
  A successful \<open>hmap_put\<close> keeps the invariant of the table and updates its contents at the
  key and nowhere else, through whatever rehashing and probing it needs.
\<close>

lemma hmap_put_updates:
  assumes "hm_inv m" and "hmap_put calloc m k v = Some (MAP_OK, m')"
  shows "hm_inv m' \<and> (\<forall>k'. hmap_get m' k' = (if k' = k then (MAP_OK, v) else hmap_get m k'))"
  using hmap_put_correct [OF assms] by (simp add: hmap_get_hm_abs)

lemma hmap_put_updates_witness:
  "\<exists>m'. hmap_put (\<lambda>_. True) hm_new ''loop'' (Some (5 :: nat)) = Some (MAP_OK, m') \<and>
     hmap_get m' ''loop'' = (MAP_OK, Some 5) \<and> hmap_get m' ''end'' = hmap_get hm_new ''end''"
  using hmap_put_updates [OF hm.inv_new hmap_put_blank [of "\<lambda>_. True" "''loop''" "Some (5 :: nat)"]]
  by (simp add: hmap_put_blank)

text \<open>
  C32. A table filled by a sequence of successful insertions answers every lookup as the finite
  map of these insertions does, the latest one of a key winning.
\<close>

lemma hmap_is_finite_map:
  assumes "insert_all (hm_insert calloc) hm_new kvs = Some m"
  shows "hmap_get m k = (case map_of (rev kvs) k of None \<Rightarrow> (MAP_MISSING, None) | Some v \<Rightarrow> (MAP_OK, v))"
  using hm.look_built [OF assms, of k] by (simp add: hmap_get_hm_abs)

lemma hmap_is_finite_map_witness:
  "\<exists>m. insert_all (hm_insert (\<lambda>_. True)) hm_new [(''loop'', Some (5 :: nat))] = Some m \<and>
     hmap_get m ''loop'' = (MAP_OK, Some 5) \<and> hmap_get m ''end'' = (MAP_MISSING, None)"
proof -
  have i: "insert_all (hm_insert (\<lambda>_. True)) hm_new [(''loop'', Some (5 :: nat))] =
      Some (put_at (hash_of INITIAL_SIZE ''loop'') ''loop'' (Some 5) hm_new)"
    by (simp add: hm_insert_def hmap_put_blank)
  show ?thesis using hmap_is_finite_map [OF i, of "''loop''"] hmap_is_finite_map [OF i, of "''end''"] i by simp
qed

text \<open>
  C34. \<open>hmap_put\<close> returns: the table doubles at every nested call, so when no table of
  \<open>2 ^ 31\<close> elements can be allocated (its size is an \<open>int\<close>) the mutual recursion of
  insertion and rehashing ends.
\<close>

lemma hmap_put_returns:
  assumes "0 < table_size m" and "\<And>n. 2 ^ 31 \<le> n \<Longrightarrow> \<not> calloc n"
  shows "\<exists>st m'. hmap_put calloc m k v = Some (st, m')"
proof -
  have "2 ^ 31 \<le> table_size m * 2 ^ 31" using assms(1) by simp
  from hmap_put_f_returns [of "2 ^ 31" calloc, OF assms(2,1) this] show ?thesis
    by (simp only: hmap_put_def) (simp, blast)
qed

lemma hmap_put_returns_witness:
  "\<exists>st m'. hmap_put (\<lambda>n. n < 2 ^ 31) hm_new ''loop'' (Some (5 :: nat)) = Some (st, m')"
  by (rule hmap_put_returns) (simp_all add: hm_new_def INITIAL_SIZE_def)

section \<open>Visiting a table\<close>

text \<open>A visitor sees every entry of a table once, in the order of the slots.\<close>

definition hm_entries :: "'v hashmap_map \<Rightarrow> (string \<times> 'v option) list" where
  "hm_entries m = map (\<lambda>e. (the (key e), edata e)) (filter in_use (hdata m))"

lemma iterate_slots_fold:
  "iterate_slots v es s = fold (\<lambda>(k, x) s. v s k x) (map (\<lambda>e. (the (key e), edata e)) (filter in_use es)) s"
  by (induction es arbitrary: s) auto

lemma hmap_iterate_fold:
  assumes "hm_inv m"
  shows "snd (hmap_iterate m s v) = fold (\<lambda>(k, x) s. v s k x) (hm_entries m) s"
proof (cases "hmap_size m \<le> 0")
  case True
  then have "int (length (filter in_use (hdata m))) \<le> 0"
    using assms unfolding hm_inv_def hmap_size_def by linarith
  then have "filter in_use (hdata m) = []" unfolding of_nat_le_0_iff length_0_conv .
  with True show ?thesis by (simp add: hmap_iterate_def hm_entries_def)
next
  case False
  then show ?thesis using assms by (simp add: hmap_iterate_def hm_entries_def iterate_slots_fold hm_inv_def)
qed

lemma distinct_map_filter:
  assumes "\<And>i j. i < length xs \<Longrightarrow> j < length xs \<Longrightarrow> P (xs ! i) \<Longrightarrow> P (xs ! j) \<Longrightarrow> f (xs ! i) = f (xs ! j) \<Longrightarrow> i = j"
  shows "distinct (map f (filter P xs))"
  using assms
proof (induction xs)
  case Nil
  then show ?case by simp
next
  case (Cons x xs)
  have "distinct (map f (filter P xs))"
  proof (rule Cons.IH)
    fix i j assume "i < length xs" "j < length xs" "P (xs ! i)" "P (xs ! j)" "f (xs ! i) = f (xs ! j)"
    then show "i = j" using Cons.prems [of "Suc i" "Suc j"] by simp
  qed
  moreover have "f x \<notin> f ` set (filter P xs)" if "P x"
  proof
    assume "f x \<in> f ` set (filter P xs)"
    then obtain y where "y \<in> set xs" "P y" "f x = f y" by auto
    then obtain j where "j < length xs" "y = xs ! j" by (auto simp: in_set_conv_nth)
    with \<open>P y\<close> \<open>f x = f y\<close> that show False using Cons.prems [of 0 "Suc j"] by simp
  qed
  ultimately show ?case by auto
qed

lemma hm_entries_distinct:
  assumes "hm_inv m"
  shows "distinct (map fst (hm_entries m))"
proof -
  have "i = j" if "i < length (hdata m)" "j < length (hdata m)" "in_use (hdata m ! i)" "in_use (hdata m ! j)"
      "the (key (hdata m ! i)) = the (key (hdata m ! j))" for i j
  proof -
    have n: "length (hdata m) = table_size m" using assms by (simp add: hm_inv_def)
    from that n assms obtain k1 k2 where "key (hdata m ! i) = Some k1" "key (hdata m ! j) = Some k2"
      unfolding hm_inv_def by metis
    with that(5) obtain k where k: "key (hdata m ! i) = Some k" "key (hdata m ! j) = Some k" by simp
    then have "hm_find m k = Some i" "hm_find m k = Some j"
      using that n by (simp_all add: hm_find_iff [OF assms] holds_key_def)
    then show ?thesis by simp
  qed
  then show ?thesis unfolding hm_entries_def map_map comp_def fst_conv by (rule distinct_map_filter)
qed

lemma hm_entries_abs:
  assumes "hm_inv m"
  shows "(k, v) \<in> set (hm_entries m) \<longleftrightarrow> hm_abs m k = Some v"
proof -
  have n: "length (hdata m) = table_size m" using assms by (simp add: hm_inv_def)
  have "(k, v) \<in> set (hm_entries m) \<longleftrightarrow>
      (\<exists>i < table_size m. in_use (hdata m ! i) \<and> the (key (hdata m ! i)) = k \<and> edata (hdata m ! i) = v)"
    by (auto simp: hm_entries_def image_iff in_set_conv_nth n)
  also have "\<dots> \<longleftrightarrow> hm_abs m k = Some v"
    using assms by (fastforce simp: hm_abs_Some [OF assms] holds_key_def hm_inv_def)
  finally show ?thesis .
qed

end
