(* ===== verification/InstnDefs.thy ===== *)
theory InstnDefs
  imports Prelude "HOL-Library.Char_ord" "HOL-Library.List_Lexorder" "HOL-Library.Multiset"
begin

text \<open>
  The instruction table of \<open>src/instns/instn_defs.inc\<close> and \<open>instn_defs.c\<close>, its sorting by
  \<open>setup_instn_defs\<close> (\<open>instn.c\<close>) and the searches on it. A handler is the name of the
  function the entry points to. The table of a running program is \<open>InstnDefs\<close> after
  \<open>qsort\<close>: sorted by name, entries of one name in an order that C leaves open, so the
  development takes the sorted table as an argument and \<open>instn_table\<close> says what is known of it.
\<close>

section \<open>The table\<close>

text \<open>The handlers, by the file \<open>src/instns/instn_impl_*.c\<close> that defines them.\<close>

datatype arith_handler =
    H_add_3 | H_add_2 | H_sub_3 | H_sub_2 | H_mul_3 | H_mul_2 | H_div_3 | H_div_2 | H_mod_3 |
    H_mod_2

datatype bitw_handler =
    H_and_3 | H_and_2 | H_or_3 | H_or_2 | H_xor_3 | H_xor_2 | H_not_2 | H_not_1 | H_shl_3 |
    H_shl_2 | H_shr_3 | H_shr_2

datatype rel_handler =
    H_eq_3 | H_ne_3 | H_gt_3 | H_lt_3 | H_ge_3 | H_le_3

datatype logc_handler =
    H_l_and_3 | H_l_and_2 | H_l_or_3 | H_l_or_2 | H_l_not_2 | H_l_not_1 | H_l_bool_2 |
    H_l_bool_1

datatype misc_handler =
    H_nop_0 | H_assert_2 | H_abrt_1 | H_cp_3 | H_read8_3 | H_read16_3 | H_read32_3 |
    H_read64_3 | H_write8_3 | H_write16_3 | H_write32_3 | H_write64_3

datatype ctrl_handler =
    H_jmp_1 | H_jtrue_2 | H_jfalse_2 | H_call_3 | H_ret_0 | H_argv_1 | H_retv_1

datatype handler =
    Arith arith_handler | Bitw bitw_handler | Rel rel_handler | Logc logc_handler | Misc misc_handler | Ctrl ctrl_handler
  | Sys_syscall_3

record instn_def_t =
  name :: string
  opcode :: u16
  arg_count :: nat
  flags :: u32
  handler :: handler

definition F_ALLOW_IMM_1st_Arg :: u32 where "F_ALLOW_IMM_1st_Arg = 1"

definition F_1st_Arg_Code_Ref :: u32 where "F_1st_Arg_Code_Ref = 2"

definition F_Debug_Only_Instn :: u32 where "F_Debug_Only_Instn = 4"

definition OP :: "string \<Rightarrow> nat \<Rightarrow> u32 \<Rightarrow> handler \<Rightarrow> instn_def_t" where
  "OP x n f h = \<lparr>name = x, opcode = 0, arg_count = n, flags = f, handler = h\<rparr>"

definition InstnDefs :: "instn_def_t list" where
  "InstnDefs =
    [OP ''nop'' 0 0 (Misc H_nop_0),
     OP ''add'' 3 0 (Arith H_add_3),
     OP ''add'' 2 0 (Arith H_add_2),
     OP ''sub'' 3 0 (Arith H_sub_3),
     OP ''sub'' 2 0 (Arith H_sub_2),
     OP ''mul'' 3 0 (Arith H_mul_3),
     OP ''mul'' 2 0 (Arith H_mul_2),
     OP ''div'' 3 0 (Arith H_div_3),
     OP ''div'' 2 0 (Arith H_div_2),
     OP ''mod'' 3 0 (Arith H_mod_3),
     OP ''mod'' 2 0 (Arith H_mod_2),
     OP ''eq'' 3 0 (Rel H_eq_3),
     OP ''ne'' 3 0 (Rel H_ne_3),
     OP ''gt'' 3 0 (Rel H_gt_3),
     OP ''lt'' 3 0 (Rel H_lt_3),
     OP ''ge'' 3 0 (Rel H_ge_3),
     OP ''le'' 3 0 (Rel H_le_3),
     OP ''l_and'' 3 0 (Logc H_l_and_3),
     OP ''l_and'' 2 0 (Logc H_l_and_2),
     OP ''l_or'' 3 0 (Logc H_l_or_3),
     OP ''l_or'' 2 0 (Logc H_l_or_2),
     OP ''l_not'' 2 0 (Logc H_l_not_2),
     OP ''l_not'' 1 0 (Logc H_l_not_1),
     OP ''l_bool'' 2 0 (Logc H_l_bool_2),
     OP ''l_bool'' 1 0 (Logc H_l_bool_1),
     OP ''and'' 3 0 (Bitw H_and_3),
     OP ''and'' 2 0 (Bitw H_and_2),
     OP ''or'' 3 0 (Bitw H_or_3),
     OP ''or'' 2 0 (Bitw H_or_2),
     OP ''xor'' 3 0 (Bitw H_xor_3),
     OP ''xor'' 2 0 (Bitw H_xor_2),
     OP ''not'' 2 0 (Bitw H_not_2),
     OP ''not'' 1 0 (Bitw H_not_1),
     OP ''shl'' 3 0 (Bitw H_shl_3),
     OP ''shl'' 2 0 (Bitw H_shl_2),
     OP ''shr'' 3 0 (Bitw H_shr_3),
     OP ''shr'' 2 0 (Bitw H_shr_2),
     OP ''cp'' 3 0 (Misc H_cp_3),
     OP ''read8'' 3 0 (Misc H_read8_3),
     OP ''read16'' 3 0 (Misc H_read16_3),
     OP ''read32'' 3 0 (Misc H_read32_3),
     OP ''read64'' 3 0 (Misc H_read64_3),
     OP ''write8'' 3 0 (Misc H_write8_3),
     OP ''write16'' 3 0 (Misc H_write16_3),
     OP ''write32'' 3 0 (Misc H_write32_3),
     OP ''write64'' 3 0 (Misc H_write64_3),
     OP ''jmp'' 1 (F_ALLOW_IMM_1st_Arg OR F_1st_Arg_Code_Ref) (Ctrl H_jmp_1),
     OP ''jtrue'' 2 (F_ALLOW_IMM_1st_Arg OR F_1st_Arg_Code_Ref) (Ctrl H_jtrue_2),
     OP ''jfalse'' 2 (F_ALLOW_IMM_1st_Arg OR F_1st_Arg_Code_Ref) (Ctrl H_jfalse_2),
     OP ''call'' 3 (F_ALLOW_IMM_1st_Arg OR F_1st_Arg_Code_Ref) (Ctrl H_call_3),
     OP ''syscall'' 3 F_ALLOW_IMM_1st_Arg Sys_syscall_3,
     OP ''ret'' 0 0 (Ctrl H_ret_0),
     OP ''argv'' 1 0 (Ctrl H_argv_1),
     OP ''retv'' 1 0 (Ctrl H_retv_1),
     OP ''assert'' 2 F_Debug_Only_Instn (Misc H_assert_2),
     OP ''abrt'' 1 F_ALLOW_IMM_1st_Arg (Misc H_abrt_1)]"

definition nInstnDefs :: "instn_def_t list \<Rightarrow> nat" where
  "nInstnDefs defs = length defs"

section \<open>strcmp and sorting\<close>

fun strcmp :: "string \<Rightarrow> string \<Rightarrow> int" where
  "strcmp [] [] = 0"
| "strcmp [] (b # bs) = - 1"
| "strcmp (a # as) [] = 1"
| "strcmp (a # as) (b # bs) =
     (if (of_char a :: nat) < of_char b then - 1
      else if (of_char b :: nat) < of_char a then 1 else strcmp as bs)"

definition compare_instn_def :: "instn_def_t \<Rightarrow> instn_def_t \<Rightarrow> int" where
  "compare_instn_def a b = strcmp (name a) (name b)"

text \<open>The opcodes are the positions in the sorted table (a \<open>uint8_t\<close> counter).\<close>

fun number_opcodes :: "u8 \<Rightarrow> instn_def_t list \<Rightarrow> instn_def_t list" where
  "number_opcodes n [] = []"
| "number_opcodes n (d # ds) = d\<lparr>opcode := ucast n\<rparr> # number_opcodes (n + 1) ds"

text \<open>
  \<open>setup_instn_defs\<close> with the sort as an argument, and the result with a stable sort (the
  merge sort of glibc).
\<close>

definition setup_instn_defs :: "(instn_def_t list \<Rightarrow> instn_def_t list) \<Rightarrow> instn_def_t list" where
  "setup_instn_defs qsort = number_opcodes 0 (qsort InstnDefs)"

definition stable_qsort :: "instn_def_t list \<Rightarrow> instn_def_t list" where
  "stable_qsort ds = sort_key name ds"

definition std_defs :: "instn_def_t list" where
  "std_defs = setup_instn_defs stable_qsort"

definition sorts_by_name :: "(instn_def_t list \<Rightarrow> instn_def_t list) \<Rightarrow> bool" where
  "sorts_by_name qsort \<longleftrightarrow> mset (qsort InstnDefs) = mset InstnDefs \<and>
     sorted_wrt (\<lambda>a b. compare_instn_def a b \<le> 0) (qsort InstnDefs)"

definition instn_table :: "instn_def_t list \<Rightarrow> bool" where
  "instn_table defs \<longleftrightarrow> (\<exists>qsort. sorts_by_name qsort \<and> defs = setup_instn_defs qsort)"


section \<open>Looking up an instruction\<close>

text \<open>The \<open>bsearch\<close> of glibc: \<open>cmp i\<close> compares the key with the \<open>i\<close>-th element.\<close>

function bsearch_loop :: "(nat \<Rightarrow> int) \<Rightarrow> nat \<Rightarrow> nat \<Rightarrow> nat option" where
  "bsearch_loop cmp l u =
     (if l < u then
        (let idx = (l + u) div 2 in
         if cmp idx < 0 then bsearch_loop cmp l idx
         else if cmp idx > 0 then bsearch_loop cmp (idx + 1) u
         else Some idx)
      else None)"
  by pat_completeness auto
termination
  by (relation "measure (\<lambda>(cmp, l, u). u - l)") auto

declare bsearch_loop.simps [simp del]

definition bsearch_instn :: "instn_def_t list \<Rightarrow> string \<Rightarrow> nat option" where
  "bsearch_instn defs tok = bsearch_loop (\<lambda>i. strcmp tok (name (defs ! i))) 0 (nInstnDefs defs)"

fun walk_back :: "instn_def_t list \<Rightarrow> string \<Rightarrow> nat \<Rightarrow> nat" where
  "walk_back defs tok 0 = 0"
| "walk_back defs tok (Suc i) =
     (if strcmp tok (name (defs ! i)) = 0 then walk_back defs tok i else Suc i)"

text \<open>
  The forward scan of \<open>parse_instn\<close>. Past the last entry it reads the name of the sentinel,
  a null pointer, and hands it to \<open>strcmp\<close>: undefined.
\<close>

function scan_arity :: "instn_def_t list \<Rightarrow> string \<Rightarrow> nat \<Rightarrow> nat \<Rightarrow> nat option option" where
  "scan_arity defs tok n i =
     (if nInstnDefs defs \<le> i then None
      else if strcmp tok (name (defs ! i)) \<noteq> 0 then Some None
      else if arg_count (defs ! i) = n then Some (Some i)
      else scan_arity defs tok n (Suc i))"
  by pat_completeness auto
termination
  by (relation "measure (\<lambda>(defs, tok, n, i). length defs - i)") (auto simp: nInstnDefs_def)

declare scan_arity.simps [simp del]

datatype instn_lookup = Found nat | UnknownInstn | BadArgCount

definition find_instn :: "instn_def_t list \<Rightarrow> string \<Rightarrow> nat \<Rightarrow> instn_lookup option" where
  "find_instn defs tok n =
     (case bsearch_instn defs tok of
        None \<Rightarrow> Some UnknownInstn
      | Some i \<Rightarrow>
          (case scan_arity defs tok n (walk_back defs tok i) of
             None \<Rightarrow> None
           | Some None \<Rightarrow> Some BadArgCount
           | Some (Some j) \<Rightarrow> Some (Found j)))"

section \<open>Properties of the sorted table\<close>

lemma strcmp_eq_0 [simp]: "strcmp a b = 0 \<longleftrightarrow> a = b"
  by (induction a b rule: strcmp.induct) (auto simp: of_char_eq_iff)

lemma strcmp_less: "strcmp a b < 0 \<longleftrightarrow> a < b"
  by (induction a b rule: strcmp.induct) (auto simp: less_char_def of_char_eq_iff not_less_iff_gr_or_eq)

lemma strcmp_le: "strcmp a b \<le> 0 \<longleftrightarrow> a \<le> b"
  using strcmp_less [of a b] strcmp_eq_0 [of a b] by (auto simp: le_less)

lemma strcmp_greater: "0 < strcmp a b \<longleftrightarrow> b < a"
  using strcmp_le [of a b] by auto

lemma length_number_opcodes [simp]: "length (number_opcodes n ds) = length ds"
  by (induction n ds rule: number_opcodes.induct) auto

lemma nth_number_opcodes:
  "i < length ds \<Longrightarrow> number_opcodes n ds ! i = (ds ! i)\<lparr>opcode := ucast (n + of_nat i)\<rparr>"
  by (induction n ds arbitrary: i rule: number_opcodes.induct)
    (auto simp: nth_Cons' add.assoc split: if_splits)

lemma length_InstnDefs: "length InstnDefs = 56"
  by (simp add: InstnDefs_def)

definition signature :: "instn_def_t \<Rightarrow> string \<times> nat \<times> u32 \<times> handler" where
  "signature d = (name d, arg_count d, flags d, handler d)"

definition arities :: "string \<Rightarrow> nat set" where
  "arities tok = {arg_count d | d. d \<in> set InstnDefs \<and> name d = tok}"

lemma signature_number_opcodes: "map signature (number_opcodes n ds) = map signature ds"
  by (induction n ds rule: number_opcodes.induct) (auto simp: signature_def)

lemma table_signatures:
  assumes "instn_table defs"
  shows "mset (map signature defs) = mset (map signature InstnDefs)"
proof -
  obtain qsort where q: "mset (qsort InstnDefs) = mset InstnDefs" "defs = number_opcodes 0 (qsort InstnDefs)"
    using assms by (auto simp: instn_table_def setup_instn_defs_def sorts_by_name_def)
  have "mset (map signature defs) = mset (map signature (qsort InstnDefs))"
    by (simp only: q(2) signature_number_opcodes)
  then show ?thesis by (simp add: q(1))
qed

lemma table_length: "instn_table defs \<Longrightarrow> length defs = 56"
  using table_signatures [of defs] length_InstnDefs by (metis length_map size_mset)

lemma table_sorted:
  assumes "instn_table defs"
  shows "sorted (map name defs)"
proof -
  obtain qsort where q: "sorts_by_name qsort" "defs = number_opcodes 0 (qsort InstnDefs)"
    using assms by (auto simp: instn_table_def setup_instn_defs_def)
  have "map name defs = map name (qsort InstnDefs)"
    using arg_cong [OF signature_number_opcodes, of "map fst" 0 "qsort InstnDefs"]
    by (simp add: q signature_def comp_def)
  moreover have "sorted (map name (qsort InstnDefs))"
    using q(1) by (simp add: sorts_by_name_def compare_instn_def_def strcmp_le sorted_wrt_map)
  ultimately show ?thesis by simp
qed

lemma table_opcode:
  assumes "instn_table defs" "i < length defs"
  shows "opcode (defs ! i) = of_nat i"
proof -
  obtain qsort where q: "defs = number_opcodes 0 (qsort InstnDefs)"
    using assms by (auto simp: instn_table_def setup_instn_defs_def)
  have "i < 56" using assms table_length by simp
  then have "unat (of_nat i :: u8) = i" by simp
  then have "(ucast (of_nat i :: u8) :: u16) = of_nat i"
    by (metis of_nat_unat)
  with assms q show ?thesis by (simp add: nth_number_opcodes)
qed

lemma table_mem:
  assumes "instn_table defs"
  shows "set (map signature defs) = set (map signature InstnDefs)"
  using table_signatures [OF assms] by (metis set_mset_mset)

lemma table_arities:
  assumes "instn_table defs"
  shows "n \<in> arities tok \<longleftrightarrow> (\<exists>i < length defs. name (defs ! i) = tok \<and> arg_count (defs ! i) = n)"
proof -
  have "(\<exists>d \<in> set ds. name d = tok \<and> arg_count d = n) \<longleftrightarrow>
      (\<exists>x \<in> set (map signature ds). fst x = tok \<and> fst (snd x) = n)" for ds
    by (auto simp: signature_def)
  note sig = this
  have "(\<exists>d \<in> set InstnDefs. name d = tok \<and> arg_count d = n) \<longleftrightarrow>
      (\<exists>d \<in> set defs. name d = tok \<and> arg_count d = n)"
    by (simp only: sig table_mem [OF assms])
  then show ?thesis by (auto simp: arities_def in_set_conv_nth Bex_def)
qed

lemma distinct_InstnDefs: "distinct (map (\<lambda>d. (name d, arg_count d)) InstnDefs)"
  by (simp add: InstnDefs_def OP_def)

lemma table_unique:
  assumes t: "instn_table defs" and "i < length defs" "j < length defs"
    and "name (defs ! i) = name (defs ! j)" "arg_count (defs ! i) = arg_count (defs ! j)"
  shows "i = j"
proof -
  let ?f = "\<lambda>x :: string \<times> nat \<times> u32 \<times> handler. (fst x, fst (snd x))"
  have "mset (map (\<lambda>d. (name d, arg_count d)) defs) = image_mset ?f (mset (map signature defs))"
    by (simp add: signature_def comp_def flip: mset_map)
  also have "\<dots> = mset (map (\<lambda>d. (name d, arg_count d)) InstnDefs)"
    by (simp add: table_signatures [OF t] signature_def comp_def flip: mset_map)
  finally have "distinct (map (\<lambda>d. (name d, arg_count d)) defs)"
    using distinct_InstnDefs mset_eq_imp_distinct_iff by blast
  then show ?thesis
    using assms nth_eq_iff_index_eq [of "map (\<lambda>d. (name d, arg_count d)) defs" i j] by simp
qed

lemma names_le_xor: "d \<in> set InstnDefs \<Longrightarrow> name d \<le> ''xor''"
proof -
  have "list_all (\<lambda>d. strcmp (name d) ''xor'' \<le> 0) InstnDefs"
    by (simp add: InstnDefs_def OP_def)
  then show "d \<in> set InstnDefs \<Longrightarrow> name d \<le> ''xor''" by (auto simp: list_all_iff strcmp_le)
qed

lemma table_last:
  assumes t: "instn_table defs"
  shows "name (defs ! 55) = ''xor''"
proof (rule antisym)
  have l: "length defs = 56" using table_length [OF t] .
  have "signature (defs ! 55) \<in> set (map signature InstnDefs)"
    unfolding table_mem [OF t, symmetric] using l by simp
  then show "name (defs ! 55) \<le> ''xor''" using names_le_xor by (auto simp: signature_def)
  have "3 \<in> arities ''xor''"
    unfolding arities_def InstnDefs_def OP_def by force
  then obtain i where i: "i < 56" "name (defs ! i) = ''xor''"
    using table_arities [OF t] l by auto
  have "map name defs ! i \<le> map name defs ! 55"
    using table_sorted [OF t] i l by (intro sorted_nth_mono) auto
  then show "''xor'' \<le> name (defs ! 55)" using i l by simp
qed

section \<open>Correctness of the lookup\<close>

lemma bsearch_loop_Some:
  "bsearch_loop cmp l u = Some i \<Longrightarrow> l \<le> i \<and> i < u \<and> cmp i = 0"
proof (induction cmp l u rule: bsearch_loop.induct)
  case (1 cmp l u)
  from "1.prems" have lu: "l < u" by (subst (asm) bsearch_loop.simps) (simp split: if_splits)
  let ?m = "(l + u) div 2"
  consider "cmp ?m < 0" | "cmp ?m > 0" | "cmp ?m = 0" by linarith
  then show ?case
  proof cases
    case 1
    then have "bsearch_loop cmp l ?m = Some i"
      using "1.prems" lu by (subst (asm) bsearch_loop.simps) (simp add: Let_def)
    with "1.IH"(1) [OF lu refl 1] lu show ?thesis by auto
  next
    case 2
    then have "bsearch_loop cmp (?m + 1) u = Some i"
      using "1.prems" lu by (subst (asm) bsearch_loop.simps) (simp add: Let_def)
    with "1.IH"(2) [OF lu refl] 2 lu show ?thesis by auto
  next
    case 3
    then have "i = ?m" using "1.prems" lu by (subst (asm) bsearch_loop.simps) (simp add: Let_def)
    with 3 lu show ?thesis by auto
  qed
qed

text \<open>On keys in order the search misses nothing.\<close>

lemma bsearch_loop_None:
  assumes "\<And>i j. i < j \<Longrightarrow> j < n \<Longrightarrow> cmp i < 0 \<Longrightarrow> cmp j < 0"
    and "\<And>i j. i < j \<Longrightarrow> j < n \<Longrightarrow> 0 < cmp j \<Longrightarrow> 0 < cmp i"
  shows "u \<le> n \<Longrightarrow> bsearch_loop cmp l u = None \<Longrightarrow> l \<le> i \<Longrightarrow> i < u \<Longrightarrow> cmp i \<noteq> 0"
  using assms
proof (induction cmp l u rule: bsearch_loop.induct)
  case (1 cmp l u)
  from "1.prems" have lu: "l < u" by simp
  let ?m = "(l + u) div 2"
  have m: "?m < u" "l \<le> ?m" using lu by auto
  consider "cmp ?m < 0" | "cmp ?m > 0" | "cmp ?m = 0" by linarith
  then show ?case
  proof cases
    case 1
    then have r: "bsearch_loop cmp l ?m = None"
      using "1.prems"(2) lu by (subst (asm) bsearch_loop.simps) (simp add: Let_def)
    show ?thesis
    proof (cases "i < ?m")
      case True
      show ?thesis
        by (rule "1.IH"(1) [OF lu refl 1]) (use r True m "1.prems" in auto)
    next
      case False
      then have "?m < i \<or> ?m = i" by auto
      then show ?thesis using 1 "1.prems"(1,4) "1.prems"(5) [of ?m i] by auto
    qed
  next
    case 2
    then have r: "bsearch_loop cmp (?m + 1) u = None"
      using "1.prems"(2) lu by (subst (asm) bsearch_loop.simps) (simp add: Let_def)
    show ?thesis
    proof (cases "?m < i")
      case True
      show ?thesis
        by (rule "1.IH"(2) [OF lu refl _ 2]) (use r True m 2 "1.prems" in auto)
    next
      case False
      then have "i < ?m \<or> ?m = i" by auto
      then show ?thesis using 2 m "1.prems"(1) "1.prems"(6) [of i ?m] by auto
    qed
  next
    case 3
    then show ?thesis
      using "1.prems"(2) lu by (subst (asm) bsearch_loop.simps) (simp add: Let_def)
  qed
qed

lemma bsearch_instn_Some: "bsearch_instn defs tok = Some i \<Longrightarrow> i < length defs \<and> name (defs ! i) = tok"
  unfolding bsearch_instn_def nInstnDefs_def by (drule bsearch_loop_Some) auto

lemma bsearch_instn_None:
  assumes s: "sorted (map name defs)" and b: "bsearch_instn defs tok = None" and i: "i < length defs"
  shows "name (defs ! i) \<noteq> tok"
proof -
  have le: "name (defs ! i) \<le> name (defs ! j)" if "i < j" "j < length defs" for i j
    using sorted_nth_mono [OF s, of i j] that by simp
  have "strcmp tok (name (defs ! i)) \<noteq> 0"
  proof (rule bsearch_loop_None [where n = "length defs"])
    show "bsearch_loop (\<lambda>i. strcmp tok (name (defs ! i))) 0 (length defs) = None"
      using b by (simp add: bsearch_instn_def nInstnDefs_def)
    fix i j assume "i < j" "j < length defs"
    with le have n: "name (defs ! i) \<le> name (defs ! j)" by blast
    show "strcmp tok (name (defs ! i)) < 0 \<Longrightarrow> strcmp tok (name (defs ! j)) < 0"
      using n by (simp add: strcmp_less)
    show "0 < strcmp tok (name (defs ! j)) \<Longrightarrow> 0 < strcmp tok (name (defs ! i))"
      using n by (simp add: strcmp_greater)
  qed (use i in simp_all)
  then show ?thesis by auto
qed

lemma walk_back_props:
  "i < length defs \<Longrightarrow> name (defs ! i) = tok \<Longrightarrow>
   walk_back defs tok i \<le> i \<and> name (defs ! walk_back defs tok i) = tok \<and>
   (walk_back defs tok i = 0 \<or> name (defs ! (walk_back defs tok i - 1)) \<noteq> tok)"
  by (induction i) auto

lemma walk_back_first:
  assumes "sorted (map name defs)" "i < length defs" "name (defs ! i) = tok"
    and "j < length defs" "name (defs ! j) = tok"
  shows "walk_back defs tok i \<le> j"
proof (rule ccontr)
  let ?w = "walk_back defs tok i"
  assume "\<not> ?w \<le> j"
  then have w: "j \<le> ?w - 1" "?w \<noteq> 0" by auto
  note p = walk_back_props [OF assms(2,3)]
  have "name (defs ! j) \<le> name (defs ! (?w - 1))" "name (defs ! (?w - 1)) \<le> name (defs ! ?w)"
    using sorted_nth_mono [OF assms(1), of j "?w - 1"] sorted_nth_mono [OF assms(1), of "?w - 1" ?w]
      w p assms(2) by auto
  then show False using p w assms(5) by auto
qed

lemma scan_arity_simp:
  assumes "i < length defs" "name (defs ! i) = tok"
  shows "scan_arity defs tok n i =
     (if arg_count (defs ! i) = n then Some (Some i) else scan_arity defs tok n (Suc i))"
  using assms by (subst scan_arity.simps) (simp add: nInstnDefs_def)

lemma scan_arity_Some:
  "scan_arity defs tok n i = Some (Some j) \<Longrightarrow>
     i \<le> j \<and> j < length defs \<and> name (defs ! j) = tok \<and> arg_count (defs ! j) = n"
proof (induction "length defs - i" arbitrary: i rule: less_induct)
  case less
  from less.prems have i: "i < length defs" "name (defs ! i) = tok"
    by (subst (asm) scan_arity.simps, simp add: nInstnDefs_def split: if_splits)+
  show ?case
  proof (cases "arg_count (defs ! i) = n")
    case True
    with i less.prems show ?thesis by (simp add: scan_arity_simp)
  next
    case False
    with i less.prems have "scan_arity defs tok n (Suc i) = Some (Some j)" by (simp add: scan_arity_simp)
    moreover have "length defs - Suc i < length defs - i" using i by simp
    ultimately have "Suc i \<le> j \<and> j < length defs \<and> name (defs ! j) = tok \<and> arg_count (defs ! j) = n"
      using less.hyps [of "Suc i"] by blast
    then show ?thesis by simp
  qed
qed

lemma sorted_between:
  assumes "sorted (map name defs)" "i \<le> k" "k \<le> j" "j < length defs"
    and "name (defs ! i) = tok" "name (defs ! j) = tok"
  shows "name (defs ! k) = tok"
  using sorted_nth_mono [OF assms(1), of i k] sorted_nth_mono [OF assms(1), of k j] assms by auto

text \<open>The scan misses no entry of the group, and runs off the table only if the group ends it.\<close>

lemma scan_arity_complete:
  assumes s: "sorted (map name defs)" and j: "j < length defs" "name (defs ! j) = tok" "arg_count (defs ! j) = n"
  shows "i \<le> j \<Longrightarrow> name (defs ! i) = tok \<Longrightarrow> \<exists>j'. scan_arity defs tok n i = Some (Some j')"
proof (induction "j - i" arbitrary: i rule: less_induct)
  case less
  show ?case
  proof (cases "arg_count (defs ! i) = n")
    case True
    with less.prems j show ?thesis by (simp add: scan_arity_simp)
  next
    case False
    with less.prems j have ij: "Suc i \<le> j" by (metis le_neq_implies_less Suc_leI)
    have "name (defs ! Suc i) = tok"
      by (rule sorted_between [OF s _ ij j(1)]) (use less.prems j in simp_all)
    with less.hyps [of "Suc i"] ij False less.prems j show ?thesis by (simp add: scan_arity_simp)
  qed
qed

lemma scan_arity_None:
  "i < length defs \<Longrightarrow> scan_arity defs tok n i = None \<Longrightarrow> name (defs ! (length defs - 1)) = tok"
proof (induction "length defs - i" arbitrary: i rule: less_induct)
  case less
  then have tok: "name (defs ! i) = tok"
    by (subst (asm) scan_arity.simps) (simp add: nInstnDefs_def split: if_splits)
  with less.prems have r: "scan_arity defs tok n (Suc i) = None"
    by (simp add: scan_arity_simp split: if_splits)
  show ?case
  proof (cases "Suc i < length defs")
    case True
    with less.hyps [of "Suc i"] r less.prems show ?thesis by simp
  next
    case False
    then have "i = length defs - 1" using less.prems by simp
    with tok show ?thesis by simp
  qed
qed

lemma scan_arity_end:
  assumes s: "sorted (map name defs)" and l: "name (defs ! (length defs - 1)) = tok" "defs \<noteq> []"
  shows "(i < length defs \<longrightarrow> name (defs ! i) = tok) \<Longrightarrow> scan_arity defs tok n i \<noteq> Some None"
proof (induction "length defs - i" arbitrary: i rule: less_induct)
  case less
  show ?case
  proof (cases "i < length defs")
    case False
    then show ?thesis by (subst scan_arity.simps) (simp add: nInstnDefs_def)
  next
    case True
    have "Suc i < length defs \<longrightarrow> name (defs ! Suc i) = tok"
      using sorted_between [OF s, of i "Suc i" "length defs - 1" tok] less.prems True l by simp
    with less.hyps [of "Suc i"] True less.prems show ?thesis by (simp add: scan_arity_simp)
  qed
qed

lemma find_instn_correct:
  assumes t: "instn_table defs"
  shows "find_instn defs tok n =
    (if arities tok = {} then Some UnknownInstn
     else if n \<in> arities tok
     then Some (Found (THE j. j < length defs \<and> name (defs ! j) = tok \<and> arg_count (defs ! j) = n))
     else if tok = ''xor'' then None else Some BadArgCount)"
proof (cases "bsearch_instn defs tok")
  case None
  then have "\<forall>i < length defs. name (defs ! i) \<noteq> tok"
    using bsearch_instn_None [OF table_sorted [OF t]] by blast
  then have "arities tok = {}" using table_arities [OF t] by blast
  with None show ?thesis by (simp add: find_instn_def)
next
  case (Some i)
  note s = table_sorted [OF t]
  have l: "length defs = 56" using table_length [OF t] .
  from bsearch_instn_Some [OF Some] have i: "i < length defs" "name (defs ! i) = tok" by auto
  let ?w = "walk_back defs tok i"
  have w: "?w < length defs" "name (defs ! ?w) = tok" using walk_back_props [OF i] i by auto
  have ne: "arities tok \<noteq> {}" using table_arities [OF t] i by blast
  show ?thesis
  proof (cases "n \<in> arities tok")
    case True
    then obtain j where j: "j < length defs" "name (defs ! j) = tok" "arg_count (defs ! j) = n"
      using table_arities [OF t] by blast
    then obtain j' where j': "scan_arity defs tok n ?w = Some (Some j')"
      using scan_arity_complete [OF s j walk_back_first [OF s i j(1,2)] w(2)] by blast
    have "(THE j. j < length defs \<and> name (defs ! j) = tok \<and> arg_count (defs ! j) = n) = j'"
      using scan_arity_Some [OF j'] table_unique [OF t] by (intro the_equality) auto
    with Some j' True ne show ?thesis by (simp add: find_instn_def)
  next
    case False
    have nS: "scan_arity defs tok n ?w \<noteq> Some (Some j)" for j
      using False table_arities [OF t] scan_arity_Some by blast
    have "tok = ''xor'' \<longleftrightarrow> name (defs ! (length defs - 1)) = tok"
      using table_last [OF t] l by auto
    moreover have "defs \<noteq> []" using l by auto
    ultimately have "scan_arity defs tok n ?w = (if tok = ''xor'' then None else Some None)"
      using scan_arity_None [OF w(1), of tok n] scan_arity_end [OF s _ _, of tok ?w n] w nS
      by (cases "scan_arity defs tok n ?w") (auto split: option.splits)
    with Some False ne show ?thesis by (simp add: find_instn_def)
  qed
qed

lemma find_instn_cases:
  assumes "instn_table defs"
  shows "case find_instn defs tok n of
      Some (Found j) \<Rightarrow> j < length defs \<and> name (defs ! j) = tok \<and> arg_count (defs ! j) = n
    | Some UnknownInstn \<Rightarrow> arities tok = {}
    | Some BadArgCount \<Rightarrow> arities tok \<noteq> {} \<and> n \<notin> arities tok \<and> tok \<noteq> ''xor''
    | None \<Rightarrow> tok = ''xor'' \<and> n \<notin> arities ''xor''"
proof (cases "n \<in> arities tok")
  case True
  then obtain j where j: "j < length defs" "name (defs ! j) = tok" "arg_count (defs ! j) = n"
    using table_arities [OF assms] by blast
  then have "(THE j. j < length defs \<and> name (defs ! j) = tok \<and> arg_count (defs ! j) = n) = j"
    using table_unique [OF assms] by (intro the_equality) auto
  moreover have "arities tok \<noteq> {}" using True by auto
  ultimately show ?thesis using find_instn_correct [OF assms, of tok n] True j by simp
next
  case False
  then show ?thesis using find_instn_correct [OF assms, of tok n] by (cases "tok = ''xor''") auto
qed

lemma find_instn_entry:
  assumes t: "instn_table defs" and j: "j < length defs"
  shows "find_instn defs (name (defs ! j)) (arg_count (defs ! j)) = Some (Found j)"
proof -
  have a: "arg_count (defs ! j) \<in> arities (name (defs ! j))" using table_arities [OF t] j by blast
  have "find_instn defs (name (defs ! j)) (arg_count (defs ! j)) \<noteq> None \<and>
      find_instn defs (name (defs ! j)) (arg_count (defs ! j)) \<noteq> Some UnknownInstn \<and>
      find_instn defs (name (defs ! j)) (arg_count (defs ! j)) \<noteq> Some BadArgCount"
    using find_instn_cases [OF t, of "name (defs ! j)" "arg_count (defs ! j)"] a
    by (auto split: option.splits instn_lookup.splits)
  then obtain i where i: "find_instn defs (name (defs ! j)) (arg_count (defs ! j)) = Some (Found i)"
    by (metis instn_lookup.exhaust option.exhaust)
  then have "i < length defs" "name (defs ! i) = name (defs ! j)" "arg_count (defs ! i) = arg_count (defs ! j)"
    using find_instn_cases [OF t, of "name (defs ! j)" "arg_count (defs ! j)"] by simp_all
  then have "i = j" using table_unique [OF t] j by blast
  with i show ?thesis by simp
qed

text \<open>
  C35. Looking up an instruction by name and number of operands finds exactly the entry that has
  both, and tells an unknown name from a wrong number of operands, except for \<open>xor\<close>, the
  last name of the table: there a wrong number of operands makes the scan read past the table.
\<close>

lemma find_instn_finds:
  assumes "instn_table defs"
  shows "case find_instn defs tok n of
      Some (Found j) \<Rightarrow> j < length defs \<and> name (defs ! j) = tok \<and> arg_count (defs ! j) = n
    | Some UnknownInstn \<Rightarrow> arities tok = {}
    | Some BadArgCount \<Rightarrow> arities tok \<noteq> {} \<and> n \<notin> arities tok \<and> tok \<noteq> ''xor''
    | None \<Rightarrow> tok = ''xor'' \<and> n \<notin> arities ''xor''"
  by (rule find_instn_cases [OF assms])

lemma std_table: "instn_table std_defs"
proof -
  have "sorted_wrt (\<lambda>a b. compare_instn_def a b \<le> 0) (stable_qsort InstnDefs)"
    using sorted_sort_key [of name InstnDefs]
    by (simp add: stable_qsort_def compare_instn_def_def strcmp_le sorted_map)
  then show ?thesis
    unfolding instn_table_def std_defs_def sorts_by_name_def
    by (intro exI [of _ stable_qsort]) (simp add: stable_qsort_def)
qed

lemma find_instn_finds_witness:
  "case find_instn std_defs ''add'' 3 of
      Some (Found j) \<Rightarrow> j < length std_defs \<and> name (std_defs ! j) = ''add'' \<and> arg_count (std_defs ! j) = 3
    | Some UnknownInstn \<Rightarrow> arities ''add'' = {}
    | Some BadArgCount \<Rightarrow> arities ''add'' \<noteq> {} \<and> 3 \<notin> arities ''add'' \<and> ''add'' \<noteq> ''xor''
    | None \<Rightarrow> ''add'' = ''xor'' \<and> 3 \<notin> arities ''xor''"
  by (rule find_instn_finds [OF std_table])

end
