(* ===== verification/VmState.thy ===== *)
theory VmState
  imports Prelude
begin

text \<open>
  The state of the virtual machine (\<open>vm.h\<close>, \<open>timers.h\<close>, \<open>syscall_io.h\<close>,
  \<open>syscall_proc.h\<close>) and the operations of \<open>vm.c\<close> on it: making and deleting
  procedures, the call stack of a procedure, and the bounds-checked dereference of
  \<open>bytecode.c\<close> and \<open>syscall.c\<close>.

  The list of runnable procedures is the sequence that the doubly linked list of
  \<open>LinkedList\<close> represents; every use of it here is an append at the tail, the removal of
  the head, or an access to the head. The type variable is the state of the outside world,
  which only system calls and event sources read or change.
\<close>

section \<open>Exceptions, error numbers and sizes\<close>

definition VM_E_Arithmetic :: u32 where "VM_E_Arithmetic = 0x1"
definition VM_E_MemFault :: u32 where "VM_E_MemFault = 0x2"
definition VM_E_OutOfMemory :: u32 where "VM_E_OutOfMemory = 0x4"
definition VM_E_MemoryUnderflow :: u32 where "VM_E_MemoryUnderflow = 0x8"
definition VM_E_BadInstnPointer :: u32 where "VM_E_BadInstnPointer = 0x10"
definition VM_E_BadInstnCode :: u32 where "VM_E_BadInstnCode = 0x20"
definition VM_E_BadSyscallNo :: u32 where "VM_E_BadSyscallNo = 0x40"
definition VM_E_AssertFailed :: u32 where "VM_E_AssertFailed = 0x80"

text \<open>The constants of \<open>config.h\<close>.\<close>

definition FUNC_STACK_ALLOC_SZ :: u32 where "FUNC_STACK_ALLOC_SZ = 64"
definition PROC_ALLOC :: u32 where "PROC_ALLOC = 8"
definition LISTEN_BACKLOG :: nat where "LISTEN_BACKLOG = 10"
definition IO_EVT_ALLOC :: u32 where "IO_EVT_ALLOC = 4"
definition IDLE_STEP_DURATION_MS :: nat where "IDLE_STEP_DURATION_MS = 10"
definition VM_CLEANUP_PERIOD_INSTNS :: u32 where "VM_CLEANUP_PERIOD_INSTNS = 20"

definition STACK_FREE_THRESHOLD :: u32 where "STACK_FREE_THRESHOLD = 96"

text \<open>The error numbers of Linux that the code names.\<close>

definition ECHILD :: i32 where "ECHILD = 10"
definition EAGAIN :: i32 where "EAGAIN = 11"
definition ENOMEM :: i32 where "ENOMEM = 12"
definition EFAULT :: i32 where "EFAULT = 14"
definition EBADF :: i32 where "EBADF = 9"
definition EINVAL :: i32 where "EINVAL = 22"
definition EINPROGRESS :: i32 where "EINPROGRESS = 115"

section \<open>Data\<close>

text \<open>
  A procedure. Its call stack is a block of four-byte words, frame \<open>i\<close> of type
  \<open>fcall_t\<close> (\<open>retval\<close>, \<open>args\<close>, \<open>ret_address\<close>) being the words \<open>3 i\<close>,
  \<open>3 i + 1\<close>, \<open>3 i + 2\<close>, so that a block of any number of bytes is represented.
\<close>

record proc_t =
  p_iptr :: u32
  cstack :: "u32 block"
  cstack_sz :: u32
  cstack_alloc :: u32

record fcall_t =
  retval :: u32
  args :: u32
  ret_address :: u32

datatype timespec = Timespec (tv_sec: i64) (tv_nsec: i64)

record vm_timer_t =
  expires_at :: timespec
  t_iptr :: u32

record vm_callback_t =
  callback :: u32
  cb_args :: u32

record io_mem_t =
  io_ptr :: u32
  io_len :: u32
  io_callback :: vm_callback_t

datatype io_evt_handler =
    read_io_evt_handler | write_io_evt_handler | connect_io_evt_handler | accept_io_evt_handler

datatype evt_data = NoData | IoMem io_mem_t | Callback vm_callback_t

record vm_io_evt_t =
  evt_flags :: nat
  activate :: io_evt_handler
  evt_data :: evt_data

datatype io_close_handler = net_io_close_handler

record vm_net_sock_t =
  s_addr :: u32
  sin_port :: u16

record vm_fd_t =
  fd :: i32
  used :: bool
  events :: "vm_io_evt_t block"
  n_events :: u32
  alloc_events :: u32
  on_close :: "io_close_handler option"
  fd_data :: "vm_net_sock_t block"

record vm_io_t =
  fds :: "vm_fd_t list"
  n_fds :: u32
  used_fds :: u32
  n_io_events :: u32

record vm_child_t =
  pid :: i32
  ch_used :: bool
  exit_cb :: "vm_callback_t block"
  n_exit_cb :: u32

record vm_proc_t =
  child_proc :: "vm_child_t list"
  n_proc :: u32
  alloc_proc :: u32
  n_exit_callbacks :: u32

text \<open>
  The machine. \<open>code\<close> and \<open>memory\<close> are the bytes of the two heap blocks, which the
  sizes \<open>codesz\<close> and \<open>memsz\<close> are meant to describe; \<open>mem_null\<close> says that the
  pointer \<open>memory\<close> is null.
\<close>

record 'w vm_t =
  code :: "u8 list"
  codesz :: u32
  memory :: "u8 list"
  mem_null :: bool
  memsz :: u32
  vm_flags :: u32
  exceptions :: u32
  procedures :: "proc_t list"
  iptr :: u32
  instns :: u64
  error_no :: i32
  assert_id :: u64
  timers :: "vm_timer_t block"
  n_timers :: u32
  io :: vm_io_t
  vm_proc :: vm_proc_t
  instns_since_last_cleanup :: u32
  world :: 'w

section \<open>Raising and dereferencing\<close>

definition raise :: "u32 \<Rightarrow> 'w vm_t \<Rightarrow> 'w vm_t" where
  "raise e vm = vm\<lparr>exceptions := exceptions vm OR e\<rparr>"

text \<open>
  A pointer into the memory is the offset in it; a null result is \<^term>\<open>None\<close>. The sum
  \<open>ref + size\<close> is a 32-bit sum.
\<close>

definition mem_ptr :: "u32 \<Rightarrow> 'w vm_t \<Rightarrow> nat option" where
  "mem_ptr ref vm = (if mem_null vm \<and> ref = 0 then None else Some (unat ref))"

definition deref :: "u32 \<Rightarrow> u32 \<Rightarrow> 'w vm_t \<Rightarrow> nat option" where
  "deref ref sz vm = (if ref + sz > memsz vm then None else mem_ptr ref vm)"

definition deref_mem_ptr :: "u32 \<Rightarrow> u32 \<Rightarrow> 'w vm_t \<Rightarrow> nat option \<times> 'w vm_t" where
  "deref_mem_ptr ref sz vm =
     (if ref + sz > memsz vm then (None, raise VM_E_MemFault vm) else (mem_ptr ref vm, vm))"

text \<open>Loads and stores through a pointer into the memory.\<close>

definition rd :: "nat \<Rightarrow> nat \<Rightarrow> 'w vm_t \<Rightarrow> nat option" where
  "rd n p vm = load n (memory vm) p"

definition wr :: "nat \<Rightarrow> nat \<Rightarrow> nat \<Rightarrow> 'w vm_t \<Rightarrow> 'w vm_t option" where
  "wr n p k vm = map_option (\<lambda>m. vm\<lparr>memory := m\<rparr>) (store n (memory vm) p k)"

definition rd64 :: "nat \<Rightarrow> 'w vm_t \<Rightarrow> u64 option" where
  "rd64 p vm = map_option of_nat (rd 8 p vm)"

definition rd32 :: "nat \<Rightarrow> 'w vm_t \<Rightarrow> u32 option" where
  "rd32 p vm = map_option of_nat (rd 4 p vm)"

definition wr64 :: "nat \<Rightarrow> u64 \<Rightarrow> 'w vm_t \<Rightarrow> 'w vm_t option" where
  "wr64 p v vm = wr 8 p (unat v) vm"

definition wr32 :: "nat \<Rightarrow> u32 \<Rightarrow> 'w vm_t \<Rightarrow> 'w vm_t option" where
  "wr32 p v vm = wr 4 p (unat v) vm"

section \<open>The call stack\<close>

definition push_call_stack :: "u32 \<Rightarrow> u32 \<Rightarrow> u32 \<Rightarrow> proc_t \<Rightarrow> proc_t option" where
  "push_call_stack retv argv ret_addr p = do {
     p \<leftarrow> (if cstack_alloc p < cstack_sz p + 1 then do {
              let alloc = cstack_alloc p + FUNC_STACK_ALLOC_SZ;
              b \<leftarrow> blk_realloc 4 (12 * unat alloc) (cstack p);
              Some (p\<lparr>cstack := b, cstack_alloc := alloc\<rparr>)
            } else Some p);
     let i = 3 * unat (cstack_sz p);
     b \<leftarrow> blk_write (cstack p) i retv;
     b \<leftarrow> blk_write b (i + 1) argv;
     b \<leftarrow> blk_write b (i + 2) ret_addr;
     Some (p\<lparr>cstack := b, cstack_sz := cstack_sz p + 1\<rparr>)
   }"

definition pop_call_stack :: "proc_t \<Rightarrow> (u32 \<times> proc_t) option" where
  "pop_call_stack p = do {
     let p = p\<lparr>cstack_sz := cstack_sz p - 1\<rparr>;
     ret_addr \<leftarrow> blk_read (cstack p) (3 * unat (cstack_sz p) + 2);
     p \<leftarrow> (if cstack_alloc p - cstack_sz p \<ge> STACK_FREE_THRESHOLD then do {
              let alloc = cstack_alloc p - FUNC_STACK_ALLOC_SZ;
              b \<leftarrow> blk_realloc 4 (unat alloc) (cstack p);
              Some (p\<lparr>cstack := b, cstack_alloc := alloc\<rparr>)
            } else Some p);
     Some (ret_addr, p)
   }"

section \<open>Procedures\<close>

text \<open>
  The result of \<open>make_procedure\<close> says whether a procedure was made; it is the last of the
  list then.
\<close>

definition make_procedure :: "u32 \<Rightarrow> 'w vm_t \<Rightarrow> bool \<times> 'w vm_t" where
  "make_procedure ip vm =
     (if ip \<ge> codesz vm then (False, raise VM_E_BadInstnPointer vm)
      else (True, vm\<lparr>procedures := procedures vm @
              [\<lparr>p_iptr = ip, cstack = Null, cstack_sz = 0, cstack_alloc = 0\<rparr>]\<rparr>))"

definition make_func_procedure :: "u32 \<Rightarrow> u32 \<Rightarrow> u32 \<Rightarrow> 'w vm_t \<Rightarrow> (bool \<times> 'w vm_t) option" where
  "make_func_procedure ip argv retv vm =
     (case make_procedure ip vm of
        (False, vm) \<Rightarrow> Some (False, vm)
      | (True, vm) \<Rightarrow> do {
          p \<leftarrow> push_call_stack retv argv (- 1) (last (procedures vm));
          Some (True, vm\<lparr>procedures := butlast (procedures vm) @ [p]\<rparr>)
        })"

definition delete_current_procedure :: "'w vm_t \<Rightarrow> 'w vm_t option" where
  "delete_current_procedure vm =
     (case procedures vm of
        [] \<Rightarrow> None
      | p # ps \<Rightarrow> do {
          b \<leftarrow> blk_free (cstack p);
          Some (vm\<lparr>procedures := ps\<rparr>)
        })"

text \<open>
  \<open>malloc\<close> leaves the code indeterminate: \<open>junk\<close> is its content, of the size asked for.
\<close>

definition make_vm :: "u8 list \<Rightarrow> u32 \<Rightarrow> u32 \<Rightarrow> u32 \<Rightarrow> 'w \<Rightarrow> 'w vm_t" where
  "make_vm junk csz msz entry w =
     (let vm = \<lparr>code = junk, codesz = csz, memory = replicate (unat msz) 0, mem_null = (msz = 0),
        memsz = msz, vm_flags = 0, exceptions = 0, procedures = [], iptr = 0, instns = 0,
        error_no = 0, assert_id = 0, timers = Null, n_timers = 0,
        io = \<lparr>fds = [], n_fds = 0, used_fds = 0, n_io_events = 0\<rparr>,
        vm_proc = \<lparr>child_proc = [], n_proc = 0, alloc_proc = 0, n_exit_callbacks = 0\<rparr>,
        instns_since_last_cleanup = 0, world = w\<rparr>
      in (snd (make_procedure entry vm))\<lparr>iptr := - 1\<rparr>)"

section \<open>Well-formed machines\<close>

text \<open>
  The code has its size, the memory at least its size (a \<open>realloc\<close> beyond \<open>2 ^ 32\<close> bytes
  leaves a block larger than the 32-bit \<open>memsz\<close>), and a null memory is empty. In an
  \<open>mem_exact\<close> machine the memory has its size exactly.
\<close>

definition vm_wf :: "'w vm_t \<Rightarrow> bool" where
  "vm_wf vm \<longleftrightarrow> length (code vm) = unat (codesz vm) \<and> unat (memsz vm) \<le> length (memory vm) \<and>
     (mem_null vm \<longrightarrow> memory vm = [])"

definition mem_exact :: "'w vm_t \<Rightarrow> bool" where
  "mem_exact vm \<longleftrightarrow> length (memory vm) = unat (memsz vm)"

lemma vm_wf_raise [vm_wf_intros]: "vm_wf vm \<Longrightarrow> vm_wf (raise e vm)"
  by (simp add: vm_wf_def raise_def)

lemma vm_wf_make_vm: "length junk = unat csz \<Longrightarrow> vm_wf (make_vm junk csz msz entry w)"
  by (simp add: vm_wf_def make_vm_def Let_def make_procedure_def raise_def)

lemma wr_frame:
  assumes "wr n p k vm = Some vm'"
  shows "length (memory vm') = length (memory vm)" "vm' = vm\<lparr>memory := memory vm'\<rparr>"
  using assms by (auto simp: wr_def store_length)

lemma vm_wf_wr [vm_wf_intros]: "wr n p k vm = Some vm' \<Longrightarrow> vm_wf vm \<Longrightarrow> vm_wf vm'"
  by (auto simp: wr_def vm_wf_def dest: store_length)

lemma vm_wf_wr64 [vm_wf_intros]: "wr64 p v vm = Some vm' \<Longrightarrow> vm_wf vm \<Longrightarrow> vm_wf vm'"
  by (simp add: wr64_def vm_wf_wr)

lemma vm_wf_wr32 [vm_wf_intros]: "wr32 p v vm = Some vm' \<Longrightarrow> vm_wf vm \<Longrightarrow> vm_wf vm'"
  by (simp add: wr32_def vm_wf_wr)

lemma wr64_ex: "p + 8 \<le> length (memory vm) \<Longrightarrow> \<exists>m. wr64 p v vm = Some (vm\<lparr>memory := m\<rparr>)"
  using store_ex [of p 8 "memory vm" "unat v"] by (auto simp: wr64_def wr_def)

lemma rd64_ex: "p + 8 \<le> length (memory vm) \<Longrightarrow> \<exists>v. rd64 p vm = Some v"
  using load_ex [of p 8 "memory vm"] by (auto simp: rd64_def rd_def)

lemma rd64_wr64: "wr64 p v vm = Some vm' \<Longrightarrow> rd64 p vm' = Some v"
proof -
  assume "wr64 p v vm = Some vm'"
  then obtain m where m: "store 8 (memory vm) p (unat v) = Some m" "vm' = vm\<lparr>memory := m\<rparr>"
    by (auto simp: wr64_def wr_def)
  have "unat v < 18446744073709551616" by (rule unat_u64_lt)
  then show ?thesis using load_store_same [OF m(1)] by (simp add: rd64_def rd_def m(2))
qed

lemma rd64_wr64_other:
  "wr64 p v vm = Some vm' \<Longrightarrow> q + 8 \<le> p \<or> p + 8 \<le> q \<Longrightarrow> rd64 q vm' = rd64 q vm"
  by (auto simp: wr64_def wr_def rd64_def rd_def load_store_disjoint)

text \<open>
  A reference that does not wrap is dereferenced inside the memory. Nothing bounds the
  32-bit sum, so a reference just below \<open>2 ^ 32\<close> passes the check.
\<close>

lemma deref_in_bounds:
  assumes wf: "vm_wf vm" and d: "deref ref sz vm = Some p" and nw: "unat ref + unat sz < 2 ^ 32"
  shows "p = unat ref \<and> p + unat sz \<le> unat (memsz vm) \<and> p + unat sz \<le> length (memory vm)"
proof -
  from d have le: "ref + sz \<le> memsz vm" and p: "p = unat ref"
    by (auto simp: deref_def mem_ptr_def split: if_splits)
  from nw have "unat (ref + sz) = unat ref + unat sz" by (simp add: unat_word_ariths)
  then have "unat ref + unat sz \<le> unat (memsz vm)" using le by (simp add: word_le_nat_alt)
  then show ?thesis using wf p by (simp add: vm_wf_def)
qed

lemma deref_mem_ptr_deref: "fst (deref_mem_ptr ref sz vm) = deref ref sz vm"
  by (simp add: deref_mem_ptr_def deref_def)

lemma deref_mem_ptr_Some:
  "deref_mem_ptr ref sz vm = (Some p, vm') \<longleftrightarrow> deref ref sz vm = Some p \<and> vm' = vm"
  by (auto simp: deref_mem_ptr_def deref_def)

lemma deref_complete:
  assumes "vm_wf vm" "unat ref + unat sz \<le> unat (memsz vm)" "sz > 0"
  shows "deref ref sz vm = Some (unat ref)"
proof -
  have l: "unat (memsz vm) \<le> length (memory vm)" using assms by (simp add: vm_wf_def)
  have "unat ref + unat sz < 2 ^ 32" using assms unat_u32_lt [of "memsz vm"] by simp
  then have "unat (ref + sz) = unat ref + unat sz" by (simp add: unat_word_ariths)
  then have "ref + sz \<le> memsz vm" using assms l by (simp add: word_le_nat_alt)
  moreover have "memory vm \<noteq> []" using assms(2,3) l by (auto simp: word_less_nat_alt)
  then have "\<not> mem_null vm" using assms by (auto simp: vm_wf_def)
  ultimately show ?thesis by (simp add: deref_def mem_ptr_def)
qed

section \<open>The call stack is a stack\<close>

definition frame_at :: "u32 block \<Rightarrow> nat \<Rightarrow> fcall_t \<Rightarrow> bool" where
  "frame_at b i f \<longleftrightarrow> blk_read b (3 * i) = Some (retval f) \<and> blk_read b (3 * i + 1) = Some (args f) \<and>
     blk_read b (3 * i + 2) = Some (ret_address f)"

text \<open>\<open>stack_is p fs\<close>: the call stack of \<open>p\<close> holds the frames \<open>fs\<close>, the innermost first.\<close>

definition stack_is :: "proc_t \<Rightarrow> fcall_t list \<Rightarrow> bool" where
  "stack_is p fs \<longleftrightarrow> unat (cstack_sz p) = length fs \<and> length fs \<le> unat (cstack_alloc p) \<and>
     cstack p \<noteq> Freed \<and> blk_slots (cstack p) = 3 * unat (cstack_alloc p) \<and>
     (\<forall>i < length fs. frame_at (cstack p) i (rev fs ! i))"

definition push_frame :: "fcall_t \<Rightarrow> proc_t \<Rightarrow> proc_t option" where
  "push_frame f p = push_call_stack (retval f) (args f) (ret_address f) p"

text \<open>Room for one more frame, and the three words of it.\<close>

lemma stack_room:
  assumes s: "stack_is p fs" and room: "unat (cstack_alloc p) < 2 ^ 32 - 64"
  shows "\<exists>b al. (if cstack_alloc p < cstack_sz p + 1 then do {
        b \<leftarrow> blk_realloc 4 (12 * unat (cstack_alloc p + FUNC_STACK_ALLOC_SZ)) (cstack p);
        Some (p\<lparr>cstack := b, cstack_alloc := cstack_alloc p + FUNC_STACK_ALLOC_SZ\<rparr>)
      } else Some p) = Some (p\<lparr>cstack := b, cstack_alloc := al\<rparr>) \<and>
    al = (if unat (cstack_alloc p) = length fs then cstack_alloc p + 64 else cstack_alloc p) \<and>
    blk_slots b = 3 * unat al \<and> b \<noteq> Freed \<and> length fs < unat al \<and>
    (\<forall>i < 3 * length fs. blk_read b i = blk_read (cstack p) i)"
proof -
  let ?grow = "cstack_alloc p < cstack_sz p + 1"
  have sz: "unat (cstack_sz p) = length fs" and le: "length fs \<le> unat (cstack_alloc p)"
    and fr: "cstack p \<noteq> Freed" and sl: "blk_slots (cstack p) = 3 * unat (cstack_alloc p)"
    using s by (auto simp: stack_is_def)
  have "unat (cstack_sz p + 1) = length fs + 1" using sz le room by (simp add: unat_word_ariths)
  then have g: "?grow \<longleftrightarrow> unat (cstack_alloc p) = length fs" using le by (auto simp: word_less_nat_alt)
  have a64: "unat (cstack_alloc p + 64) = unat (cstack_alloc p) + 64" using room by (simp add: unat_word_ariths)
  show ?thesis
  proof (cases ?grow)
    case True
    obtain b where b: "blk_realloc 4 (12 * unat (cstack_alloc p + 64)) (cstack p) = Some b"
      using fr by (cases "cstack p") auto
    have "b \<noteq> Freed" using b by (cases "cstack p") auto
    moreover have "blk_read b i = blk_read (cstack p) i" if "i < 3 * length fs" for i
      using that sl le by (intro blk_read_realloc [OF b]) (auto simp: a64)
    ultimately show ?thesis
      using True g b blk_slots_realloc [OF b] a64
      by (intro exI [of _ b] exI [of _ "cstack_alloc p + 64"]) (simp add: FUNC_STACK_ALLOC_SZ_def)
  next
    case False
    then show ?thesis using g sl fr le by (intro exI [of _ "cstack p"] exI [of _ "cstack_alloc p"]) simp
  qed
qed

text \<open>The stack grows by 64 frames when it is full; only the size of the block is bounded.\<close>

lemma push_call_stack_correct:
  assumes s: "stack_is p fs" and room: "unat (cstack_alloc p) < 2 ^ 32 - 64"
  shows "\<exists>p'. push_frame f p = Some p' \<and> stack_is p' (f # fs) \<and> p_iptr p' = p_iptr p \<and>
    cstack_alloc p' = (if unat (cstack_alloc p) = length fs then cstack_alloc p + 64 else cstack_alloc p)"
proof -
  have sz: "unat (cstack_sz p) = length fs" and le: "length fs \<le> unat (cstack_alloc p)"
    and at: "\<And>i. i < length fs \<Longrightarrow> frame_at (cstack p) i (rev fs ! i)"
    using s by (auto simp: stack_is_def)
  have sz1: "unat (cstack_sz p + 1) = length fs + 1" using sz le room by (simp add: unat_word_ariths)
  obtain b al where b: "(if cstack_alloc p < cstack_sz p + 1 then do {
              b \<leftarrow> blk_realloc 4 (12 * unat (cstack_alloc p + FUNC_STACK_ALLOC_SZ)) (cstack p);
              Some (p\<lparr>cstack := b, cstack_alloc := cstack_alloc p + FUNC_STACK_ALLOC_SZ\<rparr>)
            } else Some p) = Some (p\<lparr>cstack := b, cstack_alloc := al\<rparr>)"
    and al: "al = (if unat (cstack_alloc p) = length fs then cstack_alloc p + 64 else cstack_alloc p)" "length fs < unat al"
    and bs: "blk_slots b = 3 * unat al"
    and bat: "\<And>i. i < 3 * length fs \<Longrightarrow> blk_read b i = blk_read (cstack p) i"
    using stack_room [OF s room] by blast
  have room3: "3 * length fs + 3 \<le> blk_slots b" using bs al(2) by simp
  let ?i = "3 * length fs"
  obtain b1 where b1: "blk_write b ?i (retval f) = Some b1"
    using blk_write_Some [of ?i b] room3 by auto
  obtain b2 where b2: "blk_write b1 (?i + 1) (args f) = Some b2"
    using blk_write_Some [of "?i + 1" b1] room3 blk_slots_write [OF b1] by auto
  obtain b3 where b3: "blk_write b2 (?i + 2) (ret_address f) = Some b3"
    using blk_write_Some [of "?i + 2" b2] room3 blk_slots_write [OF b1] blk_slots_write [OF b2] by auto
  note rdw = blk_read_write [OF b1] blk_read_write [OF b2] blk_read_write [OF b3]
  let ?p' = "p\<lparr>cstack := b3, cstack_alloc := al, cstack_sz := cstack_sz p + 1\<rparr>"
  have run: "push_frame f p = Some ?p'"
    unfolding push_frame_def push_call_stack_def Let_def b using b1 b2 b3 sz by simp
  have old: "frame_at b3 i (rev (f # fs) ! i)" if "i < length fs" for i
    using at [OF that] that by (simp add: frame_at_def rdw bat nth_append)
  have new: "frame_at b3 (length fs) f" by (simp add: frame_at_def rdw)
  have "b3 \<noteq> Freed" using b3 by (cases b2) (auto split: if_splits)
  then have "stack_is ?p' (f # fs)"
    using sz1 bs al le room3 old new blk_slots_write [OF b1] blk_slots_write [OF b2]
      blk_slots_write [OF b3]
    by (auto simp: stack_is_def less_Suc_eq nth_append)
  with run al show ?thesis by simp
qed

text \<open>
  Popping returns the address of the innermost frame and keeps the others, unless the block
  is shrunk: that happens only once the stack has been deeper than 64 frames.
\<close>

lemma pop_call_stack_correct:
  assumes s: "stack_is p (f # fs)" and small: "unat (cstack_alloc p) < length fs + 96"
  shows "\<exists>p'. pop_call_stack p = Some (ret_address f, p') \<and> stack_is p' fs \<and>
    p_iptr p' = p_iptr p \<and> cstack_alloc p' = cstack_alloc p"
proof -
  have sz: "unat (cstack_sz p) = Suc (length fs)" and le: "Suc (length fs) \<le> unat (cstack_alloc p)"
    and at: "\<And>i. i \<le> length fs \<Longrightarrow> frame_at (cstack p) i ((rev fs @ [f]) ! i)"
    using s by (auto simp: stack_is_def)
  have sz1: "unat (cstack_sz p - 1) = length fs"
  proof -
    have "cstack_sz p \<noteq> 0" using sz by auto
    then show ?thesis using sz by (simp add: unat_minus_one)
  qed
  have "cstack_sz p - 1 \<le> cstack_alloc p" using sz1 le by (simp add: word_le_nat_alt)
  then have "unat (cstack_alloc p - (cstack_sz p - 1)) = unat (cstack_alloc p) - length fs"
    using sz1 by (simp add: unat_sub)
  then have ns: "\<not> cstack_alloc p - (cstack_sz p - 1) \<ge> STACK_FREE_THRESHOLD"
    using small by (simp add: word_le_nat_alt STACK_FREE_THRESHOLD_def)
  have "frame_at (cstack p) (length fs) f" using at [of "length fs"] by (simp add: nth_append)
  then have rd: "blk_read (cstack p) (3 * length fs + 2) = Some (ret_address f)"
    by (simp add: frame_at_def)
  have "frame_at (cstack p) i (rev fs ! i)" if "i < length fs" for i
    using at [of i] that by (simp add: nth_append)
  then have "stack_is (p\<lparr>cstack_sz := cstack_sz p - 1\<rparr>) fs"
    using s sz1 by (simp add: stack_is_def)
  then show ?thesis using rd ns sz1 by (simp add: pop_call_stack_def Let_def)
qed

section \<open>Stacks of bounded depth\<close>

fun push_all :: "('f \<Rightarrow> 's \<Rightarrow> 's option) \<Rightarrow> 'f list \<Rightarrow> 's \<Rightarrow> 's option" where
  "push_all push [] s = Some s"
| "push_all push (f # fs) s = do { s \<leftarrow> push f s; push_all push fs s }"

fun pop_all :: "('s \<Rightarrow> ('a \<times> 's) option) \<Rightarrow> nat \<Rightarrow> 's \<Rightarrow> ('a list \<times> 's) option" where
  "pop_all pop 0 s = Some ([], s)"
| "pop_all pop (Suc n) s = do {
     (x, s) \<leftarrow> pop s;
     (xs, s) \<leftarrow> pop_all pop n s;
     Some (x # xs, s)
   }"

text \<open>What calls and returns need of a stack that is defined up to a depth.\<close>

locale lifo =
  fixes rep :: "'s \<Rightarrow> 'f list \<Rightarrow> bool"
    and push :: "'f \<Rightarrow> 's \<Rightarrow> 's option"
    and pop :: "'s \<Rightarrow> ('a \<times> 's) option"
    and view :: "'f \<Rightarrow> 'a"
    and cap :: nat
  assumes push_law: "rep s fs \<Longrightarrow> length fs < cap \<Longrightarrow> \<exists>s'. push f s = Some s' \<and> rep s' (f # fs)"
    and pop_law: "rep s (f # fs) \<Longrightarrow> length fs < cap \<Longrightarrow> \<exists>s'. pop s = Some (view f, s') \<and> rep s' fs"
begin

lemma push_all_rep:
  "rep s gs \<Longrightarrow> length fs + length gs \<le> cap \<Longrightarrow> \<exists>s'. push_all push fs s = Some s' \<and> rep s' (rev fs @ gs)"
proof (induction fs arbitrary: s gs)
  case Nil
  then show ?case by simp
next
  case (Cons f fs)
  then obtain s' where s': "push f s = Some s'" "rep s' (f # gs)" using push_law by fastforce
  with Cons.IH [of s' "f # gs"] Cons.prems show ?case by auto
qed

lemma pop_all_rep:
  "rep s (fs @ gs) \<Longrightarrow> length fs + length gs \<le> cap \<Longrightarrow>
     \<exists>s'. pop_all pop (length fs) s = Some (map view fs, s') \<and> rep s' gs"
proof (induction fs arbitrary: s)
  case Nil
  then show ?case by simp
next
  case (Cons f fs)
  then obtain s' where s': "pop s = Some (view f, s')" "rep s' (fs @ gs)"
    using pop_law [of s f "fs @ gs"] by fastforce
  with Cons.IH [of s'] Cons.prems show ?case by auto
qed

lemma nested:
  assumes "rep s gs" "length fs + length gs \<le> cap"
  shows "\<exists>s1 s2. push_all push fs s = Some s1 \<and> rep s1 (rev fs @ gs) \<and>
    pop_all pop (length fs) s1 = Some (map view (rev fs), s2) \<and> rep s2 gs"
  using push_all_rep [OF assms] pop_all_rep [of _ "rev fs" gs] assms(2) by fastforce

end

definition shallow_stack :: "proc_t \<Rightarrow> fcall_t list \<Rightarrow> bool" where
  "shallow_stack p fs \<longleftrightarrow> stack_is p fs \<and> (cstack_alloc p = 0 \<or> cstack_alloc p = 64)"

interpretation call_stack: lifo shallow_stack push_frame pop_call_stack ret_address 64
proof
  fix p fs and f :: fcall_t
  assume r: "shallow_stack p fs" and l: "length fs < 64"
  then have a: "unat (cstack_alloc p) < 2 ^ 32 - 64" by (auto simp: shallow_stack_def)
  from r l push_call_stack_correct [OF _ a, of fs f]
  show "\<exists>p'. push_frame f p = Some p' \<and> shallow_stack p' (f # fs)"
    by (auto simp: shallow_stack_def)
next
  fix p fs and f :: fcall_t
  assume r: "shallow_stack p (f # fs)" and l: "length fs < 64"
  then have a: "unat (cstack_alloc p) < length fs + 96" by (auto simp: shallow_stack_def)
  from r pop_call_stack_correct [OF _ a, of f]
  show "\<exists>p'. pop_call_stack p = Some (ret_address f, p') \<and> shallow_stack p' fs"
    by (auto simp: shallow_stack_def)
qed

definition fresh_proc :: "u32 \<Rightarrow> proc_t" where
  "fresh_proc ip = \<lparr>p_iptr = ip, cstack = Null, cstack_sz = 0, cstack_alloc = 0\<rparr>"

lemma shallow_fresh: "shallow_stack (fresh_proc ip) []"
  by (simp add: shallow_stack_def stack_is_def fresh_proc_def)

text \<open>
  C30. Nested calls and returns: up to 64 frames pushed on the call stack of a new procedure are
  popped in the opposite order, each with its return address, and leave it empty.
\<close>

lemma call_stack_lifo:
  assumes "length fs \<le> 64"
  shows "\<exists>p1 p2. push_all push_frame fs (fresh_proc ip) = Some p1 \<and> shallow_stack p1 (rev fs) \<and>
    pop_all pop_call_stack (length fs) p1 = Some (map ret_address (rev fs), p2) \<and> shallow_stack p2 []"
  using call_stack.nested [OF shallow_fresh, of fs ip] assms by simp

lemma call_stack_lifo_witness:
  "\<exists>p1 p2. push_all push_frame
       [\<lparr>retval = 1, args = 2, ret_address = 3\<rparr>, \<lparr>retval = 4, args = 5, ret_address = 6\<rparr>] (fresh_proc 9) = Some p1 \<and>
     pop_all pop_call_stack 2 p1 = Some ([6, 3], p2)"
  using call_stack_lifo [of "[\<lparr>retval = 1, args = 2, ret_address = 3\<rparr>, \<lparr>retval = 4, args = 5, ret_address = 6\<rparr>]" 9]
  by (auto simp: numeral_2_eq_2)

text \<open>
  The shrinking of the call stack passes a number of frames where \<open>realloc\<close> takes bytes:
  the pop that leaves 96 unused frames loses the block under the frames still in use, so the
  next pop reads outside it.
\<close>

lemma pop_shrink_corrupts:
  assumes s: "stack_is p (f # fs)" and th: "unat (cstack_alloc p) = length fs + 96" and l: "4 \<le> length fs"
  shows "\<exists>p'. pop_call_stack p = Some (ret_address f, p') \<and> pop_call_stack p' = None"
proof -
  have sz: "unat (cstack_sz p) = Suc (length fs)" and le: "Suc (length fs) \<le> unat (cstack_alloc p)"
    and fr: "cstack p \<noteq> Freed" and at: "frame_at (cstack p) (length fs) f"
    using s by (auto simp: stack_is_def nth_append dest: spec [of _ "length fs"])
  have "cstack_sz p \<noteq> 0" using sz by auto
  then have sz1: "unat (cstack_sz p - 1) = length fs" using sz by (simp add: unat_minus_one)
  have "cstack_sz p - 1 \<noteq> 0" using sz1 l by auto
  then have sz2: "unat (cstack_sz p - 1 - 1) = length fs - 1"
    using sz1 unat_minus_one [of "cstack_sz p - 1"] by simp
  have "cstack_sz p - 1 \<le> cstack_alloc p" using sz1 le by (simp add: word_le_nat_alt)
  then have "unat (cstack_alloc p - (cstack_sz p - 1)) = 96" using sz1 th by (simp add: unat_sub)
  then have sh: "cstack_alloc p - (cstack_sz p - 1) \<ge> STACK_FREE_THRESHOLD"
    by (simp add: word_le_nat_alt STACK_FREE_THRESHOLD_def)
  have "(64 :: u32) \<le> cstack_alloc p" using th by (simp add: word_le_nat_alt)
  then have al: "unat (cstack_alloc p - 64) = length fs + 32" using th by (simp add: unat_sub)
  obtain b where b: "blk_realloc 4 (unat (cstack_alloc p - 64)) (cstack p) = Some b"
    using fr by (cases "cstack p") auto
  let ?p' = "p\<lparr>cstack_sz := cstack_sz p - 1, cstack := b, cstack_alloc := cstack_alloc p - 64\<rparr>"
  have "blk_read (cstack p) (3 * length fs + 2) = Some (ret_address f)" using at by (simp add: frame_at_def)
  then have run: "pop_call_stack p = Some (ret_address f, ?p')"
    using sz1 sh b by (simp add: pop_call_stack_def Let_def FUNC_STACK_ALLOC_SZ_def)
  have "blk_slots b = (length fs + 32) div 4" using blk_slots_realloc [OF b] al by simp
  then have "blk_slots b \<le> 3 * (length fs - 1) + 2" using l by simp
  then have "blk_read b (3 * (length fs - 1) + 2) = None"
    using blk_read_bound [of b "3 * (length fs - 1) + 2"] by (cases "blk_read b (3 * (length fs - 1) + 2)") auto
  then have "pop_call_stack ?p' = None" using sz2 by (simp add: pop_call_stack_def Let_def)
  with run show ?thesis by blast
qed

definition deep_proc :: proc_t where
  "deep_proc = \<lparr>p_iptr = 0, cstack = Slots (replicate 384 (Some 7)), cstack_sz = 33, cstack_alloc = 128\<rparr>"

lemma pop_shrink_corrupts_witness:
  "\<exists>p'. pop_call_stack deep_proc = Some (7, p') \<and> pop_call_stack p' = None"
proof -
  let ?f = "\<lparr>retval = 7, args = 7, ret_address = 7\<rparr> :: fcall_t"
  have "stack_is deep_proc (?f # replicate 32 ?f)"
    unfolding stack_is_def deep_proc_def frame_at_def
    by (auto simp: nth_append)
  then show ?thesis using pop_shrink_corrupts [of deep_proc ?f "replicate 32 ?f"] by (simp add: deep_proc_def)
qed

end
