(* ===== verification/Bytecode.thy ===== *)
theory Bytecode
  imports VmState InstnDefs
begin

text \<open>
  Instructions in memory (\<open>instns/instn.h\<close>, \<open>instn_impl.h\<close>) and their decoding from the
  code (\<open>decode_instn\<close> of \<open>bytecode.c\<close>).
\<close>

section \<open>Decoded instructions\<close>

text \<open>
  The union of an operand: an immediate value, zero-extended as \<open>decode_instn\<close> stores it,
  a pointer into the memory, or what an earlier instruction or the stack left there.
\<close>

datatype arg = Junk | Imm u64 | Ref nat

record instn_t =
  icode :: u16
  arg_sizes :: u8
  iargs :: "arg list"

definition is_imm :: "instn_t \<Rightarrow> nat \<Rightarrow> bool" where
  "is_imm instn i = bit (icode instn) i"

definition imm_bytes :: "instn_t \<Rightarrow> nat \<Rightarrow> nat" where
  "imm_bytes instn i = 2 ^ unat (drop_bit (2 * i) (arg_sizes instn) AND 3)"

definition arg_ptr :: "instn_t \<Rightarrow> nat \<Rightarrow> nat option" where
  "arg_ptr instn i = (case iargs instn ! i of Ref p \<Rightarrow> Some p | _ \<Rightarrow> None)"

definition arg_value :: "instn_t \<Rightarrow> nat \<Rightarrow> 'w vm_t \<Rightarrow> u64 option" where
  "arg_value instn i vm =
     (if is_imm instn i then
        (case iargs instn ! i of
           Imm v \<Rightarrow> Some (take_bit (8 * imm_bytes instn i) v)
         | _ \<Rightarrow> None)
      else do { p \<leftarrow> arg_ptr instn i; rd64 p vm })"

section \<open>Decoding\<close>

text \<open>
  \<open>bound < iptr + n\<close> with \<open>bound\<close> the end of the code; the code pointer is the offset
  \<open>at\<close>.
\<close>

definition past_bound :: "nat \<Rightarrow> nat \<Rightarrow> 'w vm_t \<Rightarrow> bool" where
  "past_bound at n vm \<longleftrightarrow> unat (codesz vm) < at + n"

definition bad_instn_ptr :: "instn_t \<Rightarrow> 'w vm_t \<Rightarrow> int \<times> instn_t \<times> 'w vm_t" where
  "bad_instn_ptr instn vm = (- 1, instn, raise VM_E_BadInstnPointer vm)"

definition set_arg :: "nat \<Rightarrow> arg \<Rightarrow> instn_t \<Rightarrow> instn_t" where
  "set_arg i a instn = instn\<lparr>iargs := (iargs instn)[i := a]\<rparr>"

text \<open>One turn of the operand loop: the next offset, or the return value \<open>- 1\<close>.\<close>

definition decode_arg ::
  "nat \<Rightarrow> nat \<Rightarrow> nat \<Rightarrow> instn_t \<Rightarrow> 'w vm_t \<Rightarrow> (int \<times> instn_t \<times> 'w vm_t) option" where
  "decode_arg at i offset instn vm =
     (let instn = set_arg i (Imm 0) instn in
      if is_imm instn i then
        (let n_bytes = imm_bytes instn i in
         if past_bound at n_bytes vm then Some (bad_instn_ptr instn vm)
         else do {
           v \<leftarrow> load n_bytes (code vm) (at + offset);
           Some (int (offset + n_bytes), set_arg i (Imm (of_nat v)) instn, vm)
         })
      else if past_bound at 4 vm then Some (bad_instn_ptr instn vm)
      else do {
        ref \<leftarrow> load 4 (code vm) (at + offset);
        case deref_mem_ptr (of_nat ref) 4 vm of
          (None, vm) \<Rightarrow> Some (- 1, instn, vm)
        | (Some p, vm) \<Rightarrow> Some (int (offset + 4), set_arg i (Ref p) instn, vm)
      })"

fun decode_args ::
  "nat \<Rightarrow> nat \<Rightarrow> nat \<Rightarrow> nat \<Rightarrow> instn_t \<Rightarrow> 'w vm_t \<Rightarrow> (int \<times> instn_t \<times> 'w vm_t) option" where
  "decode_args at 0 i offset instn vm = Some (int offset, instn, vm)"
| "decode_args at (Suc n) i offset instn vm = do {
     (r, instn, vm) \<leftarrow> decode_arg at i offset instn vm;
     if r < 0 then Some (r, instn, vm) else decode_args at n (i + 1) (nat r) instn vm
   }"

text \<open>
  The sentinel that ends the table has no operands. The index is truncated to eight bits.
\<close>

definition arg_count_at :: "instn_def_t list \<Rightarrow> nat \<Rightarrow> nat option" where
  "arg_count_at defs idx =
     (if idx < nInstnDefs defs then Some (arg_count (defs ! idx))
      else if idx = nInstnDefs defs then Some 0 else None)"

definition decode_instn ::
  "instn_def_t list \<Rightarrow> nat \<Rightarrow> instn_t \<Rightarrow> 'w vm_t \<Rightarrow> (int \<times> instn_t \<times> 'w vm_t) option" where
  "decode_instn defs at instn vm =
     (if past_bound at 2 vm then Some (bad_instn_ptr instn vm)
      else do {
        w \<leftarrow> load 2 (code vm) at;
        let c = (of_nat w :: u16);
        let instn_idx = unat (ucast (drop_bit 3 c) :: u8);
        if instn_idx > nInstnDefs defs then Some (- 1, instn, raise VM_E_BadInstnCode vm)
        else do {
          let instn = instn\<lparr>icode := c\<rparr>;
          n \<leftarrow> arg_count_at defs instn_idx;
          if c AND 7 \<noteq> 0 then
            if past_bound at 1 vm then Some (bad_instn_ptr instn vm)
            else do {
              s \<leftarrow> load 1 (code vm) (at + 2);
              decode_args at n 0 3 (instn\<lparr>arg_sizes := of_nat s\<rparr>) vm
            }
          else decode_args at n 0 2 instn vm
        }
      })"

definition no_instn :: instn_t where
  "no_instn = \<lparr>icode = 0, arg_sizes = 0, iargs = [Junk, Junk, Junk]\<rparr>"

section \<open>What decoding leaves alone\<close>

definition same_but_exceptions :: "'w vm_t \<Rightarrow> 'w vm_t \<Rightarrow> bool" where
  "same_but_exceptions vm vm' \<longleftrightarrow> (\<exists>e. vm' = vm\<lparr>exceptions := e\<rparr>)"

lemma same_but_exceptions_refl [simp]: "same_but_exceptions vm vm"
proof -
  have "vm = vm\<lparr>exceptions := exceptions vm\<rparr>" by simp
  then show ?thesis unfolding same_but_exceptions_def by blast
qed

lemma same_but_exceptions_raise [simp]: "same_but_exceptions vm (raise e vm)"
  by (auto simp: same_but_exceptions_def raise_def)

lemma deref_mem_ptr_exc: "same_but_exceptions vm (snd (deref_mem_ptr ref sz vm))"
  by (simp add: deref_mem_ptr_def)

lemma decode_arg_imm:
  "is_imm instn i \<Longrightarrow> decode_arg at i offset instn vm =
     (if past_bound at (imm_bytes instn i) vm then Some (bad_instn_ptr (set_arg i (Imm 0) instn) vm)
      else map_option (\<lambda>v. (int (offset + imm_bytes instn i), set_arg i (Imm (of_nat v)) instn, vm))
             (load (imm_bytes instn i) (code vm) (at + offset)))"
  by (cases "load (imm_bytes instn i) (code vm) (at + offset)")
    (simp_all add: decode_arg_def Let_def is_imm_def imm_bytes_def set_arg_def)

lemma decode_arg_ref:
  "\<not> is_imm instn i \<Longrightarrow> decode_arg at i offset instn vm =
     (if past_bound at 4 vm then Some (bad_instn_ptr (set_arg i (Imm 0) instn) vm)
      else map_option (\<lambda>ref. case deref_mem_ptr (of_nat ref) 4 vm of
             (None, vm) \<Rightarrow> (- 1, set_arg i (Imm 0) instn, vm)
           | (Some p, vm) \<Rightarrow> (int (offset + 4), set_arg i (Ref p) instn, vm))
             (load 4 (code vm) (at + offset)))"
  by (cases "load 4 (code vm) (at + offset)")
    (simp_all add: decode_arg_def Let_def is_imm_def imm_bytes_def set_arg_def
      split: option.split prod.split)

lemma decode_arg_frame:
  assumes "decode_arg at i offset instn vm = Some (r, instn', vm')"
  shows "same_but_exceptions vm vm' \<and> (0 \<le> r \<longrightarrow> vm' = vm) \<and> icode instn' = icode instn \<and>
    arg_sizes instn' = arg_sizes instn \<and> length (iargs instn') = length (iargs instn)"
proof (cases "is_imm instn i")
  case True
  with assms show ?thesis
    by (cases "past_bound at (imm_bytes instn i) vm")
      (auto simp: decode_arg_imm bad_instn_ptr_def set_arg_def)
next
  case False
  show ?thesis
  proof (cases "past_bound at 4 vm")
    case True
    with assms False show ?thesis by (auto simp: decode_arg_ref bad_instn_ptr_def set_arg_def)
  next
    case bound: False
    obtain ref where ref: "(case deref_mem_ptr (of_nat ref) 4 vm of
             (None, vm) \<Rightarrow> (- 1, set_arg i (Imm 0) instn, vm)
           | (Some p, vm) \<Rightarrow> (int (offset + 4), set_arg i (Ref p) instn, vm)) = (r, instn', vm')"
      using assms False bound by (auto simp: decode_arg_ref)
    obtain q v where d: "deref_mem_ptr (of_nat ref) 4 vm = (q, v)" by fastforce
    have "same_but_exceptions vm v" using deref_mem_ptr_exc [of vm "of_nat ref" 4] d by simp
    with ref d show ?thesis
      by (cases q) (auto simp: set_arg_def deref_mem_ptr_Some)
  qed
qed

lemma decode_args_frame:
  "decode_args at n i offset instn vm = Some (r, instn', vm') \<Longrightarrow>
     same_but_exceptions vm vm' \<and> (0 \<le> r \<longrightarrow> vm' = vm) \<and> icode instn' = icode instn \<and>
     length (iargs instn') = length (iargs instn)"
proof (induction n arbitrary: i offset instn vm)
  case 0
  then show ?case by simp
next
  case (Suc n)
  then obtain r1 i1 v1 where 1: "decode_arg at i offset instn vm = Some (r1, i1, v1)"
    and 2: "(if r1 < 0 then Some (r1, i1, v1) else decode_args at n (i + 1) (nat r1) i1 v1) = Some (r, instn', vm')"
    by auto
  note f = decode_arg_frame [OF 1]
  show ?case
  proof (cases "r1 < 0")
    case True
    with 2 f show ?thesis by auto
  next
    case False
    with 2 have "decode_args at n (i + 1) (nat r1) i1 v1 = Some (r, instn', vm')" by simp
    from Suc.IH [OF this] f False show ?thesis by auto
  qed
qed

lemma decode_instn_same:
  assumes d: "decode_instn defs at instn vm = Some (r, instn', vm')"
  shows "same_but_exceptions vm vm' \<and> (0 \<le> r \<longrightarrow> vm' = vm)"
proof (cases "past_bound at 2 vm")
  case True
  with d show ?thesis by (auto simp: decode_instn_def bad_instn_ptr_def)
next
  case False
  then obtain w where w: "load 2 (code vm) at = Some w" using d by (auto simp: decode_instn_def)
  let ?c = "of_nat w :: u16"
  let ?idx = "unat (ucast (drop_bit 3 ?c) :: u8)"
  show ?thesis
  proof (cases "?idx > nInstnDefs defs")
    case True
    with d False w show ?thesis by (auto simp: decode_instn_def Let_def)
  next
    case idx: False
    let ?i = "instn\<lparr>icode := ?c\<rparr>"
    obtain n where n: "(if ?c AND 7 \<noteq> 0 then
            if past_bound at 1 vm then Some (bad_instn_ptr ?i vm)
            else do {
              s \<leftarrow> load 1 (code vm) (at + 2);
              decode_args at n 0 3 (?i\<lparr>arg_sizes := of_nat s\<rparr>) vm
            }
          else decode_args at n 0 2 ?i vm) = Some (r, instn', vm')"
      using d False w idx unfolding decode_instn_def Let_def by (auto simp del: bind_eq_None_conv)
    consider "past_bound at 1 vm" "?c AND 7 \<noteq> 0"
      | s where "decode_args at n 0 3 (?i\<lparr>arg_sizes := of_nat s\<rparr>) vm = Some (r, instn', vm')"
      | "decode_args at n 0 2 ?i vm = Some (r, instn', vm')"
      using n by (fastforce split: if_splits)
    then show ?thesis
    proof cases
      case 1
      with n show ?thesis by (auto simp: bad_instn_ptr_def)
    qed (blast dest: decode_args_frame)+
  qed
qed

text \<open>
  Decoding changes nothing of the machine but the exceptions, and not even those when it
  succeeds.
\<close>

lemma decode_instn_frame:
  assumes "decode_instn defs at instn vm = Some (r, instn', vm')"
  shows "same_but_exceptions vm vm' \<and> (0 \<le> r \<longrightarrow> vm' = vm)"
  using assms by (rule decode_instn_same)

lemma decode_instn_frame_witness:
  "\<exists>r i vm'. decode_instn std_defs 0 no_instn (make_vm [0] 1 16 0 ()) = Some (r, i, vm') \<and>
     same_but_exceptions (make_vm [0] 1 16 0 ()) vm' \<and> r = - 1"
proof -
  have d: "decode_instn std_defs 0 no_instn (make_vm [0] 1 16 0 ()) =
      Some (bad_instn_ptr no_instn (make_vm [0] 1 16 0 ()))"
    by (simp add: decode_instn_def past_bound_def make_vm_def make_procedure_def)
  show ?thesis using decode_instn_frame [OF d [unfolded bad_instn_ptr_def]] d by (simp add: bad_instn_ptr_def)
qed

end
