(* ===== verification/InstnOps.thy ===== *)
theory InstnOps
  imports Bytecode
begin

text \<open>
  The handlers of \<open>instns/instn_impl_arith.c\<close>, \<open>instn_impl_bitw.c\<close>, \<open>instn_impl_rel.c\<close>,
  \<open>instn_impl_logc.c\<close> and \<open>instn_impl_misc.c\<close>, each a function of the decoded instruction
  and the machine to the C return value (\<open>0\<close>, or \<open>- 1\<close> to stop the machine) and the new
  machine. All operands are 64 bits wide and unsigned.
\<close>

section \<open>The shapes of the handlers\<close>

text \<open>\<open>lref64(instn->args[0].ptr) = v; return 0;\<close>\<close>

definition store_result :: "instn_t \<Rightarrow> u64 \<Rightarrow> 'w vm_t \<Rightarrow> (int \<times> 'w vm_t) option" where
  "store_result instn v vm = do {
     p \<leftarrow> arg_ptr instn 0;
     vm \<leftarrow> wr64 p v vm;
     Some (0, vm)
   }"

text \<open>
  The result is a function of operands 1 and 2 (\<open>op3\<close>), of the old content of the
  destination and operand 1 (\<open>op2\<close>), of operand 1 (\<open>op2'\<close>) or of the destination alone
  (\<open>op1\<close>).
\<close>

definition op3 :: "(u64 \<Rightarrow> u64 \<Rightarrow> u64 option) \<Rightarrow> instn_t \<Rightarrow> 'w vm_t \<Rightarrow> (int \<times> 'w vm_t) option" where
  "op3 f instn vm = do {
     a \<leftarrow> arg_value instn 1 vm;
     b \<leftarrow> arg_value instn 2 vm;
     v \<leftarrow> f a b;
     store_result instn v vm
   }"

definition op2 :: "(u64 \<Rightarrow> u64 \<Rightarrow> u64 option) \<Rightarrow> instn_t \<Rightarrow> 'w vm_t \<Rightarrow> (int \<times> 'w vm_t) option" where
  "op2 f instn vm = do {
     p \<leftarrow> arg_ptr instn 0;
     a \<leftarrow> rd64 p vm;
     b \<leftarrow> arg_value instn 1 vm;
     v \<leftarrow> f a b;
     store_result instn v vm
   }"

definition op2' :: "(u64 \<Rightarrow> u64) \<Rightarrow> instn_t \<Rightarrow> 'w vm_t \<Rightarrow> (int \<times> 'w vm_t) option" where
  "op2' f instn vm = do {
     a \<leftarrow> arg_value instn 1 vm;
     store_result instn (f a) vm
   }"

definition op1 :: "(u64 \<Rightarrow> u64) \<Rightarrow> instn_t \<Rightarrow> 'w vm_t \<Rightarrow> (int \<times> 'w vm_t) option" where
  "op1 f instn vm = do {
     p \<leftarrow> arg_ptr instn 0;
     a \<leftarrow> rd64 p vm;
     store_result instn (f a) vm
   }"

definition total :: "(u64 \<Rightarrow> u64 \<Rightarrow> u64) \<Rightarrow> u64 \<Rightarrow> u64 \<Rightarrow> u64 option" where
  "total f a b = Some (f a b)"

definition of_bool64 :: "bool \<Rightarrow> u64" where
  "of_bool64 b = (if b then 1 else 0)"

section \<open>Arithmetic\<close>

definition op_add_3 :: "instn_t \<Rightarrow> 'w vm_t \<Rightarrow> (int \<times> 'w vm_t) option" where
  "op_add_3 = op3 (total (+))"

definition op_add_2 :: "instn_t \<Rightarrow> 'w vm_t \<Rightarrow> (int \<times> 'w vm_t) option" where
  "op_add_2 = op2 (total (+))"

definition op_sub_3 :: "instn_t \<Rightarrow> 'w vm_t \<Rightarrow> (int \<times> 'w vm_t) option" where
  "op_sub_3 = op3 (total (-))"

definition op_sub_2 :: "instn_t \<Rightarrow> 'w vm_t \<Rightarrow> (int \<times> 'w vm_t) option" where
  "op_sub_2 = op2 (total (-))"

definition op_mul_3 :: "instn_t \<Rightarrow> 'w vm_t \<Rightarrow> (int \<times> 'w vm_t) option" where
  "op_mul_3 = op3 (total (*))"

definition op_mul_2 :: "instn_t \<Rightarrow> 'w vm_t \<Rightarrow> (int \<times> 'w vm_t) option" where
  "op_mul_2 = op2 (total (*))"

text \<open>The divisor is read and tested before anything else.\<close>

definition guard_divisor ::
  "nat \<Rightarrow> (instn_t \<Rightarrow> 'w vm_t \<Rightarrow> (int \<times> 'w vm_t) option) \<Rightarrow> instn_t \<Rightarrow> 'w vm_t \<Rightarrow> (int \<times> 'w vm_t) option" where
  "guard_divisor i op instn vm = do {
     divisor \<leftarrow> arg_value instn i vm;
     if divisor = 0 then Some (- 1, raise VM_E_Arithmetic vm) else op instn vm
   }"

definition op_div_3 :: "instn_t \<Rightarrow> 'w vm_t \<Rightarrow> (int \<times> 'w vm_t) option" where
  "op_div_3 = guard_divisor 2 (op3 (total (div)))"

definition op_div_2 :: "instn_t \<Rightarrow> 'w vm_t \<Rightarrow> (int \<times> 'w vm_t) option" where
  "op_div_2 = guard_divisor 1 (op2 (total (div)))"

definition op_mod_3 :: "instn_t \<Rightarrow> 'w vm_t \<Rightarrow> (int \<times> 'w vm_t) option" where
  "op_mod_3 = guard_divisor 2 (op3 (total (mod)))"

definition op_mod_2 :: "instn_t \<Rightarrow> 'w vm_t \<Rightarrow> (int \<times> 'w vm_t) option" where
  "op_mod_2 = guard_divisor 1 (op2 (total (mod)))"

section \<open>Bitwise\<close>

text \<open>C leaves a shift by the width or more undefined.\<close>

definition shl64 :: "u64 \<Rightarrow> u64 \<Rightarrow> u64 option" where
  "shl64 a b = (if b < 64 then Some (push_bit (unat b) a) else None)"

definition shr64 :: "u64 \<Rightarrow> u64 \<Rightarrow> u64 option" where
  "shr64 a b = (if b < 64 then Some (drop_bit (unat b) a) else None)"

definition op_and_3 :: "instn_t \<Rightarrow> 'w vm_t \<Rightarrow> (int \<times> 'w vm_t) option" where
  "op_and_3 = op3 (total (AND))"

definition op_and_2 :: "instn_t \<Rightarrow> 'w vm_t \<Rightarrow> (int \<times> 'w vm_t) option" where
  "op_and_2 = op2 (total (AND))"

definition op_or_3 :: "instn_t \<Rightarrow> 'w vm_t \<Rightarrow> (int \<times> 'w vm_t) option" where
  "op_or_3 = op3 (total (OR))"

definition op_or_2 :: "instn_t \<Rightarrow> 'w vm_t \<Rightarrow> (int \<times> 'w vm_t) option" where
  "op_or_2 = op2 (total (OR))"

definition op_xor_3 :: "instn_t \<Rightarrow> 'w vm_t \<Rightarrow> (int \<times> 'w vm_t) option" where
  "op_xor_3 = op3 (total (XOR))"

definition op_xor_2 :: "instn_t \<Rightarrow> 'w vm_t \<Rightarrow> (int \<times> 'w vm_t) option" where
  "op_xor_2 = op2 (total (XOR))"

definition op_not_2 :: "instn_t \<Rightarrow> 'w vm_t \<Rightarrow> (int \<times> 'w vm_t) option" where
  "op_not_2 = op2' (\<lambda>a. NOT a)"

text \<open>\<open>op_not_1\<close> assigns the destination to itself.\<close>

definition op_not_1 :: "instn_t \<Rightarrow> 'w vm_t \<Rightarrow> (int \<times> 'w vm_t) option" where
  "op_not_1 = op1 (\<lambda>a. a)"

definition op_shl_3 :: "instn_t \<Rightarrow> 'w vm_t \<Rightarrow> (int \<times> 'w vm_t) option" where
  "op_shl_3 = op3 shl64"

definition op_shl_2 :: "instn_t \<Rightarrow> 'w vm_t \<Rightarrow> (int \<times> 'w vm_t) option" where
  "op_shl_2 = op2 shl64"

definition op_shr_3 :: "instn_t \<Rightarrow> 'w vm_t \<Rightarrow> (int \<times> 'w vm_t) option" where
  "op_shr_3 = op3 shr64"

definition op_shr_2 :: "instn_t \<Rightarrow> 'w vm_t \<Rightarrow> (int \<times> 'w vm_t) option" where
  "op_shr_2 = op2 shr64"

section \<open>Relational\<close>

definition op_eq_3 :: "instn_t \<Rightarrow> 'w vm_t \<Rightarrow> (int \<times> 'w vm_t) option" where
  "op_eq_3 = op3 (total (\<lambda>a b. of_bool64 (a = b)))"

definition op_ne_3 :: "instn_t \<Rightarrow> 'w vm_t \<Rightarrow> (int \<times> 'w vm_t) option" where
  "op_ne_3 = op3 (total (\<lambda>a b. of_bool64 (a \<noteq> b)))"

definition op_gt_3 :: "instn_t \<Rightarrow> 'w vm_t \<Rightarrow> (int \<times> 'w vm_t) option" where
  "op_gt_3 = op3 (total (\<lambda>a b. of_bool64 (a > b)))"

definition op_lt_3 :: "instn_t \<Rightarrow> 'w vm_t \<Rightarrow> (int \<times> 'w vm_t) option" where
  "op_lt_3 = op3 (total (\<lambda>a b. of_bool64 (a < b)))"

definition op_ge_3 :: "instn_t \<Rightarrow> 'w vm_t \<Rightarrow> (int \<times> 'w vm_t) option" where
  "op_ge_3 = op3 (total (\<lambda>a b. of_bool64 (a \<ge> b)))"

definition op_le_3 :: "instn_t \<Rightarrow> 'w vm_t \<Rightarrow> (int \<times> 'w vm_t) option" where
  "op_le_3 = op3 (total (\<lambda>a b. of_bool64 (a \<le> b)))"

section \<open>Logical\<close>

text \<open>
  \<open>&&\<close> and \<open>||\<close> do not read operand 2 when operand 1 decides. A read has no effect, but an
  operand that cannot be read matters only where it is read.
\<close>

definition short_circuit ::
  "bool \<Rightarrow> u64 \<Rightarrow> (unit \<Rightarrow> u64 option) \<Rightarrow> u64 option" where
  "short_circuit stop a b =
     (if (a \<noteq> 0) = stop then Some (of_bool64 stop) else map_option (\<lambda>v. of_bool64 (v \<noteq> 0)) (b ()))"

definition logic3 :: "bool \<Rightarrow> instn_t \<Rightarrow> 'w vm_t \<Rightarrow> (int \<times> 'w vm_t) option" where
  "logic3 stop instn vm = do {
     a \<leftarrow> arg_value instn 1 vm;
     v \<leftarrow> short_circuit stop a (\<lambda>_. arg_value instn 2 vm);
     store_result instn v vm
   }"

definition logic2 :: "bool \<Rightarrow> instn_t \<Rightarrow> 'w vm_t \<Rightarrow> (int \<times> 'w vm_t) option" where
  "logic2 stop instn vm = do {
     p \<leftarrow> arg_ptr instn 0;
     a \<leftarrow> rd64 p vm;
     v \<leftarrow> short_circuit stop a (\<lambda>_. arg_value instn 1 vm);
     store_result instn v vm
   }"

definition op_l_and_3 :: "instn_t \<Rightarrow> 'w vm_t \<Rightarrow> (int \<times> 'w vm_t) option" where
  "op_l_and_3 = logic3 False"

definition op_l_and_2 :: "instn_t \<Rightarrow> 'w vm_t \<Rightarrow> (int \<times> 'w vm_t) option" where
  "op_l_and_2 = logic2 False"

definition op_l_or_3 :: "instn_t \<Rightarrow> 'w vm_t \<Rightarrow> (int \<times> 'w vm_t) option" where
  "op_l_or_3 = logic3 True"

definition op_l_or_2 :: "instn_t \<Rightarrow> 'w vm_t \<Rightarrow> (int \<times> 'w vm_t) option" where
  "op_l_or_2 = logic2 True"

definition op_l_not_2 :: "instn_t \<Rightarrow> 'w vm_t \<Rightarrow> (int \<times> 'w vm_t) option" where
  "op_l_not_2 = op2' (\<lambda>a. of_bool64 (a = 0))"

definition op_l_not_1 :: "instn_t \<Rightarrow> 'w vm_t \<Rightarrow> (int \<times> 'w vm_t) option" where
  "op_l_not_1 = op1 (\<lambda>a. of_bool64 (a = 0))"

definition op_l_bool_2 :: "instn_t \<Rightarrow> 'w vm_t \<Rightarrow> (int \<times> 'w vm_t) option" where
  "op_l_bool_2 = op2' (\<lambda>a. of_bool64 (a \<noteq> 0))"

definition op_l_bool_1 :: "instn_t \<Rightarrow> 'w vm_t \<Rightarrow> (int \<times> 'w vm_t) option" where
  "op_l_bool_1 = op1 (\<lambda>a. of_bool64 (a \<noteq> 0))"

section \<open>Copies, reads, writes and aborts\<close>

definition op_nop_0 :: "instn_t \<Rightarrow> 'w vm_t \<Rightarrow> (int \<times> 'w vm_t) option" where
  "op_nop_0 instn vm = Some (0, vm)"

definition op_assert_2 :: "instn_t \<Rightarrow> 'w vm_t \<Rightarrow> (int \<times> 'w vm_t) option" where
  "op_assert_2 instn vm = do {
     c \<leftarrow> arg_value instn 1 vm;
     if c \<noteq> 0 then do {
       a \<leftarrow> arg_value instn 0 vm;
       Some (- 1, raise VM_E_AssertFailed (vm\<lparr>assert_id := a\<rparr>))
     } else Some (0, vm)
   }"

definition op_abrt_1 :: "instn_t \<Rightarrow> 'w vm_t \<Rightarrow> (int \<times> 'w vm_t) option" where
  "op_abrt_1 instn vm = do {
     e \<leftarrow> arg_value instn 0 vm;
     Some (- 1, raise (ucast e) vm)
   }"

text \<open>\<open>memcpy\<close> between two ranges of the memory that must not overlap.\<close>

definition memcpy_mem :: "nat \<Rightarrow> nat \<Rightarrow> nat \<Rightarrow> 'w vm_t \<Rightarrow> 'w vm_t option" where
  "memcpy_mem dst src n vm =
     (if src + n \<le> length (memory vm) \<and> (dst + n \<le> src \<or> src + n \<le> dst \<or> n = 0) then
        map_option (\<lambda>m. vm\<lparr>memory := m\<rparr>) (store_bytes (memory vm) dst (take n (drop src (memory vm))))
      else None)"

definition op_cp_3 :: "instn_t \<Rightarrow> 'w vm_t \<Rightarrow> (int \<times> 'w vm_t) option" where
  "op_cp_3 instn vm = do {
     d \<leftarrow> arg_ptr instn 0;
     s \<leftarrow> arg_ptr instn 1;
     n \<leftarrow> arg_value instn 2 vm;
     vm \<leftarrow> memcpy_mem d s (unat n) vm;
     Some (0, vm)
   }"

text \<open>The reads: a reference held in memory, plus an offset of which 32 bits count.\<close>

definition op_read :: "nat \<Rightarrow> instn_t \<Rightarrow> 'w vm_t \<Rightarrow> (int \<times> 'w vm_t) option" where
  "op_read n instn vm = do {
     q \<leftarrow> arg_ptr instn 1;
     ref \<leftarrow> rd32 q vm;
     off \<leftarrow> arg_value instn 2 vm;
     case deref_mem_ptr (ref + ucast off) (of_nat n) vm of
       (None, vm) \<Rightarrow> Some (- 1, vm)
     | (Some mem, vm) \<Rightarrow> do {
         d \<leftarrow> arg_ptr instn 0;
         v \<leftarrow> rd n mem vm;
         vm \<leftarrow> wr n d v vm;
         Some (0, vm)
       }
   }"

definition op_read8_3 :: "instn_t \<Rightarrow> 'w vm_t \<Rightarrow> (int \<times> 'w vm_t) option" where
  "op_read8_3 = op_read 1"

definition op_read16_3 :: "instn_t \<Rightarrow> 'w vm_t \<Rightarrow> (int \<times> 'w vm_t) option" where
  "op_read16_3 = op_read 2"

definition op_read32_3 :: "instn_t \<Rightarrow> 'w vm_t \<Rightarrow> (int \<times> 'w vm_t) option" where
  "op_read32_3 = op_read 4"

definition op_read64_3 :: "instn_t \<Rightarrow> 'w vm_t \<Rightarrow> (int \<times> 'w vm_t) option" where
  "op_read64_3 = op_read 8"

definition op_write :: "nat \<Rightarrow> instn_t \<Rightarrow> 'w vm_t \<Rightarrow> (int \<times> 'w vm_t) option" where
  "op_write n instn vm = do {
     ref \<leftarrow> arg_value instn 0 vm;
     off \<leftarrow> arg_value instn 1 vm;
     case deref_mem_ptr (ucast ref + ucast off) (of_nat n) vm of
       (None, vm) \<Rightarrow> Some (- 1, vm)
     | (Some mem, vm) \<Rightarrow> do {
         v \<leftarrow> arg_value instn 2 vm;
         vm \<leftarrow> wr n mem (unat v) vm;
         Some (0, vm)
       }
   }"

definition op_write8_3 :: "instn_t \<Rightarrow> 'w vm_t \<Rightarrow> (int \<times> 'w vm_t) option" where
  "op_write8_3 = op_write 1"

definition op_write16_3 :: "instn_t \<Rightarrow> 'w vm_t \<Rightarrow> (int \<times> 'w vm_t) option" where
  "op_write16_3 = op_write 2"

definition op_write32_3 :: "instn_t \<Rightarrow> 'w vm_t \<Rightarrow> (int \<times> 'w vm_t) option" where
  "op_write32_3 = op_write 4"

definition op_write64_3 :: "instn_t \<Rightarrow> 'w vm_t \<Rightarrow> (int \<times> 'w vm_t) option" where
  "op_write64_3 = op_write 8"

section \<open>Dispatch\<close>

fun run_arith :: "arith_handler \<Rightarrow> instn_t \<Rightarrow> 'w vm_t \<Rightarrow> (int \<times> 'w vm_t) option" where
  "run_arith H_add_3 = op_add_3"
| "run_arith H_add_2 = op_add_2"
| "run_arith H_sub_3 = op_sub_3"
| "run_arith H_sub_2 = op_sub_2"
| "run_arith H_mul_3 = op_mul_3"
| "run_arith H_mul_2 = op_mul_2"
| "run_arith H_div_3 = op_div_3"
| "run_arith H_div_2 = op_div_2"
| "run_arith H_mod_3 = op_mod_3"
| "run_arith H_mod_2 = op_mod_2"

fun run_bitw :: "bitw_handler \<Rightarrow> instn_t \<Rightarrow> 'w vm_t \<Rightarrow> (int \<times> 'w vm_t) option" where
  "run_bitw H_and_3 = op_and_3"
| "run_bitw H_and_2 = op_and_2"
| "run_bitw H_or_3 = op_or_3"
| "run_bitw H_or_2 = op_or_2"
| "run_bitw H_xor_3 = op_xor_3"
| "run_bitw H_xor_2 = op_xor_2"
| "run_bitw H_not_2 = op_not_2"
| "run_bitw H_not_1 = op_not_1"
| "run_bitw H_shl_3 = op_shl_3"
| "run_bitw H_shl_2 = op_shl_2"
| "run_bitw H_shr_3 = op_shr_3"
| "run_bitw H_shr_2 = op_shr_2"

fun run_rel :: "rel_handler \<Rightarrow> instn_t \<Rightarrow> 'w vm_t \<Rightarrow> (int \<times> 'w vm_t) option" where
  "run_rel H_eq_3 = op_eq_3"
| "run_rel H_ne_3 = op_ne_3"
| "run_rel H_gt_3 = op_gt_3"
| "run_rel H_lt_3 = op_lt_3"
| "run_rel H_ge_3 = op_ge_3"
| "run_rel H_le_3 = op_le_3"

fun run_logc :: "logc_handler \<Rightarrow> instn_t \<Rightarrow> 'w vm_t \<Rightarrow> (int \<times> 'w vm_t) option" where
  "run_logc H_l_and_3 = op_l_and_3"
| "run_logc H_l_and_2 = op_l_and_2"
| "run_logc H_l_or_3 = op_l_or_3"
| "run_logc H_l_or_2 = op_l_or_2"
| "run_logc H_l_not_2 = op_l_not_2"
| "run_logc H_l_not_1 = op_l_not_1"
| "run_logc H_l_bool_2 = op_l_bool_2"
| "run_logc H_l_bool_1 = op_l_bool_1"

fun run_misc :: "misc_handler \<Rightarrow> instn_t \<Rightarrow> 'w vm_t \<Rightarrow> (int \<times> 'w vm_t) option" where
  "run_misc H_nop_0 = op_nop_0"
| "run_misc H_assert_2 = op_assert_2"
| "run_misc H_abrt_1 = op_abrt_1"
| "run_misc H_cp_3 = op_cp_3"
| "run_misc H_read8_3 = op_read8_3"
| "run_misc H_read16_3 = op_read16_3"
| "run_misc H_read32_3 = op_read32_3"
| "run_misc H_read64_3 = op_read64_3"
| "run_misc H_write8_3 = op_write8_3"
| "run_misc H_write16_3 = op_write16_3"
| "run_misc H_write32_3 = op_write32_3"
| "run_misc H_write64_3 = op_write64_3"

section \<open>What these handlers may change\<close>

text \<open>
  A local step changes the content of the memory but not its size, the exceptions and the
  assertion id; the code, the procedures, the timers, the files and the world stay.
\<close>

definition local_step :: "'w vm_t \<Rightarrow> 'w vm_t \<Rightarrow> bool" where
  "local_step vm vm' \<longleftrightarrow> (\<exists>m e a. length m = length (memory vm) \<and>
     vm' = vm\<lparr>memory := m, exceptions := e, assert_id := a\<rparr>)"

lemma local_stepI:
  "length m = length (memory vm) \<Longrightarrow> local_step vm (vm\<lparr>memory := m, exceptions := e, assert_id := a\<rparr>)"
  by (auto simp: local_step_def)

lemma local_step_refl [simp]: "local_step vm vm"
  using local_stepI [where m = "memory vm" and vm = vm and e = "exceptions vm" and a = "assert_id vm"] by simp

lemma local_step_raise [simp]: "local_step vm (raise e vm)"
  using local_stepI [where m = "memory vm" and vm = vm and e = "exceptions vm OR e" and a = "assert_id vm"] by (simp add: raise_def)

lemma local_step_assert [simp]: "local_step vm (raise e (vm\<lparr>assert_id := a\<rparr>))"
proof -
  have "raise e (vm\<lparr>assert_id := a\<rparr>) = vm\<lparr>memory := memory vm, exceptions := exceptions vm OR e, assert_id := a\<rparr>"
    by (cases vm) (simp add: raise_def)
  then show ?thesis by (simp only: local_stepI)
qed

lemma local_step_wr: "wr n p k vm = Some vm' \<Longrightarrow> local_step vm vm'"
proof -
  assume "wr n p k vm = Some vm'"
  then obtain m where "store n (memory vm) p k = Some m" "vm' = vm\<lparr>memory := m\<rparr>"
    by (auto simp: wr_def)
  then show ?thesis
    using local_stepI [where m = m and vm = vm and e = "exceptions vm" and a = "assert_id vm"] by (simp add: store_length)
qed

lemma wr_exceptions: "wr n p k vm = Some vm' \<Longrightarrow> exceptions vm' = exceptions vm"
  by (auto simp: wr_def)

lemma local_step_wr64: "wr64 p v vm = Some vm' \<Longrightarrow> local_step vm vm'"
  by (simp add: wr64_def local_step_wr)

lemma local_step_deref: "deref_mem_ptr ref sz vm = (q, vm') \<Longrightarrow> local_step vm vm'"
  by (auto simp: deref_mem_ptr_def split: if_splits)

lemma local_step_memcpy: "memcpy_mem d s n vm = Some vm' \<Longrightarrow> local_step vm vm'"
proof -
  assume "memcpy_mem d s n vm = Some vm'"
  then obtain m where "store_bytes (memory vm) d (take n (drop s (memory vm))) = Some m" "vm' = vm\<lparr>memory := m\<rparr>"
    by (auto simp: memcpy_mem_def split: if_splits)
  then show ?thesis
    using local_stepI [where m = m and vm = vm and e = "exceptions vm" and a = "assert_id vm"] by (simp add: store_bytes_length)
qed

text \<open>The contract of a handler that stays inside the memory of the machine.\<close>

definition local_handler :: "(instn_t \<Rightarrow> 'w vm_t \<Rightarrow> (int \<times> 'w vm_t) option) \<Rightarrow> bool" where
  "local_handler h \<longleftrightarrow> (\<forall>instn vm r vm'. h instn vm = Some (r, vm') \<longrightarrow>
     local_step vm vm' \<and> (r = 0 \<or> r = - 1) \<and> (r = 0 \<longrightarrow> exceptions vm' = exceptions vm))"

lemma local_handlerI:
  "(\<And>instn vm r vm'. h instn vm = Some (r, vm') \<Longrightarrow>
      local_step vm vm' \<and> (r = 0 \<or> r = - 1) \<and> (r = 0 \<longrightarrow> exceptions vm' = exceptions vm)) \<Longrightarrow> local_handler h"
  by (simp add: local_handler_def)

lemma store_result_local: "store_result instn v vm = Some (r, vm') \<Longrightarrow>
    local_step vm vm' \<and> r = 0 \<and> exceptions vm' = exceptions vm"
  by (auto simp: store_result_def wr64_def dest: local_step_wr wr_exceptions)

named_theorems local_handlers \<open>handlers that make a local step\<close>

lemma op3_local [local_handlers]: "local_handler (op3 f)"
  by (rule local_handlerI) (auto simp: op3_def dest: store_result_local)

lemma op2_local [local_handlers]: "local_handler (op2 f)"
  by (rule local_handlerI) (auto simp: op2_def dest: store_result_local)

lemma op2'_local [local_handlers]: "local_handler (op2' f)"
  by (rule local_handlerI) (auto simp: op2'_def dest: store_result_local)

lemma op1_local [local_handlers]: "local_handler (op1 f)"
  by (rule local_handlerI) (auto simp: op1_def dest: store_result_local)

lemma logic3_local [local_handlers]: "local_handler (logic3 f)"
  by (rule local_handlerI) (auto simp: logic3_def dest: store_result_local)

lemma logic2_local [local_handlers]: "local_handler (logic2 f)"
  by (rule local_handlerI) (auto simp: logic2_def dest: store_result_local)

lemma guard_divisor_local [local_handlers]: "local_handler op \<Longrightarrow> local_handler (guard_divisor i op)"
  by (rule local_handlerI) (auto simp: guard_divisor_def local_handler_def split: if_splits)

lemma op_read_local [local_handlers]: "local_handler (op_read n)"
proof (rule local_handlerI)
  fix instn and vm vm' :: "'w vm_t" and r
  assume "op_read n instn vm = Some (r, vm')"
  then obtain ref where k: "(case deref_mem_ptr ref (of_nat n) vm of
       (None, vm) \<Rightarrow> Some (- 1, vm)
     | (Some mem, vm) \<Rightarrow> do { d \<leftarrow> arg_ptr instn 0; v \<leftarrow> rd n mem vm; vm \<leftarrow> wr n d v vm; Some (0, vm) }) = Some (r, vm')"
    by (auto simp: op_read_def)
  obtain q vm1 where d: "deref_mem_ptr ref (of_nat n) vm = (q, vm1)" by fastforce
  note k = k [unfolded d]
  show "local_step vm vm' \<and> (r = 0 \<or> r = - 1) \<and> (r = 0 \<longrightarrow> exceptions vm' = exceptions vm)"
  proof (cases q)
    case None
    with k local_step_deref [OF d] show ?thesis by simp
  next
    case (Some p)
    with d have "vm1 = vm" by (simp add: deref_mem_ptr_Some)
    with k Some show ?thesis by (auto dest: local_step_wr wr_exceptions)
  qed
qed

lemma op_write_local [local_handlers]: "local_handler (op_write n)"
proof (rule local_handlerI)
  fix instn and vm vm' :: "'w vm_t" and r
  assume "op_write n instn vm = Some (r, vm')"
  then obtain ref where k: "(case deref_mem_ptr ref (of_nat n) vm of
       (None, vm) \<Rightarrow> Some (- 1, vm)
     | (Some mem, vm) \<Rightarrow> do { v \<leftarrow> arg_value instn 2 vm; vm \<leftarrow> wr n mem (unat v) vm; Some (0, vm) }) = Some (r, vm')"
    by (auto simp: op_write_def)
  obtain q vm1 where d: "deref_mem_ptr ref (of_nat n) vm = (q, vm1)" by fastforce
  note k = k [unfolded d]
  show "local_step vm vm' \<and> (r = 0 \<or> r = - 1) \<and> (r = 0 \<longrightarrow> exceptions vm' = exceptions vm)"
  proof (cases q)
    case None
    with k local_step_deref [OF d] show ?thesis by simp
  next
    case (Some p)
    with d have "vm1 = vm" by (simp add: deref_mem_ptr_Some)
    with k Some show ?thesis by (auto dest: local_step_wr wr_exceptions)
  qed
qed

lemma op_cp_local [local_handlers]: "local_handler op_cp_3"
proof (rule local_handlerI)
  fix instn and vm vm' :: "'w vm_t" and r
  assume "op_cp_3 instn vm = Some (r, vm')"
  then obtain d s n where c: "memcpy_mem d s n vm = Some vm'" and "r = 0"
    by (auto simp: op_cp_3_def)
  moreover have "exceptions vm' = exceptions vm" using c by (auto simp: memcpy_mem_def split: if_splits)
  ultimately show "local_step vm vm' \<and> (r = 0 \<or> r = - 1) \<and> (r = 0 \<longrightarrow> exceptions vm' = exceptions vm)"
    by (simp add: local_step_memcpy)
qed

lemma op_nop_local [local_handlers]: "local_handler op_nop_0"
  by (rule local_handlerI) (simp add: op_nop_0_def)

lemma op_assert_local [local_handlers]: "local_handler op_assert_2"
  by (rule local_handlerI) (auto simp: op_assert_2_def split: if_splits)

lemma op_abrt_local [local_handlers]: "local_handler op_abrt_1"
  by (rule local_handlerI) (auto simp: op_abrt_1_def)

lemma run_arith_local: "local_handler (run_arith h)"
  by (cases h) (simp_all add: local_handlers op_add_3_def op_add_2_def op_sub_3_def op_sub_2_def
    op_mul_3_def op_mul_2_def op_div_3_def op_div_2_def op_mod_3_def op_mod_2_def)

lemma run_bitw_local: "local_handler (run_bitw h)"
  by (cases h) (simp_all add: local_handlers op_and_3_def op_and_2_def op_or_3_def op_or_2_def
    op_xor_3_def op_xor_2_def op_not_2_def op_not_1_def op_shl_3_def op_shl_2_def op_shr_3_def op_shr_2_def)

lemma run_rel_local: "local_handler (run_rel h)"
  by (cases h) (simp_all add: local_handlers op_eq_3_def op_ne_3_def op_gt_3_def op_lt_3_def
    op_ge_3_def op_le_3_def)

lemma run_logc_local: "local_handler (run_logc h)"
  by (cases h) (simp_all add: local_handlers op_l_and_3_def op_l_and_2_def op_l_or_3_def op_l_or_2_def
    op_l_not_2_def op_l_not_1_def op_l_bool_2_def op_l_bool_1_def)

lemma run_misc_local: "local_handler (run_misc h)"
  by (cases h) (simp_all add: local_handlers op_read8_3_def op_read16_3_def op_read32_3_def
    op_read64_3_def op_write8_3_def op_write16_3_def op_write32_3_def op_write64_3_def)

section \<open>What the handlers compute\<close>

text \<open>
  A result is written to the eight bytes of the destination and nowhere else.
\<close>

definition writes64 :: "nat \<Rightarrow> u64 \<Rightarrow> 'w vm_t \<Rightarrow> 'w vm_t \<Rightarrow> bool" where
  "writes64 p v vm vm' \<longleftrightarrow> rd64 p vm' = Some v \<and>
     (\<exists>m. vm' = vm\<lparr>memory := m\<rparr> \<and> length m = length (memory vm) \<and>
       (\<forall>i < length m. i < p \<or> p + 8 \<le> i \<longrightarrow> m ! i = memory vm ! i))"

lemma wr64_writes64:
  assumes "wr64 p v vm = Some vm'"
  shows "writes64 p v vm vm'"
proof -
  obtain m where m: "store_bytes (memory vm) p (le_bytes 8 (unat v)) = Some m" "vm' = vm\<lparr>memory := m\<rparr>"
    using assms by (auto simp: wr64_def wr_def store_def)
  then show ?thesis
    using rd64_wr64 [OF assms] store_bytes_length [OF m(1)] nth_store_bytes [OF m(1)]
    by (auto simp: writes64_def)
qed

lemma store_result_ok:
  assumes "arg_ptr instn 0 = Some p" "p + 8 \<le> length (memory vm)"
  shows "\<exists>vm'. store_result instn v vm = Some (0, vm') \<and> writes64 p v vm vm'"
proof -
  obtain m where "wr64 p v vm = Some (vm\<lparr>memory := m\<rparr>)" using wr64_ex [OF assms(2)] by blast
  then show ?thesis using assms(1) wr64_writes64 by (fastforce simp: store_result_def)
qed

lemma op3_ok:
  assumes "arg_ptr instn 0 = Some p" "p + 8 \<le> length (memory vm)"
    and "arg_value instn 1 vm = Some a" "arg_value instn 2 vm = Some b" "f a b = Some v"
  shows "\<exists>vm'. op3 f instn vm = Some (0, vm') \<and> writes64 p v vm vm'"
  using store_result_ok [OF assms(1,2), of v] assms(3-) by (simp add: op3_def)

lemma op2_ok:
  assumes "arg_ptr instn 0 = Some p" "p + 8 \<le> length (memory vm)"
    and "rd64 p vm = Some a" "arg_value instn 1 vm = Some b" "f a b = Some v"
  shows "\<exists>vm'. op2 f instn vm = Some (0, vm') \<and> writes64 p v vm vm'"
  using store_result_ok [OF assms(1,2), of v] assms by (simp add: op2_def)

lemma op2'_ok:
  assumes "arg_ptr instn 0 = Some p" "p + 8 \<le> length (memory vm)" "arg_value instn 1 vm = Some a"
  shows "\<exists>vm'. op2' f instn vm = Some (0, vm') \<and> writes64 p (f a) vm vm'"
  using store_result_ok [OF assms(1,2), of "f a"] assms(3) by (simp add: op2'_def)

lemma op1_ok:
  assumes "arg_ptr instn 0 = Some p" "p + 8 \<le> length (memory vm)" "rd64 p vm = Some a"
  shows "\<exists>vm'. op1 f instn vm = Some (0, vm') \<and> writes64 p (f a) vm vm'"
  using store_result_ok [OF assms(1,2), of "f a"] assms by (simp add: op1_def)

subsection \<open>Arithmetic\<close>

text \<open>The three-operand and two-operand forms, and the function on natural numbers they compute.\<close>

fun arith_form :: "arith_handler \<Rightarrow> bool" where
  "arith_form H_add_3 = True" | "arith_form H_sub_3 = True" | "arith_form H_mul_3 = True"
| "arith_form H_div_3 = True" | "arith_form H_mod_3 = True" | "arith_form _ = False"

fun arith_spec :: "arith_handler \<Rightarrow> nat \<Rightarrow> nat \<Rightarrow> nat option" where
  "arith_spec H_add_3 a b = Some ((a + b) mod 2 ^ 64)"
| "arith_spec H_add_2 a b = Some ((a + b) mod 2 ^ 64)"
| "arith_spec H_sub_3 a b = Some ((2 ^ 64 + a - b) mod 2 ^ 64)"
| "arith_spec H_sub_2 a b = Some ((2 ^ 64 + a - b) mod 2 ^ 64)"
| "arith_spec H_mul_3 a b = Some ((a * b) mod 2 ^ 64)"
| "arith_spec H_mul_2 a b = Some ((a * b) mod 2 ^ 64)"
| "arith_spec H_div_3 a b = (if b = 0 then None else Some (a div b))"
| "arith_spec H_div_2 a b = (if b = 0 then None else Some (a div b))"
| "arith_spec H_mod_3 a b = (if b = 0 then None else Some (a mod b))"
| "arith_spec H_mod_2 a b = (if b = 0 then None else Some (a mod b))"

text \<open>The operands of an arithmetic instruction, in the order of the operation.\<close>

definition operands :: "bool \<Rightarrow> instn_t \<Rightarrow> 'w vm_t \<Rightarrow> u64 \<Rightarrow> u64 \<Rightarrow> bool" where
  "operands three instn vm a b \<longleftrightarrow>
     (if three then arg_value instn 1 vm = Some a \<and> arg_value instn 2 vm = Some b
      else (\<exists>p. arg_ptr instn 0 = Some p \<and> rd64 p vm = Some a) \<and> arg_value instn 1 vm = Some b)"

lemma op3_operands:
  assumes "arg_ptr instn 0 = Some p" "p + 8 \<le> length (memory vm)" "operands True instn vm a b" "f a b = Some v"
  shows "\<exists>vm'. op3 f instn vm = Some (0, vm') \<and> writes64 p v vm vm'"
  by (rule op3_ok) (use assms in \<open>auto simp: operands_def\<close>)

lemma op2_operands:
  assumes "arg_ptr instn 0 = Some p" "p + 8 \<le> length (memory vm)" "operands False instn vm a b" "f a b = Some v"
  shows "\<exists>vm'. op2 f instn vm = Some (0, vm') \<and> writes64 p v vm vm'"
  using op2_ok assms by (auto simp: operands_def)

lemma unat_sub_wrap: "unat (a - b :: u64) = (2 ^ 64 + unat a - unat b) mod 2 ^ 64"
proof (cases "unat b \<le> unat a")
  case True
  have lt: "unat a - unat b < 2 ^ 64" using unat_u64_lt [of a] by (simp add: less_imp_diff_less)
  have "2 ^ 64 + unat a - unat b = 2 ^ 64 + (unat a - unat b)" using True by linarith
  then have "(2 ^ 64 + unat a - unat b) mod 2 ^ 64 = unat a - unat b"
    using lt by (simp only: mod_add_self1 mod_less)
  moreover have "unat (a - b) = unat a - unat b" using True by (simp add: unat_sub word_le_nat_alt)
  ultimately show ?thesis by simp
next
  case False
  have lt: "2 ^ 64 + unat a - unat b < 2 ^ 64" using False by (simp add: not_le)
  have "\<not> b \<le> a" using False by (simp add: word_le_nat_alt)
  then have "unat (a - b) = 2 ^ 64 + unat a - unat b" using False by (simp add: unat_sub_if')
  then show ?thesis by (simp only: mod_less [OF lt])
qed

lemma unat_arith_u64:
  fixes a b :: u64
  shows "unat (a + b) = (unat a + unat b) mod 2 ^ 64" "unat (a * b) = (unat a * unat b) mod 2 ^ 64"
  by (simp_all add: unat_word_ariths)

lemma unat_eq_0_u64: "unat (b :: u64) = 0 \<longleftrightarrow> b = 0"
  by (simp add: unat_eq_zero)

text \<open>
  C29. Every arithmetic instruction, in both forms, computes its operation modulo \<open>2 ^ 64\<close> into
  the eight bytes of its destination and returns \<open>0\<close>; a division or remainder by zero raises
  the arithmetic exception, changes nothing else and returns \<open>- 1\<close>.
\<close>

lemma run_arith_correct:
  assumes d: "arg_ptr instn 0 = Some p" "p + 8 \<le> length (memory vm)"
    and o: "operands (arith_form h) instn vm a b"
  shows "case arith_spec h (unat a) (unat b) of
      Some n \<Rightarrow> \<exists>v vm'. run_arith h instn vm = Some (0, vm') \<and> writes64 p v vm vm' \<and> unat v = n
    | None \<Rightarrow> run_arith h instn vm = Some (- 1, raise VM_E_Arithmetic vm)"
proof -
  note r = op3_operands [OF d] op2_operands [OF d]
  have b: "arg_value instn (if arith_form h then 2 else 1) vm = Some b"
    using o by (simp add: operands_def split: if_splits)
  have t: "total f a b = Some v \<longleftrightarrow> v = f a b" for f v by (auto simp: total_def)
  note * = r(1) [of a b "total _", simplified t, OF _ refl] r(2) [of a b "total _", simplified t, OF _ refl]
  show ?thesis
  proof (cases h)
    case H_add_3 with *(1) [of "(+)"] o show ?thesis by (fastforce simp: op_add_3_def unat_arith_u64)
  next
    case H_add_2 with *(2) [of "(+)"] o show ?thesis by (fastforce simp: op_add_2_def unat_arith_u64)
  next
    case H_sub_3 with *(1) [of "(-)"] o show ?thesis by (fastforce simp: op_sub_3_def unat_sub_wrap)
  next
    case H_sub_2 with *(2) [of "(-)"] o show ?thesis by (fastforce simp: op_sub_2_def unat_sub_wrap)
  next
    case H_mul_3 with *(1) [of "(*)"] o show ?thesis by (fastforce simp: op_mul_3_def unat_arith_u64)
  next
    case H_mul_2 with *(2) [of "(*)"] o show ?thesis by (fastforce simp: op_mul_2_def unat_arith_u64)
  next
    case H_div_3 with *(1) [of "(div)"] o b show ?thesis
      by (fastforce simp: op_div_3_def guard_divisor_def unat_div_distrib unat_eq_0_u64)
  next
    case H_div_2 with *(2) [of "(div)"] o b show ?thesis
      by (fastforce simp: op_div_2_def guard_divisor_def unat_div_distrib unat_eq_0_u64)
  next
    case H_mod_3 with *(1) [of "(mod)"] o b show ?thesis
      by (fastforce simp: op_mod_3_def guard_divisor_def unat_mod_distrib unat_eq_0_u64)
  next
    case H_mod_2 with *(2) [of "(mod)"] o b show ?thesis
      by (fastforce simp: op_mod_2_def guard_divisor_def unat_mod_distrib unat_eq_0_u64)
  qed
qed

subsection \<open>Comparisons and logic\<close>

fun rel_spec :: "rel_handler \<Rightarrow> nat \<Rightarrow> nat \<Rightarrow> bool" where
  "rel_spec H_eq_3 a b = (a = b)"
| "rel_spec H_ne_3 a b = (a \<noteq> b)"
| "rel_spec H_gt_3 a b = (b < a)"
| "rel_spec H_lt_3 a b = (a < b)"
| "rel_spec H_ge_3 a b = (b \<le> a)"
| "rel_spec H_le_3 a b = (a \<le> b)"

text \<open>
  Every comparison writes 1 or 0 to its destination according to the order of its operands
  as unsigned 64-bit numbers.
\<close>

lemma run_rel_correct:
  assumes d: "arg_ptr instn 0 = Some p" "p + 8 \<le> length (memory vm)"
    and o: "arg_value instn 1 vm = Some a" "arg_value instn 2 vm = Some b"
  shows "\<exists>vm'. run_rel h instn vm = Some (0, vm') \<and>
    writes64 p (if rel_spec h (unat a) (unat b) then 1 else 0) vm vm'"
proof -
  have r: "\<exists>vm'. op3 (total f) instn vm = Some (0, vm') \<and> writes64 p (f a b) vm vm'" for f
    by (rule op3_ok [OF d o]) (simp add: total_def)
  have eq: "unat a = unat b \<longleftrightarrow> a = b" by (simp add: word_unat_eq_iff)
  show ?thesis
    using r [of "\<lambda>a b. of_bool64 (a = b)"] r [of "\<lambda>a b. of_bool64 (a \<noteq> b)"]
      r [of "\<lambda>a b. of_bool64 (a > b)"] r [of "\<lambda>a b. of_bool64 (a < b)"]
      r [of "\<lambda>a b. of_bool64 (a \<ge> b)"] r [of "\<lambda>a b. of_bool64 (a \<le> b)"]
    by (cases h) (simp_all add: of_bool64_def op_eq_3_def op_ne_3_def op_gt_3_def op_lt_3_def
      op_ge_3_def op_le_3_def word_less_nat_alt word_le_nat_alt eq)
qed

fun logc_form :: "logc_handler \<Rightarrow> nat" where
  "logc_form H_l_and_3 = 3" | "logc_form H_l_or_3 = 3"
| "logc_form H_l_and_2 = 2" | "logc_form H_l_or_2 = 2"
| "logc_form H_l_not_2 = 1" | "logc_form H_l_bool_2 = 1"
| "logc_form H_l_not_1 = 0" | "logc_form H_l_bool_1 = 0"

text \<open>The truth values the operands of a logical instruction stand for; unary ones take the first.\<close>

definition truth_operands :: "nat \<Rightarrow> instn_t \<Rightarrow> 'w vm_t \<Rightarrow> u64 \<Rightarrow> u64 \<Rightarrow> bool" where
  "truth_operands form instn vm a b \<longleftrightarrow>
     (if form = 3 then arg_value instn 1 vm = Some a \<and> arg_value instn 2 vm = Some b
      else if form = 2 then (\<exists>p. arg_ptr instn 0 = Some p \<and> rd64 p vm = Some a) \<and> arg_value instn 1 vm = Some b
      else if form = 1 then arg_value instn 1 vm = Some a
      else (\<exists>p. arg_ptr instn 0 = Some p \<and> rd64 p vm = Some a))"

fun logc_spec :: "logc_handler \<Rightarrow> bool \<Rightarrow> bool \<Rightarrow> bool" where
  "logc_spec H_l_and_3 a b = (a \<and> b)" | "logc_spec H_l_and_2 a b = (a \<and> b)"
| "logc_spec H_l_or_3 a b = (a \<or> b)" | "logc_spec H_l_or_2 a b = (a \<or> b)"
| "logc_spec H_l_not_2 a b = (\<not> a)" | "logc_spec H_l_not_1 a b = (\<not> a)"
| "logc_spec H_l_bool_2 a b = a" | "logc_spec H_l_bool_1 a b = a"

text \<open>Every logical instruction writes the truth value of its formula, as 1 or 0.\<close>

lemma run_logc_correct:
  assumes d: "arg_ptr instn 0 = Some p" "p + 8 \<le> length (memory vm)"
    and o: "truth_operands (logc_form h) instn vm a b"
  shows "\<exists>vm'. run_logc h instn vm = Some (0, vm') \<and>
    writes64 p (if logc_spec h (a \<noteq> 0) (b \<noteq> 0) then 1 else 0) vm vm'"
proof -
  note s = store_result_ok [OF d]
  have l3: "arg_value instn 1 vm = Some a \<Longrightarrow> arg_value instn 2 vm = Some b \<Longrightarrow>
      logic3 st instn vm = store_result instn (of_bool64 (if st then a \<noteq> 0 \<or> b \<noteq> 0 else a \<noteq> 0 \<and> b \<noteq> 0)) vm" for st
    by (simp add: logic3_def short_circuit_def of_bool64_def)
  have l2: "rd64 p vm = Some a \<Longrightarrow> arg_value instn 1 vm = Some b \<Longrightarrow>
      logic2 st instn vm = store_result instn (of_bool64 (if st then a \<noteq> 0 \<or> b \<noteq> 0 else a \<noteq> 0 \<and> b \<noteq> 0)) vm" for st
    using d(1) by (simp add: logic2_def short_circuit_def of_bool64_def)
  have l1: "arg_value instn 1 vm = Some a \<Longrightarrow> op2' f instn vm = store_result instn (f a) vm" for f
    by (simp add: op2'_def)
  have l0: "rd64 p vm = Some a \<Longrightarrow> op1 f instn vm = store_result instn (f a) vm" for f
    using d(1) by (simp add: op1_def)
  show ?thesis
    using o d(1) by (cases h) (simp_all add: truth_operands_def op_l_and_3_def op_l_and_2_def op_l_or_3_def
      op_l_or_2_def op_l_not_2_def op_l_not_1_def op_l_bool_2_def op_l_bool_1_def l3 l2 l1 l0
      of_bool64_def s)
qed

subsection \<open>Bitwise\<close>

fun bitw_form :: "bitw_handler \<Rightarrow> nat" where
  "bitw_form H_and_2 = 2" | "bitw_form H_or_2 = 2" | "bitw_form H_xor_2 = 2"
| "bitw_form H_shl_2 = 2" | "bitw_form H_shr_2 = 2"
| "bitw_form H_not_2 = 1" | "bitw_form H_not_1 = 0" | "bitw_form _ = 3"

text \<open>
  Bit \<open>i\<close> of the result, and the instructions whose result is undefined for a shift of 64 or
  more.
\<close>

fun bitw_spec :: "bitw_handler \<Rightarrow> u64 \<Rightarrow> u64 \<Rightarrow> nat \<Rightarrow> bool" where
  "bitw_spec H_and_3 a b i = (bit a i \<and> bit b i)" | "bitw_spec H_and_2 a b i = (bit a i \<and> bit b i)"
| "bitw_spec H_or_3 a b i = (bit a i \<or> bit b i)" | "bitw_spec H_or_2 a b i = (bit a i \<or> bit b i)"
| "bitw_spec H_xor_3 a b i = (bit a i \<noteq> bit b i)" | "bitw_spec H_xor_2 a b i = (bit a i \<noteq> bit b i)"
| "bitw_spec H_not_2 a b i = (\<not> bit a i)" | "bitw_spec H_not_1 a b i = bit a i"
| "bitw_spec H_shl_3 a b i = (unat b \<le> i \<and> bit a (i - unat b))"
| "bitw_spec H_shl_2 a b i = (unat b \<le> i \<and> bit a (i - unat b))"
| "bitw_spec H_shr_3 a b i = bit a (i + unat b)" | "bitw_spec H_shr_2 a b i = bit a (i + unat b)"

fun is_shift :: "bitw_handler \<Rightarrow> bool" where
  "is_shift H_shl_3 = True" | "is_shift H_shl_2 = True" | "is_shift H_shr_3 = True"
| "is_shift H_shr_2 = True" | "is_shift _ = False"

text \<open>
  The bitwise instructions compute their operation bit by bit, with the shifts the operand
  shifted with zeros coming in; a shift by 64 or more is undefined. \<open>not\<close> with one operand
  leaves its destination as it is.
\<close>

lemma run_bitw_correct:
  assumes d: "arg_ptr instn 0 = Some p" "p + 8 \<le> length (memory vm)"
    and o: "truth_operands (bitw_form h) instn vm a b"
  shows "if is_shift h \<and> 64 \<le> b then run_bitw h instn vm = None
    else \<exists>v vm'. run_bitw h instn vm = Some (0, vm') \<and> writes64 p v vm vm' \<and>
      (\<forall>i < 64. bit v i = bitw_spec h a b i)"
proof -
  note s = store_result_ok [OF d]
  have l3: "arg_value instn 1 vm = Some a \<Longrightarrow> arg_value instn 2 vm = Some b \<Longrightarrow>
      op3 f instn vm = do { v \<leftarrow> f a b; store_result instn v vm }" for f
    by (simp add: op3_def)
  have l2: "rd64 p vm = Some a \<Longrightarrow> arg_value instn 1 vm = Some b \<Longrightarrow>
      op2 f instn vm = do { v \<leftarrow> f a b; store_result instn v vm }" for f
    using d(1) by (simp add: op2_def)
  have l1: "arg_value instn 1 vm = Some a \<Longrightarrow> op2' f instn vm = store_result instn (f a) vm" for f
    by (simp add: op2'_def)
  have l0: "rd64 p vm = Some a \<Longrightarrow> op1 f instn vm = store_result instn (f a) vm" for f
    using d(1) by (simp add: op1_def)
  have ex: "\<exists>v vm'. store_result instn w vm = Some (0, vm') \<and> writes64 p v vm vm' \<and> (\<forall>i < 64. bit v i = P i)"
    if "\<And>i. i < 64 \<Longrightarrow> bit w i = P i" for w P
    using s [of w] that by blast
  note defs = op_and_3_def op_and_2_def op_or_3_def op_or_2_def op_xor_3_def op_xor_2_def
    op_not_2_def op_not_1_def op_shl_3_def op_shl_2_def op_shr_3_def op_shr_2_def
  have nl: "64 \<le> b \<longleftrightarrow> \<not> b < 64" by auto
  show ?thesis
    using o d(1) by (cases h) (auto simp: truth_operands_def defs l3 l2 l1 l0 total_def shl64_def shr64_def
      nl bit_simps add.commute [of "unat b"] intro!: ex)
qed

text \<open>
  \<open>op_not_1\<close> does not negate: when it is defined, the machine after it is the machine
  before it.
\<close>

lemma op_not_1_no_effect:
  assumes "arg_ptr instn 0 = Some p" "p + 8 \<le> length (memory vm)"
  shows "op_not_1 instn vm = Some (0, vm)"
proof -
  have l: "length (take 8 (drop p (memory vm))) = 8" using assms(2) by simp
  have r: "le_nat (take 8 (drop p (memory vm))) < 2 ^ 64" using le_nat_bound [of "take 8 (drop p (memory vm))"] l by simp
  have "store 8 (memory vm) p (le_nat (take 8 (drop p (memory vm)))) = Some (memory vm)"
  proof -
    have "take p (memory vm) @ take 8 (drop p (memory vm)) @ drop (p + 8) (memory vm) = memory vm"
      by (metis add.commute append_take_drop_id drop_drop)
    then show ?thesis using assms(2) le_bytes_le_nat [OF l] by (simp add: store_def store_bytes_def)
  qed
  then show ?thesis
    using assms r by (simp add: op_not_1_def op1_def store_result_def rd64_def rd_def load_def wr64_def wr_def)
qed

subsection \<open>Reads and writes through references\<close>

lemma wr_ex: "p + n \<le> length (memory vm) \<Longrightarrow> \<exists>vm'. wr n p k vm = Some vm'"
  using store_ex [of p n "memory vm" k] by (auto simp: wr_def)

lemma rd_wr_same: "wr n p k vm = Some vm' \<Longrightarrow> rd n p vm' = Some (k mod 256 ^ n)"
  by (auto simp: wr_def rd_def load_store_same)

lemma rd_wr_other: "wr n p k vm = Some vm' \<Longrightarrow> q + j \<le> p \<or> p + n \<le> q \<Longrightarrow> rd j q vm' = rd j q vm"
  by (auto simp: wr_def rd_def load_store_disjoint)

lemma op_write_ok:
  fixes at :: u32
  assumes wf: "vm_wf vm" and n: "n \<in> {1, 2, 4, 8}"
    and a: "arg_value instn 0 vm = Some ref" "arg_value instn 1 vm = Some off" "arg_value instn 2 vm = Some v"
    and at: "at = ucast ref + ucast off" and nw: "unat at + n < 2 ^ 32"
  shows "if unat at + n \<le> unat (memsz vm)
    then \<exists>vm'. op_write n instn vm = Some (0, vm') \<and> rd n (unat at) vm' = Some (unat v mod 256 ^ n) \<and>
      (\<forall>q j. q + j \<le> unat at \<or> unat at + n \<le> q \<longrightarrow> rd j q vm' = rd j q vm)
    else op_write n instn vm = Some (- 1, raise VM_E_MemFault vm)"
proof -
  have un: "unat (of_nat n :: u32) = n" using n by auto
  have sum: "unat (at + of_nat n) = unat at + n" using nw un by (simp add: unat_word_ariths)
  have l: "unat (memsz vm) \<le> length (memory vm)" using wf by (simp add: vm_wf_def)
  show ?thesis
  proof (cases "unat at + n \<le> unat (memsz vm)")
    case True
    then have True': "unat at + n \<le> length (memory vm)" using l by simp
    have "(of_nat n :: u32) > 0" using n by auto
    then have d: "deref_mem_ptr at (of_nat n) vm = (Some (unat at), vm)"
      using deref_complete [OF wf, of at "of_nat n"] True un by (simp add: deref_mem_ptr_Some)
    obtain vm' where w: "wr n (unat at) (unat v) vm = Some vm'" using wr_ex [OF True'] by blast
    then have "op_write n instn vm = Some (0, vm')" using a d by (simp add: op_write_def flip: at)
    with True rd_wr_same [OF w] rd_wr_other [OF w] show ?thesis by auto
  next
    case False
    then have "at + of_nat n > memsz vm" using l sum by (simp add: word_less_nat_alt)
    then have "deref_mem_ptr at (of_nat n) vm = (None, raise VM_E_MemFault vm)" by (simp add: deref_mem_ptr_def)
    then show ?thesis using a False by (simp add: op_write_def flip: at)
  qed
qed

text \<open>
  C37. The operands of \<open>write8\<close> to \<open>write64\<close> are a reference, an offset and a value, in this
  order (the documentation has the value before the offset): a write through the reference plus
  the offset, each taken modulo \<open>2 ^ 32\<close>, that stays inside the memory stores the low 1, 2, 4 or 8
  bytes of the value there (the documentation says two for the last three), and a read of as many
  bytes at the place gets them back; one that ends past the memory raises a memory fault and
  changes nothing else.
\<close>

lemma op_write_correct:
  fixes at :: u32
  assumes wf: "vm_wf vm" and n: "(h, n) \<in> {(H_write8_3, 1), (H_write16_3, 2), (H_write32_3, 4), (H_write64_3, 8)}"
    and a: "arg_value instn 0 vm = Some ref" "arg_value instn 1 vm = Some off" "arg_value instn 2 vm = Some v"
    and at: "at = ucast ref + ucast off" and nw: "unat at + n < 2 ^ 32"
  shows "if unat at + n \<le> unat (memsz vm)
    then \<exists>vm'. run_misc h instn vm = Some (0, vm') \<and> rd n (unat at) vm' = Some (unat v mod 256 ^ n) \<and>
      (\<forall>q j. q + j \<le> unat at \<or> unat at + n \<le> q \<longrightarrow> rd j q vm' = rd j q vm)
    else run_misc h instn vm = Some (- 1, raise VM_E_MemFault vm)"
proof -
  have "n \<in> {1, 2, 4, 8}" "run_misc h instn vm = op_write n instn vm"
    using n by (auto simp: op_write8_3_def op_write16_3_def op_write32_3_def op_write64_3_def)
  with op_write_ok [OF wf _ a at nw] show ?thesis by presburger
qed

text \<open>
  C40. The bound of a read or write wraps: a reference so close to \<open>2 ^ 32\<close> that the access
  ends past it, and after wrapping inside the memory, passes the check, and the access is
  outside the memory.
\<close>

lemma op_write_wraps:
  fixes at :: u32
  assumes ex: "mem_exact vm" and n: "n \<in> {1, 2, 4, 8}"
    and a: "arg_value instn 0 vm = Some ref" "arg_value instn 1 vm = Some off"
    and at: "at = ucast ref + ucast off" and w: "2 ^ 32 \<le> unat at + n" "unat at + n - 2 ^ 32 \<le> unat (memsz vm)"
    and nn: "\<not> mem_null vm"
  shows "op_write n instn vm = None"
proof -
  have un: "unat (of_nat n :: u32) = n" using n by auto
  have "unat (at + of_nat n) = (unat at + n) mod 2 ^ 32" using un by (simp add: unat_word_ariths)
  also have "\<dots> = unat at + n - 2 ^ 32"
  proof -
    have "unat at + n - 2 ^ 32 < 2 ^ 32" using unat_u32_lt [of at] n by auto
    then show ?thesis using w(1) by (simp add: mod_if)
  qed
  finally have "at + of_nat n \<le> memsz vm" using w(2) by (simp add: word_le_nat_alt)
  then have d: "deref_mem_ptr at (of_nat n) vm = (Some (unat at), vm)"
    using nn by (simp add: deref_mem_ptr_def mem_ptr_def)
  have "length (memory vm) < unat at + n"
    using ex w(1) unat_u32_lt [of "memsz vm"] by (simp add: mem_exact_def)
  then have "wr n (unat at) k vm = None" for k
    using store_defined [of n "memory vm" "unat at" k] by (simp add: wr_def)
  then show ?thesis using a d by (simp add: op_write_def bind_None_iff flip: at)
qed

text \<open>
  \<open>assert\<close> fails when its condition holds: with a condition other than zero the machine
  stops with the assertion id and the exception, with zero nothing happens.
\<close>

lemma op_assert_fails_on_true:
  assumes "arg_value instn 1 vm = Some c" "arg_value instn 0 vm = Some i"
  shows "op_assert_2 instn vm =
    (if c = 0 then Some (0, vm) else Some (- 1, raise VM_E_AssertFailed (vm\<lparr>assert_id := i\<rparr>)))"
  using assms by (simp add: op_assert_2_def)

section \<open>The properties at concrete machines\<close>

text \<open>A machine with one byte of code and sixteen of memory, and instructions with operands 7 and 5.\<close>

definition demo_vm :: "unit vm_t" where
  "demo_vm = make_vm [0] 1 16 0 ()"

definition demo_instn :: instn_t where
  "demo_instn = \<lparr>icode = 6, arg_sizes = 0, iargs = [Ref 0, Imm 7, Imm 5]\<rparr>"

lemma demo_memory [simp]: "memory demo_vm = replicate 16 0" "memsz demo_vm = 16" "mem_null demo_vm = False"
  by (simp_all add: demo_vm_def make_vm_def make_procedure_def)

lemma demo_wf [simp]: "vm_wf demo_vm" "mem_exact demo_vm"
  using vm_wf_make_vm [of "[0]" 1 16 0 "()"]
  by (simp_all add: demo_vm_def mem_exact_def make_vm_def make_procedure_def)

lemma demo_args [simp]:
  "arg_ptr demo_instn 0 = Some 0" "arg_value demo_instn 1 vm = Some 7" "arg_value demo_instn 2 vm = Some 5"
  "arg_value demo_instn (Suc 0) vm = Some 7"
  by (simp_all add: demo_instn_def arg_ptr_def arg_value_def is_imm_def imm_bytes_def bit_iff_odd_drop_bit
      take_bit_eq_mask mask_eq_exp_minus_1 eval_nat_numeral)

lemma run_arith_correct_witness:
  "(\<exists>v vm'. run_arith H_sub_3 demo_instn demo_vm = Some (0, vm') \<and> writes64 0 v demo_vm vm' \<and> unat v = 2) \<and>
   (\<exists>v vm'. run_arith H_div_3 demo_instn demo_vm = Some (0, vm') \<and> writes64 0 v demo_vm vm' \<and> unat v = 1)"
  using run_arith_correct [of demo_instn 0 demo_vm H_sub_3 7 5] run_arith_correct [of demo_instn 0 demo_vm H_div_3 7 5]
  by (simp add: operands_def)

lemma run_rel_correct_witness:
  "\<exists>vm'. run_rel H_gt_3 demo_instn demo_vm = Some (0, vm') \<and> writes64 0 1 demo_vm vm'"
  using run_rel_correct [of demo_instn 0 demo_vm 7 5 H_gt_3] by simp

lemma run_logc_correct_witness:
  "\<exists>vm'. run_logc H_l_and_3 demo_instn demo_vm = Some (0, vm') \<and> writes64 0 1 demo_vm vm'"
  using run_logc_correct [of demo_instn 0 demo_vm H_l_and_3 7 5] by (simp add: truth_operands_def)

lemma run_bitw_correct_witness:
  "\<exists>v vm'. run_bitw H_xor_3 demo_instn demo_vm = Some (0, vm') \<and> writes64 0 v demo_vm vm' \<and>
     (\<forall>i < 64. bit v i = (bit (7 :: u64) i \<noteq> bit (5 :: u64) i))"
  using run_bitw_correct [of demo_instn 0 demo_vm H_xor_3 7 5] by (simp add: truth_operands_def)

lemma op_not_1_no_effect_witness: "op_not_1 demo_instn demo_vm = Some (0, demo_vm)"
  by (rule op_not_1_no_effect [of _ 0]) simp_all

definition demo_write :: "u64 \<Rightarrow> instn_t" where
  "demo_write ref = \<lparr>icode = 7, arg_sizes = 0x2A, iargs = [Imm ref, Imm 0, Imm 0x1234]\<rparr>"

lemma demo_write_args [simp]:
  "arg_value (demo_write ref) 0 vm = Some (take_bit 32 ref)" "arg_value (demo_write ref) 1 vm = Some 0"
  "arg_value (demo_write ref) (Suc 0) vm = Some 0" "arg_value (demo_write ref) 2 vm = Some 0x1234"
  by (simp_all add: demo_write_def arg_ptr_def arg_value_def is_imm_def imm_bytes_def bit_iff_odd_drop_bit)

lemma op_write_correct_witness:
  "\<exists>vm'. run_misc H_write32_3 (demo_write 8) demo_vm = Some (0, vm') \<and> rd 4 8 vm' = Some 0x1234"
  using op_write_correct [where at = 8 and vm = demo_vm and n = 4 and h = H_write32_3 and instn = "demo_write 8" and ref = 8
    and off = 0 and v = "0x1234"] by auto

lemma op_write_wraps_witness: "op_write 4 (demo_write 0xFFFFFFFE) demo_vm = None"
  by (rule op_write_wraps [where at = "0xFFFFFFFE" and ref = "0xFFFFFFFE" and off = 0]) simp_all

lemma op_assert_fails_on_true_witness:
  "op_assert_2 \<lparr>icode = 3, arg_sizes = 0, iargs = [Imm 9, Imm 1, Junk]\<rparr> demo_vm =
     Some (- 1, raise VM_E_AssertFailed (demo_vm\<lparr>assert_id := 9\<rparr>))"
proof -
  let ?i = "\<lparr>icode = 3, arg_sizes = 0, iargs = [Imm 9, Imm 1, Junk]\<rparr>"
  have "arg_value ?i 1 demo_vm = Some 1" "arg_value ?i 0 demo_vm = Some 9"
    by (simp_all add: arg_value_def is_imm_def imm_bytes_def bit_iff_odd_drop_bit
      take_bit_eq_mask mask_eq_exp_minus_1)
  from op_assert_fails_on_true [OF this] show ?thesis by simp
qed

end
