(* ===== verification/InstnCtrl.thy ===== *)
theory InstnCtrl
  imports InstnOps
begin

text \<open>
  The control handlers of \<open>instns/instn_impl_ctrl.c\<close>: jumps, calls, returns and the access
  to the arguments and the return value of the running procedure, which is the head of the
  list of procedures.
\<close>

section \<open>Handlers\<close>

definition this_proc :: "'w vm_t \<Rightarrow> proc_t option" where
  "this_proc vm = (case procedures vm of [] \<Rightarrow> None | p # _ \<Rightarrow> Some p)"

definition set_this_proc :: "proc_t \<Rightarrow> 'w vm_t \<Rightarrow> 'w vm_t" where
  "set_this_proc p vm = vm\<lparr>procedures := p # tl (procedures vm)\<rparr>"

definition do_jump :: "u32 \<Rightarrow> 'w vm_t \<Rightarrow> (int \<times> 'w vm_t) option" where
  "do_jump ip vm =
     (if ip \<ge> codesz vm then Some (- 1, raise VM_E_BadInstnPointer vm)
      else do {
        p \<leftarrow> this_proc vm;
        Some (0, set_this_proc (p\<lparr>p_iptr := ip\<rparr>) vm)
      })"

definition op_jmp_1 :: "instn_t \<Rightarrow> 'w vm_t \<Rightarrow> (int \<times> 'w vm_t) option" where
  "op_jmp_1 instn vm = do { ip \<leftarrow> arg_value instn 0 vm; do_jump (ucast ip) vm }"

definition op_jtrue_2 :: "instn_t \<Rightarrow> 'w vm_t \<Rightarrow> (int \<times> 'w vm_t) option" where
  "op_jtrue_2 instn vm = do {
     c \<leftarrow> arg_value instn 1 vm;
     if c \<noteq> 0 then do { ip \<leftarrow> arg_value instn 0 vm; do_jump (ucast ip) vm }
     else Some (0, vm)
   }"

definition op_jfalse_2 :: "instn_t \<Rightarrow> 'w vm_t \<Rightarrow> (int \<times> 'w vm_t) option" where
  "op_jfalse_2 instn vm = do {
     c \<leftarrow> arg_value instn 1 vm;
     if c = 0 then do { ip \<leftarrow> arg_value instn 0 vm; do_jump (ucast ip) vm }
     else Some (0, vm)
   }"

definition op_call_3 :: "instn_t \<Rightarrow> 'w vm_t \<Rightarrow> (int \<times> 'w vm_t) option" where
  "op_call_3 instn vm = do {
     ip \<leftarrow> arg_value instn 0 vm;
     argv \<leftarrow> arg_value instn 1 vm;
     retv \<leftarrow> arg_value instn 2 vm;
     p \<leftarrow> this_proc vm;
     p \<leftarrow> push_call_stack (ucast retv) (ucast argv) (p_iptr p) p;
     Some (0, set_this_proc (p\<lparr>p_iptr := ucast ip\<rparr>) vm)
   }"

definition op_ret_0 :: "instn_t \<Rightarrow> 'w vm_t \<Rightarrow> (int \<times> 'w vm_t) option" where
  "op_ret_0 instn vm = do {
     p \<leftarrow> this_proc vm;
     if cstack_sz p = 0 then do {
       vm \<leftarrow> delete_current_procedure vm;
       Some (0, vm)
     } else do {
       (ret_addr, p) \<leftarrow> pop_call_stack p;
       let vm = set_this_proc p vm;
       if ret_addr = - 1 then do {
         vm \<leftarrow> delete_current_procedure vm;
         Some (0, vm)
       } else Some (0, set_this_proc (p\<lparr>p_iptr := ret_addr\<rparr>) vm)
     }
   }"

definition op_argv_1 :: "instn_t \<Rightarrow> 'w vm_t \<Rightarrow> (int \<times> 'w vm_t) option" where
  "op_argv_1 instn vm = do {
     p \<leftarrow> this_proc vm;
     a \<leftarrow> (if cstack_sz p \<noteq> 0 then blk_read (cstack p) (3 * unat (cstack_sz p - 1) + 1) else Some 0);
     d \<leftarrow> arg_ptr instn 0;
     vm \<leftarrow> wr32 d a vm;
     Some (0, vm)
   }"

definition op_retv_1 :: "instn_t \<Rightarrow> 'w vm_t \<Rightarrow> (int \<times> 'w vm_t) option" where
  "op_retv_1 instn vm = do {
     p \<leftarrow> this_proc vm;
     if cstack_sz p = 0 then Some (- 1, raise VM_E_MemFault vm)
     else do {
       retv \<leftarrow> blk_read (cstack p) (3 * unat (cstack_sz p - 1));
       case deref_mem_ptr retv 8 vm of
         (None, vm) \<Rightarrow> Some (- 1, vm)
       | (Some ret, vm) \<Rightarrow> do {
           v \<leftarrow> arg_value instn 0 vm;
           vm \<leftarrow> wr64 ret v vm;
           Some (0, vm)
         }
     }
   }"

fun run_ctrl :: "ctrl_handler \<Rightarrow> instn_t \<Rightarrow> 'w vm_t \<Rightarrow> (int \<times> 'w vm_t) option" where
  "run_ctrl H_jmp_1 = op_jmp_1"
| "run_ctrl H_jtrue_2 = op_jtrue_2"
| "run_ctrl H_jfalse_2 = op_jfalse_2"
| "run_ctrl H_call_3 = op_call_3"
| "run_ctrl H_ret_0 = op_ret_0"
| "run_ctrl H_argv_1 = op_argv_1"
| "run_ctrl H_retv_1 = op_retv_1"

section \<open>What these handlers may change\<close>

text \<open>
  A control step changes at most the content of the memory, the exceptions and the procedures;
  the other procedures stay in place behind the running one.
\<close>

definition ctrl_step :: "'w vm_t \<Rightarrow> 'w vm_t \<Rightarrow> bool" where
  "ctrl_step vm vm' \<longleftrightarrow> (\<exists>m e ps. length m = length (memory vm) \<and>
     vm' = vm\<lparr>memory := m, exceptions := e, procedures := ps\<rparr> \<and>
     (tl (procedures vm) = ps \<or> (procedures vm \<noteq> [] \<and> ps \<noteq> [] \<and> tl ps = tl (procedures vm)) \<or> ps = procedures vm))"

lemma ctrl_stepI:
  assumes "length m = length (memory vm)"
    and "tl (procedures vm) = ps \<or> (procedures vm \<noteq> [] \<and> ps \<noteq> [] \<and> tl ps = tl (procedures vm)) \<or> ps = procedures vm"
  shows "ctrl_step vm (vm\<lparr>memory := m, exceptions := e, procedures := ps\<rparr>)"
  using assms by (auto simp: ctrl_step_def)

lemma ctrl_step_refl [simp]: "ctrl_step vm vm"
  using ctrl_stepI [where m = "memory vm" and e = "exceptions vm" and ps = "procedures vm" and vm = vm] by simp

lemma ctrl_step_raise [simp]: "ctrl_step vm (raise e vm)"
  using ctrl_stepI [where m = "memory vm" and e = "exceptions vm OR e" and ps = "procedures vm" and vm = vm]
  by (simp add: raise_def)

lemma ctrl_step_wr: "wr n p k vm = Some vm' \<Longrightarrow> ctrl_step vm vm'"
proof -
  assume "wr n p k vm = Some vm'"
  then obtain m where "store n (memory vm) p k = Some m" "vm' = vm\<lparr>memory := m\<rparr>"
    by (auto simp: wr_def)
  then show ?thesis
    using ctrl_stepI [where m = m and e = "exceptions vm" and ps = "procedures vm" and vm = vm]
    by (simp add: store_length)
qed

lemma ctrl_step_procedures:
  assumes "tl (procedures vm) = ps \<or> (procedures vm \<noteq> [] \<and> ps \<noteq> [] \<and> tl ps = tl (procedures vm))"
  shows "ctrl_step vm (vm\<lparr>procedures := ps\<rparr>)"
  using ctrl_stepI [where m = "memory vm" and e = "exceptions vm" and ps = ps and vm = vm] assms by auto

lemma ctrl_step_set: "this_proc vm = Some p \<Longrightarrow> ctrl_step vm (set_this_proc q vm)"
  unfolding set_this_proc_def by (rule ctrl_step_procedures) (auto simp: this_proc_def split: list.splits)

lemma ctrl_step_delete: "delete_current_procedure vm = Some vm' \<Longrightarrow> ctrl_step vm vm'"
  by (auto simp: delete_current_procedure_def split: list.splits intro: ctrl_step_procedures)

lemma delete_set: "this_proc vm = Some p \<Longrightarrow> delete_current_procedure (set_this_proc q vm) = Some vm' \<Longrightarrow>
    ctrl_step vm vm'"
  by (auto simp: delete_current_procedure_def set_this_proc_def this_proc_def split: list.splits
      intro: ctrl_step_procedures)

lemma set_set: "set_this_proc p (set_this_proc q vm) = set_this_proc p vm"
  by (simp add: set_this_proc_def)

text \<open>A control handler makes a control step and raises an exception when it stops the machine.\<close>

definition ctrl_handler_ok :: "(instn_t \<Rightarrow> 'w vm_t \<Rightarrow> (int \<times> 'w vm_t) option) \<Rightarrow> bool" where
  "ctrl_handler_ok h \<longleftrightarrow> (\<forall>instn vm r vm'. h instn vm = Some (r, vm') \<longrightarrow>
     ctrl_step vm vm' \<and> (r = 0 \<or> r = - 1))"

lemma ctrl_handlerI:
  "(\<And>instn vm r vm'. h instn vm = Some (r, vm') \<Longrightarrow> ctrl_step vm vm' \<and> (r = 0 \<or> r = - 1)) \<Longrightarrow> ctrl_handler_ok h"
  by (simp add: ctrl_handler_ok_def)

lemma do_jump_ctrl: "do_jump ip vm = Some (r, vm') \<Longrightarrow> ctrl_step vm vm' \<and> (r = 0 \<or> r = - 1)"
  by (auto simp: do_jump_def intro: ctrl_step_set split: if_splits)

lemma op_ret_ctrl: "ctrl_handler_ok op_ret_0"
proof (rule ctrl_handlerI)
  fix instn and vm vm' :: "'w vm_t" and r
  assume a: "op_ret_0 instn vm = Some (r, vm')"
  then obtain p where p: "this_proc vm = Some p" by (auto simp: op_ret_0_def)
  show "ctrl_step vm vm' \<and> (r = 0 \<or> r = - 1)"
  proof (cases "cstack_sz p = 0")
    case True
    with a p show ?thesis by (auto simp: op_ret_0_def intro: ctrl_step_delete)
  next
    case False
    then obtain ra q where q: "pop_call_stack p = Some (ra, q)" using a p by (auto simp: op_ret_0_def)
    with a p False show ?thesis
      by (cases "ra = - 1") (auto simp: op_ret_0_def Let_def set_set intro: delete_set ctrl_step_set)
  qed
qed

lemma op_retv_ctrl: "ctrl_handler_ok op_retv_1"
proof (rule ctrl_handlerI)
  fix instn and vm vm' :: "'w vm_t" and r
  assume a: "op_retv_1 instn vm = Some (r, vm')"
  then obtain p where p: "this_proc vm = Some p" by (auto simp: op_retv_1_def)
  show "ctrl_step vm vm' \<and> (r = 0 \<or> r = - 1)"
  proof (cases "cstack_sz p = 0")
    case True
    with a p show ?thesis by (auto simp: op_retv_1_def)
  next
    case False
    with a p obtain rv where k: "(case deref_mem_ptr rv 8 vm of
         (None, vm) \<Rightarrow> Some (- 1, vm)
       | (Some ret, vm) \<Rightarrow> do { v \<leftarrow> arg_value instn 0 vm; vm \<leftarrow> wr64 ret v vm; Some (0, vm) }) = Some (r, vm')"
      by (auto simp: op_retv_1_def)
    show ?thesis
    proof (cases "fst (deref_mem_ptr rv 8 vm)")
      case None
      with k show ?thesis by (auto simp: deref_mem_ptr_def split: if_splits)
    next
      case (Some q)
      then have "deref_mem_ptr rv 8 vm = (Some q, vm)"
        by (metis deref_mem_ptr_Some deref_mem_ptr_deref)
      with k show ?thesis by (auto simp: wr64_def dest: ctrl_step_wr)
    qed
  qed
qed

lemma op_call_ctrl: "ctrl_handler_ok op_call_3"
  by (rule ctrl_handlerI) (auto simp: op_call_3_def intro: ctrl_step_set)

lemma op_argv_ctrl: "ctrl_handler_ok op_argv_1"
  by (rule ctrl_handlerI) (auto simp: op_argv_1_def wr32_def dest: ctrl_step_wr split: if_splits)

lemma op_jump_ctrl: "ctrl_handler_ok op_jmp_1" "ctrl_handler_ok op_jtrue_2" "ctrl_handler_ok op_jfalse_2"
  by (rule ctrl_handlerI; auto simp: op_jmp_1_def op_jtrue_2_def op_jfalse_2_def dest: do_jump_ctrl split: if_splits)+

lemma run_ctrl_ok: "ctrl_handler_ok (run_ctrl h)"
  by (cases h) (simp_all add: op_jump_ctrl op_call_ctrl op_ret_ctrl op_argv_ctrl op_retv_ctrl)

section \<open>What the handlers do\<close>

text \<open>
  The jumps: a taken jump sets the instruction pointer of the running procedure to the low
  32 bits of its operand, or raises a bad instruction pointer when that is not in the code; a
  jump not taken changes nothing.
\<close>

lemma jumps_correct:
  assumes p: "procedures vm = p # ps" and a: "arg_value instn 0 vm = Some t" and c: "arg_value instn 1 vm = Some c"
  shows "let taken = (if ucast t < codesz vm then Some (0, vm\<lparr>procedures := p\<lparr>p_iptr := ucast t\<rparr> # ps\<rparr>)
             else Some (- 1, raise VM_E_BadInstnPointer vm))
    in op_jmp_1 instn vm = taken \<and>
       op_jtrue_2 instn vm = (if c \<noteq> 0 then taken else Some (0, vm)) \<and>
       op_jfalse_2 instn vm = (if c = 0 then taken else Some (0, vm))"
proof -
  have "do_jump (ucast t) vm = (if ucast t < codesz vm then Some (0, vm\<lparr>procedures := p\<lparr>p_iptr := ucast t\<rparr> # ps\<rparr>)
             else Some (- 1, raise VM_E_BadInstnPointer vm))"
    using p by (auto simp: do_jump_def this_proc_def set_this_proc_def not_le)
  then show ?thesis
    using a c by (simp add: Let_def op_jmp_1_def op_jtrue_2_def op_jfalse_2_def)
qed

text \<open>The running procedure, its pointer and its call stack.\<close>

definition running :: "'w vm_t \<Rightarrow> u32 \<Rightarrow> fcall_t list \<Rightarrow> proc_t list \<Rightarrow> bool" where
  "running vm ip fs ps \<longleftrightarrow> (\<exists>p. procedures vm = p # ps \<and> p_iptr p = ip \<and> shallow_stack p fs)"






section \<open>The properties at a concrete machine\<close>

definition demo_call :: instn_t where
  "demo_call = \<lparr>icode = 7, arg_sizes = 0, iargs = [Imm 0, Imm 4, Imm 8]\<rparr>"

lemma demo_call_args [simp]:
  "arg_value demo_call 0 vm = Some 0" "arg_value demo_call 1 vm = Some 4" "arg_value demo_call 2 vm = Some 8"
  "arg_value demo_call (Suc 0) vm = Some 4"
  by (simp_all add: demo_call_def arg_value_def is_imm_def imm_bytes_def bit_iff_odd_drop_bit
      take_bit_eq_mask mask_eq_exp_minus_1)

lemma demo_running: "running demo_vm 0 [] []"
  using shallow_fresh [of 0]
  by (simp add: running_def demo_vm_def make_vm_def make_procedure_def fresh_proc_def)


lemma jumps_correct_witness:
  "op_jfalse_2 demo_call demo_vm = Some (0, demo_vm)"
proof -
  obtain p where p: "procedures demo_vm = [p]" using demo_running by (auto simp: running_def)
  show ?thesis using jumps_correct [OF p, of demo_call 0 4] by (simp add: Let_def)
qed


end
