(* ===== verification/Os.thy ===== *)
theory Os
  imports VmState
begin

text \<open>
  The operating system as the machine sees it: a record of the calls the code makes, each a
  function of its arguments and the state of the world. A failed call is \<^term>\<open>Inl\<close> of
  \<open>errno\<close> (or \<^term>\<open>Some\<close> of it where success has no value). The record is an argument of
  every operation that uses it; nothing is assumed of it except where a lemma says so.
\<close>

record 'w os =
  os_clock_gettime :: "'w \<Rightarrow> (i32 + timespec) \<times> 'w"
  os_nanosleep :: "timespec \<Rightarrow> 'w \<Rightarrow> i32 option \<times> 'w"
  os_realloc :: "u8 list \<Rightarrow> nat \<Rightarrow> 'w \<Rightarrow> u8 list option \<times> 'w"
  os_pselect :: "i32 \<Rightarrow> i32 list \<Rightarrow> i32 list \<Rightarrow> 'w \<Rightarrow> (i32 + (i32 \<times> i32 list \<times> i32 list)) \<times> 'w"
  os_read :: "i32 \<Rightarrow> nat \<Rightarrow> 'w \<Rightarrow> (i32 + u8 list) \<times> 'w"
  os_write :: "i32 \<Rightarrow> u8 list \<Rightarrow> 'w \<Rightarrow> (i32 + nat) \<times> 'w"
  os_close :: "i32 \<Rightarrow> 'w \<Rightarrow> i32 option \<times> 'w"
  os_open :: "u8 list \<Rightarrow> u32 \<Rightarrow> 'w \<Rightarrow> (i32 + i32) \<times> 'w"
  os_stat :: "u8 list \<Rightarrow> 'w \<Rightarrow> (i32 + u8 list) \<times> 'w"
  os_unlink :: "u8 list \<Rightarrow> 'w \<Rightarrow> i32 option \<times> 'w"
  os_lseek :: "i32 \<Rightarrow> i64 \<Rightarrow> u64 \<Rightarrow> 'w \<Rightarrow> i32 option \<times> 'w"
  os_mkdir :: "u8 list \<Rightarrow> 'w \<Rightarrow> i32 option \<times> 'w"
  os_rmdir :: "u8 list \<Rightarrow> 'w \<Rightarrow> i32 option \<times> 'w"
  os_opendir :: "u8 list \<Rightarrow> 'w \<Rightarrow> (i32 + (u8 list \<times> i32) list) \<times> 'w"
  os_socket :: "bool \<Rightarrow> 'w \<Rightarrow> (i32 + i32) \<times> 'w"
  os_setsockopt :: "i32 \<Rightarrow> 'w \<Rightarrow> i32 option \<times> 'w"
  os_nonblock :: "i32 \<Rightarrow> 'w \<Rightarrow> 'w"
  os_bind :: "i32 \<Rightarrow> vm_net_sock_t \<Rightarrow> 'w \<Rightarrow> i32 option \<times> 'w"
  os_connect :: "i32 \<Rightarrow> vm_net_sock_t \<Rightarrow> 'w \<Rightarrow> i32 option \<times> 'w"
  os_listen :: "i32 \<Rightarrow> nat \<Rightarrow> 'w \<Rightarrow> i32 option \<times> 'w"
  os_accept :: "i32 \<Rightarrow> 'w \<Rightarrow> (i32 + (i32 \<times> i32 \<times> vm_net_sock_t)) \<times> 'w"
  os_waitpid :: "'w \<Rightarrow> (i32 + (i32 \<times> i32)) \<times> 'w"
  os_kill :: "i32 \<Rightarrow> 'w \<Rightarrow> i32 option \<times> 'w"
  os_spawn :: "u8 list list \<Rightarrow> 'w \<Rightarrow> (i32 + i32) \<times> 'w"
  vm_executable :: "u8 list"
  os_write_image :: "u8 list \<Rightarrow> u8 list \<Rightarrow> u32 \<Rightarrow> 'w \<Rightarrow> (i32 + u8 list) \<times> 'w"

text \<open>
  \<open>os_accept\<close> returns the new descriptor, the \<open>errno\<close> in force and the peer;
  \<open>os_opendir\<close> the entries \<open>readdir\<close> will give, each with the \<open>errno\<close> in force;
  \<open>os_spawn\<close> is \<open>fork\<close> with the child calling \<open>execv\<close> on the arguments;
  \<open>vm_executable\<close> is the path \<open>BVGZ_VM_executable\<close>; \<open>os_write_image\<close> creates a fresh image file (\<open>setup_image_gen_dir\<close>,
  \<open>make_image_file_name\<close>, \<open>fopen\<close> and \<open>write_bvgz_image_direct\<close>) and returns its name.
\<close>

section \<open>What is documented of the calls\<close>

text \<open>\<open>realloc\<close> gives a block of the size asked for that keeps the old bytes.\<close>

definition realloc_ok :: "'w os \<Rightarrow> bool" where
  "realloc_ok os \<longleftrightarrow> (\<forall>m n w m' w'. os_realloc os m n w = (Some m', w') \<longrightarrow>
     length m' = n \<and> take (min n (length m)) m' = take (min n (length m)) m)"

text \<open>\<open>read\<close> gives no more bytes than asked for, \<open>stat\<close> a structure of its size.\<close>

definition read_ok :: "'w os \<Rightarrow> bool" where
  "read_ok os \<longleftrightarrow> (\<forall>f n w bs w'. os_read os f n w = (Inr bs, w') \<longrightarrow> length bs \<le> n)"

section \<open>Errors and results in memory\<close>

definition set_error :: "i32 \<Rightarrow> 'w vm_t \<Rightarrow> 'w vm_t" where
  "set_error e vm = vm\<lparr>error_no := e\<rparr>"

text \<open>\<open>if (ret) *ret = v\<close>\<close>

definition put_if :: "nat option \<Rightarrow> u64 \<Rightarrow> 'w vm_t \<Rightarrow> 'w vm_t option" where
  "put_if ret v vm = (case ret of None \<Rightarrow> Some vm | Some r \<Rightarrow> wr64 r v vm)"

text \<open>
  The two ways system calls dereference their argument block and their result: with
  \<open>deref_mem_ptr\<close>, which also raises a memory fault, or with \<open>deref\<close>. When one fails the
  call sets \<open>EFAULT\<close>, writes the failure value \<open>bad\<close> if it can, and returns.
\<close>

definition with_args_mem ::
  "u32 \<Rightarrow> u32 \<Rightarrow> u32 \<Rightarrow> u64 \<Rightarrow> (nat \<Rightarrow> nat \<Rightarrow> 'w vm_t \<Rightarrow> 'w vm_t option) \<Rightarrow> 'w vm_t \<Rightarrow> 'w vm_t option" where
  "with_args_mem argv len retv bad body vm =
     (let (a, vm) = deref_mem_ptr argv len vm; (r, vm) = deref_mem_ptr retv 8 vm in
      case (a, r) of
        (Some a, Some r) \<Rightarrow> body a r vm
      | _ \<Rightarrow> put_if r bad (set_error EFAULT vm))"

definition with_args ::
  "u32 \<Rightarrow> u32 \<Rightarrow> u32 \<Rightarrow> u64 \<Rightarrow> (nat \<Rightarrow> nat \<Rightarrow> 'w vm_t \<Rightarrow> 'w vm_t option) \<Rightarrow> 'w vm_t \<Rightarrow> 'w vm_t option" where
  "with_args argv len retv bad body vm =
     (case (deref argv len vm, deref retv 8 vm) of
        (Some a, Some r) \<Rightarrow> body a r vm
      | (_, r) \<Rightarrow> put_if r bad (set_error EFAULT vm))"

text \<open>\<open>vm->error_no = e; *ret = v; return;\<close>\<close>

definition fail_with :: "i32 \<Rightarrow> nat \<Rightarrow> u64 \<Rightarrow> 'w vm_t \<Rightarrow> 'w vm_t option" where
  "fail_with e r v vm = wr64 r v (set_error e vm)"

definition call_os :: "('w \<Rightarrow> 'r \<times> 'w) \<Rightarrow> 'w vm_t \<Rightarrow> 'r \<times> 'w vm_t" where
  "call_os f vm = (let (r, w) = f (world vm) in (r, vm\<lparr>world := w\<rparr>))"

section \<open>Steps that keep the code\<close>

text \<open>
  \<open>keeps\<close>: the code is not written and the machine stays well-formed. It is what every
  system call and event source owes to the machine.
\<close>

definition keeps :: "'w vm_t \<Rightarrow> 'w vm_t \<Rightarrow> bool" where
  "keeps vm vm' \<longleftrightarrow> code vm' = code vm \<and> codesz vm' = codesz vm \<and> (vm_wf vm \<longrightarrow> vm_wf vm')"

definition keeps_opt :: "'w vm_t \<Rightarrow> 'w vm_t option \<Rightarrow> bool" where
  "keeps_opt vm r \<longleftrightarrow> (\<forall>vm'. r = Some vm' \<longrightarrow> keeps vm vm')"

named_theorems keeps_intros \<open>steps that keep the code and well-formedness\<close>

lemma keeps_refl [simp]: "keeps vm vm" by (simp add: keeps_def)

lemma keeps_trans: "keeps a b \<Longrightarrow> keeps b c \<Longrightarrow> keeps a c" by (simp add: keeps_def)

lemma keeps_same:
  "code vm' = code vm \<Longrightarrow> codesz vm' = codesz vm \<Longrightarrow> memory vm' = memory vm \<Longrightarrow> memsz vm' = memsz vm \<Longrightarrow>
     mem_null vm' = mem_null vm \<Longrightarrow> keeps vm vm'"
  by (simp add: keeps_def vm_wf_def)

lemma keeps_raise [simp]: "keeps vm (raise e vm)" by (rule keeps_same) (simp_all add: raise_def)

lemma keeps_set_error [simp]: "keeps vm (set_error e vm)" by (rule keeps_same) (simp_all add: set_error_def)

lemma keeps_deref_mem [keeps_intros]: "deref_mem_ptr ref sz vm = (q, vm') \<Longrightarrow> keeps vm vm'"
  by (auto simp: deref_mem_ptr_def split: if_splits)

lemma keeps_wr [keeps_intros]: "wr n p k vm = Some vm' \<Longrightarrow> keeps vm vm'"
  by (auto simp: wr_def keeps_def vm_wf_def dest: store_length)

lemma keeps_wr64 [keeps_intros]: "wr64 p k vm = Some vm' \<Longrightarrow> keeps vm vm'"
  by (simp add: wr64_def keeps_wr)

lemma keeps_wr32 [keeps_intros]: "wr32 p k vm = Some vm' \<Longrightarrow> keeps vm vm'"
  by (simp add: wr32_def keeps_wr)

lemma keeps_call_os [keeps_intros]: "call_os f vm = (r, vm') \<Longrightarrow> keeps vm vm'"
  by (auto simp: call_os_def split: prod.splits intro: keeps_same)

lemma keeps_make_procedure [keeps_intros]: "make_procedure ip vm = (b, vm') \<Longrightarrow> keeps vm vm'"
  by (auto simp: make_procedure_def split: if_splits intro: keeps_same)

lemma keeps_make_func_procedure [keeps_intros]:
  assumes "make_func_procedure ip av rv vm = Some (b, vm')"
  shows "keeps vm vm'"
proof -
  obtain b1 vm1 where m: "make_procedure ip vm = (b1, vm1)" by fastforce
  note k = keeps_make_procedure [OF m]
  have "keeps vm1 vm'"
    using assms m by (auto simp: make_func_procedure_def split: bool.splits intro: keeps_same)
  with k show ?thesis by (rule keeps_trans)
qed

lemma keeps_opt_Some [simp]: "keeps_opt vm (Some vm') = keeps vm vm'" by (simp add: keeps_opt_def)

lemma keeps_opt_None [simp]: "keeps_opt vm None" by (simp add: keeps_opt_def)

lemma keeps_optD: "keeps_opt vm r \<Longrightarrow> r = Some vm' \<Longrightarrow> keeps vm vm'" by (simp add: keeps_opt_def)

lemma keeps_opt_trans: "keeps vm vm1 \<Longrightarrow> keeps_opt vm1 r \<Longrightarrow> keeps_opt vm r"
  by (auto simp: keeps_opt_def intro: keeps_trans)

lemma keeps_opt_bind: "keeps_opt vm m \<Longrightarrow> (\<And>vm1. m = Some vm1 \<Longrightarrow> keeps_opt vm1 (f vm1)) \<Longrightarrow> keeps_opt vm (Option.bind m f)"
  by (cases m) (auto intro: keeps_opt_trans)

lemma keeps_opt_bind': "(\<And>x. m = Some x \<Longrightarrow> keeps_opt vm (f x)) \<Longrightarrow> keeps_opt vm (Option.bind m f)"
  by (cases m) auto

lemma keeps_opt_wr64: "keeps_opt vm (wr64 p v vm)"
  by (auto simp: keeps_opt_def intro: keeps_wr64)

lemma keeps_opt_wr32: "keeps_opt vm (wr32 p v vm)"
  by (auto simp: keeps_opt_def intro: keeps_wr32)

lemma keeps_opt_fail_with: "keeps_opt vm (fail_with e r v vm)"
  unfolding fail_with_def by (rule keeps_opt_trans [OF keeps_set_error keeps_opt_wr64])

lemma keeps_opt_put_if: "keeps_opt vm (put_if r v vm)"
  by (cases r) (simp_all add: put_if_def keeps_opt_wr64)

lemma keeps_opt_with_args:
  assumes "\<And>a r vm. keeps_opt vm (body a r vm)"
  shows "keeps_opt vm (with_args argv len retv bad body vm)"
  by (auto simp: with_args_def split: option.splits
      intro: assms keeps_opt_put_if keeps_opt_trans [OF keeps_set_error])

lemma keeps_opt_with_args_mem:
  assumes "\<And>a r vm. keeps_opt vm (body a r vm)"
  shows "keeps_opt vm (with_args_mem argv len retv bad body vm)"
proof -
  obtain a vm1 where a: "deref_mem_ptr argv len vm = (a, vm1)" by fastforce
  obtain r vm2 where r: "deref_mem_ptr retv 8 vm1 = (r, vm2)" by fastforce
  have k: "keeps vm vm2" using keeps_deref_mem [OF a] keeps_deref_mem [OF r] by (rule keeps_trans)
  have f: "keeps_opt vm2 (put_if r bad (set_error EFAULT vm2))"
    by (rule keeps_opt_trans [OF keeps_set_error keeps_opt_put_if])
  have "keeps_opt vm2 (with_args_mem argv len retv bad body vm)"
    using a r f assms by (cases a; cases r; simp add: with_args_mem_def)
  with k show ?thesis by (rule keeps_opt_trans)
qed

text \<open>The same for operations that return more than the machine.\<close>

definition keeps_via :: "('a \<Rightarrow> 'w vm_t) \<Rightarrow> 'w vm_t \<Rightarrow> 'a option \<Rightarrow> bool" where
  "keeps_via p vm r \<longleftrightarrow> (\<forall>x. r = Some x \<longrightarrow> keeps vm (p x))"

lemma keeps_via_Some [simp]: "keeps_via p vm (Some x) = keeps vm (p x)" by (simp add: keeps_via_def)

lemma keeps_via_None [simp]: "keeps_via p vm None" by (simp add: keeps_via_def)

lemma keeps_viaD: "keeps_via p vm r \<Longrightarrow> r = Some x \<Longrightarrow> keeps vm (p x)" by (simp add: keeps_via_def)

lemma keeps_via_trans: "keeps vm vm1 \<Longrightarrow> keeps_via p vm1 r \<Longrightarrow> keeps_via p vm r"
  by (auto simp: keeps_via_def intro: keeps_trans)

lemma keeps_via_bind:
  "keeps_via q vm m \<Longrightarrow> (\<And>x. m = Some x \<Longrightarrow> keeps_via p (q x) (f x)) \<Longrightarrow> keeps_via p vm (Option.bind m f)"
  by (cases m) (auto intro: keeps_via_trans)

lemma keeps_via_pure: "(\<And>x. m = Some x \<Longrightarrow> keeps_via p vm (f x)) \<Longrightarrow> keeps_via p vm (Option.bind m f)"
  by (cases m) auto

lemma keeps_via_step:
  "keeps_opt vm m \<Longrightarrow> (\<And>vm1. m = Some vm1 \<Longrightarrow> keeps_via p vm1 (f vm1)) \<Longrightarrow> keeps_via p vm (Option.bind m f)"
  by (cases m) (auto intro: keeps_via_trans)

lemma keeps_opt_via: "keeps_opt vm r \<longleftrightarrow> keeps_via (\<lambda>x. x) vm r"
  by (simp add: keeps_opt_def keeps_via_def)

lemma keeps_opt_via_bind:
  "keeps_via q vm m \<Longrightarrow> (\<And>x. m = Some x \<Longrightarrow> keeps_opt (q x) (f x)) \<Longrightarrow> keeps_opt vm (Option.bind m f)"
  unfolding keeps_opt_via by (rule keeps_via_bind)

lemma keeps_via_make_func: "keeps_via snd vm (make_func_procedure ip av rv vm)"
  by (auto simp: keeps_via_def intro: keeps_make_func_procedure)

section \<open>A concrete system\<close>

text \<open>A clock that stands at 100 seconds, memory that can always grow, and calls that succeed.\<close>

definition demo_os :: "unit os" where
  "demo_os = \<lparr>
     os_clock_gettime = \<lambda>w. (Inr (Timespec 100 0), w),
     os_nanosleep = \<lambda>t w. (None, w),
     os_realloc = \<lambda>m n w. (Some (take n m @ replicate (n - length m) 0), w),
     os_pselect = \<lambda>m r w' w. (Inr (of_nat (length r + length w'), r, w'), w),
     os_read = \<lambda>f n w. (Inr (replicate n 65), w),
     os_write = \<lambda>f bs w. (Inr (length bs), w),
     os_close = \<lambda>f w. (None, w),
     os_open = \<lambda>p fl w. (Inr 3, w),
     os_stat = \<lambda>p w. (Inr (replicate 144 0), w),
     os_unlink = \<lambda>p w. (None, w),
     os_lseek = \<lambda>f off wh w. (None, w),
     os_mkdir = \<lambda>p w. (None, w),
     os_rmdir = \<lambda>p w. (None, w),
     os_opendir = \<lambda>p w. (Inr [([46], 0), ([46, 46], 0)], w),
     os_socket = \<lambda>b w. (Inr 4, w),
     os_setsockopt = \<lambda>f w. (None, w),
     os_nonblock = \<lambda>f w. w,
     os_bind = \<lambda>f a w. (None, w),
     os_connect = \<lambda>f a w. (None, w),
     os_listen = \<lambda>f n w. (None, w),
     os_accept = \<lambda>f w. (Inr (5, 0, \<lparr>s_addr = 0, sin_port = 0\<rparr>), w),
     os_waitpid = \<lambda>w. (Inr (0, 0), w),
     os_kill = \<lambda>p w. (None, w),
     os_spawn = \<lambda>a w. (Inr 77, w),
     vm_executable = [98],
     os_write_image = \<lambda>c m e w. (Inr [105], w)\<rparr>"

lemma demo_os_ok: "realloc_ok demo_os" "read_ok demo_os"
  by (auto simp: realloc_ok_def read_ok_def demo_os_def)

end
