(* ===== verification/Timers.thy ===== *)
theory Timers
  imports Os "HOL-Library.Multiset"
begin

text \<open>
  Timers (\<open>timers.c\<close>, \<open>make_vm_timer\<close> of \<open>vm.c\<close>): firing the expired ones, which makes
  a procedure for each, and the system call \<open>timeout\<close> that sets one. Times are ordered by
  seconds, then nanoseconds, as \<open>TIMESPEC_GREATER_EQUAL\<close> compares them.
\<close>

section \<open>The order of times\<close>

instantiation timespec :: linorder
begin

definition less_eq_timespec :: "timespec \<Rightarrow> timespec \<Rightarrow> bool" where
  "less_eq_timespec a b \<longleftrightarrow> sint (tv_sec b) > sint (tv_sec a) \<or>
     (tv_sec b = tv_sec a \<and> sint (tv_nsec b) \<ge> sint (tv_nsec a))"

definition less_timespec :: "timespec \<Rightarrow> timespec \<Rightarrow> bool" where
  "less_timespec a b \<longleftrightarrow> a \<le> b \<and> \<not> b \<le> a"

instance
proof
  fix a b c :: timespec
  show "(a < b) = (a \<le> b \<and> \<not> b \<le> a)" by (simp add: less_timespec_def)
  show "a \<le> a" by (simp add: less_eq_timespec_def)
  show "a \<le> b \<Longrightarrow> b \<le> c \<Longrightarrow> a \<le> c" by (auto simp: less_eq_timespec_def)
  show "a \<le> b \<Longrightarrow> b \<le> a \<Longrightarrow> a = b"
    by (cases a; cases b) (auto simp: less_eq_timespec_def signed_word_eqI)
  have "sint (tv_sec a) = sint (tv_sec b) \<Longrightarrow> tv_sec a = tv_sec b" by (rule signed_word_eqI)
  then show "a \<le> b \<or> b \<le> a" by (auto simp: less_eq_timespec_def)
qed

end

definition TIMESPEC_GREATER_EQUAL :: "timespec \<Rightarrow> timespec \<Rightarrow> bool" where
  "TIMESPEC_GREATER_EQUAL a b \<longleftrightarrow> sint (tv_sec a) > sint (tv_sec b) \<or>
     (tv_sec a = tv_sec b \<and> sint (tv_nsec a) \<ge> sint (tv_nsec b))"

lemma TIMESPEC_GREATER_EQUAL_le: "TIMESPEC_GREATER_EQUAL a b \<longleftrightarrow> b \<le> a"
  by (simp add: TIMESPEC_GREATER_EQUAL_def less_eq_timespec_def)

section \<open>Setting a timer\<close>

text \<open>A \<open>vm_timer_t\<close> takes 24 bytes.\<close>

definition make_vm_timer :: "timespec \<Rightarrow> u32 \<Rightarrow> 'w vm_t \<Rightarrow> 'w vm_t option" where
  "make_vm_timer t ip vm = do {
     b \<leftarrow> blk_realloc 24 (24 * unat (n_timers vm + 1)) (timers vm);
     b \<leftarrow> blk_write b (unat (n_timers vm)) \<lparr>expires_at = t, t_iptr = ip\<rparr>;
     Some (vm\<lparr>timers := b, n_timers := n_timers vm + 1\<rparr>)
   }"

definition sys_timeout :: "'w os \<Rightarrow> u32 \<Rightarrow> u32 \<Rightarrow> 'w vm_t \<Rightarrow> 'w vm_t option" where
  "sys_timeout os argv retv = with_args argv 12 retv 1 (\<lambda>a r vm. do {
     f_ptr \<leftarrow> rd32 a vm;
     ms \<leftarrow> rd64 (a + 4) vm;
     if f_ptr > codesz vm then fail_with EINVAL r 1 vm
     else (case call_os (os_clock_gettime os) vm of
         (Inl e, vm) \<Rightarrow> fail_with e r 1 vm
       | (Inr tp, vm) \<Rightarrow> do {
           vm \<leftarrow> make_vm_timer (Timespec (tv_sec tp + ms div 1000) (tv_nsec tp + 1000000 * (ms mod 1000))) f_ptr vm;
           wr64 r 0 vm
         })
   })"

section \<open>Firing\<close>

text \<open>
  The loop with \<open>i\<close> the index and \<open>i + k\<close> the number of timers left: a timer that fires is
  replaced by the last one and the index stays; \<open>k\<close> drops in every turn.
\<close>

fun fire_timers_loop :: "nat \<Rightarrow> timespec \<Rightarrow> nat \<Rightarrow> u32 \<Rightarrow> 'w vm_t \<Rightarrow> (u32 \<times> nat \<times> 'w vm_t) option" where
  "fire_timers_loop 0 now i ev vm = Some (ev, i, vm)"
| "fire_timers_loop (Suc k) now i ev vm = do {
     tmr \<leftarrow> blk_read (timers vm) i;
     if TIMESPEC_GREATER_EQUAL now (expires_at tmr) then do {
       let vm = snd (make_procedure (t_iptr tmr) vm);
       vm \<leftarrow> (if k > 0 then do {
                l \<leftarrow> blk_read (timers vm) (i + k);
                b \<leftarrow> blk_write (timers vm) i l;
                Some (vm\<lparr>timers := b\<rparr>)
              } else Some vm);
       fire_timers_loop k now i (ev + 1) vm
     } else fire_timers_loop k now (i + 1) ev vm
   }"

definition fire_timer_events :: "'w os \<Rightarrow> 'w vm_t \<Rightarrow> (u32 \<times> 'w vm_t) option" where
  "fire_timer_events os vm =
     (let (t, vm) = call_os (os_clock_gettime os) vm;
          (now, vm) = (case t of Inl e \<Rightarrow> (Timespec 0 0, set_error e vm) | Inr now \<Rightarrow> (now, vm))
      in do {
        (ev, n, vm) \<leftarrow> fire_timers_loop (unat (n_timers vm)) now 0 0 vm;
        if n \<noteq> unat (n_timers vm) then do {
          b \<leftarrow> blk_realloc 24 (n * 24) (timers vm);
          Some (ev, vm\<lparr>timers := b, n_timers := of_nat n\<rparr>)
        } else Some (ev, vm)
      })"

definition has_pending_timer_events :: "'w vm_t \<Rightarrow> bool" where
  "has_pending_timer_events vm \<longleftrightarrow> n_timers vm > 0"

section \<open>The timers as a multiset\<close>

definition timers_are :: "'w vm_t \<Rightarrow> vm_timer_t list \<Rightarrow> bool" where
  "timers_are vm ts \<longleftrightarrow> unat (n_timers vm) = length ts \<and>
     (timers vm = Slots (map Some ts) \<or> timers vm = Null \<and> ts = [])"

lemma make_vm_timer_correct:
  assumes t: "timers_are vm ts" and l: "length ts + 1 < 2 ^ 32"
  shows "\<exists>vm'. make_vm_timer t ip vm = Some vm' \<and> timers_are vm' (ts @ [\<lparr>expires_at = t, t_iptr = ip\<rparr>]) \<and>
    vm' = vm\<lparr>timers := timers vm', n_timers := n_timers vm + 1\<rparr>"
proof -
  have n: "unat (n_timers vm) = length ts" using t by (simp add: timers_are_def)
  then have n1: "unat (n_timers vm + 1) = length ts + 1" using l by (simp add: unat_word_ariths)
  have "blk_realloc 24 (24 * (length ts + 1)) (timers vm) = Some (Slots (map Some ts @ [None]))"
    using t by (auto simp: timers_are_def)
  then show ?thesis
    using n n1 by (simp add: make_vm_timer_def timers_are_def list_update_append)
qed

abbreviation expired :: "timespec \<Rightarrow> vm_timer_t \<Rightarrow> bool" where
  "expired now t \<equiv> expires_at t \<le> now"

text \<open>What firing leaves alone: everything but the timers, the procedures and the exceptions.\<close>

definition fire_frame :: "'w vm_t \<Rightarrow> 'w vm_t \<Rightarrow> bool" where
  "fire_frame vm vm' \<longleftrightarrow> code vm' = code vm \<and> codesz vm' = codesz vm \<and> memory vm' = memory vm \<and>
     memsz vm' = memsz vm \<and> mem_null vm' = mem_null vm \<and> n_timers vm' = n_timers vm \<and>
     error_no vm' = error_no vm \<and> io vm' = io vm \<and> vm_proc vm' = vm_proc vm \<and> world vm' = world vm"

lemma fire_frame_trans: "fire_frame a b \<Longrightarrow> fire_frame b c \<Longrightarrow> fire_frame a c"
  by (simp add: fire_frame_def)

lemma fire_frame_make: "fire_frame vm (snd (make_procedure ip vm))"
  by (simp add: fire_frame_def make_procedure_def raise_def)

lemma fire_frame_timers: "fire_frame vm (vm\<lparr>timers := b\<rparr>)"
  by (simp add: fire_frame_def)

lemma timers_make [simp]: "timers (snd (make_procedure ip vm)) = timers vm"
  by (simp add: make_procedure_def raise_def)

lemma procedures_make:
  "procedures (snd (make_procedure ip vm)) = procedures vm @ (if ip < codesz vm then [fresh_proc ip] else [])"
  by (auto simp: make_procedure_def raise_def fresh_proc_def)

definition started :: "u32 \<Rightarrow> u32 list \<Rightarrow> proc_t list" where
  "started csz ips = map fresh_proc (filter (\<lambda>ip. ip < csz) ips)"

lemma started_Cons: "started csz (ip # ips) = (if ip < csz then [fresh_proc ip] else []) @ started csz ips"
  by (simp add: started_def)

text \<open>The expired timer is replaced by the last one that has not been looked at.\<close>

lemma fire_last_moved:
  assumes t: "timers vm = Slots (map Some (xs @ (y # ys) @ zs))" "length ys = k" "length xs = i"
  shows "\<exists>vm' ys' zs'. (if k > 0 then do {
        l \<leftarrow> blk_read (timers vm) (i + k);
        b \<leftarrow> blk_write (timers vm) i l;
        Some (vm\<lparr>timers := b\<rparr>)
      } else Some vm) = Some vm' \<and>
    timers vm' = Slots (map Some (xs @ ys' @ zs')) \<and> length ys' = k \<and> mset ys' = mset ys \<and>
    length ys' + length zs' = Suc (length ys) + length zs \<and> fire_frame vm vm' \<and> procedures vm' = procedures vm"
proof (cases ys rule: rev_cases)
  case Nil
  then show ?thesis
    using t by (intro exI [of _ vm] exI [of _ "[]"] exI [of _ "y # zs"]) (simp add: fire_frame_def)
next
  case (snoc ws w)
  have r: "blk_read (timers vm) (i + k) = Some w" "k > 0" using t snoc by (auto simp: nth_append)
  have "blk_write (timers vm) i w = Some (Slots (map Some (xs @ (w # ws) @ w # zs)))"
    using t snoc by (simp add: list_update_append)
  with r snoc t show ?thesis
    by (intro exI [of _ "vm\<lparr>timers := Slots (map Some (xs @ (w # ws) @ w # zs))\<rparr>"] exI [of _ "w # ws"] exI [of _ "w # zs"])
      (simp add: fire_frame_timers del: bind_Some_iff)
qed

text \<open>
  The loop keeps the timers that have not expired and starts a procedure for each that has,
  in some order.
\<close>

lemma fire_timers_loop_correct:
  "timers vm = Slots (map Some (xs @ ys @ zs)) \<Longrightarrow> length ys = k \<Longrightarrow> length xs = i \<Longrightarrow>
   \<exists>ev' vm' fired kept rest. fire_timers_loop k now i ev vm = Some (ev', i + length kept, vm') \<and>
     timers vm' = Slots (map Some (xs @ kept @ rest)) \<and> fire_frame vm vm' \<and>
     length kept + length rest = length ys + length zs \<and> mset kept = filter_mset (\<lambda>t. \<not> expired now t) (mset ys) \<and>
     mset fired = filter_mset (expired now) (mset ys) \<and>
     ev' = ev + of_nat (length fired) \<and>
     procedures vm' = procedures vm @ started (codesz vm) (map t_iptr fired)"
proof (induction k arbitrary: i ev vm xs ys zs)
  case 0
  then show ?case
    by (intro exI [of _ ev] exI [of _ vm] exI [of _ "[]"] exI [of _ "[]"] exI [of _ zs])
      (simp add: fire_frame_def started_def)
next
  case (Suc k)
  then obtain y ys' where ys: "ys = y # ys'" "length ys' = k" by (cases ys) auto
  have rd: "blk_read (timers vm) i = Some y" using Suc.prems ys by (simp add: nth_append)
  show ?case
  proof (cases "expired now y")
    case False
    have t: "timers vm = Slots (map Some ((xs @ [y]) @ ys' @ zs))" using Suc.prems ys by simp
    have "fire_timers_loop (Suc k) now i ev vm = fire_timers_loop k now (i + 1) ev vm"
      using rd False by (simp add: TIMESPEC_GREATER_EQUAL_le)
    moreover obtain ev' vm' fired kept rest where
      "fire_timers_loop k now (i + 1) ev vm = Some (ev', (i + 1) + length kept, vm')"
      "timers vm' = Slots (map Some ((xs @ [y]) @ kept @ rest))" "fire_frame vm vm'"
      "length kept + length rest = length ys' + length zs" "mset kept = filter_mset (\<lambda>t. \<not> expired now t) (mset ys')"
      "mset fired = filter_mset (expired now) (mset ys')"
      "ev' = ev + of_nat (length fired)"
      "procedures vm' = procedures vm @ started (codesz vm) (map t_iptr fired)"
      using Suc.IH [OF t ys(2), of "i + 1" ev] Suc.prems(3) by auto
    ultimately show ?thesis using ys False
      by (intro exI [of _ ev'] exI [of _ vm'] exI [of _ fired] exI [of _ "y # kept"] exI [of _ rest]) simp
  next
    case True
    let ?vm1 = "snd (make_procedure (t_iptr y) vm)"
    have "timers ?vm1 = Slots (map Some (xs @ (y # ys') @ zs))" using Suc.prems ys by simp
    from fire_last_moved [OF this ys(2) Suc.prems(3)] obtain vm2 ys2 zs2 where
      step: "(if k > 0 then do {
                l \<leftarrow> blk_read (timers ?vm1) (i + k);
                b \<leftarrow> blk_write (timers ?vm1) i l;
                Some (?vm1\<lparr>timers := b\<rparr>)
              } else Some ?vm1) = Some vm2"
      and t2: "timers vm2 = Slots (map Some (xs @ ys2 @ zs2))" "length ys2 = k" "mset ys2 = mset ys'"
      and l2: "length ys2 + length zs2 = Suc (length ys') + length zs"
      and f2: "fire_frame ?vm1 vm2" "procedures vm2 = procedures ?vm1"
      by blast
    have run: "fire_timers_loop (Suc k) now i ev vm = fire_timers_loop k now i (ev + 1) vm2"
      using rd True step by (simp add: TIMESPEC_GREATER_EQUAL_le Let_def del: bind_Some_iff)
    have fr: "fire_frame vm vm2" using fire_frame_make f2(1) by (rule fire_frame_trans)
    then have cs: "codesz vm2 = codesz vm" by (simp add: fire_frame_def)
    obtain ev' vm' fired kept rest where ih:
      "fire_timers_loop k now i (ev + 1) vm2 = Some (ev', i + length kept, vm')"
      "timers vm' = Slots (map Some (xs @ kept @ rest))" "fire_frame vm2 vm'"
      "length kept + length rest = length ys2 + length zs2" "mset kept = filter_mset (\<lambda>t. \<not> expired now t) (mset ys2)"
      "mset fired = filter_mset (expired now) (mset ys2)"
      "ev' = ev + 1 + of_nat (length fired)"
      "procedures vm' = procedures vm2 @ started (codesz vm2) (map t_iptr fired)"
      using Suc.IH [OF t2(1,2) Suc.prems(3), of "ev + 1"] by auto
    have "procedures vm' = procedures vm @ started (codesz vm) (map t_iptr (y # fired))"
      using ih(8) f2(2) cs by (simp add: procedures_make started_Cons)
    moreover have "ev' = ev + of_nat (length (y # fired))" using ih(7) by simp
    moreover have "length kept + length rest = length ys + length zs" using ih(4) l2 ys by simp
    moreover have "mset kept = filter_mset (\<lambda>t. \<not> expired now t) (mset ys)"
      "mset (y # fired) = filter_mset (expired now) (mset ys)"
      using ih(5,6) t2(3) ys True by simp_all
    ultimately show ?thesis using run ih(1,2) fire_frame_trans [OF fr ih(3)] by metis
  qed
qed

definition clock_now :: "'w os \<Rightarrow> 'w \<Rightarrow> timespec" where
  "clock_now os w = (case fst (os_clock_gettime os w) of Inl e \<Rightarrow> Timespec 0 0 | Inr t \<Rightarrow> t)"

text \<open>The clock is read, then the loop runs, then the array is cut to what is left.\<close>

lemma fire_timer_events_start:
  assumes "timers_are vm ts"
  shows "\<exists>vm1. timers vm1 = timers vm \<and> n_timers vm1 = n_timers vm \<and> codesz vm1 = codesz vm \<and>
    procedures vm1 = procedures vm \<and> keeps vm vm1 \<and> io vm1 = io vm \<and> vm_proc vm1 = vm_proc vm \<and>
    fire_timer_events os vm = do {
        (ev, n, vm) \<leftarrow> fire_timers_loop (length ts) (clock_now os (world vm)) 0 0 vm1;
        if n \<noteq> unat (n_timers vm) then do {
          b \<leftarrow> blk_realloc 24 (n * 24) (timers vm);
          Some (ev, vm\<lparr>timers := b, n_timers := of_nat n\<rparr>)
        } else Some (ev, vm)
      }"
proof -
  obtain c w where c: "os_clock_gettime os (world vm) = (c, w)" by fastforce
  have n: "unat (n_timers vm) = length ts" using assms by (simp add: timers_are_def)
  show ?thesis
    using c n by (intro exI [of _ "case c of Inl e \<Rightarrow> set_error e (vm\<lparr>world := w\<rparr>) | Inr _ \<Rightarrow> vm\<lparr>world := w\<rparr>"])
      (cases c; simp add: fire_timer_events_def call_os_def clock_now_def Let_def set_error_def keeps_def vm_wf_def)
qed

lemma timers_cut:
  assumes "timers vm = Slots (map Some (kept @ rest))" "length kept + length rest = n" "unat (n_timers vm) = n"
  shows "\<exists>vm'. (if length kept \<noteq> unat (n_timers vm) then do {
        b \<leftarrow> blk_realloc 24 (length kept * 24) (timers vm);
        Some (ev, vm\<lparr>timers := b, n_timers := of_nat (length kept)\<rparr>)
      } else Some (ev, vm)) = Some (ev, vm') \<and> timers_are vm' kept \<and> keeps vm vm' \<and>
    procedures vm' = procedures vm \<and> io vm' = io vm \<and> vm_proc vm' = vm_proc vm"
proof (cases "length kept = n")
  case True
  then show ?thesis using assms by (intro exI [of _ vm]) (simp add: timers_are_def)
next
  case False
  have "length kept < 2 ^ 32" using assms(2,3) unat_u32_lt [of "n_timers vm"] by simp
  moreover have "keeps vm (vm\<lparr>timers := Slots (map Some kept), n_timers := of_nat (length kept)\<rparr>)"
    by (rule keeps_same) simp_all
  ultimately show ?thesis
    using False assms by (intro exI [of _ "vm\<lparr>timers := Slots (map Some kept), n_timers := of_nat (length kept)\<rparr>"])
      (simp add: timers_are_def)
qed

lemma fire_timer_events_fires:
  assumes t: "timers_are vm ts" and now: "now = clock_now os (world vm)"
  shows "\<exists>ev vm' kept fired. fire_timer_events os vm = Some (ev, vm') \<and> timers_are vm' kept \<and>
    mset kept = filter_mset (\<lambda>t. \<not> expired now t) (mset ts) \<and>
    mset fired = filter_mset (expired now) (mset ts) \<and> ev = of_nat (length fired) \<and>
    procedures vm' = procedures vm @ started (codesz vm) (map t_iptr fired) \<and> keeps vm vm' \<and>
    io vm' = io vm \<and> vm_proc vm' = vm_proc vm"
proof -
  obtain vm1 where v1: "timers vm1 = timers vm" "n_timers vm1 = n_timers vm" "codesz vm1 = codesz vm"
      "procedures vm1 = procedures vm" "keeps vm vm1" "io vm1 = io vm" "vm_proc vm1 = vm_proc vm"
    and start: "fire_timer_events os vm = do {
        (ev, n, vm) \<leftarrow> fire_timers_loop (length ts) now 0 0 vm1;
        if n \<noteq> unat (n_timers vm) then do {
          b \<leftarrow> blk_realloc 24 (n * 24) (timers vm);
          Some (ev, vm\<lparr>timers := b, n_timers := of_nat n\<rparr>)
        } else Some (ev, vm)
      }"
    using fire_timer_events_start [OF t, of os] unfolding now by blast
  show ?thesis
  proof (cases "timers vm = Null")
    case True
    then have "ts = []" using t by (simp add: timers_are_def)
    then show ?thesis using start v1 t True
      by (intro exI [of _ 0] exI [of _ vm1] exI [of _ "[]"] exI [of _ "[]"]) (simp add: timers_are_def started_def)
  next
    case False
    then have s: "timers vm1 = Slots (map Some ([] @ ts @ []))" using t v1 by (simp add: timers_are_def)
    obtain ev vm2 fired kept rest where l:
      "fire_timers_loop (length ts) now 0 0 vm1 = Some (ev, length kept, vm2)"
      "timers vm2 = Slots (map Some (kept @ rest))" "fire_frame vm1 vm2"
      "length kept + length rest = length ts" "mset kept = filter_mset (\<lambda>t. \<not> expired now t) (mset ts)"
      "mset fired = filter_mset (expired now) (mset ts)" "ev = of_nat (length fired)"
      "procedures vm2 = procedures vm1 @ started (codesz vm1) (map t_iptr fired)"
      using fire_timers_loop_correct [OF s refl, of 0 now 0] by auto
    have f: "keeps vm1 vm2" "io vm2 = io vm" "vm_proc vm2 = vm_proc vm" "unat (n_timers vm2) = length ts"
      using l(3) v1 t keeps_same [of vm2 vm1] by (simp_all add: fire_frame_def timers_are_def)
    obtain vm3 where "fire_timer_events os vm = Some (ev, vm3)" "timers_are vm3 kept" "keeps vm2 vm3"
        "procedures vm3 = procedures vm2" "io vm3 = io vm2" "vm_proc vm3 = vm_proc vm2"
      using timers_cut [OF l(2,4) f(4), of ev] start l(1) by auto
    then show ?thesis using l(5-) v1 f keeps_trans [OF keeps_trans [OF v1(5) f(1)]]
      by (intro exI [of _ ev] exI [of _ vm3] exI [of _ kept] exI [of _ fired]) simp
  qed
qed

lemma keeps_fire_timers_loop: "keeps_via (\<lambda>(ev, n, vm). vm) vm (fire_timers_loop k now i ev vm)"
proof (induction k arbitrary: i ev vm)
  case (Suc k)
  have m: "keeps vm (snd (make_procedure ip vm))" for ip
    using keeps_make_procedure by (metis prod.collapse)
  have t: "keeps vm1 (vm1\<lparr>timers := b\<rparr>)" for vm1 :: "'a vm_t" and b by (rule keeps_same) simp_all
  have h: "keeps_opt vm1 (if k > 0 then do {
                l \<leftarrow> blk_read (timers vm1) (i + k);
                b \<leftarrow> blk_write (timers vm1) i l;
                Some (vm1\<lparr>timers := b\<rparr>)
              } else Some vm1)" for vm1 :: "'a vm_t"
    by (auto intro!: keeps_opt_bind' t)
  show ?case
    unfolding fire_timers_loop.simps Let_def
  proof (rule keeps_via_pure, cases)
    fix tmr
    assume "TIMESPEC_GREATER_EQUAL now (expires_at tmr)"
    then show "keeps_via (\<lambda>(ev, n, vm). vm) vm (if TIMESPEC_GREATER_EQUAL now (expires_at tmr) then do {
       vm \<leftarrow> (if k > 0 then do {
                l \<leftarrow> blk_read (timers (snd (make_procedure (t_iptr tmr) vm))) (i + k);
                b \<leftarrow> blk_write (timers (snd (make_procedure (t_iptr tmr) vm))) i l;
                Some (snd (make_procedure (t_iptr tmr) vm)\<lparr>timers := b\<rparr>)
              } else Some (snd (make_procedure (t_iptr tmr) vm)));
       fire_timers_loop k now i (ev + 1) vm
     } else fire_timers_loop k now (i + 1) ev vm)"
      by (simp only: if_True) (rule keeps_via_trans [OF m keeps_via_step [OF h Suc.IH]])
  qed (simp only: if_False, rule Suc.IH)
qed simp

lemma keeps_fire_timer_events: "keeps_via snd vm (fire_timer_events os vm)"
proof -
  obtain t vm1 where t: "call_os (os_clock_gettime os) vm = (t, vm1)" by fastforce
  have r: "keeps_via snd vm2 (do {
        (ev, n, vm) \<leftarrow> fire_timers_loop j now 0 0 vm2;
        if n \<noteq> unat (n_timers vm) then do {
          b \<leftarrow> blk_realloc 24 (n * 24) (timers vm);
          Some (ev, vm\<lparr>timers := b, n_timers := of_nat n\<rparr>)
        } else Some (ev, vm)
      })" for vm2 :: "'a vm_t" and j now
    by (rule keeps_via_bind [OF keeps_fire_timers_loop])
      (auto intro!: keeps_via_pure keeps_same split: prod.split)
  show ?thesis
    unfolding fire_timer_events_def t Let_def prod.case
    by (rule keeps_via_trans [OF keeps_call_os [OF t]])
      (cases t; simp add: r keeps_via_trans [OF keeps_set_error r])
qed

lemma keeps_make_vm_timer [keeps_intros]: "make_vm_timer t ip vm = Some vm' \<Longrightarrow> keeps vm vm'"
  by (auto simp: make_vm_timer_def intro: keeps_same)

lemma keeps_opt_sys_timeout: "keeps_opt vm (sys_timeout os argv retv vm)"
  unfolding sys_timeout_def
proof (rule keeps_opt_with_args, rule keeps_opt_bind', rule keeps_opt_bind')
  fix a r f ms and vm :: "'a vm_t"
  obtain t vm1 where t: "call_os (os_clock_gettime os) vm = (t, vm1)" by fastforce
  have "keeps_opt vm (case (t, vm1) of (Inl e, vm) \<Rightarrow> fail_with e r 1 vm
       | (Inr tp, vm) \<Rightarrow> do {
           vm \<leftarrow> make_vm_timer (Timespec (tv_sec tp + ms div 1000) (tv_nsec tp + 1000000 * (ms mod 1000))) f vm;
           wr64 r 0 vm
         })"
    by (rule keeps_opt_trans [OF keeps_call_os [OF t]])
      (auto split: sum.split intro!: keeps_opt_fail_with keeps_opt_bind keeps_opt_wr64
        simp: keeps_opt_def [of _ "make_vm_timer _ _ _"] intro: keeps_make_vm_timer)
  then show "keeps_opt vm (if f > codesz vm then fail_with EINVAL r 1 vm
     else (case call_os (os_clock_gettime os) vm of
         (Inl e, vm) \<Rightarrow> fail_with e r 1 vm
       | (Inr tp, vm) \<Rightarrow> do {
           vm \<leftarrow> make_vm_timer (Timespec (tv_sec tp + ms div 1000) (tv_nsec tp + 1000000 * (ms mod 1000))) f vm;
           wr64 r 0 vm
         }))"
    by (simp add: t keeps_opt_fail_with)
qed

text \<open>
  \<open>timeout\<close> with readable arguments and a function no further than the end of the code
  adds one timer, that many milliseconds after the present (the nanoseconds are not carried
  over into seconds), and stores 0; past the end of the code it sets \<open>EINVAL\<close> and stores 1.
\<close>

lemma sys_timeout_correct:
  assumes t: "timers_are vm ts" and l: "length ts + 1 < 2 ^ 32"
    and d: "deref argv 12 vm = Some a" "deref retv 8 vm = Some r"
    and a: "rd32 a vm = Some f" "rd64 (a + 4) vm = Some ms" and r: "r + 8 \<le> length (memory vm)"
    and c: "os_clock_gettime os (world vm) = (Inr tp, w)"
  shows "\<exists>vm'. sys_timeout os argv retv vm = Some vm' \<and>
    (if f \<le> codesz vm
     then timers_are vm' (ts @ [\<lparr>expires_at = Timespec (tv_sec tp + ms div 1000)
              (tv_nsec tp + 1000000 * (ms mod 1000)), t_iptr = f\<rparr>]) \<and> rd64 r vm' = Some 0
     else timers_are vm' ts \<and> error_no vm' = EINVAL \<and> rd64 r vm' = Some 1)"
proof (cases "f \<le> codesz vm")
  case True
  let ?t = "Timespec (tv_sec tp + ms div 1000) (tv_nsec tp + 1000000 * (ms mod 1000))"
  have t1: "timers_are (vm\<lparr>world := w\<rparr>) ts" using t by (simp add: timers_are_def)
  obtain vm1 where m: "make_vm_timer ?t f (vm\<lparr>world := w\<rparr>) = Some vm1"
    and ts: "timers_are vm1 (ts @ [\<lparr>expires_at = ?t, t_iptr = f\<rparr>])" and mem: "memory vm1 = memory vm"
    using make_vm_timer_correct [OF t1 l, of ?t f] by (auto simp: make_vm_timer_def)
  obtain m' where wr: "wr64 r 0 vm1 = Some (vm1\<lparr>memory := m'\<rparr>)" using wr64_ex [of r vm1 0] r mem by auto
  have "sys_timeout os argv retv vm = Some (vm1\<lparr>memory := m'\<rparr>)"
    using d a True c m wr by (simp add: sys_timeout_def with_args_def call_os_def not_less [symmetric])
  then show ?thesis using True ts rd64_wr64 [OF wr] by (simp add: timers_are_def)
next
  case False
  obtain m' where wr: "wr64 r 1 (set_error EINVAL vm) = Some ((set_error EINVAL vm)\<lparr>memory := m'\<rparr>)"
    using wr64_ex [of r "set_error EINVAL vm" 1] r by (auto simp: set_error_def)
  have "sys_timeout os argv retv vm = Some ((set_error EINVAL vm)\<lparr>memory := m'\<rparr>)"
    using d a False wr by (simp add: sys_timeout_def with_args_def fail_with_def not_le)
  then show ?thesis using False rd64_wr64 [OF wr] t by (simp add: timers_are_def set_error_def)
qed

section \<open>The properties at a concrete machine\<close>

definition timer_vm :: "unit vm_t" where
  "timer_vm = (make_vm [0, 0] 2 32 0 ())\<lparr>n_timers := 2,
     timers := Slots [Some \<lparr>expires_at = Timespec 99 0, t_iptr = 1\<rparr>, Some \<lparr>expires_at = Timespec 100 1, t_iptr = 0\<rparr>]\<rparr>"

lemma timer_vm_timers: "timers_are timer_vm
    [\<lparr>expires_at = Timespec 99 0, t_iptr = 1\<rparr>, \<lparr>expires_at = Timespec 100 1, t_iptr = 0\<rparr>]"
  by (simp add: timers_are_def timer_vm_def)

text \<open>
  C31. Firing keeps exactly the timers that have not expired, counts the others, and appends one
  procedure for each of those whose function is in the code; a clock that fails counts as time
  zero and sets the error number.
\<close>

lemma fire_timer_events_correct:
  assumes "timers_are vm ts" and "now = clock_now os (world vm)"
  shows "\<exists>ev vm' kept fired. fire_timer_events os vm = Some (ev, vm') \<and> timers_are vm' kept \<and>
    mset kept = filter_mset (\<lambda>t. \<not> expired now t) (mset ts) \<and>
    mset fired = filter_mset (expired now) (mset ts) \<and> ev = of_nat (length fired) \<and>
    procedures vm' = procedures vm @ started (codesz vm) (map t_iptr fired) \<and> keeps vm vm'"
  using fire_timer_events_fires [OF assms] by blast

lemma fire_timer_events_correct_witness:
  "\<exists>vm'. fire_timer_events demo_os timer_vm = Some (1, vm') \<and>
     timers_are vm' [\<lparr>expires_at = Timespec 100 1, t_iptr = 0\<rparr>] \<and>
     procedures vm' = procedures timer_vm @ [fresh_proc 1]"
proof -
  have now: "clock_now demo_os (world timer_vm) = Timespec 100 0"
    by (simp add: clock_now_def demo_os_def)
  have cs: "codesz timer_vm = 2" by (simp add: timer_vm_def make_vm_def make_procedure_def)
  show ?thesis
    using fire_timer_events_correct [OF timer_vm_timers refl, of demo_os] unfolding now
    by (auto simp: less_eq_timespec_def cs started_def)
qed

lemma sys_timeout_correct_witness:
  "\<exists>vm'. sys_timeout demo_os 0 16 timer_vm = Some vm' \<and> unat (n_timers vm') = 3 \<and> rd64 16 vm' = Some 0"
proof -
  have m: "memory timer_vm = replicate 32 0" "codesz timer_vm = 2" "memsz timer_vm = 32" "mem_null timer_vm = False"
    by (simp_all add: timer_vm_def make_vm_def make_procedure_def)
  have d: "deref 0 12 timer_vm = Some 0" "deref 16 8 timer_vm = Some 16"
    by (simp_all add: deref_def mem_ptr_def m)
  have z: "le_nat (replicate 8 0) = 0" "le_nat (replicate 4 0) = 0" by (simp_all add: eval_nat_numeral)
  have r: "rd32 0 timer_vm = Some 0" "rd64 (0 + 4) timer_vm = Some 0"
    using z by (simp_all add: rd32_def rd64_def rd_def load_def m)
  have c: "os_clock_gettime demo_os (world timer_vm) = (Inr (Timespec 100 0), ())" by (simp add: demo_os_def)
  show ?thesis
    using sys_timeout_correct [OF timer_vm_timers _ d r _ c] by (auto simp: m timers_are_def)
qed

end
