(* ===== verification/RunQueue.thy ===== *)
theory RunQueue
  imports LinkedList
begin

text \<open>
  The list of runnable procedures as the C code keeps it: a pointer to the first node of a
  doubly linked list, with the three updates the machine makes - append at the tail
  (\<open>make_procedure\<close>), drop the head (\<open>delete_current_procedure\<close>), move the head to the tail
  (\<open>sys_yield\<close>) - and the proof that they are the operations of a queue.
\<close>

section \<open>Operations\<close>

type_synonym 'd queue = "nat option \<times> 'd store"

definition rq_enqueue :: "nat \<Rightarrow> 'd \<Rightarrow> 'd queue \<Rightarrow> 'd queue option" where
  "rq_enqueue a d q = (let (procs, h) = q; (node, h) = list_make_node a d h in
     (case procs of
        None \<Rightarrow> Some (Some node, h)
      | Some p \<Rightarrow> do {
          tail \<leftarrow> list_tail p h;
          (_, h) \<leftarrow> list_append (Some tail) node h;
          Some (procs, h)
        }))"

definition rq_dequeue :: "'d queue \<Rightarrow> 'd queue option" where
  "rq_dequeue q = (let (procs, h) = q in do {
     current \<leftarrow> procs;
     nd \<leftarrow> h current;
     h \<leftarrow> list_destroy_node current h;
     Some (nd_next nd, h)
   })"

definition rq_rotate :: "'d queue \<Rightarrow> 'd queue option" where
  "rq_rotate q = (let (procs, h) = q in do {
     self \<leftarrow> procs;
     nd \<leftarrow> h self;
     (case nd_next nd of
        None \<Rightarrow> Some (procs, h)
      | Some n \<Rightarrow> do {
          h \<leftarrow> list_unlink self h;
          tail \<leftarrow> list_tail n h;
          (_, h) \<leftarrow> list_append (Some tail) self h;
          Some (Some n, h)
        })
   })"

definition queue_is :: "'d queue \<Rightarrow> 'd list \<Rightarrow> bool" where
  "queue_is q ds \<longleftrightarrow> (\<exists>xs. chain (snd q) xs ds \<and> fst q = at xs 0)"

definition fresh_in :: "nat \<Rightarrow> 'd queue \<Rightarrow> bool" where
  "fresh_in a q \<longleftrightarrow> a \<notin> dom (snd q)"

section \<open>The laws of a queue\<close>

locale fifo =
  fixes rep :: "'q \<Rightarrow> 'd list \<Rightarrow> bool"
    and fresh :: "'a \<Rightarrow> 'q \<Rightarrow> bool"
    and enq :: "'a \<Rightarrow> 'd \<Rightarrow> 'q \<Rightarrow> 'q option"
    and deq :: "'q \<Rightarrow> 'q option"
    and rot :: "'q \<Rightarrow> 'q option"
  assumes enq_law: "rep q ds \<Longrightarrow> fresh a q \<Longrightarrow> \<exists>q'. enq a d q = Some q' \<and> rep q' (ds @ [d])"
    and deq_law: "rep q (d # ds) \<Longrightarrow> \<exists>q'. deq q = Some q' \<and> rep q' ds"
    and rot_law: "rep q (d # ds) \<Longrightarrow> \<exists>q'. rot q = Some q' \<and> rep q' (ds @ [d])"
begin

fun rotations :: "nat \<Rightarrow> 'q \<Rightarrow> 'q option" where
  "rotations 0 q = Some q"
| "rotations (Suc n) q = do { q \<leftarrow> rot q; rotations n q }"

lemma rotations_rep: "rep q ds \<Longrightarrow> ds \<noteq> [] \<Longrightarrow> \<exists>q'. rotations n q = Some q' \<and> rep q' (rotate n ds)"
proof (induction n arbitrary: q ds)
  case 0
  then show ?case by simp
next
  case (Suc n)
  then obtain d es where ds: "ds = d # es" by (cases ds) auto
  with Suc.prems rot_law obtain q1 where q1: "rot q = Some q1" "rep q1 (es @ [d])" by blast
  from Suc.IH [OF q1(2)] obtain q' where "rotations n q1 = Some q'" "rep q' (rotate n (es @ [d]))" by auto
  with q1 show ?case by (simp add: ds rotate1_rotate_swap)
qed

text \<open>Round robin: after \<open>i\<close> rotations the element \<open>i\<close> is first, after a full turn all are back.\<close>

lemma round_robin:
  assumes "rep q ds" "i < length ds"
  shows "\<exists>q'. rotations i q = Some q' \<and> rep q' (drop i ds @ take i ds)"
proof -
  have "ds \<noteq> []" using assms(2) by auto
  with rotations_rep [OF assms(1), of i] assms(2) show ?thesis by (simp add: rotate_drop_take)
qed

lemma full_turn:
  assumes "rep q ds" "ds \<noteq> []"
  shows "\<exists>q'. rotations (length ds) q = Some q' \<and> rep q' ds"
  using rotations_rep [OF assms, of "length ds"] by simp

end

section \<open>The linked list is a queue\<close>

lemma chain_frame:
  assumes "chain h xs ds" "a \<notin> set xs"
  shows "chain (h(a \<mapsto> v)) xs ds"
  using assms by (auto simp: chain_def in_set_conv_nth)

lemma chain_addr: "chain h xs ds \<Longrightarrow> h a = None \<Longrightarrow> a \<notin> set xs"
  by (auto simp: chain_def in_set_conv_nth)

lemma rq_enqueue_ok:
  assumes q: "queue_is q ds" and f: "fresh_in a q"
  shows "\<exists>q'. rq_enqueue a d q = Some q' \<and> queue_is q' (ds @ [d])"
proof -
  obtain p h where q': "q = (p, h)" by (cases q)
  obtain xs where xs: "chain h xs ds" "p = at xs 0" using q by (auto simp: q' queue_is_def)
  have a: "h a = None" using f by (auto simp: fresh_in_def q')
  have an: "a \<notin> set xs" by (rule chain_addr [OF xs(1) a])
  let ?h = "snd (list_make_node a d h)"
  show ?thesis
  proof (cases "xs = []")
    case True
    then have "ds = []" using xs by (simp add: chain_def)
    with True xs show ?thesis
      using chain_singleton [of a d h] by (auto simp: rq_enqueue_def q' queue_is_def list_make_node_def)
  next
    case False
    let ?n = "length xs - 1"
    have n: "?n < length xs" using False by simp
    have c: "chain ?h xs ds" using chain_frame [OF xs(1) an] by (simp add: list_make_node_def)
    have t: "list_tail (xs ! 0) ?h = Some (xs ! ?n)"
      using list_tail_chain [OF c, of 0] False by (simp add: last_conv_nth)
    have nd: "?h a = Some \<lparr>nd_prev = None, nd_next = None, nd_data = d\<rparr>" by (simp add: list_make_node_def)
    obtain h' where h': "list_append (Some (xs ! ?n)) a ?h = Some (Some (xs ! ?n), h')"
      and c': "chain h' (insert_at (Suc ?n) a xs) (insert_at (Suc ?n) d ds)"
      using list_append_chain [OF c n nd an] by auto
    have l: "length ds = length xs" using xs by (simp add: chain_def)
    have e: "insert_at (Suc ?n) a xs = xs @ [a]" "insert_at (Suc ?n) d ds = ds @ [d]"
      using n l by (simp_all add: insert_at_def)
    have "rq_enqueue a d q = Some (p, h')"
      using xs False t h' by (simp add: rq_enqueue_def q' list_make_node_def)
    moreover have "queue_is (p, h') (ds @ [d])"
      using c' e xs False by (auto simp: queue_is_def nth_append intro!: exI [of _ "xs @ [a]"])
    ultimately show ?thesis by blast
  qed
qed

lemma queue_is_Cons:
  assumes "queue_is (p, h) (d # ds)"
  shows "\<exists>x xs. chain h (x # xs) (d # ds) \<and> p = Some x"
proof -
  obtain ys where ys: "chain h ys (d # ds)" "p = at ys 0" using assms by (auto simp: queue_is_def)
  then obtain x xs where "ys = x # xs" by (cases ys) (auto simp: chain_def)
  with ys show ?thesis by auto
qed

lemma delete_at_0: "delete_at 0 (x # xs) = xs" by (simp add: delete_at_def)

lemma destroy_hd: "chain h (x # xs) (d # ds) \<Longrightarrow> \<exists>h'. list_destroy_node x h = Some h' \<and> chain h' xs ds"
  using list_destroy_node_chain [of h "x # xs" "d # ds" 0] unfolding delete_at_0 by auto

lemma unlink_hd:
  "chain h (x # xs) (d # ds) \<Longrightarrow> \<exists>h'. list_unlink x h = Some h' \<and> chain h' xs ds \<and> h' x = h x"
  using list_unlink_chain [of h "x # xs" "d # ds" 0] unfolding delete_at_0 by auto

lemma rq_dequeue_ok:
  assumes q: "queue_is q (d # ds)"
  shows "\<exists>q'. rq_dequeue q = Some q' \<and> queue_is q' ds"
proof -
  obtain p h where q': "q = (p, h)" by (cases q)
  obtain x xs where xs: "chain h (x # xs) (d # ds)" "p = Some x"
    using queue_is_Cons [OF q [unfolded q']] by blast
  obtain h' where h': "list_destroy_node x h = Some h'" "chain h' xs ds"
    using destroy_hd [OF xs(1)] by blast
  have "h x = Some (node_at (x # xs) (d # ds) 0)" using chainD [OF xs(1), of 0] by simp
  with xs h' have "rq_dequeue q = Some (at xs 0, h')"
    by (simp add: rq_dequeue_def q' node_at_def at_def)
  with h' show ?thesis by (auto simp: queue_is_def)
qed

lemma rq_rotate_ok:
  assumes q: "queue_is q (d # ds)"
  shows "\<exists>q'. rq_rotate q = Some q' \<and> queue_is q' (ds @ [d])"
proof -
  obtain p h where q': "q = (p, h)" by (cases q)
  obtain x xs where xs: "chain h (x # xs) (d # ds)" "p = Some x"
    using queue_is_Cons [OF q [unfolded q']] by blast
  have hx: "h x = Some (node_at (x # xs) (d # ds) 0)" using chainD [OF xs(1), of 0] by simp
  show ?thesis
  proof (cases xs)
    case Nil
    then have "ds = []" using xs(1) by (simp add: chain_def)
    moreover have "rq_rotate q = Some q"
      using Nil xs(2) hx by (simp add: rq_rotate_def q' node_at_def)
    ultimately show ?thesis using q by auto
  next
    case (Cons y ys)
    obtain h1 where h1: "list_unlink x h = Some h1" "chain h1 xs ds" "h1 x = h x"
      using unlink_hd [OF xs(1)] by blast
    let ?n = "length xs - 1"
    have n: "?n < length xs" using Cons by simp
    have xn: "x \<notin> set xs" using chain_distinct [OF xs(1)] by simp
    have t: "list_tail y h1 = Some (xs ! ?n)"
      using list_tail_chain [OF h1(2), of 0] Cons by (simp add: last_conv_nth)
    have nd: "h1 x = Some (node_at (x # xs) (d # ds) 0)" using h1(3) hx by simp
    obtain h2 where h2: "list_append (Some (xs ! ?n)) x h1 = Some (Some (xs ! ?n), h2)"
      and c2: "chain h2 (insert_at (Suc ?n) x xs) (insert_at (Suc ?n) d ds)"
      using list_append_chain [OF h1(2) n nd xn] by (auto simp: node_at_def)
    have l: "length ds = length xs" using xs(1) by (simp add: chain_def)
    have e: "insert_at (Suc ?n) x xs = xs @ [x]" "insert_at (Suc ?n) d ds = ds @ [d]"
      using n l by (simp_all add: insert_at_def)
    have "nd_next (node_at (x # xs) (d # ds) 0) = Some y" using Cons by (simp add: node_at_def)
    then have "rq_rotate q = Some (Some y, h2)"
      using xs(2) hx h1(1) t h2 by (simp add: rq_rotate_def q')
    moreover have "queue_is (Some y, h2) (ds @ [d])"
      using c2 e Cons by (auto simp: queue_is_def intro!: exI [of _ "xs @ [x]"])
    ultimately show ?thesis by blast
  qed
qed

interpretation rq: fifo queue_is fresh_in rq_enqueue rq_dequeue rq_rotate
  by unfold_locales (fact rq_enqueue_ok rq_dequeue_ok rq_rotate_ok)+

definition rq_rotations :: "nat \<Rightarrow> 'd queue \<Rightarrow> 'd queue option" where
  "rq_rotations n q = rq.rotations n q"

text \<open>
  C33. On the doubly linked list of procedures, an append is an append at the tail, also of the
  first procedure to an empty list; a deletion drops the head, and a yield moves the head to the
  tail. Both of these follow a null pointer when the list is empty.
\<close>

lemma run_queue_refines:
  assumes "queue_is q ds" "fresh_in a q"
  shows "(\<exists>q'. rq_enqueue a e q = Some q' \<and> queue_is q' (ds @ [e])) \<and>
    (case ds of
       [] \<Rightarrow> rq_dequeue q = None \<and> rq_rotate q = None
     | d # ds' \<Rightarrow> (\<exists>q'. rq_dequeue q = Some q' \<and> queue_is q' ds') \<and>
         (\<exists>q'. rq_rotate q = Some q' \<and> queue_is q' (ds' @ [d])))"
proof (cases ds)
  case Nil
  then have "fst q = None" using assms(1) by (auto simp: queue_is_def chain_def)
  with Nil rq.enq_law [OF assms, of e] show ?thesis by (simp add: rq_dequeue_def rq_rotate_def case_prod_beta)
next
  case (Cons d ds')
  with rq.enq_law [OF assms, of e] assms(1) rq.deq_law [of q d ds'] rq.rot_law [of q d ds'] show ?thesis by simp
qed

text \<open>
  C39. Scheduling by yields is round robin: after \<open>i\<close> yields the procedure that was at place
  \<open>i\<close> runs, and none is lost.
\<close>

lemma yields_round_robin:
  assumes "queue_is q ds" "i < length ds"
  shows "\<exists>q'. rq_rotations i q = Some q' \<and> queue_is q' (drop i ds @ take i ds)"
  unfolding rq_rotations_def by (rule rq.round_robin [OF assms])

definition demo_queue :: "nat queue" where
  "demo_queue = (Some 1, [1 \<mapsto> \<lparr>nd_prev = None, nd_next = Some 2, nd_data = 10\<rparr>,
     2 \<mapsto> \<lparr>nd_prev = Some 1, nd_next = None, nd_data = 20\<rparr>])"

lemma demo_queue_is: "queue_is demo_queue [10, 20]"
  by (auto simp: queue_is_def demo_queue_def chain_def node_at_def at_def less_Suc_eq
      intro!: exI [of _ "[1, 2]"])

lemma run_queue_refines_witness:
  "\<exists>q0 q1 q2. rq_enqueue 3 30 (None, Map.empty) = Some q0 \<and> queue_is q0 [30 :: nat] \<and>
     rq_enqueue 3 30 demo_queue = Some q1 \<and> queue_is q1 [10, 20, 30] \<and>
     rq_rotate demo_queue = Some q2 \<and> queue_is q2 [20, 10]"
proof -
  have "queue_is (None, Map.empty) ([] :: nat list)" "fresh_in 3 (None, Map.empty :: nat store)"
    by (auto simp: queue_is_def chain_def fresh_in_def intro!: exI [of _ "[]"])
  from run_queue_refines [OF this, of 30] run_queue_refines [OF demo_queue_is, of 3 30] show ?thesis
    by (auto simp: fresh_in_def demo_queue_def)
qed

lemma yields_round_robin_witness: "\<exists>q'. rq_rotations 1 demo_queue = Some q' \<and> queue_is q' [20, 10]"
  using yields_round_robin [OF demo_queue_is, of 1] by simp

end
