(* ===== verification/SyscallMem.thy ===== *)
theory SyscallMem
  imports Timers InstnOps
begin

text \<open>
  The system calls of \<open>syscalls/syscall_mem.c\<close> (growing, shrinking and measuring the memory)
  and of \<open>syscall_misc.c\<close> (the last error, the time, yielding and copying the code).
\<close>

section \<open>The size of the memory\<close>

text \<open>
  \<open>realloc\<close> to \<open>n\<close> bytes. To zero bytes it frees the block and returns a null pointer; the
  callers then write their result through a pointer into the freed block, so that case is
  undefined.
\<close>

definition realloc_memory :: "'w os \<Rightarrow> u64 \<Rightarrow> 'w vm_t \<Rightarrow> (bool \<times> 'w vm_t) option" where
  "realloc_memory os n vm =
     (if n = 0 then None
      else (case call_os (os_realloc os (memory vm) (unat n)) vm of
          (None, vm) \<Rightarrow> Some (False, vm)
        | (Some m, vm) \<Rightarrow> Some (True, vm\<lparr>memory := m, mem_null := False\<rparr>)))"

definition sys_mexpand :: "'w os \<Rightarrow> u32 \<Rightarrow> u32 \<Rightarrow> 'w vm_t \<Rightarrow> 'w vm_t option" where
  "sys_mexpand os argv retv = with_args_mem argv 8 retv 1 (\<lambda>a r vm. do {
     sz \<leftarrow> rd64 a vm;
     (ok, vm) \<leftarrow> realloc_memory os (ucast (memsz vm) + sz) vm;
     if ok then wr64 (unat retv) 0 (vm\<lparr>memsz := memsz vm + ucast sz\<rparr>)
     else fail_with ENOMEM r 1 vm
   })"

definition sys_mretract :: "'w os \<Rightarrow> u32 \<Rightarrow> u32 \<Rightarrow> 'w vm_t \<Rightarrow> 'w vm_t option" where
  "sys_mretract os argv retv = with_args_mem argv 8 retv 1 (\<lambda>a r vm. do {
     sz \<leftarrow> rd64 a vm;
     if sz > ucast (memsz vm) then fail_with EINVAL r 1 vm
     else do {
       (ok, vm) \<leftarrow> realloc_memory os (ucast (memsz vm) - sz) vm;
       if ok then wr64 (unat retv) 0 (vm\<lparr>memsz := memsz vm - ucast sz\<rparr>)
       else fail_with ENOMEM r 1 vm
     }
   })"

text \<open>\<open>*ret = v\<close> where only the result is dereferenced.\<close>

definition put_result_mem :: "u32 \<Rightarrow> ('w vm_t \<Rightarrow> u64) \<Rightarrow> 'w vm_t \<Rightarrow> 'w vm_t option" where
  "put_result_mem retv v vm =
     (case deref_mem_ptr retv 8 vm of
        (None, vm) \<Rightarrow> Some (set_error EFAULT vm)
      | (Some r, vm) \<Rightarrow> wr64 r (v vm) vm)"

definition sys_msize :: "u32 \<Rightarrow> u32 \<Rightarrow> 'w vm_t \<Rightarrow> 'w vm_t option" where
  "sys_msize argv retv = put_result_mem retv (\<lambda>vm. ucast (memsz vm))"

section \<open>Errors, time, scheduling, code\<close>

definition sys_getlasterr :: "u32 \<Rightarrow> u32 \<Rightarrow> 'w vm_t \<Rightarrow> 'w vm_t option" where
  "sys_getlasterr argv retv vm =
     (case deref retv 8 vm of
        None \<Rightarrow> Some (set_error EFAULT vm)
      | Some r \<Rightarrow> do {
          vm \<leftarrow> wr64 r (scast (error_no vm)) vm;
          Some (set_error 0 vm)
        })"

definition sys_setlasterr :: "u32 \<Rightarrow> u32 \<Rightarrow> 'w vm_t \<Rightarrow> 'w vm_t option" where
  "sys_setlasterr argv retv vm =
     (case deref argv 8 vm of
        None \<Rightarrow> Some (set_error EFAULT vm)
      | Some a \<Rightarrow> do {
          e \<leftarrow> rd64 a vm;
          Some (set_error (ucast e) vm)
        })"

definition sys_time :: "'w os \<Rightarrow> u32 \<Rightarrow> u32 \<Rightarrow> 'w vm_t \<Rightarrow> 'w vm_t option" where
  "sys_time os argv retv = with_args argv 16 retv 1 (\<lambda>a r vm.
     (case call_os (os_clock_gettime os) vm of
        (Inl e, vm) \<Rightarrow> fail_with e r 1 vm
      | (Inr tp, vm) \<Rightarrow> do {
          vm \<leftarrow> wr64 a (tv_sec tp) vm;
          vm \<leftarrow> wr64 (a + 8) (tv_nsec tp) vm;
          wr64 r 0 vm
        }))"

definition sys_yield :: "u32 \<Rightarrow> u32 \<Rightarrow> 'w vm_t \<Rightarrow> 'w vm_t option" where
  "sys_yield argv retv vm =
     (case procedures vm of
        [] \<Rightarrow> None
      | [p] \<Rightarrow> Some vm
      | p # ps \<Rightarrow> Some (vm\<lparr>procedures := ps @ [p]\<rparr>))"

definition sys_codesz :: "u32 \<Rightarrow> u32 \<Rightarrow> 'w vm_t \<Rightarrow> 'w vm_t option" where
  "sys_codesz argv retv = put_result_mem retv (\<lambda>vm. ucast (codesz vm))"

text \<open>\<open>memcpy\<close> from the code into the memory.\<close>

definition copy_code :: "nat \<Rightarrow> nat \<Rightarrow> nat \<Rightarrow> 'w vm_t \<Rightarrow> 'w vm_t option" where
  "copy_code dst begn n vm =
     (if begn + n \<le> length (code vm) then
        map_option (\<lambda>m. vm\<lparr>memory := m\<rparr>) (store_bytes (memory vm) dst (take n (drop begn (code vm))))
      else None)"

definition sys_codecp :: "u32 \<Rightarrow> u32 \<Rightarrow> 'w vm_t \<Rightarrow> 'w vm_t option" where
  "sys_codecp argv retv = with_args_mem argv 20 retv 1 (\<lambda>a r vm. do {
     begn \<leftarrow> rd64 a vm;
     sz \<leftarrow> rd64 (a + 8) vm;
     if begn + sz > ucast (codesz vm) then Some (set_error EINVAL vm)
     else do {
       ptr_ref \<leftarrow> rd32 (a + 16) vm;
       case deref_mem_ptr ptr_ref (ucast sz) vm of
         (None, vm) \<Rightarrow> fail_with EFAULT r 1 vm
       | (Some p, vm) \<Rightarrow> do {
           vm \<leftarrow> copy_code p (unat begn) (unat sz) vm;
           wr64 r 0 vm
         }
     }
   })"

section \<open>What these calls keep\<close>

lemma keeps_opt_put_result_mem: "keeps_opt vm (put_result_mem retv v vm)"
proof -
  obtain q vm1 where d: "deref_mem_ptr retv 8 vm = (q, vm1)" by fastforce
  show ?thesis
    by (rule keeps_opt_trans [OF keeps_deref_mem [OF d]])
      (cases q; simp add: put_result_mem_def d keeps_opt_wr64)
qed

lemma keeps_opt_sys_msize: "keeps_opt vm (sys_msize argv retv vm)"
  by (simp add: sys_msize_def keeps_opt_put_result_mem)

lemma keeps_opt_sys_codesz: "keeps_opt vm (sys_codesz argv retv vm)"
  by (simp add: sys_codesz_def keeps_opt_put_result_mem)

lemma keeps_opt_sys_getlasterr: "keeps_opt vm (sys_getlasterr argv retv vm)"
  by (auto simp: sys_getlasterr_def split: option.split intro!: keeps_opt_bind keeps_opt_wr64)

lemma keeps_opt_sys_setlasterr: "keeps_opt vm (sys_setlasterr argv retv vm)"
  by (auto simp: sys_setlasterr_def split: option.split intro!: keeps_opt_bind')

lemma keeps_opt_sys_yield: "keeps_opt vm (sys_yield argv retv vm)"
  by (auto simp: sys_yield_def split: list.split intro: keeps_same)

lemma keeps_opt_sys_time: "keeps_opt vm (sys_time os argv retv vm)"
  unfolding sys_time_def
proof (rule keeps_opt_with_args)
  fix a r and vm :: "'a vm_t"
  obtain t vm1 where t: "call_os (os_clock_gettime os) vm = (t, vm1)" by fastforce
  show "keeps_opt vm (case call_os (os_clock_gettime os) vm of
        (Inl e, vm) \<Rightarrow> fail_with e r 1 vm
      | (Inr tp, vm) \<Rightarrow> do {
          vm \<leftarrow> wr64 a (tv_sec tp) vm;
          vm \<leftarrow> wr64 (a + 8) (tv_nsec tp) vm;
          wr64 r 0 vm
        })"
    by (rule keeps_opt_trans [OF keeps_call_os [OF t]])
      (auto simp: t split: sum.split intro!: keeps_opt_fail_with keeps_opt_bind keeps_opt_wr64)
qed

lemma keeps_copy_code: "copy_code d b n vm = Some vm' \<Longrightarrow> keeps vm vm'"
  by (auto simp: copy_code_def keeps_def vm_wf_def split: if_splits dest: store_bytes_length)

lemma keeps_opt_sys_codecp: "keeps_opt vm (sys_codecp argv retv vm)"
  unfolding sys_codecp_def
proof (rule keeps_opt_with_args_mem, rule keeps_opt_bind', rule keeps_opt_bind')
  fix a r and begn sz :: u64 and vm :: "'a vm_t"
  have k: "keeps_opt vm (do {
       ptr_ref \<leftarrow> rd32 (a + 16) vm;
       case deref_mem_ptr ptr_ref (ucast sz) vm of
         (None, vm) \<Rightarrow> fail_with EFAULT r 1 vm
       | (Some p, vm) \<Rightarrow> do {
           vm \<leftarrow> copy_code p (unat begn) (unat sz) vm;
           wr64 r 0 vm
         }
     })"
  proof (rule keeps_opt_bind')
    fix ref
    obtain q vm1 where d: "deref_mem_ptr ref (ucast sz) vm = (q, vm1)" by fastforce
    show "keeps_opt vm (case deref_mem_ptr ref (ucast sz) vm of
         (None, vm) \<Rightarrow> fail_with EFAULT r 1 vm
       | (Some p, vm) \<Rightarrow> do {
           vm \<leftarrow> copy_code p (unat begn) (unat sz) vm;
           wr64 r 0 vm
         })"
      by (rule keeps_opt_trans [OF keeps_deref_mem [OF d]])
        (cases q; auto simp: d keeps_opt_def [of _ "copy_code _ _ _ _"]
          intro!: keeps_opt_fail_with keeps_opt_bind keeps_opt_wr64 intro: keeps_copy_code)
  qed
  show "keeps_opt vm (if begn + sz > ucast (codesz vm) then Some (set_error EINVAL vm)
     else do {
       ptr_ref \<leftarrow> rd32 (a + 16) vm;
       case deref_mem_ptr ptr_ref (ucast sz) vm of
         (None, vm) \<Rightarrow> fail_with EFAULT r 1 vm
       | (Some p, vm) \<Rightarrow> do {
           vm \<leftarrow> copy_code p (unat begn) (unat sz) vm;
           wr64 r 0 vm
         }
     })"
    using k by simp
qed

lemma realloc_memory_Some:
  assumes "realloc_ok os" "realloc_memory os n vm = Some (ok, vm1)"
  shows "n \<noteq> 0 \<and> code vm1 = code vm \<and> codesz vm1 = codesz vm \<and> memsz vm1 = memsz vm \<and>
    (ok \<longrightarrow> length (memory vm1) = unat n \<and> \<not> mem_null vm1 \<and>
      take (min (unat n) (length (memory vm))) (memory vm1) = take (min (unat n) (length (memory vm))) (memory vm)) \<and>
    (\<not> ok \<longrightarrow> keeps vm vm1)"
proof -
  obtain m w where o: "os_realloc os (memory vm) (unat n) (world vm) = (m, w)" by fastforce
  have n: "n \<noteq> 0" using assms(2) by (auto simp: realloc_memory_def)
  show ?thesis
  proof (cases m)
    case None
    with assms o n show ?thesis by (auto simp: realloc_memory_def call_os_def intro: keeps_same)
  next
    case (Some a)
    then have "length a = unat n \<and> take (min (unat n) (length (memory vm))) a = take (min (unat n) (length (memory vm))) (memory vm)"
      using assms(1) o unfolding realloc_ok_def by blast
    moreover have "ok" "vm1 = vm\<lparr>world := w, memory := a, mem_null := False\<rparr>"
      using assms(2) o n Some by (auto simp: realloc_memory_def call_os_def)
    ultimately show ?thesis using n by simp
  qed
qed

lemma unat_expand: "unat (a + ucast s :: u32) = unat (ucast a + s :: u64) mod 4294967296"
proof -
  have "unat (a + ucast s :: u32) = (unat a + unat s) mod 4294967296"
    by (simp add: unat_word_ariths unat_ucast_u64_u32 mod_add_right_eq)
  moreover have "unat (ucast a + s :: u64) = (unat a + unat s) mod (4294967296 * 4294967296)"
    by (simp add: unat_word_ariths)
  ultimately show ?thesis by (simp only: mod_mult_right_eq mod_mod_cancel dvd_triv_left)
qed

lemma unat_retract:
  assumes "sz \<le> ucast (a :: u32)"
  shows "unat (ucast a - sz :: u64) = unat a - unat sz" "unat (a - ucast sz) = unat a - unat sz"
proof -
  have le: "unat sz \<le> unat a" using assms by (simp add: word_le_nat_alt)
  then have "unat (ucast sz :: u32) = unat sz" using unat_u32_lt [of a] by (simp add: unat_ucast_u64_u32)
  with le assms show "unat (ucast a - sz :: u64) = unat a - unat sz" "unat (a - ucast sz) = unat a - unat sz"
    by (simp_all add: unat_sub word_le_nat_alt)
qed

text \<open>The memory after \<open>realloc\<close> and the assignment of the size is well-formed.\<close>

lemma keeps_resize:
  assumes "realloc_ok os" "realloc_memory os n vm = Some (True, vm1)" "unat s \<le> unat n"
  shows "keeps vm (vm1\<lparr>memsz := s\<rparr>)"
  using realloc_memory_Some [OF assms(1,2)] assms(3) by (simp add: keeps_def vm_wf_def)

lemma keeps_opt_sys_mexpand:
  assumes os: "realloc_ok os"
  shows "keeps_opt vm (sys_mexpand os argv retv vm)"
  unfolding sys_mexpand_def
proof (rule keeps_opt_with_args_mem, rule keeps_opt_bind', rule keeps_opt_bind')
  fix a r and sz :: u64 and vm :: "'a vm_t" and x
  assume x: "realloc_memory os (ucast (memsz vm) + sz) vm = Some x"
  obtain ok vm1 where ok: "x = (ok, vm1)" by fastforce
  note m = realloc_memory_Some [OF os x [unfolded ok]]
  show "keeps_opt vm (case x of (ok, vm) \<Rightarrow> if ok then wr64 (unat retv) 0 (vm\<lparr>memsz := memsz vm + ucast sz\<rparr>)
     else fail_with ENOMEM r 1 vm)"
  proof (cases ok)
    case True
    have "memsz vm1 = memsz vm" using m by simp
    then have s: "unat (memsz vm1 + ucast sz) \<le> unat (ucast (memsz vm) + sz :: u64)"
      by (simp only: unat_expand mod_less_eq_dividend)
    have "keeps vm (vm1\<lparr>memsz := memsz vm1 + ucast sz\<rparr>)"
      by (rule keeps_resize [OF os _ s]) (use x ok True in simp)
    from keeps_opt_trans [OF this keeps_opt_wr64] True ok show ?thesis by simp
  next
    case False
    then have "keeps vm vm1" using m by simp
    from keeps_opt_trans [OF this keeps_opt_fail_with] show ?thesis using False ok by simp
  qed
qed

lemma keeps_opt_sys_mretract:
  assumes os: "realloc_ok os"
  shows "keeps_opt vm (sys_mretract os argv retv vm)"
  unfolding sys_mretract_def
proof (rule keeps_opt_with_args_mem, rule keeps_opt_bind')
  fix a r and sz :: u64 and vm :: "'a vm_t"
  have k: "keeps_opt vm (do {
       (ok, vm) \<leftarrow> realloc_memory os (ucast (memsz vm) - sz) vm;
       if ok then wr64 (unat retv) 0 (vm\<lparr>memsz := memsz vm - ucast sz\<rparr>)
       else fail_with ENOMEM r 1 vm
     })" if le: "sz \<le> ucast (memsz vm)"
  proof (rule keeps_opt_bind')
    fix x
    assume x: "realloc_memory os (ucast (memsz vm) - sz) vm = Some x"
    obtain ok vm1 where ok: "x = (ok, vm1)" by fastforce
    note m = realloc_memory_Some [OF os x [unfolded ok]]
    show "keeps_opt vm (case x of (ok, vm) \<Rightarrow> if ok then wr64 (unat retv) 0 (vm\<lparr>memsz := memsz vm - ucast sz\<rparr>)
     else fail_with ENOMEM r 1 vm)"
    proof (cases ok)
      case True
      have "memsz vm1 = memsz vm" using m by simp
      then have s: "unat (memsz vm1 - ucast sz) \<le> unat (ucast (memsz vm) - sz :: u64)"
        by (simp only: unat_retract [OF le])
      have "keeps vm (vm1\<lparr>memsz := memsz vm1 - ucast sz\<rparr>)"
        by (rule keeps_resize [OF os _ s]) (use x ok True in simp)
      from keeps_opt_trans [OF this keeps_opt_wr64] True ok show ?thesis by simp
    next
      case False
      then have "keeps vm vm1" using m by simp
    from keeps_opt_trans [OF this keeps_opt_fail_with] show ?thesis using False ok by simp
    qed
  qed
  show "keeps_opt vm (if sz > ucast (memsz vm) then fail_with EINVAL r 1 vm
     else do {
       (ok, vm) \<leftarrow> realloc_memory os (ucast (memsz vm) - sz) vm;
       if ok then wr64 (unat retv) 0 (vm\<lparr>memsz := memsz vm - ucast sz\<rparr>)
       else fail_with ENOMEM r 1 vm
     })"
    using k by (auto simp: keeps_opt_fail_with not_less)
qed

section \<open>What these calls do\<close>

lemma writes64_memory:
  assumes "writes64 p v vm vm'"
  shows "length (memory vm') = length (memory vm) \<and>
    (\<forall>i < length (memory vm). i < p \<or> p + 8 \<le> i \<longrightarrow> memory vm' ! i = memory vm ! i)"
  using assms by (auto simp: writes64_def)

text \<open>The argument block and the result of a call lie in the memory.\<close>

definition args_at :: "u32 \<Rightarrow> nat \<Rightarrow> u32 \<Rightarrow> 'w vm_t \<Rightarrow> bool" where
  "args_at argv len retv vm \<longleftrightarrow> 0 < len \<and> unat argv + len \<le> unat (memsz vm) \<and> unat retv + 8 \<le> unat (memsz vm)"

lemma with_args_mem_ok:
  assumes wf: "vm_wf vm" and a: "args_at argv len retv vm"
  shows "with_args_mem argv (of_nat len) retv bad body vm = body (unat argv) (unat retv) vm"
proof -
  have "len < 2 ^ 32" using a unat_u32_lt [of "memsz vm"] by (simp add: args_at_def)
  then have l: "unat (of_nat len :: u32) = len" by simp
  moreover have "(of_nat len :: u32) > 0" using l a by (simp add: args_at_def word_less_nat_alt del: unat_of_nat_u32)
  ultimately have "deref argv (of_nat len) vm = Some (unat argv)"
    using deref_complete [OF wf, of argv "of_nat len"] a by (simp add: args_at_def)
  moreover have "deref retv 8 vm = Some (unat retv)" using deref_complete [OF wf, of retv 8] a by (simp add: args_at_def)
  ultimately have "deref_mem_ptr argv (of_nat len) vm = (Some (unat argv), vm)"
    "deref_mem_ptr retv 8 vm = (Some (unat retv), vm)"
    by (simp_all add: deref_mem_ptr_Some)
  then show ?thesis by (simp add: with_args_mem_def)
qed

text \<open>
  \<open>mexpand\<close> with arguments in the memory, a new size that fits 32 bits and a successful
  \<open>realloc\<close> grows the memory by its argument, keeps the old content except for the result,
  and stores 0.
\<close>

lemma sys_mexpand_correct:
  assumes wf: "vm_wf vm" and os: "realloc_ok os" and a: "args_at argv 8 retv vm"
    and sz: "rd64 (unat argv) vm = Some sz" and fits: "unat (memsz vm) + unat sz < 2 ^ 32"
    and ok: "os_realloc os (memory vm) (unat (memsz vm) + unat sz) (world vm) = (Some m, w)"
  shows "\<exists>vm'. sys_mexpand os argv retv vm = Some vm' \<and> unat (memsz vm') = unat (memsz vm) + unat sz \<and>
    length (memory vm') = unat (memsz vm) + unat sz \<and> rd64 (unat retv) vm' = Some 0 \<and>
    (\<forall>i < unat (memsz vm). i < unat retv \<or> unat retv + 8 \<le> i \<longrightarrow> memory vm' ! i = memory vm ! i)"
proof -
  have n: "unat (ucast (memsz vm) + sz :: u64) = unat (memsz vm) + unat sz" using fits by (simp add: unat_word_ariths)
  have n0: "ucast (memsz vm) + sz \<noteq> (0 :: u64)"
  proof
    assume "ucast (memsz vm) + sz = (0 :: u64)"
    with n have "unat (memsz vm) = 0" by (metis add_is_0 unat_0)
    with a show False by (simp add: args_at_def)
  qed
  let ?vm1 = "vm\<lparr>world := w, memory := m, mem_null := False\<rparr>"
  have r: "realloc_memory os (ucast (memsz vm) + sz) vm = Some (True, ?vm1)"
    using n0 n ok by (simp add: realloc_memory_def call_os_def)
  note m = realloc_memory_Some [OF os r]
  let ?vm2 = "?vm1\<lparr>memsz := memsz vm + ucast sz\<rparr>"
  have l: "length m = unat (memsz vm) + unat sz" using m n by simp
  obtain m' where w: "wr64 (unat retv) 0 ?vm2 = Some (?vm2\<lparr>memory := m'\<rparr>)"
    using wr64_ex [of "unat retv" ?vm2 0] a l by (auto simp: args_at_def)
  have run: "sys_mexpand os argv retv vm = Some (?vm2\<lparr>memory := m'\<rparr>)"
    using with_args_mem_ok [OF wf a] sz r w by (simp add: sys_mexpand_def)
  have keep: "m ! i = memory vm ! i" if "i < unat (memsz vm)" for i
  proof -
    have "i < length (memory vm)" "i < unat (memsz vm) + unat sz" using that wf by (simp_all add: vm_wf_def)
    then have "i < min (unat (memsz vm) + unat sz) (length (memory vm))" by simp
    moreover have "take (min (unat (memsz vm) + unat sz) (length (memory vm))) m =
        take (min (unat (memsz vm) + unat sz) (length (memory vm))) (memory vm)" using m n by simp
    ultimately show ?thesis by (metis nth_take)
  qed
  have "length m' = length m" "\<forall>i < length m. i < unat retv \<or> unat retv + 8 \<le> i \<longrightarrow> m' ! i = m ! i"
    using writes64_memory [OF wr64_writes64 [OF w]] by simp_all
  moreover have "unat (memsz vm + ucast sz) = unat (memsz vm) + unat sz" using fits n by (simp add: unat_expand)
  ultimately show ?thesis using run rd64_wr64 [OF w] l keep by (intro exI [of _ "?vm2\<lparr>memory := m'\<rparr>"]) simp
qed

text \<open>
  \<open>mretract\<close> that leaves no room for its own result writes it past the memory it has just
  given back: undefined.
\<close>

lemma sys_mretract_result_lost:
  assumes wf: "vm_wf vm" and os: "realloc_ok os" and a: "args_at argv 8 retv vm"
    and sz: "rd64 (unat argv) vm = Some sz" and le: "unat sz \<le> unat (memsz vm)"
    and lost: "unat (memsz vm) - unat sz < unat retv + 8"
    and ok: "os_realloc os (memory vm) (unat (memsz vm) - unat sz) (world vm) = (Some m, w)"
  shows "sys_mretract os argv retv vm = None"
proof -
  have le': "sz \<le> ucast (memsz vm)" using le by (simp add: word_le_nat_alt)
  note n = unat_retract [OF le']
  have w: "wr64 (unat retv) 0 v = None" if "length (memory v) < unat retv + 8" for v :: "'a vm_t"
    using store_defined [of 8 "memory v" "unat retv" 0] that by (simp add: wr64_def wr_def)
  have "length m = unat (memsz vm) - unat sz" using os ok unfolding realloc_ok_def by blast
  then have "sys_mretract os argv retv vm = None"
    using with_args_mem_ok [OF wf a] sz le' n ok lost w
    by (auto simp: sys_mretract_def realloc_memory_def call_os_def not_less bind_None_iff)
  then show ?thesis .
qed

text \<open>
  \<open>codecp\<close> with arguments in the memory copies the asked range of the code to the place
  asked for and stores 0; a range past the end of the code sets \<open>EINVAL\<close> and stores nothing at
  all, not even a failure result.
\<close>

lemma sys_codecp_correct:
  assumes wf: "vm_wf vm" and a: "args_at argv 20 retv vm"
    and r: "rd64 (unat argv) vm = Some b" "rd64 (unat argv + 8) vm = Some n" "rd32 (unat argv + 16) vm = Some p"
    and nw: "unat b + unat n < 2 ^ 64" and n: "0 < n"
    and p: "unat p + unat n \<le> unat (memsz vm)"
    and dis: "unat retv + 8 \<le> unat p \<or> unat p + unat n \<le> unat retv"
  shows "if unat b + unat n \<le> length (code vm)
    then \<exists>vm'. sys_codecp argv retv vm = Some vm' \<and> rd64 (unat retv) vm' = Some 0 \<and>
      (\<forall>i < unat n. memory vm' ! (unat p + i) = code vm ! (unat b + i))
    else sys_codecp argv retv vm = Some (set_error EINVAL vm)"
proof -
  have sum: "unat (b + n) = unat b + unat n" using nw by (simp add: unat_word_ariths)
  have cs: "length (code vm) = unat (codesz vm)" and ml: "unat (memsz vm) \<le> length (memory vm)" using wf by (auto simp: vm_wf_def)
  have body: "sys_codecp argv retv vm = (if b + n > ucast (codesz vm) then Some (set_error EINVAL vm)
     else case deref_mem_ptr p (ucast n) vm of
         (None, vm) \<Rightarrow> fail_with EFAULT (unat retv) 1 vm
       | (Some p, vm) \<Rightarrow> do {
           vm \<leftarrow> copy_code p (unat b) (unat n) vm;
           wr64 (unat retv) 0 vm
         })"
    using with_args_mem_ok [OF wf a] r by (simp add: sys_codecp_def)
  show ?thesis
  proof (cases "unat b + unat n \<le> length (code vm)")
    case False
    then have "b + n > ucast (codesz vm)" using sum cs by (simp add: word_less_nat_alt)
    with False body show ?thesis by simp
  next
    case True
    then have le: "\<not> b + n > ucast (codesz vm)" using sum cs by (simp add: word_less_nat_alt)
    have un: "unat (ucast n :: u32) = unat n"
      using p unat_u32_lt [of "memsz vm"] by (simp add: unat_ucast_u64_u32)
    have "(ucast n :: u32) > 0" using n un by (simp add: word_less_nat_alt)
    then have d: "deref_mem_ptr p (ucast n) vm = (Some (unat p), vm)"
      using deref_complete [OF wf, of p "ucast n"] p un by (simp add: deref_mem_ptr_Some)
    let ?bs = "take (unat n) (drop (unat b) (code vm))"
    have lb: "length ?bs = unat n" using True by simp
    obtain m where m: "store_bytes (memory vm) (unat p) ?bs = Some m"
      using p ml lb by (auto simp: store_bytes_def)
    then have c: "copy_code (unat p) (unat b) (unat n) vm = Some (vm\<lparr>memory := m\<rparr>)"
      using True by (simp add: copy_code_def)
    have lm: "length m = length (memory vm)" using m by (rule store_bytes_length)
    obtain m' where w: "wr64 (unat retv) 0 (vm\<lparr>memory := m\<rparr>) = Some (vm\<lparr>memory := m'\<rparr>)"
      using wr64_ex [of "unat retv" "vm\<lparr>memory := m\<rparr>" 0] a lm ml by (auto simp: args_at_def)
    have run: "sys_codecp argv retv vm = Some (vm\<lparr>memory := m'\<rparr>)" using body le d c w by simp
    have ws: "\<forall>i < length m. i < unat retv \<or> unat retv + 8 \<le> i \<longrightarrow> m' ! i = m ! i"
      using writes64_memory [OF wr64_writes64 [OF w]] by simp
    have "m' ! (unat p + i) = code vm ! (unat b + i)" if i: "i < unat n" for i
    proof -
      have "m' ! (unat p + i) = m ! (unat p + i)" using ws i dis p ml lm by auto
      also have "\<dots> = ?bs ! i" using nth_store_bytes [OF m, of "unat p + i", unfolded lb] i p ml by simp
      finally show ?thesis using i True by simp
    qed
    then show ?thesis using run True rd64_wr64 [OF w] by auto
  qed
qed

text \<open>\<open>yield\<close> moves the running procedure behind all others and changes nothing else.\<close>

lemma sys_yield_rotates:
  assumes "procedures vm \<noteq> []"
  shows "sys_yield argv retv vm = Some (vm\<lparr>procedures := rotate1 (procedures vm)\<rparr>)"
  using assms by (auto simp: sys_yield_def split: list.split)

section \<open>The properties at concrete machines\<close>

definition mem_vm :: "unit vm_t" where
  "mem_vm = (make_vm [7, 8, 9] 3 32 0 ())\<lparr>memory :=
     [1, 0, 0, 0, 0, 0, 0, 0, 2, 0, 0, 0, 0, 0, 0, 0, 24, 0, 0, 0, 0, 0, 0, 0, 0, 0, 0, 0, 0, 0, 0, 0]\<rparr>"

lemma mem_vm_simps: "memsz mem_vm = 32" "codesz mem_vm = 3" "code mem_vm = [7, 8, 9]" "mem_null mem_vm = False"
  "memory mem_vm = [1, 0, 0, 0, 0, 0, 0, 0, 2, 0, 0, 0, 0, 0, 0, 0, 24, 0, 0, 0, 0, 0, 0, 0, 0, 0, 0, 0, 0, 0, 0, 0]"
  by (simp_all add: mem_vm_def make_vm_def make_procedure_def)

lemma mem_vm_wf: "vm_wf mem_vm" by (simp add: vm_wf_def mem_vm_simps)

lemma mem_vm_rd: "rd64 0 mem_vm = Some 1"
  by (simp add: rd64_def rd_def load_def mem_vm_simps)

lemma sys_mexpand_correct_witness:
  "\<exists>vm'. sys_mexpand demo_os 0 24 mem_vm = Some vm' \<and> unat (memsz vm') = 33 \<and> rd64 24 vm' = Some 0"
proof -
  have a: "args_at 0 8 24 mem_vm" by (simp add: args_at_def mem_vm_simps)
  have r: "rd64 (unat 0) mem_vm = Some 1" using mem_vm_rd by simp
  show ?thesis
    using sys_mexpand_correct [OF mem_vm_wf demo_os_ok(1) a r] by (auto simp: mem_vm_simps demo_os_def)
qed

lemma sys_mretract_result_lost_witness: "sys_mretract demo_os 0 24 mem_vm = None"
proof -
  have a: "args_at 0 8 24 mem_vm" by (simp add: args_at_def mem_vm_simps)
  have r: "rd64 (unat 0) mem_vm = Some 1" using mem_vm_rd by simp
  show ?thesis
    by (rule sys_mretract_result_lost [OF mem_vm_wf demo_os_ok(1) a r, of "take 31 (memory mem_vm)" "()"])
      (simp_all add: mem_vm_simps demo_os_def)
qed

lemma sys_codecp_correct_witness:
  "\<exists>vm'. sys_codecp 0 8 mem_vm = Some vm' \<and> memory vm' ! 24 = 8 \<and> memory vm' ! 25 = 9"
proof -
  have a: "args_at 0 20 8 mem_vm" by (simp add: args_at_def mem_vm_simps)
  have r: "rd64 (unat 0) mem_vm = Some 1" "rd64 (unat 0 + 8) mem_vm = Some 2" "rd32 (unat 0 + 16) mem_vm = Some 24"
    by (simp_all add: rd64_def rd32_def rd_def load_def mem_vm_simps)
  obtain vm' where "sys_codecp 0 8 mem_vm = Some vm'" "\<forall>i < 2. memory vm' ! (24 + i) = code mem_vm ! (1 + i)"
    using sys_codecp_correct [OF mem_vm_wf a r] by (auto simp: mem_vm_simps)
  then show ?thesis by (auto simp: mem_vm_simps dest: spec [of _ 0] spec [of _ 1])
qed

lemma sys_yield_rotates_witness:
  "sys_yield 0 0 (mem_vm\<lparr>procedures := [fresh_proc 1, fresh_proc 2]\<rparr>) =
     Some (mem_vm\<lparr>procedures := [fresh_proc 2, fresh_proc 1]\<rparr>)"
  using sys_yield_rotates [of "mem_vm\<lparr>procedures := [fresh_proc 1, fresh_proc 2]\<rparr>" 0 0] by simp

end
