(* ===== verification/SyscallIo.thy ===== *)
theory SyscallIo
  imports SyscallMem
begin

text \<open>
  Files and their events (\<open>syscalls/syscall_io.c\<close>, and the close and event handlers of
  \<open>syscall_net.c\<close> that it calls through function pointers): the table of descriptors, the
  events waiting on each, the \<open>pselect\<close> round that fires them, and the system calls
  \<open>close\<close>, \<open>read\<close> and \<open>write\<close>. A \<open>vm_fd_t *\<close> is the index in the table.
\<close>

section \<open>The table of descriptors\<close>

definition FD_ALLOC_STEP :: u32 where "FD_ALLOC_STEP = 5"

definition zero_fd :: vm_fd_t where
  "zero_fd = \<lparr>fd = 0, used = False, events = Null, n_events = 0, alloc_events = 0, on_close = None, fd_data = Null\<rparr>"

definition get_fd :: "nat \<Rightarrow> 'w vm_t \<Rightarrow> vm_fd_t option" where
  "get_fd i vm = (if i < length (fds (io vm)) then Some (fds (io vm) ! i) else None)"

definition set_fd :: "nat \<Rightarrow> vm_fd_t \<Rightarrow> 'w vm_t \<Rightarrow> 'w vm_t" where
  "set_fd i f vm = vm\<lparr>io := (io vm)\<lparr>fds := (fds (io vm))[i := f]\<rparr>\<rparr>"

text \<open>The first free slot from \<open>i\<close> on, among \<open>n\<close> slots; none is left when the code calls \<open>abort\<close>.\<close>

fun find_unused :: "nat \<Rightarrow> nat \<Rightarrow> vm_fd_t list \<Rightarrow> nat option" where
  "find_unused 0 i fs = None"
| "find_unused (Suc n) i fs =
     (if i < length fs then (if \<not> used (fs ! i) then Some i else find_unused n (i + 1) fs) else None)"

definition grow_fds :: "vm_io_t \<Rightarrow> vm_io_t" where
  "grow_fds x = x\<lparr>fds := take (unat (n_fds x)) (fds x) @ replicate (unat FD_ALLOC_STEP) zero_fd,
     n_fds := n_fds x + FD_ALLOC_STEP\<rparr>"

definition alloc_fd :: "'w vm_t \<Rightarrow> (nat \<times> 'w vm_t) option" where
  "alloc_fd vm =
     (let grow = (used_fds (io vm) = n_fds (io vm));
          begin_fd = (if grow then unat (n_fds (io vm)) else 0);
          x = (if grow then grow_fds (io vm) else io vm)
      in do {
        i \<leftarrow> find_unused (unat (n_fds x) - begin_fd) begin_fd (fds x);
        Some (i, vm\<lparr>io := x\<lparr>fds := (fds x)[i := (fds x ! i)\<lparr>used := True, on_close := None\<rparr>],
                            used_fds := used_fds x + 1\<rparr>\<rparr>)
      })"

text \<open>\<open>free(evt->data)\<close> for the first \<open>n\<close> events: each must be readable.\<close>

fun free_evt_data :: "nat \<Rightarrow> nat \<Rightarrow> vm_io_evt_t block \<Rightarrow> unit option" where
  "free_evt_data 0 e b = Some ()"
| "free_evt_data (Suc n) e b = do { _ \<leftarrow> blk_read b e; free_evt_data n (e + 1) b }"

definition net_io_close :: "nat \<Rightarrow> 'w vm_t \<Rightarrow> 'w vm_t option" where
  "net_io_close i vm = do {
     f \<leftarrow> get_fd i vm;
     let vm = vm\<lparr>io := (io vm)\<lparr>n_io_events := n_io_events (io vm) - n_events f\<rparr>\<rparr>;
     _ \<leftarrow> free_evt_data (unat (n_events f)) 0 (events f);
     d \<leftarrow> blk_free (fd_data f);
     Some (set_fd i (f\<lparr>fd_data := d\<rparr>) vm)
   }"

definition dealloc_fd :: "nat \<Rightarrow> 'w vm_t \<Rightarrow> 'w vm_t option" where
  "dealloc_fd i vm = do {
     f \<leftarrow> get_fd i vm;
     vm \<leftarrow> (case on_close f of None \<Rightarrow> Some vm | Some net_io_close_handler \<Rightarrow> net_io_close i vm);
     f \<leftarrow> get_fd i vm;
     b \<leftarrow> blk_free (events f);
     let vm = set_fd i (f\<lparr>used := False, events := b\<rparr>) vm;
     Some (vm\<lparr>io := (io vm)\<lparr>used_fds := used_fds (io vm) - 1\<rparr>\<rparr>)
   }"

text \<open>The lookup of a handle: its index, or an error.\<close>

definition fd_index :: "u64 \<Rightarrow> u32" where
  "fd_index h = ucast (h - 1)"

definition handle_of :: "nat \<Rightarrow> u64" where
  "handle_of i = of_nat i + 1"

definition bad_fd :: "u32 \<Rightarrow> 'w vm_t \<Rightarrow> bool option" where
  "bad_fd i vm = (if i \<ge> n_fds (io vm) then Some True
     else map_option (\<lambda>f. \<not> used f) (get_fd (unat i) vm))"

section \<open>Events\<close>

text \<open>
  A \<open>vm_io_evt_t\<close> takes 24 bytes; the arrays of events are allocated with the size of an
  \<open>io_mem_t\<close>, 16 bytes. \<open>alloc_event\<close> writes only the data pointer of the new slot.
\<close>

definition io_mem_size :: nat where "io_mem_size = 16"
definition io_evt_size :: nat where "io_evt_size = 24"

definition clear_slot :: "vm_io_evt_t block \<Rightarrow> nat \<Rightarrow> vm_io_evt_t block option" where
  "clear_slot b i = (case b of
       Slots xs \<Rightarrow> if i < length xs then Some (Slots (xs[i := map_option (\<lambda>e. e\<lparr>evt_data := NoData\<rparr>) (xs ! i)])) else None
     | _ \<Rightarrow> None)"

definition alloc_event :: "nat \<Rightarrow> 'w vm_t \<Rightarrow> (nat \<times> 'w vm_t) option" where
  "alloc_event i vm = do {
     f \<leftarrow> get_fd i vm;
     f \<leftarrow> (if n_events f + 1 > alloc_events f then do {
              b \<leftarrow> blk_realloc io_evt_size (io_mem_size * unat (alloc_events f + IO_EVT_ALLOC)) (events f);
              Some (f\<lparr>events := b, alloc_events := alloc_events f + IO_EVT_ALLOC\<rparr>)
            } else Some f);
     let e = unat (n_events f);
     b \<leftarrow> clear_slot (events f) e;
     let vm = set_fd i (f\<lparr>events := b, n_events := n_events f + 1\<rparr>) vm;
     Some (e, vm\<lparr>io := (io vm)\<lparr>n_io_events := n_io_events (io vm) + 1\<rparr>\<rparr>)
   }"

definition set_event :: "nat \<Rightarrow> nat \<Rightarrow> vm_io_evt_t \<Rightarrow> 'w vm_t \<Rightarrow> 'w vm_t option" where
  "set_event i e evt vm = do {
     f \<leftarrow> get_fd i vm;
     b \<leftarrow> blk_write (events f) e evt;
     Some (set_fd i (f\<lparr>events := b\<rparr>) vm)
   }"

definition IO_EVT_SELECT_READ :: nat where "IO_EVT_SELECT_READ = 1"
definition IO_EVT_SELECT_WRITE :: nat where "IO_EVT_SELECT_WRITE = 2"

section \<open>The event handlers\<close>

text \<open>Each returns its count, whether the event goes, and the machine.\<close>

definition common_io_evt_handler ::
  "nat \<Rightarrow> io_mem_t \<Rightarrow> 'w vm_t \<Rightarrow> ((nat \<times> nat) option \<times> 'w vm_t) option" where
  "common_io_evt_handler i m vm =
     (case deref (cb_args (io_callback m)) 32 vm of
        None \<Rightarrow> Some (None, set_error EFAULT vm)
      | Some c \<Rightarrow> do {
          vm \<leftarrow> wr64 c (handle_of i) vm;
          vm \<leftarrow> wr64 (c + 8) 0 vm;
          vm \<leftarrow> wr64 (c + 16) 0 vm;
          (case deref (io_ptr m) (io_len m) vm of
             None \<Rightarrow> do { vm \<leftarrow> wr64 (c + 8) (ucast EFAULT) vm; Some (None, vm) }
           | Some buf \<Rightarrow> Some (Some (buf, c), vm))
        })"

text \<open>What \<open>read\<close> puts in the buffer, and what \<open>write\<close> takes from it.\<close>

definition do_read :: "'w os \<Rightarrow> i32 \<Rightarrow> nat \<Rightarrow> nat \<Rightarrow> 'w vm_t \<Rightarrow> ((i32 + nat) \<times> 'w vm_t) option" where
  "do_read os s buf len vm =
     (case call_os (os_read os s len) vm of
        (Inl e, vm) \<Rightarrow> Some (Inl e, vm)
      | (Inr bs, vm) \<Rightarrow> map_option (\<lambda>m. (Inr (length bs), vm\<lparr>memory := m\<rparr>)) (store_bytes (memory vm) buf bs))"

definition do_write :: "'w os \<Rightarrow> i32 \<Rightarrow> nat \<Rightarrow> nat \<Rightarrow> 'w vm_t \<Rightarrow> ((i32 + nat) \<times> 'w vm_t) option" where
  "do_write os s buf len vm =
     (if buf + len \<le> length (memory vm)
      then Some (call_os (os_write os s (take len (drop buf (memory vm)))) vm) else None)"

definition finish_io :: "nat \<Rightarrow> nat \<Rightarrow> vm_io_evt_t \<Rightarrow> io_mem_t \<Rightarrow> nat \<Rightarrow> (i32 + nat) \<Rightarrow> 'w vm_t \<Rightarrow>
    (u32 \<times> bool \<times> 'w vm_t) option" where
  "finish_io i e evt m c len vm = do {
     vm \<leftarrow> wr64 (c + 16) (case len of Inl _ \<Rightarrow> 0 | Inr n \<Rightarrow> of_nat n) vm;
     vm \<leftarrow> wr64 (c + 8) (case len of Inl err \<Rightarrow> scast err | Inr _ \<Rightarrow> 0) vm;
     let vm = (case len of Inl err \<Rightarrow> set_error err vm | Inr _ \<Rightarrow> vm);
     (_, vm) \<leftarrow> make_func_procedure (callback (io_callback m)) (cb_args (io_callback m)) 0 vm;
     vm \<leftarrow> set_event i e (evt\<lparr>evt_data := NoData\<rparr>) vm;
     Some (1, True, vm)
   }"

definition io_evt :: "'w os \<Rightarrow> bool \<Rightarrow> nat \<Rightarrow> nat \<Rightarrow> vm_io_evt_t \<Rightarrow> 'w vm_t \<Rightarrow> (u32 \<times> bool \<times> 'w vm_t) option" where
  "io_evt os reading i e evt vm =
     (case evt_data evt of
        IoMem m \<Rightarrow> do {
          f \<leftarrow> get_fd i vm;
          (p, vm) \<leftarrow> common_io_evt_handler i m vm;
          (case p of
             None \<Rightarrow> Some (0, True, vm)
           | Some (buf, c) \<Rightarrow> do {
               (len, vm) \<leftarrow> (if reading then do_read os (fd f) buf (unat (io_len m)) vm
                            else do_write os (fd f) buf (unat (io_len m)) vm);
               finish_io i e evt m c len vm
             })
        }
      | _ \<Rightarrow> None)"

definition connect_evt :: "nat \<Rightarrow> nat \<Rightarrow> vm_io_evt_t \<Rightarrow> 'w vm_t \<Rightarrow> (u32 \<times> bool \<times> 'w vm_t) option" where
  "connect_evt i e evt vm =
     (case evt_data evt of
        Callback cb \<Rightarrow>
          (case deref (cb_args cb) 16 vm of
             None \<Rightarrow> Some (0, True, set_error EFAULT vm)
           | Some c \<Rightarrow> do {
               vm \<leftarrow> wr64 c (handle_of i) vm;
               vm \<leftarrow> wr64 (c + 8) 0 vm;
               (_, vm) \<leftarrow> make_func_procedure (callback cb) (cb_args cb) 0 vm;
               vm \<leftarrow> set_event i e (evt\<lparr>evt_data := NoData\<rparr>) vm;
               Some (1, True, vm)
             })
      | _ \<Rightarrow> None)"

text \<open>The slot of an accepted socket.\<close>

definition accepted :: "'w os \<Rightarrow> i32 \<Rightarrow> vm_net_sock_t \<Rightarrow> 'w vm_t \<Rightarrow> (nat \<times> 'w vm_t) option" where
  "accepted os r peer vm = do {
     (j, vm) \<leftarrow> alloc_fd vm;
     let vm = vm\<lparr>world := os_nonblock os r (world vm)\<rparr>;
     g \<leftarrow> get_fd j vm;
     Some (j, set_fd j (g\<lparr>fd := r, on_close := Some net_io_close_handler, fd_data := Slots [Some peer]\<rparr>) vm)
   }"

text \<open>
  \<open>cb_args[1]\<close> is 0 only when the new descriptor is 0; for any other it is whatever \<open>errno\<close>
  holds. The socket is accepted before a slot is found for it.
\<close>

definition accept_evt :: "'w os \<Rightarrow> nat \<Rightarrow> nat \<Rightarrow> vm_io_evt_t \<Rightarrow> 'w vm_t \<Rightarrow> (u32 \<times> bool \<times> 'w vm_t) option" where
  "accept_evt os i e evt vm =
     (case evt_data evt of
        Callback cb \<Rightarrow>
          (case deref (cb_args cb) 16 vm of
             None \<Rightarrow> Some (0, True, set_error EFAULT vm)
           | Some c \<Rightarrow> do {
               f \<leftarrow> get_fd i vm;
               (case call_os (os_accept os (fd f)) vm of
                  (Inl err, vm) \<Rightarrow>
                    if err = EAGAIN then Some (0, False, vm)
                    else do {
                      vm \<leftarrow> wr64 (c + 8) (scast err) vm;
                      (_, vm) \<leftarrow> make_func_procedure (callback cb) (cb_args cb) 0 vm;
                      Some (1, False, vm)
                    }
                | (Inr (r, err, peer), vm) \<Rightarrow> do {
                    (j, vm) \<leftarrow> accepted os r peer vm;
                    vm \<leftarrow> wr64 c (handle_of j) vm;
                    vm \<leftarrow> wr64 (c + 8) (if r = 0 then 0 else scast err) vm;
                    (_, vm) \<leftarrow> make_func_procedure (callback cb) (cb_args cb) 0 vm;
                    Some (1, False, vm)
                  })
             })
      | _ \<Rightarrow> None)"

definition run_evt :: "'w os \<Rightarrow> nat \<Rightarrow> nat \<Rightarrow> vm_io_evt_t \<Rightarrow> 'w vm_t \<Rightarrow> (u32 \<times> bool \<times> 'w vm_t) option" where
  "run_evt os i e evt vm =
     (case activate evt of
        read_io_evt_handler \<Rightarrow> io_evt os True i e evt vm
      | write_io_evt_handler \<Rightarrow> io_evt os False i e evt vm
      | connect_io_evt_handler \<Rightarrow> connect_evt i e evt vm
      | accept_io_evt_handler \<Rightarrow> accept_evt os i e evt vm)"

section \<open>Firing\<close>

text \<open>
  \<open>setup_select_rwsets\<close>: which sets a descriptor goes into, reading its events until both
  are known; \<open>FD_SET\<close> outside its 1024 bits is undefined.
\<close>

fun evt_sets :: "nat \<Rightarrow> nat \<Rightarrow> vm_io_evt_t block \<Rightarrow> bool \<Rightarrow> bool \<Rightarrow> (bool \<times> bool) option" where
  "evt_sets 0 e b r w = Some (r, w)"
| "evt_sets (Suc n) e b r w =
     (if r \<and> w then Some (r, w)
      else do {
        evt \<leftarrow> blk_read b e;
        evt_sets n (e + 1) b (r \<or> bit (evt_flags evt) 0) (w \<or> bit (evt_flags evt) 1)
      })"

definition fd_set_ok :: "i32 \<Rightarrow> bool" where
  "fd_set_ok s \<longleftrightarrow> 0 \<le> sint s \<and> sint s < 1024"

definition setup_select_rwsets ::
  "i32 \<Rightarrow> vm_fd_t \<Rightarrow> i32 list \<Rightarrow> i32 list \<Rightarrow> (i32 \<times> i32 list \<times> i32 list) option" where
  "setup_select_rwsets maxfd f rs ws = do {
     (r, w) \<leftarrow> evt_sets (unat (n_events f)) 0 (events f) False False;
     if \<not> r \<and> \<not> w then Some (maxfd, rs, ws)
     else if \<not> fd_set_ok (fd f) then None
     else Some (if sint maxfd < sint (fd f) then fd f else maxfd,
                if r then fd f # rs else rs, if w then fd f # ws else ws)
   }"

fun setup_all :: "nat \<Rightarrow> nat \<Rightarrow> 'w vm_t \<Rightarrow> i32 \<times> i32 list \<times> i32 list \<Rightarrow> (i32 \<times> i32 list \<times> i32 list) option" where
  "setup_all 0 i vm acc = Some acc"
| "setup_all (Suc n) i vm acc = do {
     f \<leftarrow> get_fd i vm;
     acc \<leftarrow> (if \<not> used f \<or> n_events f = 0 then Some acc
            else setup_select_rwsets (fst acc) f (fst (snd acc)) (snd (snd acc)));
     setup_all n (i + 1) vm acc
   }"

text \<open>The first event with the flags asked for.\<close>

fun find_evt :: "nat \<Rightarrow> nat \<Rightarrow> nat \<Rightarrow> vm_io_evt_t block \<Rightarrow> (nat \<times> vm_io_evt_t) option option" where
  "find_evt flag 0 e b = Some None"
| "find_evt flag (Suc n) e b = do {
     evt \<leftarrow> blk_read b e;
     if evt_flags evt = flag then Some (Some (e, evt)) else find_evt flag n (e + 1) b
   }"

definition remove_event :: "nat \<Rightarrow> nat \<Rightarrow> 'w vm_t \<Rightarrow> 'w vm_t option" where
  "remove_event i e vm = do {
     f \<leftarrow> get_fd i vm;
     b \<leftarrow> (if of_nat e \<noteq> n_events f - 1 then do {
              l \<leftarrow> blk_read (events f) (unat (n_events f - 1));
              blk_write (events f) e l
            } else Some (events f));
     let f = f\<lparr>events := b, n_events := n_events f - 1\<rparr>;
     f \<leftarrow> (if n_events f \<noteq> 0 \<and> alloc_events f - n_events f > IO_EVT_ALLOC then do {
              b \<leftarrow> blk_realloc io_evt_size (io_mem_size * unat (alloc_events f - IO_EVT_ALLOC)) (events f);
              Some (f\<lparr>events := b, alloc_events := alloc_events f - IO_EVT_ALLOC\<rparr>)
            } else Some f);
     let vm = set_fd i f vm;
     Some (vm\<lparr>io := (io vm)\<lparr>n_io_events := n_io_events (io vm) - 1\<rparr>\<rparr>)
   }"

definition activate_event :: "'w os \<Rightarrow> nat \<Rightarrow> nat \<Rightarrow> 'w vm_t \<Rightarrow> (u32 \<times> 'w vm_t) option" where
  "activate_event os i flag vm = do {
     f \<leftarrow> get_fd i vm;
     x \<leftarrow> find_evt flag (unat (n_events f)) 0 (events f);
     (case x of
        None \<Rightarrow> Some (0, vm)
      | Some (e, evt) \<Rightarrow> do {
          (res, rem, vm) \<leftarrow> run_evt os i e evt vm;
          vm \<leftarrow> (if rem then remove_event i e vm else Some vm);
          Some (res, vm)
        })
   }"

text \<open>
  One descriptor of the firing loop. The pointer \<open>fd\<close> is used again after the read event has
  run; if that made the table grow, \<open>realloc\<close> has moved it: undefined.
\<close>

definition fire_fd ::
  "'w os \<Rightarrow> i32 list \<Rightarrow> i32 list \<Rightarrow> nat \<Rightarrow> u32 \<Rightarrow> 'w vm_t \<Rightarrow> (u32 \<times> 'w vm_t) option" where
  "fire_fd os rs ws i ev vm = do {
     f \<leftarrow> get_fd i vm;
     if \<not> used f then Some (ev, vm)
     else if \<not> fd_set_ok (fd f) then None
     else do {
       (ev, vm1) \<leftarrow> (if fd f \<in> set rs then do {
            (r, vm1) \<leftarrow> activate_event os i IO_EVT_SELECT_READ vm;
            if n_fds (io vm1) \<noteq> n_fds (io vm) then None else Some (ev + r, vm1)
          } else Some (ev, vm));
       f1 \<leftarrow> get_fd i vm1;
       if fd f1 \<in> set ws then do {
         (r, vm2) \<leftarrow> activate_event os i IO_EVT_SELECT_WRITE vm1;
         Some (ev + r, vm2)
       } else Some (ev, vm1)
     }
   }"

text \<open>The loop runs to the current number of slots, with \<open>fuel\<close> turns at most.\<close>

fun fire_fds ::
  "'w os \<Rightarrow> i32 list \<Rightarrow> i32 list \<Rightarrow> nat \<Rightarrow> nat \<Rightarrow> u32 \<Rightarrow> 'w vm_t \<Rightarrow> (u32 \<times> 'w vm_t) option" where
  "fire_fds os rs ws 0 i ev vm = None"
| "fire_fds os rs ws (Suc k) i ev vm =
     (if i < unat (n_fds (io vm)) then do {
        (ev, vm) \<leftarrow> fire_fd os rs ws i ev vm;
        fire_fds os rs ws k (i + 1) ev vm
      } else Some (ev, vm))"

definition fire_io_events :: "'w os \<Rightarrow> 'w vm_t \<Rightarrow> (u32 \<times> 'w vm_t) option" where
  "fire_io_events os vm =
     (if n_io_events (io vm) = 0 then Some (0, vm)
      else do {
        (maxfd, rs, ws) \<leftarrow> setup_all (unat (n_fds (io vm))) 0 vm (0, [], []);
        (case call_os (os_pselect os (maxfd + 1) rs ws) vm of
           (Inl e, vm) \<Rightarrow> Some (0, set_error e vm)
         | (Inr (ret, rs, ws), vm) \<Rightarrow>
             if sint ret \<le> 0 then Some (0, vm)
             else fire_fds os rs ws (Suc (unat (n_fds (io vm)))) 0 0 vm)
      })"

definition has_pending_io_events :: "'w vm_t \<Rightarrow> bool" where
  "has_pending_io_events vm \<longleftrightarrow> n_io_events (io vm) > 0"

section \<open>System calls\<close>

definition sys_close :: "'w os \<Rightarrow> u32 \<Rightarrow> u32 \<Rightarrow> 'w vm_t \<Rightarrow> 'w vm_t option" where
  "sys_close os argv retv = with_args_mem argv 8 retv 1 (\<lambda>a r vm. do {
     h \<leftarrow> rd64 a vm;
     let i = fd_index h;
     bad \<leftarrow> (if i > n_fds (io vm) then Some True else map_option (\<lambda>f. \<not> used f) (get_fd (unat i) vm));
     if bad then fail_with EBADF r 1 vm
     else do {
       vm \<leftarrow> wr64 r 0 vm;
       f \<leftarrow> get_fd (unat i) vm;
       (case call_os (os_close os (fd f)) vm of
          (None, vm) \<Rightarrow> dealloc_fd (unat i) vm
        | (Some e, vm) \<Rightarrow> do {
            vm \<leftarrow> fail_with e r 1 vm;
            dealloc_fd (unat i) vm
          })
     }
   })"

text \<open>The arguments of \<open>read\<close> and \<open>write\<close>, checked; \<^term>\<open>Inl\<close> is the machine after a failure.\<close>

definition get_io_task_params ::
  "u32 \<Rightarrow> u32 \<Rightarrow> 'w vm_t \<Rightarrow> ('w vm_t + (nat \<times> nat \<times> io_mem_t)) option" where
  "get_io_task_params argv retv vm =
     (let (a, vm) = deref_mem_ptr argv 40 vm; (r, vm) = deref_mem_ptr retv 8 vm in
      case (a, r) of
        (Some a, Some r) \<Rightarrow> do {
          h \<leftarrow> rd64 a vm;
          let i = fd_index h;
          bad \<leftarrow> bad_fd i vm;
          if bad then map_option Inl (fail_with EBADF r 1 vm)
          else do {
            ptr \<leftarrow> rd32 (a + 8) vm;
            len \<leftarrow> rd64 (a + 12) vm;
            if deref ptr (ucast len) vm = None then map_option Inl (fail_with EFAULT r 1 vm)
            else do {
              args_ptr \<leftarrow> rd32 (a + 20) vm;
              if deref args_ptr 32 vm = None then map_option Inl (fail_with EFAULT r 1 vm)
              else do {
                f_ptr \<leftarrow> rd32 (a + 24) vm;
                if f_ptr \<ge> codesz vm then map_option Inl (fail_with EINVAL r 1 vm)
                else Some (Inr (r, unat i, \<lparr>io_ptr = ptr, io_len = ucast len,
                                  io_callback = \<lparr>callback = f_ptr, cb_args = args_ptr\<rparr>\<rparr>))
              }
            }
          }
        }
      | _ \<Rightarrow> map_option Inl (put_if r 1 (set_error EFAULT vm)))"

definition io_task :: "io_evt_handler \<Rightarrow> nat \<Rightarrow> u32 \<Rightarrow> u32 \<Rightarrow> 'w vm_t \<Rightarrow> 'w vm_t option" where
  "io_task h fl argv retv vm = do {
     x \<leftarrow> get_io_task_params argv retv vm;
     (case x of
        Inl vm \<Rightarrow> Some vm
      | Inr (r, i, m) \<Rightarrow> do {
          (e, vm) \<leftarrow> alloc_event i vm;
          vm \<leftarrow> set_event i e \<lparr>evt_flags = fl, activate = h, evt_data = IoMem m\<rparr> vm;
          wr64 r 0 vm
        })
   }"

definition sys_read :: "u32 \<Rightarrow> u32 \<Rightarrow> 'w vm_t \<Rightarrow> 'w vm_t option" where
  "sys_read = io_task read_io_evt_handler IO_EVT_SELECT_READ"

definition sys_write :: "u32 \<Rightarrow> u32 \<Rightarrow> 'w vm_t \<Rightarrow> 'w vm_t option" where
  "sys_write = io_task write_io_evt_handler IO_EVT_SELECT_WRITE"

text \<open>Releasing everything when the machine goes: the events and descriptors in use, then the table.\<close>

fun destroy_fds :: "'w os \<Rightarrow> vm_fd_t list \<Rightarrow> 'w vm_t \<Rightarrow> 'w vm_t option" where
  "destroy_fds os [] vm = Some vm"
| "destroy_fds os (f # fs) vm =
     (if \<not> used f then destroy_fds os fs vm
      else do {
        _ \<leftarrow> blk_free (events f);
        destroy_fds os fs (snd (call_os (os_close os (fd f)) vm))
      })"

definition destroy_vm_io :: "'w os \<Rightarrow> 'w vm_t \<Rightarrow> 'w vm_t option" where
  "destroy_vm_io os vm = destroy_fds os (take (unat (n_fds (io vm))) (fds (io vm))) vm"

section \<open>What these operations keep\<close>

lemma keeps_io: "keeps vm (vm\<lparr>io := x\<rparr>)"
  by (rule keeps_same) simp_all

lemma keeps_world: "keeps vm (vm\<lparr>world := x\<rparr>)"
  by (rule keeps_same) simp_all

lemma keeps_set_fd: "keeps vm (set_fd i f vm)"
  by (simp add: set_fd_def keeps_io)

lemma keeps_set_fd_io: "keeps vm ((set_fd i f vm)\<lparr>io := x\<rparr>)"
  by (rule keeps_trans [OF keeps_set_fd keeps_io])

lemma keeps_alloc_fd: "keeps_via snd vm (alloc_fd vm)"
  by (auto simp: alloc_fd_def Let_def intro!: keeps_via_pure keeps_io)

lemma keeps_alloc_event: "keeps_via snd vm (alloc_event i vm)"
  by (auto simp: alloc_event_def Let_def intro!: keeps_via_pure keeps_set_fd_io)

lemma keeps_set_event: "keeps_opt vm (set_event i e evt vm)"
  by (auto simp: set_event_def intro!: keeps_opt_bind' keeps_set_fd)

lemma keeps_remove_event: "keeps_opt vm (remove_event i e vm)"
  by (auto simp: remove_event_def Let_def intro!: keeps_opt_bind' keeps_set_fd_io)

lemma keeps_net_io_close: "keeps_opt vm (net_io_close i vm)"
  by (auto simp: net_io_close_def Let_def
      intro!: keeps_opt_bind' keeps_trans [OF keeps_io keeps_set_fd])

lemma keeps_dealloc_fd: "keeps_opt vm (dealloc_fd i vm)"
  unfolding dealloc_fd_def Let_def
  by (rule keeps_opt_bind', rule keeps_opt_bind)
    (auto split: option.split io_close_handler.split
      intro!: keeps_opt_bind' keeps_set_fd_io keeps_net_io_close)

lemma keeps_store_bytes: "store_bytes (memory vm) p bs = Some m \<Longrightarrow> keeps vm (vm\<lparr>memory := m\<rparr>)"
  by (auto simp: keeps_def vm_wf_def dest: store_bytes_length)

lemma keeps_do_read: "keeps_via snd vm (do_read os s buf len vm)"
proof -
  obtain r vm1 where c: "call_os (os_read os s len) vm = (r, vm1)" by fastforce
  show ?thesis
    by (rule keeps_via_trans [OF keeps_call_os [OF c]])
      (auto simp: do_read_def c keeps_via_def split: sum.split intro: keeps_store_bytes)
qed

lemma keeps_do_write: "keeps_via snd vm (do_write os s buf len vm)"
  by (auto simp: do_write_def keeps_via_def intro: keeps_call_os)

lemma keeps_common_io: "keeps_via snd vm (common_io_evt_handler i m vm)"
  unfolding common_io_evt_handler_def
  by (auto split: option.split intro!: keeps_via_step keeps_opt_wr64)

lemma keeps_finish_tail: "keeps_via (\<lambda>x. snd (snd x)) vm (do {
     (_, vm) \<leftarrow> make_func_procedure ip av 0 vm;
     vm \<leftarrow> set_event i e evt vm;
     Some (1, True, vm)
   })"
  by (auto intro!: keeps_via_bind [OF keeps_via_make_func] keeps_via_step [OF keeps_set_event])

lemma keeps_finish_io: "keeps_via (\<lambda>x. snd (snd x)) vm (finish_io i e evt m c len vm)"
  unfolding finish_io_def Let_def
proof (rule keeps_via_step [OF keeps_opt_wr64], rule keeps_via_step [OF keeps_opt_wr64])
  fix vm1 vm2
  show "keeps_via (\<lambda>x. snd (snd x)) vm2 (do {
     (_, vm) \<leftarrow> make_func_procedure (callback (io_callback m)) (cb_args (io_callback m)) 0
       (case len of Inl err \<Rightarrow> set_error err vm2 | Inr _ \<Rightarrow> vm2);
     vm \<leftarrow> set_event i e (evt\<lparr>evt_data := NoData\<rparr>) vm;
     Some (1, True, vm)
   })"
    by (rule keeps_via_trans [OF _ keeps_finish_tail]) (simp split: sum.split)
qed

lemma keeps_io_evt: "keeps_via (\<lambda>x. snd (snd x)) vm (io_evt os reading i e evt vm)"
  unfolding io_evt_def
  by (cases "evt_data evt"; cases reading)
    (auto split: option.split intro!: keeps_via_pure [of "get_fd i vm"] keeps_via_bind [OF keeps_common_io]
      keeps_via_bind [OF keeps_do_read] keeps_via_bind [OF keeps_do_write] keeps_finish_io)

lemma keeps_connect_evt: "keeps_via (\<lambda>x. snd (snd x)) vm (connect_evt i e evt vm)"
  unfolding connect_evt_def
  by (auto split: evt_data.split option.split intro!: keeps_via_step [OF keeps_opt_wr64]
      keeps_via_bind [OF keeps_via_make_func] keeps_via_step [OF keeps_set_event])

lemma keeps_accepted: "keeps_via snd vm (accepted os r peer vm)"
  unfolding accepted_def Let_def
  by (rule keeps_via_bind [OF keeps_alloc_fd])
    (auto intro!: keeps_via_pure keeps_trans [OF keeps_world keeps_set_fd])

lemma keeps_accept_tail: "keeps_via (\<lambda>x. snd (snd x)) vm (do {
     vm \<leftarrow> wr64 p v vm;
     (_, vm) \<leftarrow> make_func_procedure ip av 0 vm;
     Some (1 :: u32, False, vm)
   })"
  by (auto intro!: keeps_via_step [OF keeps_opt_wr64] keeps_via_bind [OF keeps_via_make_func])

lemma keeps_accept_evt: "keeps_via (\<lambda>x. snd (snd x)) vm (accept_evt os i e evt vm)"
proof (cases "evt_data evt")
  case (Callback cb)
  show ?thesis
  proof (cases "deref (cb_args cb) 16 vm")
    case None
    then show ?thesis by (simp add: accept_evt_def Callback)
  next
    case c: (Some c)
    show ?thesis
    proof (cases "get_fd i vm")
      case None
      then show ?thesis by (simp add: accept_evt_def Callback c)
    next
      case (Some f)
      obtain r vm1 where o: "call_os (os_accept os (fd f)) vm = (r, vm1)" by fastforce
      have "keeps_via (\<lambda>x. snd (snd x)) vm1 (accept_evt os i e evt vm)"
      proof (cases r)
        case (Inl err)
        then show ?thesis
          by (simp add: accept_evt_def Callback c Some o keeps_accept_tail)
      next
        case (Inr x)
        obtain s err peer where x: "x = (s, err, peer)" by (cases x)
        have "keeps_via (\<lambda>x. snd (snd x)) vm1 (do {
                    (j, vm) \<leftarrow> accepted os s peer vm1;
                    vm \<leftarrow> wr64 c (handle_of j) vm;
                    vm \<leftarrow> wr64 (c + 8) (if s = 0 then 0 else scast err) vm;
                    (_, vm) \<leftarrow> make_func_procedure (callback cb) (cb_args cb) 0 vm;
                    Some (1, False, vm)
                  })"
          by (rule keeps_via_bind [OF keeps_accepted])
            (auto intro!: keeps_via_step [OF keeps_opt_wr64] keeps_via_bind [OF keeps_via_make_func])
        then show ?thesis by (simp add: accept_evt_def Callback c Some o Inr x)
      qed
      then show ?thesis by (rule keeps_via_trans [OF keeps_call_os [OF o]])
    qed
  qed
qed (simp_all add: accept_evt_def)

lemma keeps_run_evt: "keeps_via (\<lambda>x. snd (snd x)) vm (run_evt os i e evt vm)"
  by (cases "activate evt") (simp_all add: run_evt_def keeps_io_evt keeps_connect_evt keeps_accept_evt)

lemma keeps_activate_event: "keeps_via snd vm (activate_event os i fl vm)"
  unfolding activate_event_def
  by (auto split: option.split intro!: keeps_via_pure [of "get_fd i vm"] keeps_via_pure [of "find_evt _ _ _ _"]
      keeps_via_bind [OF keeps_run_evt] keeps_via_step [OF keeps_remove_event])

lemma keeps_fire_fd: "keeps_via snd vm (fire_fd os rs ws i ev vm)"
proof (cases "get_fd i vm")
  case None
  then show ?thesis by (simp add: fire_fd_def)
next
  case (Some f)
  have r: "keeps_via snd vm (if fd f \<in> set rs then do {
            (r, vm1) \<leftarrow> activate_event os i IO_EVT_SELECT_READ vm;
            if n_fds (io vm1) \<noteq> n_fds (io vm) then None else Some (ev + r, vm1)
          } else Some (ev, vm))"
    by (auto intro!: keeps_via_bind [OF keeps_activate_event])
  have w: "keeps_via snd vm1 (do {
       f1 \<leftarrow> get_fd i vm1;
       if fd f1 \<in> set ws then do {
         (r, vm2) \<leftarrow> activate_event os i IO_EVT_SELECT_WRITE vm1;
         Some (ev + r, vm2)
       } else Some (ev, vm1)
     })" for ev :: u32 and vm1 :: "'a vm_t"
    by (auto intro!: keeps_via_pure [of "get_fd i vm1"] keeps_via_bind [OF keeps_activate_event])
  show ?thesis
    using keeps_via_bind [OF r, where p = snd and f = "\<lambda>(ev, vm1). do {
       f1 \<leftarrow> get_fd i vm1;
       if fd f1 \<in> set ws then do {
         (r, vm2) \<leftarrow> activate_event os i IO_EVT_SELECT_WRITE vm1;
         Some (ev + r, vm2)
       } else Some (ev, vm1)
     }"] w by (auto simp: fire_fd_def Some)
qed

lemma keeps_fire_fds: "keeps_via snd vm (fire_fds os rs ws k i ev vm)"
proof (induction k arbitrary: i ev vm)
  case 0
  then show ?case by simp
next
  case (Suc k)
  then show ?case by (auto intro!: keeps_via_bind [OF keeps_fire_fd])
qed

lemma keeps_fire_io_events: "keeps_via snd vm (fire_io_events os vm)"
proof (cases "n_io_events (io vm) = 0")
  case True
  then show ?thesis by (simp add: fire_io_events_def)
next
  case False
  show ?thesis
  proof (cases "setup_all (unat (n_fds (io vm))) 0 vm (0, [], [])")
    case None
    with False show ?thesis by (simp add: fire_io_events_def)
  next
    case (Some x)
    obtain m rs ws where x: "x = (m, rs, ws)" by (cases x)
    obtain r vm1 where o: "call_os (os_pselect os (m + 1) rs ws) vm = (r, vm1)" by fastforce
    show ?thesis
      by (rule keeps_via_trans [OF keeps_call_os [OF o]])
        (use False Some in \<open>auto simp: fire_io_events_def x o split: sum.split intro: keeps_fire_fds simp del: fire_fds.simps\<close>)
  qed
qed

lemma keeps_opt_sys_close: "keeps_opt vm (sys_close os argv retv vm)"
  unfolding sys_close_def Let_def
proof (rule keeps_opt_with_args_mem, rule keeps_opt_bind', rule keeps_opt_bind')
  fix a r h bad and vm :: "'a vm_t"
  have "keeps_opt vm (do {
       vm \<leftarrow> wr64 r 0 vm;
       f \<leftarrow> get_fd (unat (fd_index h)) vm;
       (case call_os (os_close os (fd f)) vm of
          (None, vm) \<Rightarrow> dealloc_fd (unat (fd_index h)) vm
        | (Some e, vm) \<Rightarrow> do {
            vm \<leftarrow> fail_with e r 1 vm;
            dealloc_fd (unat (fd_index h)) vm
          })
     })"
  proof (rule keeps_opt_bind [OF keeps_opt_wr64], rule keeps_opt_bind')
    fix vm1 :: "'a vm_t" and f
    obtain q vm2 where o: "call_os (os_close os (fd f)) vm1 = (q, vm2)" by fastforce
    show "keeps_opt vm1 (case call_os (os_close os (fd f)) vm1 of
          (None, vm) \<Rightarrow> dealloc_fd (unat (fd_index h)) vm
        | (Some e, vm) \<Rightarrow> do {
            vm \<leftarrow> fail_with e r 1 vm;
            dealloc_fd (unat (fd_index h)) vm
          })"
      by (rule keeps_opt_trans [OF keeps_call_os [OF o]])
        (auto simp: o split: option.split intro!: keeps_dealloc_fd keeps_opt_bind [OF keeps_opt_fail_with])
  qed
  then show "keeps_opt vm (if bad then fail_with EBADF r 1 vm
     else do {
       vm \<leftarrow> wr64 r 0 vm;
       f \<leftarrow> get_fd (unat (fd_index h)) vm;
       (case call_os (os_close os (fd f)) vm of
          (None, vm) \<Rightarrow> dealloc_fd (unat (fd_index h)) vm
        | (Some e, vm) \<Rightarrow> do {
            vm \<leftarrow> fail_with e r 1 vm;
            dealloc_fd (unat (fd_index h)) vm
          })
     })"
    by (simp add: keeps_opt_fail_with)
qed

lemma keeps_opt_put_failure: "keeps_opt vm (put_if r v (set_error e vm))"
  by (rule keeps_opt_trans [OF keeps_set_error keeps_opt_put_if])

lemma keeps_get_io_task_params:
  assumes "get_io_task_params argv retv vm = Some (Inl vm')"
  shows "keeps vm vm'"
proof -
  obtain a vm1 where a: "deref_mem_ptr argv 40 vm = (a, vm1)" by fastforce
  obtain r vm2 where r: "deref_mem_ptr retv 8 vm1 = (r, vm2)" by fastforce
  have k: "keeps vm vm2" using keeps_deref_mem [OF a] keeps_deref_mem [OF r] by (rule keeps_trans)
  have fw: "fail_with e p v vm2 = Some vm' \<Longrightarrow> keeps vm2 vm'" for e p v
    using keeps_opt_fail_with keeps_optD by blast
  have pf: "put_if q v (set_error e vm2) = Some vm' \<Longrightarrow> keeps vm2 vm'" for q v e
    using keeps_opt_put_failure keeps_optD by blast
  have "keeps vm2 vm'"
    using assms a r by (cases a; cases r) (auto simp: get_io_task_params_def Let_def split: if_splits intro: fw pf)
  with k show ?thesis by (rule keeps_trans)
qed

lemma keeps_opt_io_task: "keeps_opt vm (io_task h fl argv retv vm)"
  unfolding io_task_def
proof (rule keeps_opt_bind')
  fix x assume x: "get_io_task_params argv retv vm = Some x"
  show "keeps_opt vm (case x of
        Inl vm \<Rightarrow> Some vm
      | Inr (r, i, m) \<Rightarrow> do {
          (e, vm) \<leftarrow> alloc_event i vm;
          vm \<leftarrow> set_event i e \<lparr>evt_flags = fl, activate = h, evt_data = IoMem m\<rparr> vm;
          wr64 r 0 vm
        })"
    using x by (auto split: sum.split intro!: keeps_get_io_task_params keeps_opt_via_bind [OF keeps_alloc_event]
      keeps_opt_bind [OF keeps_set_event keeps_opt_wr64])
qed

section \<open>The table of descriptors is sound\<close>

definition fd_inv :: "'w vm_t \<Rightarrow> bool" where
  "fd_inv vm \<longleftrightarrow> length (fds (io vm)) = unat (n_fds (io vm)) \<and>
     unat (used_fds (io vm)) = length (filter used (fds (io vm)))"

lemma find_unused_Some:
  "\<exists>j. i \<le> j \<and> j < i + n \<and> \<not> used (fs ! j) \<Longrightarrow> i + n \<le> length fs \<Longrightarrow>
     \<exists>j. find_unused n i fs = Some j \<and> i \<le> j \<and> j < i + n \<and> \<not> used (fs ! j)"
proof (induction n arbitrary: i)
  case 0
  then show ?case by auto
next
  case (Suc n)
  show ?case
  proof (cases "used (fs ! i)")
    case True
    from Suc.prems obtain j where j: "i \<le> j" "j < i + Suc n" "\<not> used (fs ! j)" by blast
    with True have "Suc i \<le> j" by (metis le_neq_implies_less Suc_leI)
    with j Suc.prems(2) Suc.IH [of "Suc i"] obtain j' where
      "find_unused n (Suc i) fs = Some j'" "Suc i \<le> j'" "j' < Suc i + n" "\<not> used (fs ! j')" by auto
    with True Suc.prems(2) show ?thesis by auto
  next
    case False
    with Suc.prems(2) show ?thesis by auto
  qed
qed

lemma filter_length_lt: "length (filter P xs) < length xs \<Longrightarrow> \<exists>j < length xs. \<not> P (xs ! j)"
  by (metis filter_True in_set_conv_nth less_irrefl)

lemma count_set_used:
  "j < length fs \<Longrightarrow> \<not> used (fs ! j) \<Longrightarrow> used g \<Longrightarrow>
     length (filter used (fs[j := g])) = Suc (length (filter used fs))"
proof -
  assume j: "j < length fs" "\<not> used (fs ! j)" "used g"
  have "fs = take j fs @ fs ! j # drop (Suc j) fs" using j(1) by (rule id_take_nth_drop)
  then have "length (filter used fs) = length (filter used (take j fs @ fs ! j # drop (Suc j) fs))" by simp
  then show ?thesis using j by (simp add: upd_conv_take_nth_drop)
qed

text \<open>
  C38. While the table of descriptors is consistent, \<open>alloc_fd\<close> never reaches its \<open>abort\<close>: it
  returns a slot that was not in use, growing the table by five when all are, marks that slot,
  leaves the others as they were and keeps the table consistent.
\<close>

lemma alloc_fd_correct:
  assumes inv: "fd_inv vm" and room: "unat (n_fds (io vm)) + 5 < 2 ^ 32"
  shows "\<exists>i vm'. alloc_fd vm = Some (i, vm') \<and> fd_inv vm' \<and> i < length (fds (io vm')) \<and>
    used (fds (io vm') ! i) \<and> (i < length (fds (io vm)) \<longrightarrow> \<not> used (fds (io vm) ! i)) \<and>
    (\<forall>j < length (fds (io vm)). j \<noteq> i \<longrightarrow> fds (io vm') ! j = fds (io vm) ! j)"
proof -
  let ?x = "io vm"
  have l: "length (fds ?x) = unat (n_fds ?x)" and u: "unat (used_fds ?x) = length (filter used (fds ?x))"
    using inv by (auto simp: fd_inv_def)
  show ?thesis
  proof (cases "used_fds ?x = n_fds ?x")
    case True
    let ?fs = "fds ?x @ replicate 5 zero_fd"
    let ?n = "length (fds ?x)"
    have n5: "unat (n_fds ?x + 5) = unat (n_fds ?x) + 5" using room by (simp add: unat_word_ariths)
    have g: "grow_fds ?x = ?x\<lparr>fds := ?fs, n_fds := n_fds ?x + 5\<rparr>"
      by (simp add: grow_fds_def FD_ALLOC_STEP_def l [symmetric])
    have z: "find_unused (unat (n_fds ?x + 5) - ?n) ?n ?fs = Some ?n"
      using n5 l by (simp add: numeral_eq_Suc nth_append zero_fd_def)
    let ?y = "?x\<lparr>fds := ?fs[?n := (?fs ! ?n)\<lparr>used := True, on_close := None\<rparr>], n_fds := n_fds ?x + 5, used_fds := used_fds ?x + 1\<rparr>"
    have run: "alloc_fd vm = Some (?n, vm\<lparr>io := ?y\<rparr>)"
      using True z l by (simp add: alloc_fd_def Let_def g)
    have u1: "unat (used_fds ?x + 1) = unat (used_fds ?x) + 1" using True room by (simp add: unat_word_ariths)
    have "\<not> used (?fs ! ?n)" by (simp add: nth_append zero_fd_def)
    then have c: "length (filter used (?fs[?n := (?fs ! ?n)\<lparr>used := True, on_close := None\<rparr>])) = Suc (length (filter used ?fs))"
      by (intro count_set_used) simp_all
    have "length (filter used ?fs) = length (filter used (fds ?x))" by (simp add: zero_fd_def)
    then have "fd_inv (vm\<lparr>io := ?y\<rparr>)" unfolding fd_inv_def using c u u1 n5 l by simp
    then show ?thesis using run by (intro exI [of _ ?n] exI [of _ "vm\<lparr>io := ?y\<rparr>"]) (simp add: nth_append)
  next
    case False
    then have "unat (used_fds ?x) \<noteq> unat (n_fds ?x)" by (simp add: word_unat_eq_iff)
    moreover have "length (filter used (fds ?x)) \<le> length (fds ?x)" by simp
    ultimately have lt: "length (filter used (fds ?x)) < length (fds ?x)" using u l by simp
    then obtain j where "j < length (fds ?x)" "\<not> used (fds ?x ! j)" using filter_length_lt by blast
    then obtain i where i: "find_unused (length (fds ?x)) 0 (fds ?x) = Some i" "i < length (fds ?x)" "\<not> used (fds ?x ! i)"
      using find_unused_Some [of 0 "length (fds ?x)" "fds ?x"] by auto
    let ?y = "?x\<lparr>fds := (fds ?x)[i := (fds ?x ! i)\<lparr>used := True, on_close := None\<rparr>], used_fds := used_fds ?x + 1\<rparr>"
    have run: "alloc_fd vm = Some (i, vm\<lparr>io := ?y\<rparr>)"
      using False i(1) l by (simp add: alloc_fd_def Let_def)
    have "unat (used_fds ?x) + 1 < 2 ^ 32" using lt u l room by simp
    then have u1: "unat (used_fds ?x + 1) = unat (used_fds ?x) + 1" by (simp add: unat_word_ariths)
    have c: "length (filter used ((fds ?x)[i := (fds ?x ! i)\<lparr>used := True, on_close := None\<rparr>])) = Suc (length (filter used (fds ?x)))"
      by (intro count_set_used i) simp
    have "fd_inv (vm\<lparr>io := ?y\<rparr>)" unfolding fd_inv_def using c u u1 l by simp
    then show ?thesis using run i by (intro exI [of _ i] exI [of _ "vm\<lparr>io := ?y\<rparr>"]) simp
  qed
qed

section \<open>Event arrays\<close>

lemma get_fd_set_fd [simp]:
  "i < length (fds (io vm)) \<Longrightarrow> get_fd i (set_fd i f vm) = Some f"
  "length (fds (io (set_fd i f vm))) = length (fds (io vm))"
  by (simp_all add: get_fd_def set_fd_def)

lemma get_fd_counter [simp]: "get_fd i (vm\<lparr>io := (io vm)\<lparr>n_io_events := k\<rparr>\<rparr>) = get_fd i vm"
  by (simp add: get_fd_def)

lemma get_fd_used_counter [simp]: "get_fd i (vm\<lparr>io := (io vm)\<lparr>used_fds := k\<rparr>\<rparr>) = get_fd i vm"
  by (simp add: get_fd_def)

lemma get_fd_Some: "get_fd i vm = Some f \<longleftrightarrow> i < length (fds (io vm)) \<and> f = fds (io vm) ! i"
  by (auto simp: get_fd_def)

text \<open>One event more, where the array has a slot for it.\<close>

lemma alloc_event_step:
  assumes g: "get_fd i vm = Some f" and c: "n_events f + 1 \<le> alloc_events f"
    and b: "clear_slot (events f) (unat (n_events f)) = Some b"
  shows "\<exists>vm'. alloc_event i vm = Some (unat (n_events f), vm') \<and>
    get_fd i vm' = Some (f\<lparr>events := b, n_events := n_events f + 1\<rparr>)"
  using assms by (simp add: alloc_event_def Let_def not_less [symmetric] get_fd_Some set_fd_def)

lemma set_event_step:
  assumes "get_fd i vm = Some f" "blk_write (events f) e evt = Some b"
  shows "\<exists>vm'. set_event i e evt vm = Some vm' \<and> get_fd i vm' = Some (f\<lparr>events := b\<rparr>)"
  using assms by (simp add: set_event_def get_fd_Some set_fd_def)

lemma replicate_2: "replicate 2 x = [x, x]" by (simp add: numeral_2_eq_2)

text \<open>
  The array of events is allocated with the size of another structure: on a new descriptor
  two events can wait, and the third, still below the four the array is meant to hold, is
  written past its end.
\<close>

lemma third_event_overflows:
  assumes g: "get_fd i vm = Some f" and f: "events f = Null" "n_events f = 0" "alloc_events f = 0"
  shows "\<exists>vm1 vm2 vm3 vm4. alloc_event i vm = Some (0, vm1) \<and> set_event i 0 e0 vm1 = Some vm2 \<and>
    alloc_event i vm2 = Some (1, vm3) \<and> set_event i 1 e1 vm3 = Some vm4 \<and> alloc_event i vm4 = None"
proof -
  have i: "i < length (fds (io vm))" using g by (simp add: get_fd_Some)
  let ?f1 = "f\<lparr>events := Slots [None, None], alloc_events := 4, n_events := 1\<rparr>"
  have "\<exists>vm1. alloc_event i vm = Some (0, vm1) \<and> get_fd i vm1 = Some ?f1"
    using g f i by (simp add: alloc_event_def Let_def IO_EVT_ALLOC_def io_evt_size_def io_mem_size_def
      clear_slot_def replicate_2)
  then obtain vm1 where 1: "alloc_event i vm = Some (0, vm1)" "get_fd i vm1 = Some ?f1" by blast
  obtain vm2 where 2: "set_event i 0 e0 vm1 = Some vm2"
      "get_fd i vm2 = Some (?f1\<lparr>events := Slots [Some e0, None]\<rparr>)"
    using set_event_step [OF 1(2), of 0 e0] by auto
  obtain vm3 b where 3: "alloc_event i vm2 = Some (1, vm3)"
      "get_fd i vm3 = Some (?f1\<lparr>events := Slots [Some e0, None], n_events := 2\<rparr>)"
    using alloc_event_step [OF 2(2), of "Slots [Some e0, None]"] by (auto simp: clear_slot_def)
  obtain vm4 where 4: "set_event i 1 e1 vm3 = Some vm4"
      "get_fd i vm4 = Some (?f1\<lparr>events := Slots [Some e0, Some e1], n_events := 2\<rparr>)"
    using set_event_step [OF 3(2), of 1 e1] by auto
  have "alloc_event i vm4 = None"
    using 4(2) by (simp add: alloc_event_def Let_def clear_slot_def)
  with 1 2 3 4 show ?thesis by blast
qed

lemma net_io_close_Freed:
  "get_fd i vm = Some f \<Longrightarrow> events f = Freed \<Longrightarrow> net_io_close i vm = Some vm' \<Longrightarrow>
     \<exists>g. get_fd i vm' = Some g \<and> events g = Freed"
  by (auto simp: net_io_close_def Let_def get_fd_Some set_fd_def)

lemma net_io_close_events:
  "get_fd i vm = Some f \<Longrightarrow> net_io_close i vm = Some vm' \<Longrightarrow> \<exists>g. get_fd i vm' = Some g \<and> events g = events f"
  by (auto simp: net_io_close_def Let_def get_fd_Some set_fd_def)

lemma dealloc_fd_Some:
  assumes d: "dealloc_fd i vm = Some vm1" and f: "get_fd i vm = Some f"
  shows "\<exists>vma g b. get_fd i vma = Some g \<and> blk_free (events g) = Some b \<and>
    vm1 = (let vm = set_fd i (g\<lparr>used := False, events := b\<rparr>) vma
           in vm\<lparr>io := (io vm)\<lparr>used_fds := used_fds (io vm) - 1\<rparr>\<rparr>) \<and> events g = events f"
proof -
  obtain vma where v: "(case on_close f of None \<Rightarrow> Some vm | Some net_io_close_handler \<Rightarrow> net_io_close i vm) = Some vma"
    using d f by (auto simp: dealloc_fd_def)
  obtain g where g: "get_fd i vma = Some g" "events g = events f"
    using v f net_io_close_events [OF f] by (auto split: option.splits io_close_handler.splits)
  have eq: "dealloc_fd i vm = do {
     b \<leftarrow> blk_free (events g);
     let vm = set_fd i (g\<lparr>used := False, events := b\<rparr>) vma;
     Some (vm\<lparr>io := (io vm)\<lparr>used_fds := used_fds (io vm) - 1\<rparr>\<rparr>)
   }"
    using f v g by (simp add: dealloc_fd_def)
  then obtain b where "blk_free (events g) = Some b"
    "vm1 = (let vm = set_fd i (g\<lparr>used := False, events := b\<rparr>) vma
           in vm\<lparr>io := (io vm)\<lparr>used_fds := used_fds (io vm) - 1\<rparr>\<rparr>)"
    using d [unfolded eq] by (auto simp: Let_def)
  with g show ?thesis by blast
qed

text \<open>
  A descriptor that has had events leaves its slot with a pointer to the freed array; when
  the slot is used again and released, the array is freed a second time.
\<close>

lemma reused_slot_double_free:
  assumes d: "dealloc_fd i vm = Some vm1" and f: "get_fd i vm = Some f" "events f \<noteq> Null"
    and inv: "fd_inv vm1" and a: "alloc_fd vm1 = Some (i, vm2)"
  shows "dealloc_fd i vm2 = None"
proof -
  obtain vma g b where a1: "get_fd i vma = Some g" and b: "blk_free (events g) = Some b"
    and vm1: "vm1 = (let vm = set_fd i (g\<lparr>used := False, events := b\<rparr>) vma
        in vm\<lparr>io := (io vm)\<lparr>used_fds := used_fds (io vm) - 1\<rparr>\<rparr>)"
    and ev: "events g = events f"
    using dealloc_fd_Some [OF d f(1)] by blast
  have "b = Freed" using b f(2) unfolding ev by (cases "events f") auto
  then have 1: "get_fd i vm1 = Some (g\<lparr>used := False, events := Freed\<rparr>)"
    using a1 by (simp add: vm1 Let_def get_fd_Some)
  then have e: "fds (io vm1) ! i = g\<lparr>used := False, events := Freed\<rparr>" and i1: "i < length (fds (io vm1))"
    by (simp_all add: get_fd_Some)
  have i: "i < length (fds (io vm1))" "events (fds (io vm1) ! i) = Freed" using i1 by (simp_all add: e)
  have "\<exists>g2. get_fd i vm2 = Some g2 \<and> events g2 = Freed"
    using a i inv by (auto simp: alloc_fd_def Let_def get_fd_Some grow_fds_def fd_inv_def nth_append split: if_splits)
  then obtain g2 where g2: "get_fd i vm2 = Some g2" "events g2 = Freed" by blast
  show ?thesis
  proof (cases "on_close g2")
    case None
    with g2 show ?thesis by (simp add: dealloc_fd_def)
  next
    case (Some h)
    then have h: "on_close g2 = Some net_io_close_handler" by (cases h) simp
    show ?thesis
    proof (cases "net_io_close i vm2")
      case None
      with g2 h show ?thesis by (simp add: dealloc_fd_def)
    next
      case (Some vm3)
      with net_io_close_Freed [OF g2 Some] g2 h show ?thesis by (auto simp: dealloc_fd_def)
    qed
  qed
qed

section \<open>Waiting for input and output\<close>

lemma io_wr64: "wr64 p v vm = Some vm' \<Longrightarrow> io vm' = io vm"
  by (auto simp: wr64_def wr_def)

lemma alloc_event_slot:
  assumes g: "get_fd i vm = Some f" and c: "n_events f + 1 \<le> alloc_events f"
    and b: "unat (n_events f) < blk_slots (events f)"
  shows "\<exists>vm1 b1. alloc_event i vm = Some (unat (n_events f), vm1) \<and>
    get_fd i vm1 = Some (f\<lparr>events := b1, n_events := n_events f + 1\<rparr>) \<and> blk_slots b1 = blk_slots (events f) \<and>
    n_io_events (io vm1) = n_io_events (io vm) + 1 \<and> memory vm1 = memory vm"
proof -
  obtain b1 where b1: "clear_slot (events f) (unat (n_events f)) = Some b1" "blk_slots b1 = blk_slots (events f)"
    using b by (cases "events f") (auto simp: clear_slot_def)
  then show ?thesis
    using g c by (intro exI [of _ "let v = set_fd i (f\<lparr>events := b1, n_events := n_events f + 1\<rparr>) vm
        in v\<lparr>io := (io v)\<lparr>n_io_events := n_io_events (io v) + 1\<rparr>\<rparr>"] exI [of _ b1])
      (simp add: alloc_event_def Let_def not_less [symmetric] get_fd_Some set_fd_def)
qed

text \<open>
  \<open>read\<close> and \<open>write\<close> on an open descriptor with a buffer and a callback block in the
  memory, a callback in the code and room for an event append one event with exactly these
  parameters to the descriptor, count it, and store 0.
\<close>

lemma io_task_correct:
  assumes wf: "vm_wf vm" and a: "args_at argv 40 retv vm"
    and r: "rd64 (unat argv) vm = Some h" "rd32 (unat argv + 8) vm = Some ptr" "rd64 (unat argv + 12) vm = Some len"
      "rd32 (unat argv + 20) vm = Some ca" "rd32 (unat argv + 24) vm = Some cf"
    and i: "i = fd_index h" "i < n_fds (io vm)" and f: "get_fd (unat i) vm = Some f" "used f"
    and ok: "deref ptr (ucast len) vm \<noteq> None" "deref ca 32 vm \<noteq> None" "cf < codesz vm"
    and room: "n_events f + 1 \<le> alloc_events f" "unat (n_events f) < blk_slots (events f)"
  shows "\<exists>vm' f'. io_task hnd fl argv retv vm = Some vm' \<and> rd64 (unat retv) vm' = Some 0 \<and>
    get_fd (unat i) vm' = Some f' \<and> n_events f' = n_events f + 1 \<and>
    blk_read (events f') (unat (n_events f)) = Some \<lparr>evt_flags = fl, activate = hnd,
      evt_data = IoMem \<lparr>io_ptr = ptr, io_len = ucast len, io_callback = \<lparr>callback = cf, cb_args = ca\<rparr>\<rparr>\<rparr> \<and>
    n_io_events (io vm') = n_io_events (io vm) + 1"
proof -
  let ?m = "\<lparr>io_ptr = ptr, io_len = ucast len, io_callback = \<lparr>callback = cf, cb_args = ca\<rparr>\<rparr>"
  let ?e = "\<lparr>evt_flags = fl, activate = hnd, evt_data = IoMem ?m\<rparr>"
  have d: "deref argv 40 vm = Some (unat argv)" "deref retv 8 vm = Some (unat retv)"
    using deref_complete [OF wf, of argv 40] deref_complete [OF wf, of retv 8] a by (simp_all add: args_at_def)
  then have dm: "deref_mem_ptr argv 40 vm = (Some (unat argv), vm)" "deref_mem_ptr retv 8 vm = (Some (unat retv), vm)"
    by (simp_all add: deref_mem_ptr_Some)
  have "bad_fd i vm = Some False" using i f by (simp add: bad_fd_def not_le [symmetric])
  then have p: "get_io_task_params argv retv vm = Some (Inr (unat retv, unat i, ?m))"
    using dm r ok by (simp add: get_io_task_params_def Let_def i(1) not_le [symmetric])
  obtain vm1 b1 where 1: "alloc_event (unat i) vm = Some (unat (n_events f), vm1)"
    "get_fd (unat i) vm1 = Some (f\<lparr>events := b1, n_events := n_events f + 1\<rparr>)"
    "blk_slots b1 = blk_slots (events f)" "n_io_events (io vm1) = n_io_events (io vm) + 1" "memory vm1 = memory vm"
    using alloc_event_slot [OF f(1) room] by blast
  obtain b2 where b2: "blk_write b1 (unat (n_events f)) ?e = Some b2"
    using blk_write_Some [of "unat (n_events f)" b1 ?e] room(2) 1(3) by auto
  let ?f2 = "f\<lparr>events := b2, n_events := n_events f + 1\<rparr>"
  obtain vm2 where 2: "set_event (unat i) (unat (n_events f)) ?e vm1 = Some vm2" "get_fd (unat i) vm2 = Some ?f2"
    "n_io_events (io vm2) = n_io_events (io vm1)" "memory vm2 = memory vm1"
    using 1(2) b2 by (simp add: set_event_def get_fd_Some set_fd_def)
  have "unat retv + 8 \<le> length (memory vm2)" using a wf 1(5) 2(4) by (simp add: args_at_def vm_wf_def)
  then obtain m where w: "wr64 (unat retv) 0 vm2 = Some (vm2\<lparr>memory := m\<rparr>)" using wr64_ex by blast
  have "io_task hnd fl argv retv vm = Some (vm2\<lparr>memory := m\<rparr>)" using p 1(1) 2(1) w by (simp add: io_task_def)
  moreover have "get_fd (unat i) (vm2\<lparr>memory := m\<rparr>) = Some ?f2" using 2(2) by (simp add: get_fd_Some)
  moreover have "blk_read (events ?f2) (unat (n_events f)) = Some ?e" using blk_read_write [OF b2] by simp
  ultimately show ?thesis using rd64_wr64 [OF w] 1(4) 2(3)
    by (intro exI [of _ "vm2\<lparr>memory := m\<rparr>"] exI [of _ ?f2]) simp
qed

section \<open>The properties at concrete machines\<close>

definition io_vm :: "unit vm_t" where
  "io_vm = mem_vm\<lparr>io := \<lparr>fds = [zero_fd\<lparr>fd := 3, used := True, events := Slots [None, None], alloc_events := 4\<rparr>],
     n_fds = 1, used_fds = 1, n_io_events = 0\<rparr>,
     memory := [1, 0, 0, 0, 0, 0, 0, 0, 56, 0, 0, 0, 8, 0, 0, 0, 0, 0, 0, 0, 8, 0, 0, 0,
      0, 0, 0, 0, 0, 0, 0, 0, 0, 0, 0, 0, 0, 0, 0, 0, 0, 0, 0, 0,
      0, 0, 0, 0, 0, 0, 0, 0, 0, 0, 0, 0, 0, 0, 0, 0, 0, 0, 0, 0], memsz := 64\<rparr>"

lemma io_vm_simps: "memsz io_vm = 64" "codesz io_vm = 3" "code io_vm = [7, 8, 9]" "mem_null io_vm = False"
  "memory io_vm = [1, 0, 0, 0, 0, 0, 0, 0, 56, 0, 0, 0, 8, 0, 0, 0, 0, 0, 0, 0, 8, 0, 0, 0,
      0, 0, 0, 0, 0, 0, 0, 0, 0, 0, 0, 0, 0, 0, 0, 0, 0, 0, 0, 0,
      0, 0, 0, 0, 0, 0, 0, 0, 0, 0, 0, 0, 0, 0, 0, 0, 0, 0, 0, 0]"
  "io io_vm = \<lparr>fds = [zero_fd\<lparr>fd := 3, used := True, events := Slots [None, None], alloc_events := 4\<rparr>],
     n_fds = 1, used_fds = 1, n_io_events = 0\<rparr>"
  by (simp_all add: io_vm_def mem_vm_simps)

lemma io_vm_fd: "get_fd 0 io_vm = Some (zero_fd\<lparr>fd := 3, used := True, events := Slots [None, None], alloc_events := 4\<rparr>)"
  by (simp add: get_fd_def io_vm_simps)

lemma io_vm_wf: "vm_wf io_vm" by (simp add: vm_wf_def io_vm_simps)

lemma alloc_fd_correct_witness:
  "\<exists>i vm'. alloc_fd io_vm = Some (i, vm') \<and> fd_inv vm' \<and> used (fds (io vm') ! i)"
  using alloc_fd_correct [of io_vm] by (auto simp: fd_inv_def io_vm_simps zero_fd_def)

lemma third_event_overflows_witness:
  "\<exists>vm1 vm2 vm3 vm4. alloc_event 0 (io_vm\<lparr>io := (io io_vm)\<lparr>fds := [zero_fd]\<rparr>\<rparr>) = Some (0, vm1) \<and>
     set_event 0 0 \<lparr>evt_flags = 1, activate = read_io_evt_handler, evt_data = NoData\<rparr> vm1 = Some vm2 \<and>
     alloc_event 0 vm2 = Some (1, vm3) \<and>
     set_event 0 1 \<lparr>evt_flags = 1, activate = read_io_evt_handler, evt_data = NoData\<rparr> vm3 = Some vm4 \<and>
     alloc_event 0 vm4 = None"
  by (rule third_event_overflows [of _ _ zero_fd]) (simp_all add: get_fd_def zero_fd_def)

lemma reused_slot_double_free_witness:
  "\<exists>vm1 vm2. dealloc_fd 0 io_vm = Some vm1 \<and> alloc_fd vm1 = Some (0, vm2) \<and> dealloc_fd 0 vm2 = None"
proof -
  obtain vm1 where d: "dealloc_fd 0 io_vm = Some vm1"
    and x: "io vm1 = \<lparr>fds = [zero_fd\<lparr>fd := 3, events := Freed, alloc_events := 4\<rparr>], n_fds = 1, used_fds = 0, n_io_events = 0\<rparr>"
    using io_vm_fd by (simp add: dealloc_fd_def set_fd_def Let_def io_vm_simps zero_fd_def)
  have inv: "fd_inv vm1" by (simp add: fd_inv_def x zero_fd_def)
  obtain vm2 where a: "alloc_fd vm1 = Some (0, vm2)" by (simp add: alloc_fd_def Let_def x zero_fd_def)
  have "dealloc_fd 0 vm2 = None"
    by (rule reused_slot_double_free [OF d io_vm_fd _ inv a]) simp
  with d a show ?thesis by blast
qed

lemma io_task_correct_witness:
  "\<exists>vm' f'. sys_read 0 32 io_vm = Some vm' \<and> rd64 32 vm' = Some 0 \<and> get_fd 0 vm' = Some f' \<and> n_events f' = 1"
proof -
  have a: "args_at 0 40 32 io_vm" by (simp add: args_at_def io_vm_simps)
  have r: "rd64 (unat 0) io_vm = Some 1" "rd32 (unat 0 + 8) io_vm = Some 56" "rd64 (unat 0 + 12) io_vm = Some 8"
      "rd32 (unat 0 + 20) io_vm = Some 8" "rd32 (unat 0 + 24) io_vm = Some 0"
    by (simp_all add: rd64_def rd32_def rd_def load_def io_vm_simps)
  have i: "0 = fd_index 1" "0 < n_fds (io io_vm)" by (simp_all add: fd_index_def io_vm_simps)
  have f: "get_fd (unat 0) io_vm = Some (zero_fd\<lparr>fd := 3, used := True, events := Slots [None, None], alloc_events := 4\<rparr>)"
    using io_vm_fd by simp
  show ?thesis
    using io_task_correct [OF io_vm_wf a r i f, of read_io_evt_handler IO_EVT_SELECT_READ]
    by (auto simp: sys_read_def zero_fd_def deref_def mem_ptr_def io_vm_simps)
qed

end
