(* ===== verification/SyscallProc.thy ===== *)
theory SyscallProc
  imports SyscallIo
begin

text \<open>
  Child processes (\<open>syscalls/syscall_proc.c\<close>): the table of children, the events of those
  that have changed state, and the system calls \<open>exec\<close>, \<open>run\<close>, \<open>kill\<close> and \<open>onexit\<close>.
  \<open>fork\<close> followed by \<open>execv\<close> in the child is one call of the operating system; what the
  child does before \<open>execv\<close> happens in another process and is not part of this machine.
\<close>

section \<open>Status words\<close>

text \<open>The macros of \<open>sys/wait.h\<close> on Linux.\<close>

definition WTERMSIG :: "i32 \<Rightarrow> i32" where "WTERMSIG s = s AND 0x7F"
definition WEXITSTATUS :: "i32 \<Rightarrow> i32" where "WEXITSTATUS s = drop_bit 8 (s AND 0xFF00)"
definition WIFEXITED :: "i32 \<Rightarrow> bool" where "WIFEXITED s \<longleftrightarrow> WTERMSIG s = 0"
definition WIFSIGNALED :: "i32 \<Rightarrow> bool" where "WIFSIGNALED s \<longleftrightarrow> WTERMSIG s \<noteq> 0 \<and> WTERMSIG s \<noteq> 0x7F"
definition WIFSTOPPED :: "i32 \<Rightarrow> bool" where "WIFSTOPPED s \<longleftrightarrow> s AND 0xFF = 0x7F"
definition WIFCONTINUED :: "i32 \<Rightarrow> bool" where "WIFCONTINUED s \<longleftrightarrow> s = 0xFFFF"

section \<open>The table of children\<close>

definition zero_child :: vm_child_t where
  "zero_child = \<lparr>pid = 0, ch_used = False, exit_cb = Null, n_exit_cb = 0\<rparr>"

definition get_child :: "nat \<Rightarrow> 'w vm_t \<Rightarrow> vm_child_t option" where
  "get_child i vm = (if i < length (child_proc (vm_proc vm)) then Some (child_proc (vm_proc vm) ! i) else None)"

definition set_child :: "nat \<Rightarrow> vm_child_t \<Rightarrow> 'w vm_t \<Rightarrow> 'w vm_t" where
  "set_child i c vm = vm\<lparr>vm_proc := (vm_proc vm)\<lparr>child_proc := (child_proc (vm_proc vm))[i := c]\<rparr>\<rparr>"

fun find_free_child :: "nat \<Rightarrow> nat \<Rightarrow> vm_child_t list \<Rightarrow> nat option" where
  "find_free_child 0 i cs = None"
| "find_free_child (Suc n) i cs =
     (if i < length cs then (if \<not> ch_used (cs ! i) then Some i else find_free_child n (i + 1) cs) else None)"

definition grow_children :: "vm_proc_t \<Rightarrow> vm_proc_t" where
  "grow_children x = x\<lparr>child_proc := take (unat (alloc_proc x)) (child_proc x) @ replicate (unat PROC_ALLOC) zero_child,
     alloc_proc := alloc_proc x + PROC_ALLOC\<rparr>"

definition save_child_proc :: "i32 \<Rightarrow> 'w vm_t \<Rightarrow> 'w vm_t option" where
  "save_child_proc p vm =
     (let x = (if n_proc (vm_proc vm) \<ge> alloc_proc (vm_proc vm) then grow_children (vm_proc vm) else vm_proc vm)
      in do {
        i \<leftarrow> find_free_child (unat (alloc_proc x)) 0 (child_proc x);
        Some (vm\<lparr>vm_proc := x\<lparr>child_proc := (child_proc x)[i := \<lparr>pid = p, ch_used = True, exit_cb = Null, n_exit_cb = 0\<rparr>],
                             n_proc := n_proc x + 1\<rparr>\<rparr>)
      })"

fun find_proc_from :: "nat \<Rightarrow> nat \<Rightarrow> i32 \<Rightarrow> vm_child_t list \<Rightarrow> nat option option" where
  "find_proc_from 0 i p cs = Some None"
| "find_proc_from (Suc n) i p cs =
     (if i < length cs
      then (if ch_used (cs ! i) \<and> pid (cs ! i) = p then Some (Some i) else find_proc_from n (i + 1) p cs)
      else None)"

definition find_proc :: "i32 \<Rightarrow> 'w vm_t \<Rightarrow> nat option option" where
  "find_proc p vm = find_proc_from (unat (alloc_proc (vm_proc vm))) 0 p (child_proc (vm_proc vm))"

section \<open>Events of children\<close>

definition bool64 :: "bool \<Rightarrow> u64" where "bool64 b = (if b then 1 else 0)"

definition put_status :: "nat \<Rightarrow> i32 \<Rightarrow> i32 \<Rightarrow> 'w vm_t \<Rightarrow> 'w vm_t option" where
  "put_status c p status vm = do {
     vm \<leftarrow> wr64 c (scast p) vm;
     vm \<leftarrow> wr64 (c + 8) (bool64 (WIFEXITED status)) vm;
     vm \<leftarrow> wr64 (c + 16) (scast (WEXITSTATUS status)) vm;
     vm \<leftarrow> wr64 (c + 24) (bool64 (WIFSIGNALED status)) vm;
     vm \<leftarrow> wr64 (c + 32) (scast (WTERMSIG status)) vm;
     vm \<leftarrow> wr64 (c + 40) (bool64 (WIFSTOPPED status)) vm;
     wr64 (c + 48) (bool64 (WIFCONTINUED status)) vm
   }"

fun fire_callbacks :: "nat \<Rightarrow> nat \<Rightarrow> vm_callback_t block \<Rightarrow> i32 \<Rightarrow> i32 \<Rightarrow> u32 \<Rightarrow> 'w vm_t \<Rightarrow> (u32 \<times> 'w vm_t) option" where
  "fire_callbacks 0 c b p status ev vm = Some (ev, vm)"
| "fire_callbacks (Suc n) c b p status ev vm = do {
     cb \<leftarrow> blk_read b c;
     (case deref_mem_ptr (cb_args cb) 56 vm of
        (None, vm) \<Rightarrow> fire_callbacks n (c + 1) b p status ev vm
      | (Some a, vm) \<Rightarrow> do {
          vm \<leftarrow> put_status a p status vm;
          (_, vm) \<leftarrow> make_func_procedure (callback cb) (cb_args cb) 0 vm;
          fire_callbacks n (c + 1) b p status (ev + 1) vm
        })
   }"

definition fire_events_of_proc :: "nat \<Rightarrow> i32 \<Rightarrow> i32 \<Rightarrow> 'w vm_t \<Rightarrow> (u32 \<times> 'w vm_t) option" where
  "fire_events_of_proc i p status vm = do {
     ch \<leftarrow> get_child i vm;
     fire_callbacks (unat (n_exit_cb ch)) 0 (exit_cb ch) p status 0 vm
   }"

text \<open>The child is gone: its callbacks are released and its slot is free.\<close>

definition reap_child :: "nat \<Rightarrow> 'w vm_t \<Rightarrow> 'w vm_t option" where
  "reap_child i vm = do {
     ch \<leftarrow> get_child i vm;
     b \<leftarrow> (if n_exit_cb ch \<noteq> 0 then blk_free (exit_cb ch) else Some (exit_cb ch));
     let x = (if n_exit_cb ch \<noteq> 0 then (vm_proc vm)\<lparr>n_exit_callbacks := n_exit_callbacks (vm_proc vm) - n_exit_cb ch\<rparr>
              else vm_proc vm);
     let ch = (if n_exit_cb ch \<noteq> 0 then ch\<lparr>exit_cb := Null, n_exit_cb := 0\<rparr> else ch);
     let vm = set_child i (ch\<lparr>ch_used := False\<rparr>) (vm\<lparr>vm_proc := x\<rparr>);
     Some (vm\<lparr>vm_proc := (vm_proc vm)\<lparr>n_proc := n_proc (vm_proc vm) - 1\<rparr>\<rparr>)
   }"

text \<open>
  One turn of the loop: \<^term>\<open>None\<close> inside is a \<open>break\<close>. A child that only stopped or
  continued stays, and the loop asks again.
\<close>

definition poll_child :: "'w os \<Rightarrow> 'w vm_t \<Rightarrow> (u32 option \<times> 'w vm_t) option" where
  "poll_child os vm =
     (case call_os (os_waitpid os) vm of
        (Inl e, vm) \<Rightarrow> Some (None, set_error e vm)
      | (Inr (p, status), vm) \<Rightarrow>
          if p = 0 then Some (None, vm)
          else do {
            ch \<leftarrow> find_proc p vm;
            (case ch of
               None \<Rightarrow> Some (None, vm)
             | Some i \<Rightarrow> do {
                 (ev, vm) \<leftarrow> fire_events_of_proc i p status vm;
                 vm \<leftarrow> (if WIFEXITED status \<or> WIFSIGNALED status then reap_child i vm else Some vm);
                 Some (Some ev, vm)
               })
          })"

text \<open>
  How often the loop turns is up to the children: \<open>fuel\<close> bounds the turns, and
  \<^term>\<open>None\<close> is also the result when it runs out.
\<close>

fun fire_proc_loop :: "'w os \<Rightarrow> nat \<Rightarrow> u32 \<Rightarrow> 'w vm_t \<Rightarrow> (u32 \<times> 'w vm_t) option" where
  "fire_proc_loop os 0 ev vm = (if n_proc (vm_proc vm) = 0 then Some (ev, vm) else None)"
| "fire_proc_loop os (Suc n) ev vm =
     (if n_proc (vm_proc vm) = 0 then Some (ev, vm)
      else do {
        (r, vm) \<leftarrow> poll_child os vm;
        (case r of
           None \<Rightarrow> Some (ev, vm)
         | Some k \<Rightarrow> fire_proc_loop os n (ev + k) vm)
      })"

definition fire_proc_events :: "'w os \<Rightarrow> nat \<Rightarrow> 'w vm_t \<Rightarrow> (u32 \<times> 'w vm_t) option" where
  "fire_proc_events os fuel vm = fire_proc_loop os fuel 0 vm"

definition cleanup_child_proc :: "'w os \<Rightarrow> nat \<Rightarrow> 'w vm_t \<Rightarrow> 'w vm_t option" where
  "cleanup_child_proc os fuel vm = map_option snd (fire_proc_events os fuel vm)"

definition has_pending_proc_events :: "'w vm_t \<Rightarrow> bool" where
  "has_pending_proc_events vm \<longleftrightarrow> n_exit_callbacks (vm_proc vm) > 0"

section \<open>Strings in memory\<close>

text \<open>\<open>ensure_nul_term_str\<close> of \<open>syscall.c\<close>: a zero byte between \<open>p\<close> and the end of the memory.\<close>

definition ensure_nul_term_str :: "nat \<Rightarrow> 'w vm_t \<Rightarrow> bool \<times> 'w vm_t" where
  "ensure_nul_term_str p vm =
     (if 0 \<in> set (drop p (take (unat (memsz vm)) (memory vm))) then (True, vm)
      else (False, raise VM_E_MemFault vm))"

definition c_string :: "nat \<Rightarrow> 'w vm_t \<Rightarrow> u8 list" where
  "c_string p vm = takeWhile (\<lambda>b. b \<noteq> 0) (drop p (memory vm))"

definition bytes_at :: "nat \<Rightarrow> nat \<Rightarrow> 'w vm_t \<Rightarrow> u8 list option" where
  "bytes_at p n vm = (if p + n \<le> length (memory vm) then Some (take n (drop p (memory vm))) else None)"

section \<open>System calls\<close>

text \<open>The check of the argument vector: \<^term>\<open>Inl\<close> is the machine after a bad argument.\<close>

fun check_argv :: "nat \<Rightarrow> nat \<Rightarrow> u8 list list \<Rightarrow> 'w vm_t \<Rightarrow> ('w vm_t + u8 list list) option" where
  "check_argv 0 q acc vm = Some (Inr (rev acc))"
| "check_argv (Suc n) q acc vm = do {
     ref \<leftarrow> rd32 q vm;
     (case deref_mem_ptr ref 1 vm of
        (None, vm) \<Rightarrow> Some (Inl vm)
      | (Some p, vm) \<Rightarrow>
          (case ensure_nul_term_str p vm of
             (False, vm) \<Rightarrow> Some (Inl vm)
           | (True, vm) \<Rightarrow> check_argv n (q + 4) (c_string p vm # acc) vm))
   }"

text \<open>The parent's side of \<open>fork\<close>.\<close>

definition spawn :: "'w os \<Rightarrow> u8 list list \<Rightarrow> nat \<Rightarrow> 'w vm_t \<Rightarrow> 'w vm_t option" where
  "spawn os argv r vm =
     (case call_os (os_spawn os argv) vm of
        (Inl e, vm) \<Rightarrow> do { vm \<leftarrow> wr64 r 0 vm; Some (set_error e vm) }
      | (Inr p, vm) \<Rightarrow> do { vm \<leftarrow> wr64 r (scast p) vm; save_child_proc p vm })"

definition sys_exec :: "'w os \<Rightarrow> u32 \<Rightarrow> u32 \<Rightarrow> 'w vm_t \<Rightarrow> 'w vm_t option" where
  "sys_exec os argv retv = with_args_mem argv 12 retv 0 (\<lambda>a r vm. do {
     argc \<leftarrow> rd64 a vm;
     if argc = 0 then fail_with EINVAL r 0 vm
     else do {
       argv_ref \<leftarrow> rd32 (a + 8) vm;
       (case deref_mem_ptr argv_ref (ucast (argc * 4)) vm of
          (None, vm) \<Rightarrow> wr64 r 0 vm
        | (Some q, vm) \<Rightarrow> do {
            x \<leftarrow> check_argv (unat argc) q [] vm;
            (case x of
               Inl vm \<Rightarrow> wr64 r 0 vm
             | Inr av \<Rightarrow> spawn os av r vm)
          })
     }
   })"

definition FITS_IN_32Bit :: "u64 \<Rightarrow> bool" where
  "FITS_IN_32Bit v \<longleftrightarrow> drop_bit 32 v = 0"

definition sys_run :: "'w os \<Rightarrow> u32 \<Rightarrow> u32 \<Rightarrow> 'w vm_t \<Rightarrow> 'w vm_t option" where
  "sys_run os argv retv = with_args_mem argv 32 retv 0 (\<lambda>a r vm. do {
     code_ref \<leftarrow> rd32 a vm;
     csz \<leftarrow> rd64 (a + 4) vm;
     mem_ref \<leftarrow> rd32 (a + 12) vm;
     msz \<leftarrow> rd64 (a + 16) vm;
     entry \<leftarrow> rd64 (a + 24) vm;
     if entry \<ge> csz \<or> \<not> FITS_IN_32Bit csz \<or> \<not> FITS_IN_32Bit msz then fail_with EINVAL r 0 vm
     else (case deref_mem_ptr code_ref (ucast csz) vm of
         (None, vm) \<Rightarrow> wr64 r 0 vm
       | (Some cp, vm) \<Rightarrow>
           (case deref_mem_ptr mem_ref (ucast msz) vm of
              (None, vm) \<Rightarrow> wr64 r 0 vm
            | (Some mp, vm) \<Rightarrow> do {
                cbytes \<leftarrow> bytes_at cp (unat csz) vm;
                mbytes \<leftarrow> (if msz > 0 then bytes_at mp (unat msz) vm else Some []);
                (case call_os (os_write_image os cbytes mbytes (ucast entry)) vm of
                   (Inl e, vm) \<Rightarrow> fail_with e r 0 vm
                 | (Inr img, vm) \<Rightarrow> spawn os [vm_executable os, img] r vm)
              }))
   })"

definition sys_kill :: "'w os \<Rightarrow> u32 \<Rightarrow> u32 \<Rightarrow> 'w vm_t \<Rightarrow> 'w vm_t option" where
  "sys_kill os argv retv = with_args_mem argv 8 retv 1 (\<lambda>a r vm. do {
     p \<leftarrow> rd64 a vm;
     (case call_os (os_kill os (ucast p)) vm of
        (Some e, vm) \<Rightarrow> fail_with e r 1 vm
      | (None, vm) \<Rightarrow> wr64 r 0 vm)
   })"

text \<open>Eight bytes of arguments are checked, twenty-four are read.\<close>

definition add_callback :: "nat \<Rightarrow> vm_callback_t \<Rightarrow> 'w vm_t \<Rightarrow> 'w vm_t option" where
  "add_callback i cb vm = do {
     ch \<leftarrow> get_child i vm;
     b \<leftarrow> blk_realloc 8 (8 * unat (n_exit_cb ch + 1)) (exit_cb ch);
     b \<leftarrow> blk_write b (unat (n_exit_cb ch)) cb;
     let vm = set_child i (ch\<lparr>exit_cb := b, n_exit_cb := n_exit_cb ch + 1\<rparr>) vm;
     Some (vm\<lparr>vm_proc := (vm_proc vm)\<lparr>n_exit_callbacks := n_exit_callbacks (vm_proc vm) + 1\<rparr>\<rparr>)
   }"

definition sys_onexit :: "u32 \<Rightarrow> u32 \<Rightarrow> 'w vm_t \<Rightarrow> 'w vm_t option" where
  "sys_onexit argv retv = with_args_mem argv 8 retv 1 (\<lambda>a r vm. do {
     ca \<leftarrow> rd64 (a + 8) vm;
     if deref (ucast ca) 56 vm = None then fail_with EFAULT r 1 vm
     else do {
       cf \<leftarrow> rd64 (a + 16) vm;
       if cf \<ge> ucast (codesz vm) then fail_with EINVAL r 1 vm
       else do {
         p \<leftarrow> rd64 a vm;
         ch \<leftarrow> find_proc (ucast p) vm;
         (case ch of
            None \<Rightarrow> fail_with ECHILD r 1 vm
          | Some i \<Rightarrow> do {
              vm \<leftarrow> add_callback i \<lparr>callback = ucast cf, cb_args = ucast ca\<rparr> vm;
              wr64 r 0 vm
            })
       }
     }
   })"

section \<open>What these operations keep\<close>

lemma keeps_vm_proc: "keeps vm (vm\<lparr>vm_proc := x\<rparr>)"
  by (rule keeps_same) simp_all

lemma keeps_set_child: "keeps vm (set_child i c vm)"
  by (simp add: set_child_def keeps_vm_proc)

lemma keeps_save_child_proc: "keeps_opt vm (save_child_proc p vm)"
  by (auto simp: save_child_proc_def Let_def intro!: keeps_opt_bind' keeps_vm_proc)

lemma keeps_put_status: "keeps_opt vm (put_status c p status vm)"
  unfolding put_status_def by (intro keeps_opt_bind keeps_opt_wr64)

lemma keeps_fire_callbacks: "keeps_via snd vm (fire_callbacks n c b p status ev vm)"
proof (induction n arbitrary: c ev vm)
  case 0
  then show ?case by simp
next
  case (Suc n)
  show ?case
  proof (cases "blk_read b c")
    case None
    then show ?thesis by simp
  next
    case (Some cb)
    obtain q vm1 where d: "deref_mem_ptr (cb_args cb) 56 vm = (q, vm1)" by fastforce
    show ?thesis
      by (rule keeps_via_trans [OF keeps_deref_mem [OF d]])
        (auto simp: Some d split: option.split intro!: Suc keeps_via_step [OF keeps_put_status]
          keeps_via_bind [OF keeps_via_make_func])
  qed
qed

lemma keeps_fire_events_of_proc: "keeps_via snd vm (fire_events_of_proc i p status vm)"
  by (auto simp: fire_events_of_proc_def intro!: keeps_via_pure [of "get_child _ _"] keeps_fire_callbacks)

lemma keeps_child_update: "keeps vm vm0 \<Longrightarrow> keeps vm ((set_child i c vm0)\<lparr>vm_proc := x\<rparr>)"
  by (rule keeps_trans [OF _ keeps_trans [OF keeps_set_child keeps_vm_proc]])

lemma keeps_reap_child: "keeps_opt vm (reap_child i vm)"
  by (auto simp: reap_child_def Let_def intro!: keeps_opt_bind' keeps_child_update keeps_vm_proc)

lemma keeps_poll_child: "keeps_via snd vm (poll_child os vm)"
proof -
  obtain r vm1 where o: "call_os (os_waitpid os) vm = (r, vm1)" by fastforce
  show ?thesis
    by (rule keeps_via_trans [OF keeps_call_os [OF o]])
      (auto simp: poll_child_def o split: sum.split option.split intro!: keeps_via_pure [of "find_proc _ _"]
        keeps_via_bind [OF keeps_fire_events_of_proc] keeps_via_step [OF keeps_reap_child])
qed

lemma keeps_fire_proc_loop: "keeps_via snd vm (fire_proc_loop os n ev vm)"
proof (induction n arbitrary: ev vm)
  case 0
  then show ?case by simp
next
  case (Suc n)
  then show ?case by (auto split: option.split intro!: keeps_via_bind [OF keeps_poll_child])
qed

lemma keeps_fire_proc_events: "keeps_via snd vm (fire_proc_events os n vm)"
  by (simp add: fire_proc_events_def keeps_fire_proc_loop)

lemma keeps_cleanup_child_proc: "keeps_opt vm (cleanup_child_proc os n vm)"
  using keeps_fire_proc_events [of vm os n] by (auto simp: cleanup_child_proc_def keeps_opt_def keeps_via_def)

lemma keeps_spawn: "keeps_opt vm (spawn os argv r vm)"
proof -
  obtain q vm1 where o: "call_os (os_spawn os argv) vm = (q, vm1)" by fastforce
  show ?thesis
    by (rule keeps_opt_trans [OF keeps_call_os [OF o]])
      (auto simp: spawn_def o split: sum.split intro!: keeps_opt_bind [OF keeps_opt_wr64] keeps_save_child_proc)
qed

lemma keeps_ensure_nul: "ensure_nul_term_str p vm = (b, vm') \<Longrightarrow> keeps vm vm'"
  by (auto simp: ensure_nul_term_str_def split: if_splits)

lemma check_argv_keeps: "check_argv n q acc vm = Some (Inl vm') \<Longrightarrow> keeps vm vm'"
proof (induction n arbitrary: q acc vm)
  case 0
  then show ?case by simp
next
  case (Suc n)
  then obtain ref where ref: "rd32 q vm = Some ref" by auto
  obtain p vm1 where d: "deref_mem_ptr ref 1 vm = (p, vm1)" by fastforce
  note k = keeps_deref_mem [OF d]
  show ?case
  proof (cases p)
    case None
    with Suc.prems ref d k show ?thesis by simp
  next
    case (Some a)
    obtain b vm2 where e: "ensure_nul_term_str a vm1 = (b, vm2)" by fastforce
    have k2: "keeps vm vm2" using k keeps_ensure_nul [OF e] by (rule keeps_trans)
    show ?thesis
    proof (cases b)
      case False
      with Suc.prems ref d Some e k2 show ?thesis by simp
    next
      case True
      with Suc.prems ref d Some e have "check_argv n (q + 4) (c_string a vm2 # acc) vm2 = Some (Inl vm')" by simp
      from Suc.IH [OF this] k2 show ?thesis using keeps_trans by blast
    qed
  qed
qed

lemma keeps_opt_sys_kill: "keeps_opt vm (sys_kill os argv retv vm)"
  unfolding sys_kill_def
proof (rule keeps_opt_with_args_mem, rule keeps_opt_bind')
  fix a r p and vm :: "'a vm_t"
  obtain q vm1 where o: "call_os (os_kill os (ucast p)) vm = (q, vm1)" by fastforce
  show "keeps_opt vm (case call_os (os_kill os (ucast p)) vm of
        (Some e, vm) \<Rightarrow> fail_with e r 1 vm
      | (None, vm) \<Rightarrow> wr64 r 0 vm)"
    by (rule keeps_opt_trans [OF keeps_call_os [OF o]])
      (auto simp: o split: option.split intro: keeps_opt_fail_with keeps_opt_wr64)
qed

lemma keeps_add_callback: "keeps_opt vm (add_callback i cb vm)"
  by (auto simp: add_callback_def Let_def intro!: keeps_opt_bind' keeps_trans [OF keeps_set_child keeps_vm_proc])

lemma keeps_opt_sys_onexit: "keeps_opt vm (sys_onexit argv retv vm)"
  unfolding sys_onexit_def
  by (rule keeps_opt_with_args_mem, rule keeps_opt_bind')
    (auto split: option.split intro!: keeps_opt_fail_with keeps_opt_bind' [of "rd64 _ _"] keeps_opt_bind' [of "find_proc _ _"]
      keeps_opt_bind [OF keeps_add_callback keeps_opt_wr64])

lemma keeps_opt_spawn_checked:
  "keeps_opt vm (case deref_mem_ptr ref sz vm of
     (None, vm) \<Rightarrow> wr64 r 0 vm
   | (Some q, vm) \<Rightarrow> do {
       x \<leftarrow> check_argv n q [] vm;
       (case x of
          Inl vm \<Rightarrow> wr64 r 0 vm
        | Inr av \<Rightarrow> spawn os av r vm)
     })"
proof -
  obtain q vm1 where d: "deref_mem_ptr ref sz vm = (q, vm1)" by fastforce
  have "keeps_opt vm1 (do {
       x \<leftarrow> check_argv n p [] vm1;
       (case x of
          Inl vm \<Rightarrow> wr64 r 0 vm
        | Inr av \<Rightarrow> spawn os av r vm1)
     })" for p
    by (rule keeps_opt_bind')
      (auto split: sum.split intro: keeps_spawn keeps_opt_trans [OF check_argv_keeps keeps_opt_wr64])
  then show ?thesis
    by (intro keeps_opt_trans [OF keeps_deref_mem [OF d]]) (simp add: d keeps_opt_wr64 split: option.split)
qed

lemma keeps_opt_sys_exec: "keeps_opt vm (sys_exec os argv retv vm)"
  unfolding sys_exec_def
  by (rule keeps_opt_with_args_mem, rule keeps_opt_bind')
    (simp only: keeps_opt_fail_with keeps_opt_bind' keeps_opt_spawn_checked split: if_split; simp)

lemma keeps_case_deref:
  assumes f: "\<And>vm. keeps_opt vm (f vm)" and g: "\<And>p. keeps_opt vm (g p vm)"
  shows "keeps_opt vm (case deref_mem_ptr ref sz vm of (None, vm) \<Rightarrow> f vm | (Some p, vm) \<Rightarrow> g p vm)"
proof (cases "ref + sz > memsz vm")
  case True
  have "keeps_opt vm (f (raise VM_E_MemFault vm))" by (rule keeps_opt_trans [OF keeps_raise f])
  with True show ?thesis by (simp add: deref_mem_ptr_def)
next
  case False
  have "keeps_opt vm (f vm)" by (rule f)
  with False g show ?thesis by (simp add: deref_mem_ptr_def split: option.split)
qed

lemma keeps_case_call_sum:
  "(\<And>e vm1. keeps_opt vm1 (f e vm1)) \<Longrightarrow> (\<And>x vm1. keeps_opt vm1 (g x vm1)) \<Longrightarrow>
     keeps_opt vm (case call_os c vm of (Inl e, vm) \<Rightarrow> f e vm | (Inr x, vm) \<Rightarrow> g x vm)"
proof -
  assume f: "\<And>e vm1. keeps_opt vm1 (f e vm1)" and g: "\<And>x vm1. keeps_opt vm1 (g x vm1)"
  obtain q vm1 where o: "call_os c vm = (q, vm1)" by fastforce
  show ?thesis
    by (rule keeps_opt_trans [OF keeps_call_os [OF o]]) (simp add: o f g split: sum.split)
qed

lemma keeps_if: "keeps_opt vm x \<Longrightarrow> keeps_opt vm y \<Longrightarrow> keeps_opt vm (if b then x else y)"
  by simp

lemma keeps_opt_sys_run: "keeps_opt vm (sys_run os argv retv vm)"
  unfolding sys_run_def
  apply (rule keeps_opt_with_args_mem, (rule keeps_opt_bind')+)
  apply (rule keeps_if)
   apply (rule keeps_opt_fail_with)
  apply (rule keeps_case_deref)
   apply (rule keeps_opt_wr64)
  apply (rule keeps_case_deref)
   apply (rule keeps_opt_wr64)
  apply (rule keeps_opt_bind')+
  apply (rule keeps_case_call_sum)
   apply (rule keeps_opt_fail_with)
  apply (rule keeps_spawn)
  done

section \<open>The table of children is sound\<close>

definition proc_inv :: "'w vm_t \<Rightarrow> bool" where
  "proc_inv vm \<longleftrightarrow> length (child_proc (vm_proc vm)) = unat (alloc_proc (vm_proc vm)) \<and>
     unat (n_proc (vm_proc vm)) = length (filter ch_used (child_proc (vm_proc vm)))"

lemma find_free_child_Some:
  "\<exists>j. i \<le> j \<and> j < i + n \<and> \<not> ch_used (cs ! j) \<Longrightarrow> i + n \<le> length cs \<Longrightarrow>
     \<exists>j. find_free_child n i cs = Some j \<and> i \<le> j \<and> j < i + n \<and> \<not> ch_used (cs ! j)"
proof (induction n arbitrary: i)
  case 0
  then show ?case by auto
next
  case (Suc n)
  show ?case
  proof (cases "ch_used (cs ! i)")
    case True
    from Suc.prems obtain j where j: "i \<le> j" "j < i + Suc n" "\<not> ch_used (cs ! j)" by blast
    with True have "Suc i \<le> j" by (metis le_neq_implies_less Suc_leI)
    with j Suc.prems(2) Suc.IH [of "Suc i"] obtain j' where
      "find_free_child n (Suc i) cs = Some j'" "Suc i \<le> j'" "j' < Suc i + n" "\<not> ch_used (cs ! j')" by auto
    with True Suc.prems(2) show ?thesis by auto
  next
    case False
    with Suc.prems(2) show ?thesis by auto
  qed
qed

lemma count_set_ch_used:
  "j < length cs \<Longrightarrow> \<not> ch_used (cs ! j) \<Longrightarrow> ch_used g \<Longrightarrow>
     length (filter ch_used (cs[j := g])) = Suc (length (filter ch_used cs))"
proof -
  assume j: "j < length cs" "\<not> ch_used (cs ! j)" "ch_used g"
  have "cs = take j cs @ cs ! j # drop (Suc j) cs" using j(1) by (rule id_take_nth_drop)
  then have "length (filter ch_used cs) = length (filter ch_used (take j cs @ cs ! j # drop (Suc j) cs))" by simp
  then show ?thesis using j by (simp add: upd_conv_take_nth_drop)
qed

lemma find_proc_from_Some:
  "i + n \<le> length cs \<Longrightarrow> i \<le> j \<Longrightarrow> j < i + n \<Longrightarrow> ch_used (cs ! j) \<Longrightarrow> pid (cs ! j) = p \<Longrightarrow>
     \<forall>k. i \<le> k \<and> k < j \<longrightarrow> \<not> (ch_used (cs ! k) \<and> pid (cs ! k) = p) \<Longrightarrow> find_proc_from n i p cs = Some (Some j)"
proof (induction n arbitrary: i)
  case 0
  then show ?case by simp
next
  case (Suc n)
  show ?case
  proof (cases "i = j")
    case True
    with Suc.prems show ?thesis by auto
  next
    case False
    with Suc.prems Suc.IH [of "Suc i"] show ?thesis by auto
  qed
qed

text \<open>
  While the table of children is consistent, saving a child never reaches \<open>abort\<close>: the
  child takes a free slot (of a table grown by eight when none is free), the table stays
  consistent, and the child is found under its process id.
\<close>

lemma save_child_proc_correct:
  assumes inv: "proc_inv vm" and room: "unat (alloc_proc (vm_proc vm)) + 8 < 2 ^ 32"
    and new: "\<forall>c \<in> set (child_proc (vm_proc vm)). ch_used c \<longrightarrow> pid c \<noteq> p"
  shows "\<exists>vm' i. save_child_proc p vm = Some vm' \<and> proc_inv vm' \<and> find_proc p vm' = Some (Some i) \<and>
    get_child i vm' = Some \<lparr>pid = p, ch_used = True, exit_cb = Null, n_exit_cb = 0\<rparr>"
proof -
  let ?x = "vm_proc vm" and ?c = "\<lparr>pid = p, ch_used = True, exit_cb = Null, n_exit_cb = 0\<rparr>"
  have l: "length (child_proc ?x) = unat (alloc_proc ?x)" and u: "unat (n_proc ?x) = length (filter ch_used (child_proc ?x))"
    using inv by (auto simp: proc_inv_def)
  obtain y where y: "(if n_proc ?x \<ge> alloc_proc ?x then grow_children ?x else ?x) = y"
    and ly: "length (child_proc y) = unat (alloc_proc y)" and uy: "unat (n_proc y) = length (filter ch_used (child_proc y))"
    and lt: "length (filter ch_used (child_proc y)) < length (child_proc y)"
    and newy: "\<forall>c \<in> set (child_proc y). ch_used c \<longrightarrow> pid c \<noteq> p"
  proof (cases "n_proc ?x \<ge> alloc_proc ?x")
    case True
    let ?y = "?x\<lparr>child_proc := child_proc ?x @ replicate 8 zero_child, alloc_proc := alloc_proc ?x + 8\<rparr>"
    have a8: "unat (alloc_proc ?x + 8) = unat (alloc_proc ?x) + 8" using room by (simp add: unat_word_ariths)
    have g: "grow_children ?x = ?y" by (simp add: grow_children_def PROC_ALLOC_def l [symmetric])
    have "length (filter ch_used (child_proc ?y)) < length (child_proc ?y)"
      by (simp add: zero_child_def le_less_trans [OF length_filter_le])
    moreover have "unat (n_proc ?y) = length (filter ch_used (child_proc ?y))" using u by (simp add: zero_child_def)
    moreover have "\<forall>c \<in> set (child_proc ?y). ch_used c \<longrightarrow> pid c \<noteq> p" using new by (auto simp: zero_child_def)
    ultimately show ?thesis using that [of ?y] True g l a8 by simp
  next
    case False
    then have "unat (n_proc ?x) < unat (alloc_proc ?x)" by (simp add: word_less_nat_alt not_le)
    with False show ?thesis using that [of ?x] l u new by simp
  qed
  obtain j where "j < length (child_proc y)" "\<not> ch_used (child_proc y ! j)" using filter_length_lt [OF lt] by blast
  then obtain i where i: "find_free_child (length (child_proc y)) 0 (child_proc y) = Some i"
    "i < length (child_proc y)" "\<not> ch_used (child_proc y ! i)"
    using find_free_child_Some [of 0 "length (child_proc y)" "child_proc y"] by auto
  let ?cs = "(child_proc y)[i := ?c]"
  let ?vm' = "vm\<lparr>vm_proc := y\<lparr>child_proc := ?cs, n_proc := n_proc y + 1\<rparr>\<rparr>"
  have run: "save_child_proc p vm = Some ?vm'"
    unfolding save_child_proc_def Let_def y using i(1) ly by simp
  have "length (child_proc y) < 2 ^ 32" using ly unat_u32_lt [of "alloc_proc y"] by simp
  then have "unat (n_proc y + 1) = unat (n_proc y) + 1" using uy lt by (simp add: unat_word_ariths)
  then have inv': "proc_inv ?vm'"
    using ly uy count_set_ch_used [OF i(2,3), of ?c] by (simp add: proc_inv_def)
  have other: "\<not> (ch_used (?cs ! k) \<and> pid (?cs ! k) = p)" if "k < i" for k
    using that i(2) newy by simp
  have "find_proc_from (length ?cs) 0 p ?cs = Some (Some i)"
    by (rule find_proc_from_Some) (use i(2) other in simp_all)
  then have "find_proc p ?vm' = Some (Some i)" using ly by (simp add: find_proc_def)
  with run inv' i(2) show ?thesis by (auto simp: get_child_def)
qed

section \<open>The loop over the children ends\<close>

lemma fire_proc_loop_mono:
  "fire_proc_loop os n ev vm = Some r \<Longrightarrow> fire_proc_loop os (n + k) ev vm = Some r"
proof (induction n arbitrary: ev vm)
  case 0
  then show ?case by (cases k) (auto split: if_splits)
next
  case (Suc n)
  show ?case
  proof (cases "n_proc (vm_proc vm) = 0")
    case True
    with Suc.prems show ?thesis by simp
  next
    case False
    with Suc.prems obtain q vm1 where q: "poll_child os vm = Some (q, vm1)"
      and r: "(case q of None \<Rightarrow> Some (ev, vm1) | Some j \<Rightarrow> fire_proc_loop os n (ev + j) vm1) = Some r" by auto
    with False Suc.IH show ?thesis by (cases q) auto
  qed
qed

text \<open>
  \<open>quiet os k w\<close>: within \<open>k\<close> calls of \<open>waitpid\<close> from \<open>w\<close> on, one reports nothing or fails.
\<close>

fun quiet :: "'w os \<Rightarrow> nat \<Rightarrow> 'w \<Rightarrow> bool" where
  "quiet os 0 w = False"
| "quiet os (Suc k) w = (case os_waitpid os w of
     (Inl e, w) \<Rightarrow> True
   | (Inr (p, status), w) \<Rightarrow> p = 0 \<or> quiet os k w)"

lemma world_wr64: "wr64 p v vm = Some vm' \<Longrightarrow> world vm' = world vm"
  by (auto simp: wr64_def wr_def)

lemma world_make_func: "make_func_procedure ip av rv vm = Some (b, vm') \<Longrightarrow> world vm' = world vm"
  by (auto simp: make_func_procedure_def make_procedure_def raise_def split: if_splits)

lemma world_put_status: "put_status c p status vm = Some vm' \<Longrightarrow> world vm' = world vm"
  by (auto simp: put_status_def dest!: world_wr64)

lemma world_fire_callbacks: "fire_callbacks n c b p status ev vm = Some (ev', vm') \<Longrightarrow> world vm' = world vm"
proof (induction n arbitrary: c ev vm)
  case 0
  then show ?case by simp
next
  case (Suc n)
  then obtain cb where cb: "blk_read b c = Some cb" by auto
  obtain q vm1 where d: "deref_mem_ptr (cb_args cb) 56 vm = (q, vm1)" by fastforce
  have w1: "world vm1 = world vm" using d by (auto simp: deref_mem_ptr_def raise_def split: if_splits)
  show ?case
  proof (cases q)
    case None
    with Suc.prems cb d have "fire_callbacks n (c + 1) b p status ev vm1 = Some (ev', vm')" by simp
    from Suc.IH [OF this] w1 show ?thesis by simp
  next
    case (Some a)
    with Suc.prems cb d obtain vm2 x vm3 where "put_status a p status vm1 = Some vm2"
      "make_func_procedure (callback cb) (cb_args cb) 0 vm2 = Some (x, vm3)"
      "fire_callbacks n (c + 1) b p status (ev + 1) vm3 = Some (ev', vm')" by auto
    with Suc.IH world_put_status world_make_func w1 show ?thesis by metis
  qed
qed

lemma world_reap: "reap_child i vm = Some vm' \<Longrightarrow> world vm' = world vm"
  by (auto simp: reap_child_def Let_def set_child_def)

lemma poll_child_world:
  assumes "poll_child os vm = Some (Some k, vm')"
  shows "\<exists>p status w. os_waitpid os (world vm) = (Inr (p, status), w) \<and> p \<noteq> 0 \<and> world vm' = w"
proof -
  obtain r w where o: "os_waitpid os (world vm) = (r, w)" by fastforce
  show ?thesis
  proof (cases r)
    case (Inl e)
    with assms o show ?thesis by (simp add: poll_child_def call_os_def)
  next
    case (Inr x)
    obtain p status where x: "x = (p, status)" by (cases x)
    have p: "p \<noteq> 0" using assms o Inr x by (auto simp: poll_child_def call_os_def)
    with assms o Inr x obtain i vm1 where f: "fire_events_of_proc i p status (vm\<lparr>world := w\<rparr>) = Some (k, vm1)"
      and g: "(if WIFEXITED status \<or> WIFSIGNALED status then reap_child i vm1 else Some vm1) = Some vm'"
      by (auto simp: poll_child_def call_os_def split: option.splits)
    have "world vm1 = w" using f by (auto simp: fire_events_of_proc_def dest: world_fire_callbacks)
    with g world_reap have "world vm' = w" by (metis option.inject)
    with o Inr x p show ?thesis by blast
  qed
qed

text \<open>
  Reporting on children ends: if among the next \<open>k\<close> answers of \<open>waitpid\<close> one reports
  nothing, then \<open>k\<close> turns of the loop are enough, and more change nothing.
\<close>

lemma fire_proc_events_fuel:
  assumes "quiet os k (world vm)"
  shows "fire_proc_events os (k + n) vm = fire_proc_events os k vm"
proof -
  have "quiet os k (world vm) \<Longrightarrow> fire_proc_loop os (k + n) ev vm = fire_proc_loop os k ev vm" for ev
  proof (induction k arbitrary: ev vm)
    case 0
    then show ?case by simp
  next
    case (Suc k)
    show ?case
    proof (cases "poll_child os vm")
      case None
      then show ?thesis by simp
    next
      case (Some x)
      obtain q vm1 where x: "x = (q, vm1)" by (cases x)
      show ?thesis
      proof (cases q)
        case None
        with Some x show ?thesis by simp
      next
        case (Some j)
        with \<open>poll_child os vm = Some x\<close> x have p: "poll_child os vm = Some (Some j, vm1)" by simp
        have "quiet os k (world vm1)" using poll_child_world [OF p] Suc.prems by auto
        with Suc.IH p show ?thesis by simp
      qed
    qed
  qed
  with assms show ?thesis by (simp add: fire_proc_events_def)
qed

text \<open>
  \<open>onexit\<close> checks eight bytes of its arguments and reads twenty-four: a block that ends
  with the memory is read past it.
\<close>

lemma sys_onexit_reads_past:
  assumes wf: "vm_wf vm" "mem_exact vm" and a: "args_at argv 8 retv vm"
    and short: "unat (memsz vm) < unat argv + 16"
  shows "sys_onexit argv retv vm = None"
proof -
  have "rd64 (unat argv + 8) vm = None" using short wf(2) by (simp add: rd64_def rd_def load_def mem_exact_def)
  then show ?thesis using with_args_mem_ok [OF wf(1) a] by (simp add: sys_onexit_def)
qed

section \<open>The properties at concrete machines\<close>

lemma save_child_proc_correct_witness:
  "\<exists>vm' i. save_child_proc 77 mem_vm = Some vm' \<and> find_proc 77 vm' = Some (Some i)"
proof -
  have v: "vm_proc mem_vm = \<lparr>child_proc = [], n_proc = 0, alloc_proc = 0, n_exit_callbacks = 0\<rparr>"
    by (simp add: mem_vm_def make_vm_def make_procedure_def)
  show ?thesis using save_child_proc_correct [of mem_vm 77] by (auto simp: proc_inv_def v)
qed

lemma fire_proc_events_fuel_witness: "fire_proc_events demo_os (1 + 5) mem_vm = fire_proc_events demo_os 1 mem_vm"
  by (rule fire_proc_events_fuel) (simp add: demo_os_def)

lemma sys_onexit_reads_past_witness: "sys_onexit 24 0 mem_vm = None"
  by (rule sys_onexit_reads_past) (simp_all add: mem_vm_wf mem_exact_def args_at_def mem_vm_simps)

end
