(* ===== verification/SyscallNetFs.thy ===== *)
theory SyscallNetFs
  imports SyscallProc
begin

text \<open>
  Sockets (\<open>syscalls/syscall_net.c\<close>) and the file system (\<open>syscalls/syscall_fs.c\<close>): every
  system call of both, in the order of its checks, with the host behind the record of
  \<open>Os\<close>. Socket addresses are kept in the byte order the program supplies.
\<close>

section \<open>Sockets\<close>

definition errno_or_EINVAL :: "i32 \<Rightarrow> i32" where
  "errno_or_EINVAL e = (if e \<noteq> 0 then e else EINVAL)"

definition open_socket :: "'w os \<Rightarrow> u64 \<Rightarrow> 'w vm_t \<Rightarrow> (i32 + i32) \<times> 'w vm_t" where
  "open_socket os kind vm =
     (if kind = 1 then call_os (os_socket os True) vm
      else if kind = 2 then call_os (os_socket os False) vm
      else (Inl 0, vm))"

definition socket_failed :: "nat \<Rightarrow> i32 \<Rightarrow> nat \<Rightarrow> 'w vm_t \<Rightarrow> 'w vm_t option" where
  "socket_failed i e r vm = do {
     vm \<leftarrow> dealloc_fd i vm;
     fail_with (errno_or_EINVAL e) r 1 vm
   }"

definition sys_socket :: "'w os \<Rightarrow> u32 \<Rightarrow> u32 \<Rightarrow> 'w vm_t \<Rightarrow> 'w vm_t option" where
  "sys_socket os argv retv = with_args argv 8 retv 1 (\<lambda>a r vm. do {
     (i, vm) \<leftarrow> alloc_fd vm;
     kind \<leftarrow> rd64 a vm;
     (case open_socket os kind vm of
        (Inl e, vm) \<Rightarrow> socket_failed i e r vm
      | (Inr s, vm) \<Rightarrow>
          (case call_os (os_setsockopt os s) vm of
             (Some e, vm) \<Rightarrow> socket_failed i e r (snd (call_os (os_close os s) vm))
           | (None, vm) \<Rightarrow> do {
               f \<leftarrow> get_fd i (vm\<lparr>world := os_nonblock os s (world vm)\<rparr>);
               wr64 r (handle_of i) (set_fd i (f\<lparr>fd := s, on_close := Some net_io_close_handler\<rparr>)
                 (vm\<lparr>world := os_nonblock os s (world vm)\<rparr>))
             }))
   })"

text \<open>The check of a handle and, where there is one, of an address.\<close>

definition with_handle ::
  "nat \<Rightarrow> nat \<Rightarrow> (nat \<Rightarrow> vm_fd_t \<Rightarrow> 'w vm_t \<Rightarrow> 'w vm_t option) \<Rightarrow> 'w vm_t \<Rightarrow> 'w vm_t option" where
  "with_handle a r body vm = do {
     h \<leftarrow> rd64 a vm;
     bad \<leftarrow> bad_fd (fd_index h) vm;
     if bad then fail_with EBADF r 1 vm
     else do {
       f \<leftarrow> get_fd (unat (fd_index h)) vm;
       body (unat (fd_index h)) f vm
     }
   }"

definition read_addr :: "nat \<Rightarrow> 'w vm_t \<Rightarrow> vm_net_sock_t option" where
  "read_addr p vm = do {
     s \<leftarrow> rd32 p vm;
     port \<leftarrow> rd 2 (p + 4) vm;
     Some \<lparr>s_addr = s, sin_port = of_nat port\<rparr>
   }"

text \<open>\<open>if (r < 0) { error; *ret = 1 } else *ret = 0\<close>\<close>

definition result_of :: "nat \<Rightarrow> i32 option \<times> 'w vm_t \<Rightarrow> 'w vm_t option" where
  "result_of r x = (case x of (Some e, vm) \<Rightarrow> fail_with e r 1 vm | (None, vm) \<Rightarrow> wr64 r 0 vm)"

definition sys_bind :: "'w os \<Rightarrow> u32 \<Rightarrow> u32 \<Rightarrow> 'w vm_t \<Rightarrow> 'w vm_t option" where
  "sys_bind os argv retv = with_args argv 12 retv 1 (\<lambda>a r. with_handle a r (\<lambda>i f vm. do {
     addr_ref \<leftarrow> rd32 (a + 8) vm;
     (case deref addr_ref 6 vm of
        None \<Rightarrow> fail_with EFAULT r 1 vm
      | Some p \<Rightarrow> do {
          addr \<leftarrow> read_addr p vm;
          result_of r (call_os (os_bind os (fd f) addr) vm)
        })
   }))"

definition connected :: "nat \<Rightarrow> u32 \<Rightarrow> u32 \<Rightarrow> nat \<Rightarrow> 'w vm_t \<Rightarrow> 'w vm_t option" where
  "connected i ca cf r vm =
     (case deref ca 16 vm of
        None \<Rightarrow> fail_with EFAULT r 1 vm
      | Some c \<Rightarrow> do {
          vm \<leftarrow> wr64 c (handle_of i) vm;
          vm \<leftarrow> wr64 (c + 8) 0 vm;
          (_, vm) \<leftarrow> make_func_procedure cf ca 0 vm;
          wr64 r 0 vm
        })"

definition wait_for :: "io_evt_handler \<Rightarrow> nat \<Rightarrow> nat \<Rightarrow> u32 \<Rightarrow> u32 \<Rightarrow> nat \<Rightarrow> 'w vm_t \<Rightarrow> 'w vm_t option" where
  "wait_for h fl i ca cf r vm = do {
     (e, vm) \<leftarrow> alloc_event i vm;
     vm \<leftarrow> set_event i e \<lparr>evt_flags = fl, activate = h, evt_data = Callback \<lparr>callback = cf, cb_args = ca\<rparr>\<rparr> vm;
     wr64 r 0 vm
   }"

definition sys_connect :: "'w os \<Rightarrow> u32 \<Rightarrow> u32 \<Rightarrow> 'w vm_t \<Rightarrow> 'w vm_t option" where
  "sys_connect os argv retv = with_args argv 20 retv 1 (\<lambda>a r. with_handle a r (\<lambda>i f vm. do {
     addr_ref \<leftarrow> rd32 (a + 8) vm;
     (case deref addr_ref 6 vm of
        None \<Rightarrow> fail_with EFAULT r 1 vm
      | Some p \<Rightarrow> do {
          addr \<leftarrow> read_addr p vm;
          ca \<leftarrow> rd32 (a + 12) vm;
          cf \<leftarrow> rd32 (a + 16) vm;
          (case call_os (os_connect os (fd f) addr) (set_fd i (f\<lparr>fd_data := Slots [Some addr]\<rparr>) vm) of
             (None, vm) \<Rightarrow> connected i ca cf r vm
           | (Some e, vm) \<Rightarrow>
               if e = EINPROGRESS then wait_for connect_io_evt_handler IO_EVT_SELECT_WRITE i ca cf r vm
               else fail_with e r 1 vm)
        })
   }))"

definition sys_listen :: "'w os \<Rightarrow> u32 \<Rightarrow> u32 \<Rightarrow> 'w vm_t \<Rightarrow> 'w vm_t option" where
  "sys_listen os argv retv = with_args argv 8 retv 1 (\<lambda>a r. with_handle a r (\<lambda>i f vm.
     result_of r (call_os (os_listen os (fd f) LISTEN_BACKLOG) vm)))"

definition sys_accept :: "u32 \<Rightarrow> u32 \<Rightarrow> 'w vm_t \<Rightarrow> 'w vm_t option" where
  "sys_accept argv retv = with_args argv 16 retv 1 (\<lambda>a r. with_handle a r (\<lambda>i f vm. do {
     ca \<leftarrow> rd32 (a + 8) vm;
     cf \<leftarrow> rd32 (a + 12) vm;
     wait_for accept_io_evt_handler IO_EVT_SELECT_READ i ca cf r vm
   }))"

text \<open>A descriptor without a stored address is as bad as a closed one.\<close>

definition sys_peer_address :: "u32 \<Rightarrow> u32 \<Rightarrow> 'w vm_t \<Rightarrow> 'w vm_t option" where
  "sys_peer_address argv retv = with_args argv 12 retv 1 (\<lambda>a r. with_handle a r (\<lambda>i f vm.
     if fd_data f = Null then fail_with EBADF r 1 vm
     else do {
       addr_ref \<leftarrow> rd32 (a + 8) vm;
       (case deref addr_ref 6 vm of
          None \<Rightarrow> fail_with EFAULT r 1 vm
        | Some p \<Rightarrow> do {
            data \<leftarrow> blk_read (fd_data f) 0;
            vm \<leftarrow> wr32 p (s_addr data) vm;
            vm \<leftarrow> wr 2 (p + 4) (unat (sin_port data)) vm;
            wr64 r 0 vm
          })
     }))"

section \<open>Files\<close>

text \<open>The path is a pointer, and read when the operating system is called.\<close>

definition setup_sys_fs_call ::
  "u32 \<Rightarrow> u32 \<Rightarrow> u32 \<Rightarrow> (nat \<Rightarrow> nat \<Rightarrow> nat \<Rightarrow> 'w vm_t \<Rightarrow> 'w vm_t option) \<Rightarrow> 'w vm_t \<Rightarrow> 'w vm_t option" where
  "setup_sys_fs_call argv retv len body = with_args argv len retv 1 (\<lambda>a r vm. do {
     path_ref \<leftarrow> rd32 a vm;
     (case deref path_ref 1 vm of
        None \<Rightarrow> fail_with EFAULT r 1 vm
      | Some p \<Rightarrow>
          (case ensure_nul_term_str p vm of
             (False, vm) \<Rightarrow> fail_with EINVAL r 1 vm
           | (True, vm) \<Rightarrow> body a r p vm))
   })"

text \<open>\<open>O_RDONLY | O_RDWR | O_WRONLY | O_APPEND | O_CREAT\<close> and \<open>O_SYNC\<close> on Linux.\<close>

definition FS_OPEN_FLAG_MASK :: u64 where "FS_OPEN_FLAG_MASK = 0x443"
definition O_SYNC :: u64 where "O_SYNC = 0x101000"

definition sys_fs_open :: "'w os \<Rightarrow> u32 \<Rightarrow> u32 \<Rightarrow> 'w vm_t \<Rightarrow> 'w vm_t option" where
  "sys_fs_open os argv retv = setup_sys_fs_call argv retv 12 (\<lambda>a r path vm. do {
     options \<leftarrow> rd64 (a + 4) vm;
     let options = (options AND FS_OPEN_FLAG_MASK) OR O_SYNC;
     (i, vm) \<leftarrow> alloc_fd vm;
     f \<leftarrow> get_fd i vm;
     (case call_os (os_open os (c_string path vm) (ucast options)) vm of
        (Inl e, vm) \<Rightarrow> do {
          vm \<leftarrow> dealloc_fd i (set_fd i (f\<lparr>fd := - 1\<rparr>) vm);
          fail_with e r 0 vm
        }
      | (Inr s, vm) \<Rightarrow> wr64 r (handle_of i) (set_fd i (f\<lparr>fd := s\<rparr>) vm))
   })"

definition sys_fs_stat :: "'w os \<Rightarrow> u32 \<Rightarrow> u32 \<Rightarrow> 'w vm_t \<Rightarrow> 'w vm_t option" where
  "sys_fs_stat os argv retv = setup_sys_fs_call argv retv 8 (\<lambda>a r path vm. do {
     stat_ptr \<leftarrow> rd32 (a + 4) vm;
     (case deref_mem_ptr stat_ptr 144 vm of
        (None, vm) \<Rightarrow> fail_with EFAULT r 1 vm
      | (Some p, vm) \<Rightarrow> do {
          vm \<leftarrow> wr64 r 0 vm;
          (case call_os (os_stat os (c_string path vm)) vm of
             (Inl e, vm) \<Rightarrow> fail_with e r 1 vm
           | (Inr bs, vm) \<Rightarrow> map_option (\<lambda>m. vm\<lparr>memory := m\<rparr>) (store_bytes (memory vm) p bs))
        })
   })"

definition sys_fs_unlink :: "'w os \<Rightarrow> u32 \<Rightarrow> u32 \<Rightarrow> 'w vm_t \<Rightarrow> 'w vm_t option" where
  "sys_fs_unlink os argv retv =
     setup_sys_fs_call argv retv 4 (\<lambda>a r path vm. result_of r (call_os (os_unlink os (c_string path vm)) vm))"

definition sys_fs_seek :: "'w os \<Rightarrow> u32 \<Rightarrow> u32 \<Rightarrow> 'w vm_t \<Rightarrow> 'w vm_t option" where
  "sys_fs_seek os argv retv = with_args_mem argv 24 retv 1 (\<lambda>a r. with_handle a r (\<lambda>i f vm. do {
     off \<leftarrow> rd64 (a + 8) vm;
     whence \<leftarrow> rd64 (a + 16) vm;
     if whence > 2 then fail_with EINVAL r 1 vm
     else result_of r (call_os (os_lseek os (fd f) off whence) vm)
   }))"

definition sys_fs_mkdir :: "'w os \<Rightarrow> u32 \<Rightarrow> u32 \<Rightarrow> 'w vm_t \<Rightarrow> 'w vm_t option" where
  "sys_fs_mkdir os argv retv =
     setup_sys_fs_call argv retv 4 (\<lambda>a r path vm. result_of r (call_os (os_mkdir os (c_string path vm)) vm))"

definition sys_fs_rmdir :: "'w os \<Rightarrow> u32 \<Rightarrow> u32 \<Rightarrow> 'w vm_t \<Rightarrow> 'w vm_t option" where
  "sys_fs_rmdir os argv retv =
     setup_sys_fs_call argv retv 4 (\<lambda>a r path vm. result_of r (call_os (os_rmdir os (c_string path vm)) vm))"

section \<open>Directories\<close>

text \<open>
  The listing under construction: names are packed from the end of the buffer downwards,
  their references from its start upwards, ended by a zero reference. All counters are 32
  bits wide; \<open>d_end\<close> is the offset of \<open>end_of_buf\<close> in the buffer.
\<close>

record dir_state =
  saved_entries :: u32
  total_entries :: u32
  buf_used :: u32
  buf_required :: u32
  d_end :: int

definition save_entry :: "nat \<Rightarrow> u32 \<Rightarrow> u8 list \<Rightarrow> dir_state \<Rightarrow> 'w vm_t \<Rightarrow> (dir_state \<times> 'w vm_t) option" where
  "save_entry buf buf_ref nm d vm =
     (let e = d_end d - int (length nm + 1); q = 4 * unat (saved_entries d) in
      if e \<le> int q then None
      else do {
        m \<leftarrow> store_bytes (memory vm) (buf + nat e) (nm @ [0]);
        vm \<leftarrow> wr32 (buf + q) (buf_ref + of_int e) (vm\<lparr>memory := m\<rparr>);
        vm \<leftarrow> wr32 (buf + 4 * unat (saved_entries d + 1)) 0 vm;
        Some (d\<lparr>saved_entries := saved_entries d + 1, buf_used := buf_used d + of_nat (length nm) + 5, d_end := e\<rparr>, vm)
      })"

fun list_dir ::
  "nat \<Rightarrow> nat \<Rightarrow> u32 \<Rightarrow> u64 \<Rightarrow> (u8 list \<times> i32) list \<Rightarrow> dir_state \<Rightarrow> 'w vm_t \<Rightarrow> (dir_state \<times> 'w vm_t) option" where
  "list_dir r buf buf_ref buf_len [] d vm = Some (d, vm)"
| "list_dir r buf buf_ref buf_len ((nm, err) # es) d vm =
     (if err \<noteq> 0 then do {
        vm \<leftarrow> fail_with err r 1 vm;
        Some (d, vm)
      } else do {
        let len = (of_nat (length nm) :: u32);
        let d = d\<lparr>buf_required := buf_required d + 5 + len\<rparr>;
        (d, vm) \<leftarrow> (if ucast (buf_used d + len + 5) \<le> buf_len then save_entry buf buf_ref nm d vm else Some (d, vm));
        list_dir r buf buf_ref buf_len es (d\<lparr>total_entries := total_entries d + 1\<rparr>) vm
      })"

text \<open>Four bytes are checked at each of the three results, eight are written.\<close>

definition sys_fs_readdir :: "'w os \<Rightarrow> u32 \<Rightarrow> u32 \<Rightarrow> 'w vm_t \<Rightarrow> 'w vm_t option" where
  "sys_fs_readdir os argv retv = setup_sys_fs_call argv retv 28 (\<lambda>a r path vm. do {
     buf_ref \<leftarrow> rd32 (a + 4) vm;
     buf_len \<leftarrow> rd64 (a + 8) vm;
     saved_ref \<leftarrow> rd32 (a + 16) vm;
     total_ref \<leftarrow> rd32 (a + 20) vm;
     min_ref \<leftarrow> rd32 (a + 24) vm;
     let buf = (if buf_len > 0 then deref buf_ref (ucast buf_len) vm else None);
     if buf_len > 0 \<and> buf = None then fail_with EFAULT r 1 vm
     else do {
       let n_saved = deref saved_ref 4 vm;
       let n_total = deref total_ref 4 vm;
       let min_sz = deref min_ref 4 vm;
       if buf = None \<and> min_sz = None then fail_with EINVAL r 1 vm
       else (case call_os (os_opendir os (c_string path vm)) vm of
           (Inl e, vm) \<Rightarrow> fail_with e r 1 vm
         | (Inr entries, vm) \<Rightarrow> do {
             vm \<leftarrow> wr64 r 0 vm;
             (d, vm) \<leftarrow> list_dir r (case buf of None \<Rightarrow> 0 | Some b \<Rightarrow> b) buf_ref buf_len entries
               \<lparr>saved_entries = 0, total_entries = 0, buf_used = 0, buf_required = 4, d_end = uint buf_len\<rparr>
               (set_error 0 vm);
             vm \<leftarrow> put_if n_saved (ucast (saved_entries d)) vm;
             vm \<leftarrow> put_if n_total (ucast (total_entries d)) vm;
             put_if min_sz (ucast (buf_required d)) vm
           })
     }
   })"

section \<open>What these calls keep\<close>

lemma keeps_bind_via: "keeps_via q vm m \<Longrightarrow> (\<And>x. keeps_opt (q x) (f x)) \<Longrightarrow> keeps_opt vm (Option.bind m f)"
  by (rule keeps_opt_via_bind)

lemma keeps_bind_opt: "keeps_opt vm m \<Longrightarrow> (\<And>v. keeps_opt v (f v)) \<Longrightarrow> keeps_opt vm (Option.bind m f)"
  by (rule keeps_opt_bind)

lemma keeps_bind_any: "(\<And>x. keeps_opt vm (f x)) \<Longrightarrow> keeps_opt vm (Option.bind m f)"
  by (rule keeps_opt_bind')

lemma keeps_case_call_option:
  assumes f: "\<And>e vm1. keeps_opt vm1 (f e vm1)" and g: "\<And>vm1. keeps_opt vm1 (g vm1)"
  shows "keeps_opt vm (case call_os c vm of (Some e, vm) \<Rightarrow> f e vm | (None, vm) \<Rightarrow> g vm)"
proof -
  obtain q vm1 where o: "call_os c vm = (q, vm1)" by fastforce
  show ?thesis
    by (rule keeps_opt_trans [OF keeps_call_os [OF o]]) (simp add: o f g split: option.split)
qed

lemma keeps_result_of: "keeps_opt vm (result_of r (call_os c vm))"
  unfolding result_of_def by (rule keeps_case_call_option [OF keeps_opt_fail_with keeps_opt_wr64])

lemma keeps_with_handle:
  assumes "\<And>i f vm. keeps_opt vm (body i f vm)"
  shows "keeps_opt vm (with_handle a r body vm)"
  unfolding with_handle_def
  by (intro keeps_bind_any keeps_if keeps_opt_fail_with assms)

lemma keeps_socket_failed: "keeps_opt vm (socket_failed i e r vm)"
  unfolding socket_failed_def by (rule keeps_bind_opt [OF keeps_dealloc_fd keeps_opt_fail_with])

lemma keeps_open_socket: "open_socket os k vm = (q, vm') \<Longrightarrow> keeps vm vm'"
  by (auto simp: open_socket_def split: if_splits intro: keeps_call_os)

lemma keeps_closed_socket: "keeps_opt v (socket_failed i e r (snd (call_os c v)))"
proof -
  obtain z v2 where z: "call_os c v = (z, v2)" by fastforce
  from keeps_opt_trans [OF keeps_call_os [OF z] keeps_socket_failed] z show ?thesis by simp
qed

lemma keeps_world_set_fd: "keeps_opt v (wr64 r h (set_fd i g (v\<lparr>world := w\<rparr>)))"
  by (rule keeps_opt_trans [OF keeps_trans [OF keeps_world keeps_set_fd] keeps_opt_wr64])

lemma keeps_case_open_socket:
  assumes f: "\<And>e v. keeps_opt v (f e v)" and g: "\<And>s v. keeps_opt v (g s v)"
  shows "keeps_opt vm (case open_socket os k vm of (Inl e, v) \<Rightarrow> f e v | (Inr s, v) \<Rightarrow> g s v)"
proof -
  obtain q vm2 where o: "open_socket os k vm = (q, vm2)" by fastforce
  show ?thesis
    by (rule keeps_opt_trans [OF keeps_open_socket [OF o]]) (simp add: o f g split: sum.split)
qed

lemma keeps_opt_sys_socket: "keeps_opt vm (sys_socket os argv retv vm)"
  unfolding sys_socket_def
  apply (rule keeps_opt_with_args)
  apply (rule keeps_opt_via_bind [OF keeps_alloc_fd])
  apply (clarsimp split: prod.split)
  apply (rule keeps_bind_any)
  apply (rule keeps_case_open_socket)
   apply (rule keeps_socket_failed)
  apply (rule keeps_case_call_option)
   apply (rule keeps_closed_socket)
  apply (intro keeps_bind_any keeps_world_set_fd)
  done

lemma keeps_case_option:
  "keeps_opt vm f \<Longrightarrow> (\<And>p. keeps_opt vm (g p)) \<Longrightarrow> keeps_opt vm (case x of None \<Rightarrow> f | Some p \<Rightarrow> g p)"
  by (cases x) simp_all

lemma keeps_opt_sys_bind: "keeps_opt vm (sys_bind os argv retv vm)"
  unfolding sys_bind_def
  by (intro keeps_opt_with_args keeps_with_handle keeps_bind_any keeps_case_option keeps_opt_fail_with keeps_result_of)

lemma keeps_connected: "keeps_opt vm (connected i ca cf r vm)"
  unfolding connected_def
  by (auto intro!: keeps_case_option keeps_opt_fail_with keeps_bind_opt [OF keeps_opt_wr64] keeps_opt_wr64
      keeps_bind_via [OF keeps_via_make_func])

lemma keeps_wait_for: "keeps_opt vm (wait_for h fl i ca cf r vm)"
  unfolding wait_for_def
  by (auto intro!: keeps_bind_via [OF keeps_alloc_event] keeps_bind_opt [OF keeps_set_event] keeps_opt_wr64)

lemma keeps_case_call_option':
  assumes "keeps vm v" "\<And>e vm1. keeps_opt vm1 (f e vm1)" "\<And>vm1. keeps_opt vm1 (g vm1)"
  shows "keeps_opt vm (case call_os c v of (None, vm) \<Rightarrow> g vm | (Some e, vm) \<Rightarrow> f e vm)"
  using keeps_opt_trans [OF assms(1) keeps_case_call_option [of f g v c, OF assms(2,3)]]
  by (auto split: prod.split option.split)

lemma keeps_opt_sys_connect: "keeps_opt vm (sys_connect os argv retv vm)"
  unfolding sys_connect_def
  by (intro keeps_opt_with_args keeps_with_handle keeps_bind_any keeps_case_option keeps_opt_fail_with
      keeps_case_call_option' keeps_set_fd keeps_connected keeps_if keeps_wait_for)

lemma keeps_opt_sys_listen: "keeps_opt vm (sys_listen os argv retv vm)"
  unfolding sys_listen_def by (intro keeps_opt_with_args keeps_with_handle keeps_result_of)

lemma keeps_opt_sys_accept: "keeps_opt vm (sys_accept argv retv vm)"
  unfolding sys_accept_def by (intro keeps_opt_with_args keeps_with_handle keeps_bind_any keeps_wait_for)

lemma keeps_opt_wr: "keeps_opt vm (wr n p k vm)"
  by (auto simp: keeps_opt_def intro: keeps_wr)

lemma keeps_opt_sys_peer_address: "keeps_opt vm (sys_peer_address argv retv vm)"
  unfolding sys_peer_address_def
  by (rule keeps_opt_with_args, rule keeps_with_handle, rule keeps_if, rule keeps_opt_fail_with,
      rule keeps_bind_any, rule keeps_case_option, rule keeps_opt_fail_with, rule keeps_bind_any,
      rule keeps_bind_opt, rule keeps_opt_wr32, rule keeps_bind_opt, rule keeps_opt_wr, rule keeps_opt_wr64)

lemma keeps_setup_fs:
  assumes "\<And>a r path vm. keeps_opt vm (body a r path vm)"
  shows "keeps_opt vm (setup_sys_fs_call argv retv len body vm)"
  unfolding setup_sys_fs_call_def
proof (rule keeps_opt_with_args, rule keeps_bind_any, rule keeps_case_option, rule keeps_opt_fail_with)
  fix a r :: nat and vm :: "'a vm_t" and p :: nat
  obtain b vm1 where e: "ensure_nul_term_str p vm = (b, vm1)" by fastforce
  show "keeps_opt vm (case ensure_nul_term_str p vm of
      (False, vm) \<Rightarrow> fail_with EINVAL r 1 vm | (True, vm) \<Rightarrow> body a r p vm)"
    by (rule keeps_opt_trans [OF keeps_ensure_nul [OF e]])
      (auto simp: e intro: keeps_opt_fail_with assms split: bool.split)
qed

lemma keeps_opt_sys_fs_open: "keeps_opt vm (sys_fs_open os argv retv vm)"
  unfolding sys_fs_open_def Let_def
  apply (rule keeps_setup_fs)
  apply (rule keeps_bind_any)
  apply (rule keeps_opt_via_bind [OF keeps_alloc_fd])
  apply (clarsimp split: prod.split)
  apply (rule keeps_bind_any)
  apply (rule keeps_case_call_sum)
   apply (rule keeps_bind_opt [OF keeps_opt_trans [OF keeps_set_fd keeps_dealloc_fd] keeps_opt_fail_with])
  apply (rule keeps_opt_trans [OF keeps_set_fd keeps_opt_wr64])
  done

lemma keeps_opt_store_bytes:
  "keeps_opt vm (map_option (\<lambda>m. vm\<lparr>memory := m\<rparr>) (store_bytes (memory vm) p bs))"
  by (auto simp: keeps_opt_def intro: keeps_store_bytes)

lemma keeps_opt_sys_fs_stat: "keeps_opt vm (sys_fs_stat os argv retv vm)"
  unfolding sys_fs_stat_def
  by (intro keeps_setup_fs keeps_bind_any keeps_case_deref keeps_opt_fail_with keeps_bind_opt [OF keeps_opt_wr64]
      keeps_case_call_sum keeps_opt_store_bytes)

lemma keeps_opt_sys_fs_unlink: "keeps_opt vm (sys_fs_unlink os argv retv vm)"
  unfolding sys_fs_unlink_def by (intro keeps_setup_fs keeps_result_of)

lemma keeps_opt_sys_fs_mkdir: "keeps_opt vm (sys_fs_mkdir os argv retv vm)"
  unfolding sys_fs_mkdir_def by (intro keeps_setup_fs keeps_result_of)

lemma keeps_opt_sys_fs_rmdir: "keeps_opt vm (sys_fs_rmdir os argv retv vm)"
  unfolding sys_fs_rmdir_def by (intro keeps_setup_fs keeps_result_of)

lemma keeps_opt_sys_fs_seek: "keeps_opt vm (sys_fs_seek os argv retv vm)"
  unfolding sys_fs_seek_def
  by (intro keeps_opt_with_args_mem keeps_with_handle keeps_bind_any keeps_if keeps_opt_fail_with keeps_result_of)

lemma keeps_via_save_entry: "keeps_via snd vm (save_entry buf buf_ref nm d vm)"
  unfolding save_entry_def Let_def
  by (auto split: if_splits intro!: keeps_via_pure)
    (blast intro: keeps_trans [OF keeps_store_bytes] keeps_trans [OF keeps_wr32] keeps_wr32)

lemma keeps_via_list_dir: "keeps_via snd vm (list_dir r buf buf_ref len es d vm)"
proof (induction es arbitrary: d vm)
  case (Cons e es)
  obtain nm err where [simp]: "e = (nm, err)" by (cases e)
  have via_pair: "keeps_via snd vm m \<Longrightarrow> (\<And>d vm. keeps_via snd vm (f d vm)) \<Longrightarrow>
      keeps_via snd vm (Option.bind m (\<lambda>(d, vm). f d vm))" for vm :: "'a vm_t" and m f
    by (rule keeps_via_bind [where q = snd]) (auto split: prod.split)
  have fail: "keeps_via snd vm (Option.bind (fail_with err r 1 vm) (\<lambda>vm. Some (d, vm)))"
    by (rule keeps_via_step [OF keeps_opt_fail_with]) simp
  show ?case
    by (simp add: Let_def fail del: bind_split)
      (intro conjI impI via_pair Cons.IH; simp add: keeps_via_save_entry)
qed simp

lemma keeps_opt_sys_fs_readdir: "keeps_opt vm (sys_fs_readdir os argv retv vm)"
  unfolding sys_fs_readdir_def Let_def
  apply (rule keeps_setup_fs)
  apply (rule keeps_bind_any, rule keeps_bind_any, rule keeps_bind_any, rule keeps_bind_any, rule keeps_bind_any)
  apply (rule keeps_if, rule keeps_opt_fail_with)
  apply (rule keeps_if, rule keeps_opt_fail_with)
  apply (rule keeps_case_call_sum, rule keeps_opt_fail_with)
  apply (rule keeps_bind_opt [OF keeps_opt_wr64])
  apply (rule keeps_opt_trans [OF keeps_set_error])
  apply (rule keeps_opt_via_bind [OF keeps_via_list_dir])
  apply (simp only: case_prod_beta)
  apply (intro keeps_bind_opt keeps_opt_put_if)
  done

end
