(* ===== verification/VmExec.thy ===== *)
theory VmExec
  imports InstnCtrl SyscallProc SyscallNetFs
begin

text \<open>
  The engine: the table of system calls (\<open>syscalls/syscall.c\<close>, \<open>syscall.inc\<close>), the
  instruction \<open>syscall\<close> (\<open>instns/instn_impl_sys.c\<close>), events and the execution loop
  (\<open>vm_exec.c\<close>, \<open>cleanup_vm\<close> of \<open>vm.c\<close>). The loop is given as a function that may not
  return and as a step relation, which agree.
\<close>

section \<open>Events\<close>

definition has_pending_events :: "'w vm_t \<Rightarrow> bool" where
  "has_pending_events vm \<longleftrightarrow>
     has_pending_timer_events vm \<or> has_pending_io_events vm \<or> has_pending_proc_events vm"

text \<open>
  C leaves the order of the three calls open; they are made from left to right here. The
  \<open>fuel\<close> is that of the loop over the children, see \<^const>\<open>fire_proc_loop\<close>.
\<close>

definition fire_vm_events :: "'w os \<Rightarrow> nat \<Rightarrow> 'w vm_t \<Rightarrow> (u32 \<times> 'w vm_t) option" where
  "fire_vm_events os fuel vm = do {
     (t, vm) \<leftarrow> fire_timer_events os vm;
     (i, vm) \<leftarrow> fire_io_events os vm;
     (p, vm) \<leftarrow> fire_proc_events os fuel vm;
     Some (t + i + p, vm)
   }"

definition cleanup_vm :: "'w os \<Rightarrow> nat \<Rightarrow> 'w vm_t \<Rightarrow> 'w vm_t option" where
  "cleanup_vm os fuel vm = do {
     vm \<leftarrow> cleanup_child_proc os fuel vm;
     Some (vm\<lparr>instns_since_last_cleanup := 0\<rparr>)
   }"

text \<open>\<open>idle_step\<close>: ten milliseconds.\<close>

definition idle_step :: timespec where
  "idle_step = Timespec (of_nat (IDLE_STEP_DURATION_MS div 1000)) (of_nat (1000000 * (IDLE_STEP_DURATION_MS mod 1000)))"

definition vm_fire_events :: "'w os \<Rightarrow> nat \<Rightarrow> 'w vm_t \<Rightarrow> (int \<times> 'w vm_t) option" where
  "vm_fire_events os fuel vm =
     (if \<not> has_pending_events vm then Some (- 1, vm)
      else do {
        (n_events, vm) \<leftarrow> fire_vm_events os fuel vm;
        if n_events = 0 then
          (case call_os (os_nanosleep os idle_step) vm of
             (Some e, vm) \<Rightarrow> Some (0, set_error e vm)
           | (None, vm) \<Rightarrow> Some (0, vm))
        else Some (sint n_events, vm)
      })"

section \<open>System calls\<close>

type_synonym 'w syscall_f = "u32 \<Rightarrow> u32 \<Rightarrow> 'w vm_t \<Rightarrow> 'w vm_t option"

definition SyscallTable :: "'w os \<Rightarrow> 'w syscall_f list" where
  "SyscallTable os = [
     sys_getlasterr, sys_setlasterr, sys_time os, sys_timeout os, sys_yield,
     sys_close os, sys_read, sys_write,
     sys_fs_open os, sys_fs_stat os, sys_fs_unlink os, sys_fs_seek os,
     sys_fs_mkdir os, sys_fs_rmdir os, sys_fs_readdir os,
     sys_socket os, sys_bind os, sys_connect os, sys_listen os, sys_accept, sys_peer_address,
     sys_mexpand os, sys_mretract os, sys_msize,
     sys_exec os, sys_run os, sys_kill os, sys_onexit,
     sys_codesz, sys_codecp]"

definition nSyscalls :: "'w os \<Rightarrow> nat" where
  "nSyscalls os = length (SyscallTable os)"

text \<open>
  The events are fired and the children reaped before the operands are read. The number of the
  call is truncated to sixteen bits.
\<close>

definition op_syscall_3 :: "'w os \<Rightarrow> nat \<Rightarrow> instn_t \<Rightarrow> 'w vm_t \<Rightarrow> (int \<times> 'w vm_t) option" where
  "op_syscall_3 os fuel instn vm = do {
     (_, vm) \<leftarrow> fire_vm_events os fuel vm;
     vm \<leftarrow> cleanup_vm os fuel vm;
     n \<leftarrow> arg_value instn 0 vm;
     argv \<leftarrow> arg_value instn 1 vm;
     retv \<leftarrow> arg_value instn 2 vm;
     let syscall_id = unat (ucast n :: u16);
     if syscall_id \<ge> nSyscalls os then Some (- 1, raise VM_E_BadSyscallNo vm)
     else do {
       vm \<leftarrow> (SyscallTable os ! syscall_id) (ucast argv) (ucast retv) vm;
       Some (0, vm)
     }
   }"

section \<open>One instruction\<close>

fun run_handler :: "'w os \<Rightarrow> nat \<Rightarrow> handler \<Rightarrow> instn_t \<Rightarrow> 'w vm_t \<Rightarrow> (int \<times> 'w vm_t) option" where
  "run_handler os fuel (Arith h) = run_arith h"
| "run_handler os fuel (Bitw h) = run_bitw h"
| "run_handler os fuel (Rel h) = run_rel h"
| "run_handler os fuel (Logc h) = run_logc h"
| "run_handler os fuel (Misc h) = run_misc h"
| "run_handler os fuel (Ctrl h) = run_ctrl h"
| "run_handler os fuel Sys_syscall_3 = op_syscall_3 os fuel"

text \<open>The null procedure pointer of an empty list is not tested: undefined.\<close>

definition vm_current_procedure :: "'w vm_t \<Rightarrow> (proc_t option \<times> 'w vm_t) option" where
  "vm_current_procedure vm =
     (case procedures vm of
        [] \<Rightarrow> None
      | p # _ \<Rightarrow>
          if p_iptr p \<ge> codesz vm then do { vm \<leftarrow> delete_current_procedure vm; Some (None, vm) }
          else Some (Some p, vm))"

definition vm_decode_instn ::
  "instn_def_t list \<Rightarrow> proc_t \<Rightarrow> instn_t \<Rightarrow> 'w vm_t \<Rightarrow> (int \<times> instn_t \<times> 'w vm_t) option" where
  "vm_decode_instn defs p instn vm = do {
     (offt, instn, vm) \<leftarrow> decode_instn defs (unat (p_iptr p)) instn (vm\<lparr>iptr := p_iptr p\<rparr>);
     if offt < 0 then Some (- 1, instn, vm)
     else Some (0, instn, set_this_proc (p\<lparr>p_iptr := p_iptr p + of_int offt\<rparr>) vm)
   }"

text \<open>
  All thirteen bits of the opcode index the table here. The handler of the sentinel is a null
  pointer, and what lies behind the table is no definition.
\<close>

definition vm_exec_instn ::
  "'w os \<Rightarrow> nat \<Rightarrow> instn_def_t list \<Rightarrow> instn_t \<Rightarrow> 'w vm_t \<Rightarrow> (int \<times> 'w vm_t) option" where
  "vm_exec_instn os fuel defs instn vm =
     (let instn_idx = unat (drop_bit 3 (icode instn)) in
      if instn_idx < nInstnDefs defs then do {
        (r, vm) \<leftarrow> run_handler os fuel (handler (defs ! instn_idx)) instn vm;
        Some (if r < 0 then - 1 else 0, vm)
      } else None)"

section \<open>The loop\<close>

definition count_instn :: "'w vm_t \<Rightarrow> 'w vm_t" where
  "count_instn vm = vm\<lparr>instns := instns vm + 1,
     instns_since_last_cleanup := instns_since_last_cleanup vm + 1\<rparr>"

definition after_instn :: "'w os \<Rightarrow> nat \<Rightarrow> 'w vm_t \<Rightarrow> 'w vm_t option" where
  "after_instn os fuel vm =
     (let vm = count_instn vm in
      if instns_since_last_cleanup vm mod VM_CLEANUP_PERIOD_INSTNS = 0
      then cleanup_vm os fuel vm else Some vm)"

text \<open>The body of the loop for the procedure at the head of the list.\<close>

definition exec_current ::
  "'w os \<Rightarrow> nat \<Rightarrow> instn_def_t list \<Rightarrow> proc_t \<Rightarrow> instn_t \<Rightarrow> 'w vm_t \<Rightarrow> (bool \<times> instn_t \<times> 'w vm_t) option" where
  "exec_current os fuel defs p instn vm = do {
     (d, instn, vm) \<leftarrow> vm_decode_instn defs p instn vm;
     if d < 0 then Some (False, instn, vm)
     else do {
       (x, vm) \<leftarrow> vm_exec_instn os fuel defs instn vm;
       if x < 0 then Some (False, instn, vm)
       else do {
         vm \<leftarrow> after_instn os fuel vm;
         Some (True, instn, vm)
       }
     }
   }"

text \<open>
  One turn of \<open>while (1)\<close>: whether it goes on (\<open>continue\<close> and the end of the body) or
  breaks, with the buffer of the instruction, which the turns share.
\<close>

definition exec_turn ::
  "'w os \<Rightarrow> nat \<Rightarrow> instn_def_t list \<Rightarrow> instn_t \<Rightarrow> 'w vm_t \<Rightarrow> (bool \<times> instn_t \<times> 'w vm_t) option" where
  "exec_turn os fuel defs instn vm = do {
     (n_events, vm) \<leftarrow> (if procedures vm = [] then vm_fire_events os fuel vm else Some (1, vm));
     if n_events < 0 then Some (False, instn, vm)
     else if n_events = 0 then Some (True, instn, vm)
     else do {
       (p, vm) \<leftarrow> vm_current_procedure vm;
       (case p of
          None \<Rightarrow> Some (True, instn, vm)
        | Some p \<Rightarrow> exec_current os fuel defs p instn vm)
     }
   }"

partial_function (option) run_loop ::
  "('i \<Rightarrow> 's \<Rightarrow> (bool \<times> 'i \<times> 's) option) \<Rightarrow> 'i \<Rightarrow> 's \<Rightarrow> ('i \<times> 's) option" where
  "run_loop turn i s = do {
     (go, i, s) \<leftarrow> turn i s;
     if go then run_loop turn i s else Some (i, s)
   }"

text \<open>\<^term>\<open>None\<close> when it reaches undefined behaviour and when it never stops.\<close>

definition execute_vm :: "'w os \<Rightarrow> nat \<Rightarrow> instn_def_t list \<Rightarrow> instn_t \<Rightarrow> 'w vm_t \<Rightarrow> 'w vm_t option" where
  "execute_vm os fuel defs instn vm = do {
     (_, vm) \<leftarrow> run_loop (exec_turn os fuel defs) instn vm;
     cleanup_vm os fuel vm
   }"

section \<open>The loop as a step relation\<close>

definition goes_on :: "('i \<Rightarrow> 's \<Rightarrow> (bool \<times> 'i \<times> 's) option) \<Rightarrow> 'i \<times> 's \<Rightarrow> 'i \<times> 's \<Rightarrow> bool" where
  "goes_on turn a b \<longleftrightarrow> turn (fst a) (snd a) = Some (True, fst b, snd b)"

lemma run_loop_complete:
  assumes "(goes_on turn)\<^sup>*\<^sup>* a b" "turn (fst b) (snd b) = Some (False, i', s')"
  shows "run_loop turn (fst a) (snd a) = Some (i', s')"
  using assms
proof (induction rule: converse_rtranclp_induct)
  case base
  then show ?case by (simp add: run_loop.simps [of turn "fst b"])
next
  case (step y z)
  then show ?case by (cases z) (simp add: goes_on_def run_loop.simps [of turn "fst y"])
qed

lemma run_loop_sound:
  "run_loop turn i s = Some r \<Longrightarrow>
     \<exists>b. (goes_on turn)\<^sup>*\<^sup>* (i, s) b \<and> turn (fst b) (snd b) = Some (False, fst r, snd r)"
proof (erule run_loop.raw_induct [rotated])
  fix loop :: "('i \<Rightarrow> 's \<Rightarrow> (bool \<times> 'i \<times> 's) option) \<Rightarrow> 'i \<Rightarrow> 's \<Rightarrow> ('i \<times> 's) option" and turn i s r
  assume IH: "\<And>turn i s r. loop turn i s = Some r \<Longrightarrow>
      \<exists>b. (goes_on turn)\<^sup>*\<^sup>* (i, s) b \<and> turn (fst b) (snd b) = Some (False, fst r, snd r)"
    and "do { (go, i, s) \<leftarrow> turn i s; if go then loop turn i s else Some (i, s) } = Some r"
  then obtain go i1 s1 where t: "turn i s = Some (go, i1, s1)"
    and l: "(if go then loop turn i1 s1 else Some (i1, s1)) = Some r" by auto
  show "\<exists>b. (goes_on turn)\<^sup>*\<^sup>* (i, s) b \<and> turn (fst b) (snd b) = Some (False, fst r, snd r)"
  proof (cases go)
    case True
    with l IH obtain b where b: "(goes_on turn)\<^sup>*\<^sup>* (i1, s1) b" "turn (fst b) (snd b) = Some (False, fst r, snd r)"
      by fastforce
    moreover have "goes_on turn (i, s) (i1, s1)" using t True by (simp add: goes_on_def)
    ultimately show ?thesis by (meson converse_rtranclp_into_rtranclp)
  next
    case False
    with t l show ?thesis by auto
  qed
qed

text \<open>
  What the loop promises when every turn keeps a relation between the state before and the
  state after.
\<close>

locale loop_contract =
  fixes R :: "'s \<Rightarrow> 's \<Rightarrow> bool" and turn :: "'i \<Rightarrow> 's \<Rightarrow> (bool \<times> 'i \<times> 's) option"
  assumes R_refl: "R s s"
    and R_trans: "R s t \<Longrightarrow> R t u \<Longrightarrow> R s u"
    and R_turn: "turn i s = Some (go, i', s') \<Longrightarrow> R s s'"
begin

lemma R_steps: "(goes_on turn)\<^sup>*\<^sup>* a b \<Longrightarrow> R (snd a) (snd b)"
proof (induction rule: rtranclp_induct)
  case base
  show ?case by (rule R_refl)
next
  case (step b c)
  then have "turn (fst b) (snd b) = Some (True, fst c, snd c)" by (simp add: goes_on_def)
  from R_turn [OF this] step.IH show ?case by (rule R_trans [rotated])
qed

lemma R_loop: "run_loop turn i s = Some (i', s') \<Longrightarrow> R s s'"
proof -
  assume "run_loop turn i s = Some (i', s')"
  from run_loop_sound [OF this] obtain b where
    b: "(goes_on turn)\<^sup>*\<^sup>* (i, s) b" "turn (fst b) (snd b) = Some (False, i', s')" by auto
  from R_steps [OF b(1)] R_turn [OF b(2)] show "R s s'" by (auto intro: R_trans)
qed

end

inductive ready :: "'w os \<Rightarrow> nat \<Rightarrow> 'w vm_t \<Rightarrow> 'w vm_t \<Rightarrow> bool" for os fuel where
  running: "procedures vm \<noteq> [] \<Longrightarrow> ready os fuel vm vm"
| fired: "procedures vm = [] \<Longrightarrow> vm_fire_events os fuel vm = Some (n, vm') \<Longrightarrow> 0 < n \<Longrightarrow> ready os fuel vm vm'"

text \<open>
  The turns that go on: an idle turn, the end of a procedure that has run past the code, and an
  instruction. Those that stop: nothing to do, an instruction that cannot be decoded, and one
  that fails.
\<close>

inductive exec_step ::
  "'w os \<Rightarrow> nat \<Rightarrow> instn_def_t list \<Rightarrow> instn_t \<times> 'w vm_t \<Rightarrow> instn_t \<times> 'w vm_t \<Rightarrow> bool" for os fuel defs where
  idle: "procedures vm = [] \<Longrightarrow> vm_fire_events os fuel vm = Some (0, vm') \<Longrightarrow>
    exec_step os fuel defs (i, vm) (i, vm')"
| retire: "ready os fuel vm vm1 \<Longrightarrow> vm_current_procedure vm1 = Some (None, vm') \<Longrightarrow>
    exec_step os fuel defs (i, vm) (i, vm')"
| instruction: "ready os fuel vm vm1 \<Longrightarrow> vm_current_procedure vm1 = Some (Some p, vm2) \<Longrightarrow>
    vm_decode_instn defs p i vm2 = Some (0, i', vm3) \<Longrightarrow> vm_exec_instn os fuel defs i' vm3 = Some (0, vm4) \<Longrightarrow>
    after_instn os fuel vm4 = Some vm' \<Longrightarrow> exec_step os fuel defs (i, vm) (i', vm')"

inductive exec_stop ::
  "'w os \<Rightarrow> nat \<Rightarrow> instn_def_t list \<Rightarrow> instn_t \<times> 'w vm_t \<Rightarrow> instn_t \<times> 'w vm_t \<Rightarrow> bool" for os fuel defs where
  finished: "procedures vm = [] \<Longrightarrow> vm_fire_events os fuel vm = Some (n, vm') \<Longrightarrow> n < 0 \<Longrightarrow>
    exec_stop os fuel defs (i, vm) (i, vm')"
| bad_instn: "ready os fuel vm vm1 \<Longrightarrow> vm_current_procedure vm1 = Some (Some p, vm2) \<Longrightarrow>
    vm_decode_instn defs p i vm2 = Some (- 1, i', vm') \<Longrightarrow> exec_stop os fuel defs (i, vm) (i', vm')"
| failed: "ready os fuel vm vm1 \<Longrightarrow> vm_current_procedure vm1 = Some (Some p, vm2) \<Longrightarrow>
    vm_decode_instn defs p i vm2 = Some (0, i', vm3) \<Longrightarrow> vm_exec_instn os fuel defs i' vm3 = Some (- 1, vm') \<Longrightarrow>
    exec_stop os fuel defs (i, vm) (i', vm')"

inductive_simps ready_iff: "ready os fuel vm vm'"
inductive_simps exec_step_iff: "exec_step os fuel defs (i, vm) (i', vm')"
inductive_simps exec_stop_iff: "exec_stop os fuel defs (i, vm) (i', vm')"

lemma vm_decode_result: "vm_decode_instn defs p i vm = Some (d, i', vm') \<Longrightarrow> d = 0 \<or> d = - 1"
  by (auto simp: vm_decode_instn_def split: if_splits)

lemma vm_exec_result: "vm_exec_instn os fuel defs i vm = Some (x, vm') \<Longrightarrow> x = 0 \<or> x = - 1"
  by (auto simp: vm_exec_instn_def Let_def split: if_splits)

lemma exec_current_go:
  "exec_current os fuel defs p i vm = Some (True, i', vm') \<longleftrightarrow>
     (\<exists>vm3 vm4. vm_decode_instn defs p i vm = Some (0, i', vm3) \<and>
        vm_exec_instn os fuel defs i' vm3 = Some (0, vm4) \<and> after_instn os fuel vm4 = Some vm')"
  by (auto simp: exec_current_def bind_eq_Some_conv split: if_splits dest: vm_decode_result vm_exec_result)
    (fastforce dest: vm_decode_result vm_exec_result)+

lemma exec_current_stop:
  "exec_current os fuel defs p i vm = Some (False, i', vm') \<longleftrightarrow>
     vm_decode_instn defs p i vm = Some (- 1, i', vm') \<or>
     (\<exists>vm3. vm_decode_instn defs p i vm = Some (0, i', vm3) \<and> vm_exec_instn os fuel defs i' vm3 = Some (- 1, vm'))"
  by (auto simp: exec_current_def bind_eq_Some_conv split: if_splits dest: vm_decode_result vm_exec_result)
    (fastforce dest: vm_decode_result vm_exec_result)+

lemma exec_step_turn: "exec_step os fuel defs a b \<longleftrightarrow> goes_on (exec_turn os fuel defs) a b"
proof -
  obtain i vm where a: "a = (i, vm)" by (cases a)
  obtain i' vm' where b: "b = (i', vm')" by (cases b)
  show ?thesis
  proof (cases "procedures vm = []")
    case True
    then show ?thesis
      unfolding a b
      by (cases "vm_fire_events os fuel vm")
        (auto simp: exec_step_iff ready_iff goes_on_def exec_turn_def exec_current_go bind_eq_Some_conv
          split: if_splits option.splits)
  next
    case False
    then show ?thesis
      unfolding a b
      by (auto simp: exec_step_iff ready_iff goes_on_def exec_turn_def exec_current_go bind_eq_Some_conv
          split: if_splits option.splits)
  qed
qed

lemma exec_stop_turn:
  "exec_stop os fuel defs a b \<longleftrightarrow> exec_turn os fuel defs (fst a) (snd a) = Some (False, fst b, snd b)"
proof -
  obtain i vm where a: "a = (i, vm)" by (cases a)
  obtain i' vm' where b: "b = (i', vm')" by (cases b)
  show ?thesis
  proof (cases "procedures vm = []")
    case True
    then show ?thesis
      unfolding a b
      by (cases "vm_fire_events os fuel vm")
        (auto simp: exec_stop_iff ready_iff exec_turn_def exec_current_stop bind_eq_Some_conv
          split: if_splits option.splits)
  next
    case False
    then show ?thesis
      unfolding a b
      by (auto simp: exec_stop_iff ready_iff exec_turn_def exec_current_stop bind_eq_Some_conv
          split: if_splits option.splits)
  qed
qed

section \<open>The code is never written\<close>

lemma keeps_fire_vm_events: "keeps_via snd vm (fire_vm_events os fuel vm)"
  unfolding fire_vm_events_def
  by (rule keeps_via_bind [OF keeps_fire_timer_events], simp only: case_prod_beta,
      rule keeps_via_bind [OF keeps_fire_io_events], simp only: case_prod_beta,
      rule keeps_via_bind [OF keeps_fire_proc_events]) (simp add: case_prod_beta)

lemma keeps_cleanup_vm: "keeps_opt vm (cleanup_vm os fuel vm)"
proof -
  have "keeps_opt vm (cleanup_child_proc os fuel vm)"
    using keeps_fire_proc_events [where vm = vm and os = os and n = fuel]
    by (auto simp: cleanup_child_proc_def keeps_opt_def keeps_via_def)
  then show ?thesis
    unfolding cleanup_vm_def by (rule keeps_opt_bind) (simp add: keeps_same)
qed

lemma keeps_vm_fire_events: "keeps_via snd vm (vm_fire_events os fuel vm)"
proof -
  have n: "keeps vm (snd (case call_os c vm of (Some e, vm) \<Rightarrow> (0 :: int, set_error e vm) | (None, vm) \<Rightarrow> (0, vm)))"
    for vm :: "'a vm_t" and c
    by (auto split: prod.split option.split intro: keeps_call_os keeps_trans [OF keeps_call_os keeps_set_error])
  have n': "keeps_via snd vm (case call_os c vm of (Some e, vm) \<Rightarrow> Some (0 :: int, set_error e vm) | (None, vm) \<Rightarrow> Some (0, vm))"
    for vm :: "'a vm_t" and c
    using n [of vm c] by (auto split: prod.splits option.splits)
  show ?thesis
    unfolding vm_fire_events_def
    by (auto intro!: keeps_via_bind [OF keeps_fire_vm_events] n')
qed

lemmas keeps_opt_syscalls =
  keeps_opt_sys_getlasterr keeps_opt_sys_setlasterr keeps_opt_sys_time keeps_opt_sys_timeout keeps_opt_sys_yield
  keeps_opt_sys_close keeps_opt_io_task keeps_opt_sys_fs_open keeps_opt_sys_fs_stat keeps_opt_sys_fs_unlink
  keeps_opt_sys_fs_seek keeps_opt_sys_fs_mkdir keeps_opt_sys_fs_rmdir keeps_opt_sys_fs_readdir
  keeps_opt_sys_socket keeps_opt_sys_bind keeps_opt_sys_connect keeps_opt_sys_listen keeps_opt_sys_accept
  keeps_opt_sys_peer_address keeps_opt_sys_mexpand keeps_opt_sys_mretract keeps_opt_sys_msize
  keeps_opt_sys_exec keeps_opt_sys_run keeps_opt_sys_kill keeps_opt_sys_onexit keeps_opt_sys_codesz
  keeps_opt_sys_codecp

lemma keeps_opt_table:
  assumes "realloc_ok os" "f \<in> set (SyscallTable os)"
  shows "keeps_opt vm (f argv retv vm)"
  using assms by (auto simp: SyscallTable_def sys_read_def sys_write_def keeps_opt_syscalls)

lemma keeps_op_syscall:
  assumes "realloc_ok os"
  shows "keeps_via snd vm (op_syscall_3 os fuel instn vm)"
  unfolding op_syscall_3_def
  apply (rule keeps_via_bind [OF keeps_fire_vm_events], simp only: case_prod_beta)
  apply (rule keeps_via_step [OF keeps_cleanup_vm])
  apply (rule keeps_via_pure)+
  apply (simp only: Let_def)
  apply (clarsimp simp: not_le)
  apply (rule keeps_via_step)
   apply (rule keeps_opt_table [OF assms])
   apply (simp_all add: nSyscalls_def)
  done

lemma keeps_local_step: "local_step vm vm' \<Longrightarrow> keeps vm vm'"
  by (auto simp: local_step_def keeps_def vm_wf_def)

lemma keeps_ctrl_step: "ctrl_step vm vm' \<Longrightarrow> keeps vm vm'"
  by (auto simp: ctrl_step_def keeps_def vm_wf_def)

lemma keeps_local_handler: "local_handler h \<Longrightarrow> keeps_via snd vm (h instn vm)"
  by (auto simp: local_handler_def keeps_via_def intro: keeps_local_step)

lemma keeps_ctrl_handler: "ctrl_handler_ok h \<Longrightarrow> keeps_via snd vm (h instn vm)"
  by (auto simp: ctrl_handler_ok_def keeps_via_def intro: keeps_ctrl_step)

lemma keeps_run_handler: "realloc_ok os \<Longrightarrow> keeps_via snd vm (run_handler os fuel h instn vm)"
  by (cases h) (simp_all add: keeps_local_handler run_arith_local run_bitw_local run_rel_local run_logc_local
      run_misc_local keeps_ctrl_handler run_ctrl_ok keeps_op_syscall)

lemma keeps_current: "keeps_via snd vm (vm_current_procedure vm)"
  by (auto simp: vm_current_procedure_def delete_current_procedure_def keeps_via_def bind_eq_Some_conv
      split: list.splits if_splits intro: keeps_same)

lemma keeps_same_but_exceptions: "same_but_exceptions vm vm' \<Longrightarrow> keeps vm vm'"
  by (auto simp: same_but_exceptions_def intro: keeps_same)

lemma keeps_vm_decode: "keeps_via (\<lambda>(d, i, vm). vm) vm (vm_decode_instn defs p i vm)"
proof -
  have i: "keeps vm (vm\<lparr>iptr := ip\<rparr>)" for ip by (rule keeps_same) simp_all
  have s: "keeps v (set_this_proc q v)" for v :: "'a vm_t" and q by (rule keeps_same) (simp_all add: set_this_proc_def)
  show ?thesis
    unfolding vm_decode_instn_def
    by (rule keeps_via_trans [OF i])
      (auto simp: keeps_via_def bind_eq_Some_conv split: if_splits
        dest!: decode_instn_same intro: keeps_same_but_exceptions keeps_trans [OF _ s])
qed

lemma keeps_vm_exec: "realloc_ok os \<Longrightarrow> keeps_via snd vm (vm_exec_instn os fuel defs i vm)"
  unfolding vm_exec_instn_def Let_def
  by (auto intro!: keeps_via_bind [OF keeps_run_handler])

lemma keeps_after_instn: "keeps_opt vm (after_instn os fuel vm)"
  unfolding after_instn_def Let_def
  by (rule keeps_opt_trans [where ?vm1.0 = "count_instn vm"])
    (auto simp: count_instn_def keeps_cleanup_vm intro: keeps_same)

lemma keeps_exec_turn:
  assumes os: "realloc_ok os"
  shows "keeps_via (\<lambda>(go, i, vm). vm) vm (exec_turn os fuel defs i vm)"
proof -
  have c: "keeps_via (\<lambda>(go, i, vm). vm) v (exec_current os fuel defs p i v)" for v and p i
    unfolding exec_current_def
    by (rule keeps_via_bind [OF keeps_vm_decode])
      (auto split: prod.split intro!: keeps_via_bind [OF keeps_vm_exec [OF os]] keeps_via_step [OF keeps_after_instn])
  have e: "keeps_via snd vm (if procedures vm = [] then vm_fire_events os fuel vm else Some (1, vm))"
    by (simp add: keeps_vm_fire_events)
  show ?thesis
    unfolding exec_turn_def
    by (rule keeps_via_bind [OF e])
      (auto split: prod.split option.split intro!: keeps_via_bind [OF keeps_current] c)
qed

interpretation exec: loop_contract "\<lambda>vm vm'. realloc_ok os \<longrightarrow> keeps vm vm'" "exec_turn os fuel defs"
  for os fuel defs
proof unfold_locales
  show "realloc_ok os \<longrightarrow> keeps vm vm'" if "exec_turn os fuel defs i vm = Some (go, i', vm')" for i vm go i' vm'
    using keeps_exec_turn [of os vm fuel defs i] that by (auto simp: keeps_via_def)
qed (auto intro: keeps_trans)

section \<open>Why a machine stops\<close>

text \<open>A handler that fails on a well-formed machine leaves an exception.\<close>

definition fails_raising :: "(instn_t \<Rightarrow> 'w vm_t \<Rightarrow> (int \<times> 'w vm_t) option) \<Rightarrow> bool" where
  "fails_raising h \<longleftrightarrow> (\<forall>instn vm r vm'. vm_wf vm \<longrightarrow> h instn vm = Some (r, vm') \<longrightarrow> r < 0 \<longrightarrow>
     exceptions vm' \<noteq> 0)"

lemma fails_raisingI:
  "(\<And>instn vm r vm'. vm_wf vm \<Longrightarrow> h instn vm = Some (r, vm') \<Longrightarrow> r < 0 \<Longrightarrow> exceptions vm' \<noteq> 0) \<Longrightarrow>
     fails_raising h"
  by (simp add: fails_raising_def)

lemma or_neq_0: "e \<noteq> 0 \<Longrightarrow> (x :: 'a :: len word) OR e \<noteq> 0"
proof
  assume e: "e \<noteq> 0" and "x OR e = 0"
  then have "bit x n \<or> bit e n \<longleftrightarrow> False" for n by (metis bit_0_eq bit_or_iff bot_apply bot_bool_def)
  then have "e = 0" by (intro bit_eqI) auto
  with e show False by simp
qed

lemma exceptions_raise: "e \<noteq> 0 \<Longrightarrow> exceptions (raise e vm) \<noteq> 0"
  by (simp add: raise_def or_neq_0)

lemmas exception_codes = VM_E_Arithmetic_def VM_E_MemFault_def VM_E_BadInstnPointer_def VM_E_BadInstnCode_def
  VM_E_BadSyscallNo_def VM_E_AssertFailed_def

lemma deref_mem_None_raises:
  assumes "vm_wf vm" "sz \<noteq> 0" "deref_mem_ptr ref sz vm = (None, vm')"
  shows "exceptions vm' \<noteq> 0"
proof (cases "ref + sz > memsz vm")
  case True
  with assms(3) show ?thesis by (auto simp: deref_mem_ptr_def exception_codes exceptions_raise)
next
  case False
  with assms(3) have "mem_null vm" "ref = 0" by (auto simp: deref_mem_ptr_def mem_ptr_def split: if_splits)
  with assms(1) have "memsz vm = 0" by (auto simp: vm_wf_def unat_eq_zero)
  with False \<open>ref = 0\<close> assms(2) show ?thesis by (simp add: word_neq_0_conv)
qed

text \<open>What a successful dereference of a size that is not zero decides.\<close>

lemma deref_mem_cases:
  assumes "vm_wf vm" "sz \<noteq> 0"
  shows "(case deref_mem_ptr ref sz vm of (None, v) \<Rightarrow> Some (- 1, v) | (Some q, v) \<Rightarrow> f q v) = Some (r, vm') \<Longrightarrow>
     r < (0 :: int) \<Longrightarrow> (\<And>q v. f q v = Some (r, vm') \<Longrightarrow> 0 \<le> r) \<Longrightarrow> exceptions vm' \<noteq> 0"
  using deref_mem_None_raises [OF assms, of ref]
  by (fastforce split: prod.splits option.splits)

lemma store_result_fails: "store_result i v vm = Some (r, vm') \<Longrightarrow> r = 0"
  by (auto simp: store_result_def)

lemma shapes_raise:
  "fails_raising (op3 f)" "fails_raising (op2 f)" "fails_raising (op2' u)" "fails_raising (op1 u)"
  "fails_raising (logic3 g)" "fails_raising (logic2 g)"
  by (rule fails_raisingI; auto simp: op3_def op2_def op2'_def op1_def logic3_def logic2_def dest!: store_result_fails)+

lemma guard_raises: "fails_raising h \<Longrightarrow> fails_raising (guard_divisor i h)"
  by (rule fails_raisingI)
    (auto simp: guard_divisor_def fails_raising_def exceptions_raise exception_codes split: if_splits)

lemma op_read_raises: "(of_nat n :: u32) \<noteq> 0 \<Longrightarrow> fails_raising (op_read n)"
  by (rule fails_raisingI) (auto simp: op_read_def bind_eq_Some_conv dest!: deref_mem_cases [rotated 2])

lemma op_write_raises: "(of_nat n :: u32) \<noteq> 0 \<Longrightarrow> fails_raising (op_write n)"
  by (rule fails_raisingI) (auto simp: op_write_def bind_eq_Some_conv dest!: deref_mem_cases [rotated 2])

lemma run_arith_raises: "fails_raising (run_arith h)"
  by (cases h) (simp_all add: op_add_3_def op_add_2_def op_sub_3_def op_sub_2_def op_mul_3_def op_mul_2_def
      op_div_3_def op_div_2_def op_mod_3_def op_mod_2_def shapes_raise guard_raises)

lemma run_bitw_raises: "fails_raising (run_bitw h)"
  by (cases h) (simp_all add: op_and_3_def op_and_2_def op_or_3_def op_or_2_def op_xor_3_def op_xor_2_def
      op_not_2_def op_not_1_def op_shl_3_def op_shl_2_def op_shr_3_def op_shr_2_def shapes_raise)

lemma run_rel_raises: "fails_raising (run_rel h)"
  by (cases h) (simp_all add: op_eq_3_def op_ne_3_def op_gt_3_def op_lt_3_def op_ge_3_def op_le_3_def shapes_raise)

lemma run_logc_raises: "fails_raising (run_logc h)"
  by (cases h) (simp_all add: op_l_and_3_def op_l_and_2_def op_l_or_3_def op_l_or_2_def op_l_not_2_def
      op_l_not_1_def op_l_bool_2_def op_l_bool_1_def shapes_raise)

lemma run_misc_raises: "h \<noteq> H_abrt_1 \<Longrightarrow> fails_raising (run_misc h)"
proof (cases h)
  case H_nop_0
  then show ?thesis by (auto intro!: fails_raisingI simp: op_nop_0_def)
next
  case H_assert_2
  then show ?thesis
    by (auto intro!: fails_raisingI simp: op_assert_2_def exceptions_raise exception_codes split: if_splits)
next
  case H_cp_3
  then show ?thesis by (auto intro!: fails_raisingI simp: op_cp_3_def)
qed (simp_all add: op_read8_3_def op_read16_3_def op_read32_3_def op_read64_3_def
    op_write8_3_def op_write16_3_def op_write32_3_def op_write64_3_def op_read_raises op_write_raises)

lemma do_jump_raises: "do_jump ip vm = Some (r, vm') \<Longrightarrow> r < 0 \<Longrightarrow> exceptions vm' \<noteq> 0"
  by (auto simp: do_jump_def exceptions_raise exception_codes split: if_splits)

lemma run_ctrl_raises: "fails_raising (run_ctrl h)"
proof (cases h)
  case H_retv_1
  then show ?thesis
    by (auto intro!: fails_raisingI simp: op_retv_1_def exceptions_raise exception_codes bind_eq_Some_conv
        split: if_splits dest!: deref_mem_cases [rotated 2])
qed (auto intro!: fails_raisingI simp: op_jmp_1_def op_jtrue_2_def op_jfalse_2_def op_call_3_def op_ret_0_def
    op_argv_1_def Let_def split: if_splits dest: do_jump_raises)

lemma op_syscall_raises: "fails_raising (op_syscall_3 os fuel)"
  by (rule fails_raisingI)
    (auto simp: op_syscall_3_def Let_def bind_eq_Some_conv exceptions_raise exception_codes split: if_splits)

lemma run_handler_raises: "h \<noteq> Misc H_abrt_1 \<Longrightarrow> fails_raising (run_handler os fuel h)"
  by (cases h) (auto simp: run_arith_raises run_bitw_raises run_rel_raises run_logc_raises run_misc_raises
      run_ctrl_raises op_syscall_raises)

lemma decode_arg_raises:
  assumes "vm_wf vm" "decode_arg at i offset instn vm = Some (r, instn', vm')" "r < 0"
  shows "exceptions vm' \<noteq> 0"
proof (cases "is_imm instn i")
  case True
  with assms show ?thesis
    by (auto simp: decode_arg_imm bad_instn_ptr_def exceptions_raise exception_codes split: if_splits)
next
  case False
  show ?thesis
  proof (cases "past_bound at 4 vm")
    case True
    with False assms show ?thesis
      by (auto simp: decode_arg_ref bad_instn_ptr_def exceptions_raise exception_codes)
  next
    case bound: False
    then obtain ref where "(case deref_mem_ptr (of_nat ref) 4 vm of
             (None, vm) \<Rightarrow> (- 1, set_arg i (Imm 0) instn, vm)
           | (Some p, vm) \<Rightarrow> (int (offset + 4), set_arg i (Ref p) instn, vm)) = (r, instn', vm')"
      using False assms(2) by (auto simp: decode_arg_ref)
    with deref_mem_None_raises [OF assms(1), of 4 "of_nat ref"] assms(3) show ?thesis
      by (cases "deref_mem_ptr (of_nat ref) 4 vm") (auto split: option.splits)
  qed
qed

lemma decode_args_raises:
  "vm_wf vm \<Longrightarrow> decode_args at n i offset instn vm = Some (r, instn', vm') \<Longrightarrow> r < 0 \<Longrightarrow> exceptions vm' \<noteq> 0"
proof (induction n arbitrary: i offset instn vm)
  case (Suc n)
  then obtain r1 i1 v1 where 1: "decode_arg at i offset instn vm = Some (r1, i1, v1)"
    and 2: "(if r1 < 0 then Some (r1, i1, v1) else decode_args at n (i + 1) (nat r1) i1 v1) = Some (r, instn', vm')"
    by auto
  show ?case
  proof (cases "r1 < 0")
    case True
    with 2 decode_arg_raises [OF Suc.prems(1) 1] show ?thesis by simp
  next
    case False
    then have "v1 = vm" using decode_arg_frame [OF 1] by simp
    with False 2 Suc show ?thesis by simp
  qed
qed simp

lemma decode_instn_raises:
  "vm_wf vm \<Longrightarrow> decode_instn defs at i vm = Some (r, i', vm') \<Longrightarrow> r < 0 \<Longrightarrow> exceptions vm' \<noteq> 0"
  by (auto simp: decode_instn_def Let_def bad_instn_ptr_def exceptions_raise exception_codes bind_eq_Some_conv
      split: if_splits dest: decode_args_raises)

lemma vm_decode_raises:
  "vm_wf vm \<Longrightarrow> vm_decode_instn defs p i vm = Some (- 1, i', vm') \<Longrightarrow> exceptions vm' \<noteq> 0"
  by (auto simp: vm_decode_instn_def bind_eq_Some_conv vm_wf_def split: if_splits
      dest!: decode_instn_raises [rotated])

section \<open>Properties of the engine\<close>

lemma run_loop_steps:
  "run_loop (exec_turn os fuel defs) i vm = Some (i', vm') \<longleftrightarrow>
     (\<exists>b. (exec_step os fuel defs)\<^sup>*\<^sup>* (i, vm) b \<and> exec_stop os fuel defs b (i', vm'))"
proof -
  have eq: "exec_step os fuel defs = goes_on (exec_turn os fuel defs)"
    by (intro ext) (rule exec_step_turn)
  show ?thesis
    unfolding eq exec_stop_turn fst_conv snd_conv
    using run_loop_sound [of "exec_turn os fuel defs" i vm "(i', vm')"]
      run_loop_complete [of "exec_turn os fuel defs" "(i, vm)" _ i' vm']
    by auto
qed

text \<open>
  C8. \<open>execute_vm\<close> and the step relation agree: it returns exactly the states in which a chain of
  steps from the first one stops, cleaned up, and a machine with no such chain does not return.
\<close>

lemma execute_agrees:
  "execute_vm os fuel defs i vm = Some vm' \<longleftrightarrow>
     (\<exists>b i' vm1. (exec_step os fuel defs)\<^sup>*\<^sup>* (i, vm) b \<and> exec_stop os fuel defs b (i', vm1) \<and>
        cleanup_vm os fuel vm1 = Some vm')"
proof -
  have "execute_vm os fuel defs i vm = Some vm' \<longleftrightarrow>
      (\<exists>i' vm1. run_loop (exec_turn os fuel defs) i vm = Some (i', vm1) \<and> cleanup_vm os fuel vm1 = Some vm')"
    by (auto simp: execute_vm_def bind_eq_Some_conv)
  then show ?thesis unfolding run_loop_steps by blast
qed

text \<open>
  C9. Running a machine never changes its code, and keeps it well-formed: the memory has at
  least the size the bounds checks assume, whatever the program and the world do, provided
  \<open>realloc\<close> returns blocks of the size asked for.
\<close>

lemma execute_code_fixed:
  assumes os: "realloc_ok os" and wf: "vm_wf vm" and run: "execute_vm os fuel defs instn vm = Some vm'"
  shows "code vm' = code vm \<and> codesz vm' = codesz vm \<and> vm_wf vm'"
proof -
  obtain i vm1 where 1: "run_loop (exec_turn os fuel defs) instn vm = Some (i, vm1)"
    and 2: "cleanup_vm os fuel vm1 = Some vm'" using run by (auto simp: execute_vm_def)
  have "keeps vm vm1" using exec.R_loop [OF 1] os by blast
  then have "keeps vm vm'" using keeps_optD [OF keeps_cleanup_vm 2] by (rule keeps_trans)
  with wf show ?thesis by (simp add: keeps_def)
qed

text \<open>
  C10. A machine that stops while a procedure is running has an exception raised, unless its last
  instruction was \<open>abrt\<close>, which stops the machine even when asked to raise nothing.
\<close>

lemma stops_with_exception:
  assumes "vm_wf vm" "procedures vm \<noteq> []" "exec_stop os fuel defs (i, vm) (i', vm')"
  shows "exceptions vm' \<noteq> 0 \<or> handler (defs ! unat (drop_bit 3 (icode i'))) = Misc H_abrt_1"
proof -
  have v: "vm_wf vm2" if "vm_current_procedure vm1 = Some (Some p, vm2)" "ready os fuel vm vm1" for vm1 vm2 p
    using that assms(1,2)
    by (auto simp: ready_iff vm_current_procedure_def split: list.splits if_splits)
  from assms(3) show ?thesis
  proof cases
    case (finished n)
    with assms(2) show ?thesis by simp
  next
    case (bad_instn vm1 p vm2)
    then show ?thesis using v vm_decode_raises by blast
  next
    case (failed vm1 p vm2 vm3)
    have "keeps vm2 vm3" using keeps_vm_decode [of vm2 defs p i] failed(3) by (auto simp: keeps_via_def)
    then have w: "vm_wf vm3" using v [OF failed(2,1)] by (simp add: keeps_def)
    from failed(4) obtain r where
      "run_handler os fuel (handler (defs ! unat (drop_bit 3 (icode i')))) i' vm3 = Some (r, vm')" "r < 0"
      by (auto simp: vm_exec_instn_def Let_def split: if_splits)
    with run_handler_raises w show ?thesis unfolding fails_raising_def by blast
  qed
qed

definition opcode_at :: "proc_t \<Rightarrow> 'w vm_t \<Rightarrow> nat \<Rightarrow> bool" where
  "opcode_at p vm w \<longleftrightarrow> (\<exists>ps. procedures vm = p # ps) \<and> unat (p_iptr p) + 2 \<le> unat (codesz vm) \<and>
     load 2 (code vm) (unat (p_iptr p)) = Some w"

lemma decode_instn_icode:
  assumes d: "decode_instn defs q instn vm = Some (r, instn', vm')" "0 \<le> r" and w: "load 2 (code vm) q = Some w"
  shows "icode instn' = of_nat w"
proof -
  have "(\<exists>n s. decode_args q n 0 3 (instn\<lparr>icode := of_nat w, arg_sizes := s\<rparr>) vm = Some (r, instn', vm')) \<or>
      (\<exists>n. decode_args q n 0 2 (instn\<lparr>icode := of_nat w\<rparr>) vm = Some (r, instn', vm'))"
    using d w by (auto simp: decode_instn_def bad_instn_ptr_def Let_def bind_eq_Some_conv split: if_splits)
  then show ?thesis by (auto dest: decode_args_frame)
qed

lemma vm_decode_icode:
  assumes "vm_decode_instn defs p i vm = Some (d, i', vm')" "0 \<le> d" "opcode_at p vm w"
  shows "icode i' = of_nat w"
  using assms decode_instn_icode [of defs "unat (p_iptr p)" i "vm\<lparr>iptr := p_iptr p\<rparr>" _ i' _ w]
  by (fastforce simp: vm_decode_instn_def opcode_at_def split: if_splits)

lemma exec_turn_current:
  assumes "opcode_at p vm w"
  shows "exec_turn os fuel defs i vm = exec_current os fuel defs p i vm"
proof -
  obtain ps where ps: "procedures vm = p # ps" using assms by (auto simp: opcode_at_def)
  have "p_iptr p < codesz vm" using assms by (auto simp: opcode_at_def word_less_nat_alt)
  with ps show ?thesis by (simp add: exec_turn_def vm_current_procedure_def not_le [symmetric])
qed

lemma beyond_sentinel:
  assumes t: "instn_table defs" and p: "opcode_at p vm w" and w: "56 < w div 8 mod 256" "w < 2 ^ 16"
  shows "vm_decode_instn defs p i vm = Some (- 1, i, vm\<lparr>iptr := p_iptr p, exceptions := exceptions vm OR VM_E_BadInstnCode\<rparr>)"
proof -
  have c: "unat (of_nat w :: u16) = w" using w by (simp add: unat_of_nat)
  have idx: "unat (ucast (drop_bit 3 (of_nat w :: u16)) :: u8) = w div 8 mod 256"
    using c by (simp add: unsigned_ucast_eq unsigned_drop_bit_eq take_bit_eq_mod del: unsigned_of_nat)
      (simp add: drop_bit_eq_div)
  show ?thesis
    using p w table_length [OF t]
    by (simp add: vm_decode_instn_def decode_instn_def opcode_at_def past_bound_def idx nInstnDefs_def raise_def)
qed

lemma no_such_instn:
  assumes t: "instn_table defs" and p: "opcode_at p vm w" and w: "56 \<le> w div 8" "w < 2 ^ 16"
  shows "exec_turn os fuel defs i vm =
    (case vm_decode_instn defs p i vm of
       None \<Rightarrow> None
     | Some (d, i', vm') \<Rightarrow> if d < 0 then Some (False, i', vm') else None)"
proof (cases "vm_decode_instn defs p i vm")
  case None
  then show ?thesis by (simp add: exec_turn_current [OF p] exec_current_def)
next
  case (Some r)
  obtain d i' vm' where r: "r = (d, i', vm')" by (cases r)
  have "vm_exec_instn os fuel defs i' vm' = None" if "0 \<le> d"
  proof -
    have c: "icode i' = of_nat w" using vm_decode_icode [OF _ that p] Some r by blast
    have "unat (drop_bit 3 (of_nat w :: u16)) = drop_bit 3 (unat (of_nat w :: u16))"
      by (simp add: unsigned_drop_bit_eq take_bit_eq_mod)
    also have "unat (of_nat w :: u16) = w" using w by (simp add: unat_of_nat)
    finally have "unat (drop_bit 3 (icode i')) = w div 8" unfolding c by (simp add: drop_bit_eq_div)
    with w(1) table_length [OF t] show ?thesis by (simp add: vm_exec_instn_def nInstnDefs_def)
  qed
  with Some r show ?thesis by (simp add: exec_turn_current [OF p] exec_current_def)
qed

text \<open>
  C11. An opcode that is not in the table is never carried out: no turn goes on from it. The
  check of the decoder sees the low eight bits of its number: if these are behind the sentinel,
  the machine stops with \<open>VM_E_BadInstnCode\<close> and nothing else has happened; if not, the operands
  are decoded, and the machine stops when this fails and otherwise reads a handler that is not
  there, which is undefined.
\<close>

lemma bad_opcode_stops:
  assumes t: "instn_table defs" and p: "opcode_at p vm w" and w: "56 \<le> w div 8" "w < 2 ^ 16"
  shows "(\<nexists>b. exec_step os fuel defs (i, vm) b) \<and>
    (if 56 < w div 8 mod 256
     then exec_stop os fuel defs (i, vm) (i, vm\<lparr>iptr := p_iptr p, exceptions := exceptions vm OR VM_E_BadInstnCode\<rparr>)
     else exec_turn os fuel defs i vm =
       (case vm_decode_instn defs p i vm of
          None \<Rightarrow> None
        | Some (d, i', vm') \<Rightarrow> if d < 0 then Some (False, i', vm') else None))"
proof -
  note n = no_such_instn [OF t p w, of os fuel i]
  have "\<nexists>b. exec_step os fuel defs (i, vm) b"
    using n by (auto simp: exec_step_turn goes_on_def split: option.splits if_splits)
  moreover have "exec_stop os fuel defs (i, vm) (i, vm\<lparr>iptr := p_iptr p, exceptions := exceptions vm OR VM_E_BadInstnCode\<rparr>)"
    if "56 < w div 8 mod 256"
    using n beyond_sentinel [OF t p that w(2), of i] by (simp add: exec_stop_turn)
  ultimately show ?thesis using n by simp
qed

text \<open>
  The opcode right behind the last one, that of the sentinel, passes the check: it is decoded
  without operands, and executing it calls a null pointer.
\<close>

lemma sentinel_opcode_undefined:
  assumes t: "instn_table defs" and p: "opcode_at p vm (56 * 8)"
  shows "exec_turn os fuel defs i vm = None"
proof -
  from p obtain ps where ps: "procedures vm = p # ps" by (auto simp: opcode_at_def)
  have lt: "p_iptr p < codesz vm" using p by (auto simp: opcode_at_def word_less_nat_alt)
  have "vm_decode_instn defs p i vm = Some (0, i\<lparr>icode := 448\<rparr>,
      set_this_proc (p\<lparr>p_iptr := p_iptr p + 2\<rparr>) (vm\<lparr>iptr := p_iptr p\<rparr>))"
    using p table_length [OF t]
    by (simp add: vm_decode_instn_def decode_instn_def opcode_at_def past_bound_def nInstnDefs_def
        arg_count_at_def Let_def)
  then have "exec_current os fuel defs p i vm = None"
    using table_length [OF t] by (simp add: exec_current_def vm_exec_instn_def nInstnDefs_def)
  then show ?thesis
    using ps lt by (simp add: exec_turn_def vm_current_procedure_def not_le [symmetric])
qed

text \<open>
  A timer set for the address at the end of the code, which \<open>timeout\<close> accepts, breaks an idle
  machine when it expires: no procedure is made, the event is counted all the same, and the loop
  follows the null pointer of the empty list of procedures.
\<close>

lemma timer_at_end_undefined:
  assumes idle: "procedures vm = []" "n_io_events (io vm) = 0" "n_proc (vm_proc vm) = 0"
    and t: "timers_are vm [tmr]" "t_iptr tmr = codesz vm" "expires_at tmr \<le> clock_now os (world vm)"
  shows "exec_turn os fuel defs i vm = None"
proof -
  from fire_timer_events_fires [OF t(1) refl, of os] obtain ev vm' fired where
    f: "fire_timer_events os vm = Some (ev, vm')" "mset fired = {#tmr#}" "ev = of_nat (length fired)"
      "procedures vm' = procedures vm @ started (codesz vm) (map t_iptr fired)" "io vm' = io vm" "vm_proc vm' = vm_proc vm"
    using t(3) by auto
  then have [simp]: "fired = [tmr]" by (simp add: mset_single_iff)
  have "fire_vm_events os fuel vm = Some (1, vm')"
    using f idle by (cases fuel) (simp_all add: fire_vm_events_def fire_io_events_def fire_proc_events_def)
  moreover have "has_pending_events vm"
    using t(1) by (auto simp: has_pending_events_def has_pending_timer_events_def timers_are_def word_gt_0)
  moreover have "procedures vm' = []" using f idle t(2) by (simp add: started_def)
  ultimately show ?thesis
    using idle by (simp add: exec_turn_def vm_fire_events_def vm_current_procedure_def)
qed

section \<open>The properties at concrete machines\<close>

text \<open>A machine whose code is the instruction \<open>ret\<close>, and one whose opcode is out of range.\<close>

definition ret_vm :: "unit vm_t" where
  "ret_vm = make_vm [72, 1] 2 16 0 ()"

definition bad_vm :: "unit vm_t" where
  "bad_vm = make_vm [248, 7] 2 16 0 ()"

definition sentinel_vm :: "unit vm_t" where
  "sentinel_vm = make_vm [192, 1] 2 16 0 ()"

lemma std_ret: "arg_count (std_defs ! 41) = 0 \<and> handler (std_defs ! 41) = Ctrl H_ret_0"
  by code_simp

lemma nInstnDefs_std: "nInstnDefs std_defs = 56"
  using table_length [OF std_table] by (simp add: nInstnDefs_def)

lemmas small_vm_simps = ret_vm_def bad_vm_def sentinel_vm_def make_vm_def make_procedure_def Let_def

lemma small_vm_wf: "vm_wf ret_vm" "vm_wf bad_vm"
  by (simp_all add: vm_wf_def small_vm_simps)

lemma load_2: "load 2 [a, b] 0 = Some (unat (a :: u8) + 256 * unat b)"
  by (simp add: load_def numeral_2_eq_2)

lemma ret_turn:
  "exec_turn demo_os 0 std_defs no_instn ret_vm = Some (True, no_instn\<lparr>icode := 328\<rparr>,
     ret_vm\<lparr>procedures := [], iptr := 0, instns := 1, instns_since_last_cleanup := 1\<rparr>)"
  by (simp add: exec_turn_def vm_current_procedure_def exec_current_def vm_decode_instn_def decode_instn_def
      past_bound_def nInstnDefs_std arg_count_at_def std_ret vm_exec_instn_def op_ret_0_def this_proc_def
      set_this_proc_def delete_current_procedure_def after_instn_def count_instn_def VM_CLEANUP_PERIOD_INSTNS_def
      load_2 no_instn_def small_vm_simps)

lemma ret_done:
  "exec_turn demo_os 0 std_defs i (ret_vm\<lparr>procedures := [], iptr := 0, instns := 1, instns_since_last_cleanup := 1\<rparr>) =
     Some (False, i, ret_vm\<lparr>procedures := [], iptr := 0, instns := 1, instns_since_last_cleanup := 1\<rparr>)"
  by (simp add: exec_turn_def vm_fire_events_def has_pending_events_def has_pending_timer_events_def
      has_pending_io_events_def has_pending_proc_events_def small_vm_simps)

lemma ret_runs:
  "execute_vm demo_os 0 std_defs no_instn ret_vm =
     Some (ret_vm\<lparr>procedures := [], iptr := 0, instns := 1, instns_since_last_cleanup := 0\<rparr>)"
proof -
  have "run_loop (exec_turn demo_os 0 std_defs) no_instn ret_vm = Some (no_instn\<lparr>icode := 328\<rparr>,
      ret_vm\<lparr>procedures := [], iptr := 0, instns := 1, instns_since_last_cleanup := 1\<rparr>)"
    by (simp add: run_loop.simps [of _ no_instn ret_vm] ret_turn)
      (simp add: run_loop.simps [of _ "no_instn\<lparr>icode := 328\<rparr>"] ret_done)
  moreover have "cleanup_vm demo_os 0 (ret_vm\<lparr>procedures := [], iptr := 0, instns := 1, instns_since_last_cleanup := 1\<rparr>) =
      Some (ret_vm\<lparr>procedures := [], iptr := 0, instns := 1, instns_since_last_cleanup := 0\<rparr>)"
    by (simp add: cleanup_vm_def cleanup_child_proc_def fire_proc_events_def small_vm_simps)
  ultimately show ?thesis by (simp add: execute_vm_def)
qed

lemma execute_code_fixed_witness:
  "\<exists>vm'. execute_vm demo_os 0 std_defs no_instn ret_vm = Some vm' \<and> code vm' = [72, 1] \<and> vm_wf vm'"
  using execute_code_fixed [OF demo_os_ok(1) small_vm_wf(1) ret_runs] ret_runs
  by (simp add: small_vm_simps)

lemma opcode_small:
  "opcode_at \<lparr>p_iptr = 0, cstack = Null, cstack_sz = 0, cstack_alloc = 0\<rparr> bad_vm 2040"
  "opcode_at \<lparr>p_iptr = 0, cstack = Null, cstack_sz = 0, cstack_alloc = 0\<rparr> sentinel_vm (56 * 8)"
  by (simp_all add: opcode_at_def load_2 small_vm_simps)

lemma bad_opcode_stops_witness:
  "(\<nexists>b. exec_step demo_os 0 std_defs (no_instn, bad_vm) b) \<and> (\<nexists>b. exec_step demo_os 0 std_defs (no_instn, sentinel_vm) b) \<and>
   exec_stop demo_os 0 std_defs (no_instn, bad_vm)
     (no_instn, bad_vm\<lparr>iptr := 0, exceptions := exceptions bad_vm OR VM_E_BadInstnCode\<rparr>)"
  using bad_opcode_stops [OF std_table opcode_small(1), of demo_os 0 no_instn]
    bad_opcode_stops [OF std_table opcode_small(2), of demo_os 0 no_instn] by simp

lemma bad_vm_stop:
  "exec_stop demo_os 0 std_defs (no_instn, bad_vm)
     (no_instn, bad_vm\<lparr>iptr := 0, exceptions := exceptions bad_vm OR VM_E_BadInstnCode\<rparr>)"
  unfolding exec_stop_turn
  by (simp add: exec_turn_def vm_current_procedure_def exec_current_def vm_decode_instn_def decode_instn_def
      past_bound_def nInstnDefs_std raise_def load_2 small_vm_simps)

lemma stops_with_exception_witness:
  "\<exists>vm'. exec_stop demo_os 0 std_defs (no_instn, bad_vm) (no_instn, vm') \<and>
     (exceptions vm' \<noteq> 0 \<or> handler (std_defs ! unat (drop_bit 3 (icode no_instn))) = Misc H_abrt_1)"
proof -
  have "procedures bad_vm \<noteq> []" by (simp add: small_vm_simps)
  from stops_with_exception [OF small_vm_wf(2) this bad_vm_stop] bad_vm_stop show ?thesis by blast
qed

lemma sentinel_opcode_undefined_witness: "exec_turn demo_os 0 std_defs no_instn sentinel_vm = None"
  by (rule sentinel_opcode_undefined [OF std_table opcode_small(2)])

lemma timer_at_end_undefined_witness:
  "exec_turn demo_os 0 std_defs no_instn
     (ret_vm\<lparr>procedures := [], n_timers := 1, timers := Slots [Some \<lparr>expires_at = Timespec 1 0, t_iptr = 2\<rparr>]\<rparr>) = None"
  by (rule timer_at_end_undefined [where tmr = "\<lparr>expires_at = Timespec 1 0, t_iptr = 2\<rparr>"])
    (simp_all add: small_vm_simps timers_are_def clock_now_def demo_os_def less_eq_timespec_def)

end
