(* ===== verification/Image.thy ===== *)
theory Image
  imports VmState
begin

text \<open>
  Executable images (\<open>bytecode.h\<close>, \<open>bytecode.c\<close>): writing them, reading them back into a
  machine, and reading the debug data that may follow. The messages on the standard error are
  left out.
\<close>

section \<open>Streams\<close>

text \<open>
  A stream that is written is what it holds so far and the room that is left; a stream that is
  read is the bytes to come. \<open>fwrite(bs, length bs, 1, fp) == 1\<close> and
  \<open>fread(\<dots>, n, 1, fp) == 1\<close> hold when all bytes went through and there were any: for a size
  of zero both return zero. \<open>fwrite_items\<close> is the test on all of several items.
\<close>

record wfile =
  f_written :: "u8 list"
  f_room :: nat

definition fput :: "u8 list \<Rightarrow> wfile \<Rightarrow> wfile" where
  "fput bs f = f\<lparr>f_written := f_written f @ take (f_room f) bs, f_room := f_room f - length bs\<rparr>"

definition fwrite :: "u8 list \<Rightarrow> wfile \<Rightarrow> bool \<times> wfile" where
  "fwrite bs f = (bs \<noteq> [] \<and> length bs \<le> f_room f, fput bs f)"

definition fwrite_items :: "u8 list \<Rightarrow> wfile \<Rightarrow> bool \<times> wfile" where
  "fwrite_items bs f = (length bs \<le> f_room f, fput bs f)"

definition fread :: "nat \<Rightarrow> u8 list \<Rightarrow> (u8 list \<times> u8 list) option" where
  "fread n s = (if n \<noteq> 0 \<and> n \<le> length s then Some (take n s, drop n s) else None)"

definition fread_u16 :: "u8 list \<Rightarrow> (u16 \<times> u8 list) option" where
  "fread_u16 s = do { (bs, s) \<leftarrow> fread 2 s; Some (of_nat (le_nat bs), s) }"

definition fread_u32 :: "u8 list \<Rightarrow> (u32 \<times> u8 list) option" where
  "fread_u32 s = do { (bs, s) \<leftarrow> fread 4 s; Some (of_nat (le_nat bs), s) }"

section \<open>Images\<close>

definition BVGZ_IMG_MAGIC :: u16 where "BVGZ_IMG_MAGIC = 0xB0C5"
definition BVGZ_IMG_F_EXEC :: u16 where "BVGZ_IMG_F_EXEC = 1"
definition BVGZ_IMG_F_DEBUG :: u16 where "BVGZ_IMG_F_DEBUG = 2"

text \<open>
  The result is the machine and the rest of the stream, or \<^term>\<open>None\<close> for a null machine. The
  code is indeterminate (\<open>junk\<close>) until it is read.
\<close>

definition read_bvgz_image :: "u8 list \<Rightarrow> 'w \<Rightarrow> u8 list \<Rightarrow> ('w vm_t \<times> u8 list) option" where
  "read_bvgz_image junk w fp = do {
     (magic, fp) \<leftarrow> fread_u16 fp;
     if magic \<noteq> BVGZ_IMG_MAGIC then None else do {
     (fl, fp) \<leftarrow> fread_u16 fp;
     if fl AND BVGZ_IMG_F_EXEC = 0 then None else do {
     (entry_label, fp) \<leftarrow> fread_u32 fp;
     (csz, fp) \<leftarrow> fread_u32 fp;
     if csz = 0 then None else do {
     (msz, fp) \<leftarrow> fread_u32 fp;
     let vm = make_vm junk csz msz entry_label w;
     (bs, fp) \<leftarrow> fread (unat csz) fp;
     let vm = vm\<lparr>code := bs\<rparr>;
     if msz > 0 then do {
       (bs, fp) \<leftarrow> fread (unat msz) fp;
       Some (vm\<lparr>memory := bs\<rparr>, fp)
     } else Some (vm, fp)
   }}}}"

text \<open>
  \<open>if (fwrite(\<dots>) != 1) return -1;\<close> and what follows. Writing more bytes than the block has
  is undefined.
\<close>

definition or_fail :: "bool \<times> wfile \<Rightarrow> (wfile \<Rightarrow> (int \<times> wfile) option) \<Rightarrow> (int \<times> wfile) option" where
  "or_fail r k = (if fst r then k (snd r) else Some (- 1, snd r))"

definition take_exactly :: "u32 \<Rightarrow> u8 list \<Rightarrow> u8 list option" where
  "take_exactly n bs = (if unat n \<le> length bs then Some (take (unat n) bs) else None)"

definition write_bvgz_image_direct ::
  "u8 list \<Rightarrow> u32 \<Rightarrow> u8 list \<Rightarrow> u32 \<Rightarrow> u32 \<Rightarrow> u16 \<Rightarrow> wfile \<Rightarrow> (int \<times> wfile) option" where
  "write_bvgz_image_direct cd csz mem msz entry_label fl fp =
     or_fail (fwrite (le_bytes 2 (unat BVGZ_IMG_MAGIC)) fp) (\<lambda>fp.
     or_fail (fwrite (le_bytes 2 (unat fl)) fp) (\<lambda>fp.
     or_fail (fwrite (le_bytes 4 (unat entry_label)) fp) (\<lambda>fp.
     or_fail (fwrite (le_bytes 4 (unat csz)) fp) (\<lambda>fp.
     or_fail (fwrite (le_bytes 4 (unat msz)) fp) (\<lambda>fp. do {
       c \<leftarrow> take_exactly csz cd;
       or_fail (fwrite c fp) (\<lambda>fp.
         if msz > 0 then do {
           m \<leftarrow> take_exactly msz mem;
           or_fail (fwrite m fp) (\<lambda>fp. Some (0, fp))
         } else Some (0, fp))
     })))))"

section \<open>Debug data\<close>

record vm_debug_data_t =
  n_code_lines :: u32
  n_mem_lines :: u32
  n_labels :: u32
  n_files :: u32
  strtab_sz :: u32
  dbg_data :: "u8 list"

text \<open>The size of what follows the header; only its low 32 bits count.\<close>

definition dbg_rest_size :: "u32 \<Rightarrow> u32 \<Rightarrow> u32 \<Rightarrow> u32 \<Rightarrow> u32 \<Rightarrow> u32" where
  "dbg_rest_size nc nm nl nf ns = 16 * (nc + nm) + 4 * (nl + nf) + ns"

definition read_bvgz_debug_data :: "u8 list \<Rightarrow> vm_debug_data_t option" where
  "read_bvgz_debug_data fp = do {
     (h, fp) \<leftarrow> fread 20 fp;
     let word = (\<lambda>i. of_nat (le_nat (take 4 (drop (4 * i) h))) :: u32);
     (bs, fp) \<leftarrow> fread (unat (dbg_rest_size (word 0) (word 1) (word 2) (word 3) (word 4))) fp;
     Some \<lparr>n_code_lines = word 0, n_mem_lines = word 1, n_labels = word 2, n_files = word 3,
           strtab_sz = word 4, dbg_data = bs\<rparr>
   }"

section \<open>The format\<close>

definition image_bytes :: "u16 \<Rightarrow> u32 \<Rightarrow> u8 list \<Rightarrow> u8 list \<Rightarrow> u8 list" where
  "image_bytes fl entry cd mem =
     le_bytes 2 (unat BVGZ_IMG_MAGIC) @ le_bytes 2 (unat fl) @ le_bytes 4 (unat entry) @
     le_bytes 4 (length cd) @ le_bytes 4 (length mem) @ cd @ mem"

lemma le_nat_u16 [simp]: "of_nat (le_nat (le_bytes 2 (unat (x :: u16)))) = x"
  by (simp add: word_unat_eq_iff unat_of_nat)

lemma le_nat_u32 [simp]: "of_nat (le_nat (le_bytes 4 (unat (x :: u32)))) = x"
  by (simp add: word_unat_eq_iff unat_of_nat)

lemma fread_append: "length bs = n \<Longrightarrow> n \<noteq> 0 \<Longrightarrow> fread n (bs @ s) = Some (bs, s)"
  by (simp add: fread_def)

lemma fread_Some: "fread n s = Some (bs, s') \<longleftrightarrow> n \<noteq> 0 \<and> length bs = n \<and> s = bs @ s'"
  by (auto simp: fread_def)

lemma fread_u16_append [simp]: "fread_u16 (le_bytes 2 (unat (x :: u16)) @ s) = Some (x, s)"
  by (simp add: fread_u16_def fread_append)

lemma fread_u32_append [simp]: "fread_u32 (le_bytes 4 (unat (x :: u32)) @ s) = Some (x, s)"
  by (simp add: fread_u32_def fread_append)

lemma fread_u16_Some: "fread_u16 s = Some (x, s') \<longleftrightarrow> s = le_bytes 2 (unat x) @ s'"
proof
  assume "fread_u16 s = Some (x, s')"
  then obtain bs where b: "length bs = 2" "s = bs @ s'" "x = of_nat (le_nat bs)"
    by (auto simp: fread_u16_def bind_eq_Some_conv fread_Some)
  have "unat x = le_nat bs" using le_nat_bound [of bs] b by (simp add: unat_of_nat)
  then have "le_bytes 2 (unat x) = bs" using b(1) by (simp add: le_bytes_le_nat)
  then show "s = le_bytes 2 (unat x) @ s'" using b(2) by simp
qed simp

lemma fread_u32_Some: "fread_u32 s = Some (x, s') \<longleftrightarrow> s = le_bytes 4 (unat x) @ s'"
proof
  assume "fread_u32 s = Some (x, s')"
  then obtain bs where b: "length bs = 4" "s = bs @ s'" "x = of_nat (le_nat bs)"
    by (auto simp: fread_u32_def bind_eq_Some_conv fread_Some)
  have "unat x = le_nat bs" using le_nat_bound [of bs] b by (simp add: unat_of_nat)
  then have "le_bytes 4 (unat x) = bs" using b(1) by (simp add: le_bytes_le_nat)
  then show "s = le_bytes 4 (unat x) @ s'" using b(2) by simp
qed simp

section \<open>Reading and writing\<close>

lemma fwrite_ok: "bs \<noteq> [] \<Longrightarrow> length bs \<le> f_room f \<Longrightarrow>
    fwrite bs f = (True, \<lparr>f_written = f_written f @ bs, f_room = f_room f - length bs\<rparr>)"
  by (cases f) (simp add: fwrite_def fput_def)

lemma le_bytes_unat_of_nat: "n < 2 ^ 32 \<Longrightarrow> le_bytes 4 (unat (of_nat n :: u32)) = le_bytes 4 n"
  by (simp add: unat_of_nat)

lemma length_image: "length (image_bytes fl entry cd mem) = 16 + length cd + length mem"
  by (simp add: image_bytes_def)

lemma write_image:
  assumes "cd \<noteq> []" "length cd < 2 ^ 32" "length mem < 2 ^ 32"
    and "length (image_bytes fl entry cd mem) \<le> f_room f"
  shows "write_bvgz_image_direct cd (of_nat (length cd)) mem (of_nat (length mem)) entry fl f =
    Some (0, \<lparr>f_written = f_written f @ image_bytes fl entry cd mem,
              f_room = f_room f - length (image_bytes fl entry cd mem)\<rparr>)"
proof -
  have l: "unat (of_nat (length cd) :: u32) = length cd" "unat (of_nat (length mem) :: u32) = length mem"
    using assms by (simp_all add: unat_of_nat)
  have m0: "(of_nat (length mem) :: u32) > 0 \<longleftrightarrow> mem \<noteq> []"
    using l(2) by (auto simp: word_gt_0_no word_less_nat_alt)
  show ?thesis
    using assms(1,4) l m0
    by (simp add: write_bvgz_image_direct_def or_fail_def fwrite_ok take_exactly_def length_image image_bytes_def
        add.assoc del: unsigned_of_nat)
qed

definition loaded_vm :: "u8 list \<Rightarrow> 'w \<Rightarrow> u32 \<Rightarrow> u8 list \<Rightarrow> u8 list \<Rightarrow> 'w vm_t" where
  "loaded_vm junk w entry cd mem =
     (make_vm junk (of_nat (length cd)) (of_nat (length mem)) entry w)\<lparr>code := cd, memory := mem\<rparr>"

lemma read_image:
  assumes "cd \<noteq> []" "length cd < 2 ^ 32" "length mem < 2 ^ 32" "fl AND BVGZ_IMG_F_EXEC \<noteq> 0"
  shows "read_bvgz_image junk w (image_bytes fl entry cd mem @ rest) = Some (loaded_vm junk w entry cd mem, rest)"
proof -
  have l: "unat (of_nat (length cd) :: u32) = length cd" "unat (of_nat (length mem) :: u32) = length mem"
    using assms by (simp_all add: unat_of_nat)
  have m0: "(of_nat (length mem) :: u32) > 0 \<longleftrightarrow> mem \<noteq> []"
    using l by (auto simp: word_less_nat_alt simp del: unsigned_of_nat)
  have c0: "(of_nat (length cd) :: u32) \<noteq> 0"
    using l(1) assms(1) by (metis length_0_conv unsigned_0)
  have h: "fread_u32 (le_bytes 4 (length cd) @ s) = Some (of_nat (length cd), s)"
      "fread_u32 (le_bytes 4 (length mem) @ s) = Some (of_nat (length mem), s)" for s
    using fread_u32_append [of "of_nat (length cd)" s] fread_u32_append [of "of_nat (length mem)" s] l
    by (simp_all del: unsigned_of_nat fread_u32_append)
  have e: "memory (make_vm junk csz 0 entry w) = []" for csz
    by (simp add: make_vm_def make_procedure_def raise_def Let_def)
  show ?thesis
    using assms(1,4) l m0 c0 e
    by (auto simp: read_bvgz_image_def image_bytes_def h fread_append loaded_vm_def Let_def simp del: unsigned_of_nat)
qed

lemma read_image_only:
  assumes "read_bvgz_image junk w s = Some (vm, rest)"
  shows "\<exists>fl entry cd mem. s = image_bytes fl entry cd mem @ rest \<and> fl AND BVGZ_IMG_F_EXEC \<noteq> 0 \<and>
    cd \<noteq> [] \<and> length cd < 2 ^ 32 \<and> length mem < 2 ^ 32"
proof -
  have tail: "\<exists>mem. s6 = mem @ rest \<and> length mem = unat msz"
    if "(if msz > 0 then do { (bs, fp) \<leftarrow> fread (unat msz) s6; Some (v\<lparr>memory := bs\<rparr>, fp) } else Some (v, s6)) =
        Some (vm, rest)" for msz s6 and v :: "'a vm_t"
    using that by (cases "msz > 0") (auto simp: bind_eq_Some_conv fread_Some word_gt_0)
  from assms obtain s1 fl s2 entry s3 csz s4 msz s5 cd s6 where
    1: "s = le_bytes 2 (unat BVGZ_IMG_MAGIC) @ s1" "s1 = le_bytes 2 (unat fl) @ s2" "fl AND BVGZ_IMG_F_EXEC \<noteq> 0"
      "s2 = le_bytes 4 (unat entry) @ s3" "s3 = le_bytes 4 (unat csz) @ s4" "csz \<noteq> 0"
      "s4 = le_bytes 4 (unat msz) @ s5" "length cd = unat csz" "s5 = cd @ s6"
    and 2: "(if msz > 0 then do { (bs, fp) \<leftarrow> fread (unat msz) s6;
          Some ((make_vm junk csz msz entry w)\<lparr>code := cd, memory := bs\<rparr>, fp) }
        else Some ((make_vm junk csz msz entry w)\<lparr>code := cd\<rparr>, s6)) = Some (vm, rest)"
    by (auto simp: read_bvgz_image_def bind_eq_Some_conv fread_u16_Some fread_u32_Some fread_Some Let_def
        simp del: if_splits(1) split: if_split_asm)
  from tail [OF 2] obtain mem where mem: "s6 = mem @ rest" "length mem = unat msz" by blast
  have "length cd < 2 ^ 32" "length mem < 2 ^ 32"
    using 1(8) mem(2) unsigned_less [of csz] unsigned_less [of msz] by simp_all
  moreover have "cd \<noteq> []" using 1(6,8) by (auto simp: unat_eq_zero)
  moreover have "s = image_bytes fl entry cd mem @ rest" using 1 mem by (simp add: image_bytes_def)
  ultimately show ?thesis using 1(3) by blast
qed

text \<open>
  C27. What is written is read back: an image written with the executable flag and room enough is
  loaded as a machine with the code, the memory and the entry point it was written with, and
  whatever follows it in the stream is left to read.
\<close>

lemma image_roundtrip:
  assumes "cd \<noteq> []" "length cd < 2 ^ 32" "length mem < 2 ^ 32" "fl AND BVGZ_IMG_F_EXEC \<noteq> 0"
    and "16 + length cd + length mem \<le> room"
  shows "\<exists>f. write_bvgz_image_direct cd (of_nat (length cd)) mem (of_nat (length mem)) entry fl
      \<lparr>f_written = [], f_room = room\<rparr> = Some (0, f) \<and>
    read_bvgz_image junk w (f_written f @ rest) = Some (loaded_vm junk w entry cd mem, rest)"
  using assms write_image [of cd mem fl entry "\<lparr>f_written = [], f_room = room\<rparr>"] read_image [OF assms(1-4)]
  by (simp add: length_image)

lemma image_roundtrip_witness:
  "\<exists>f. write_bvgz_image_direct [72, 1] 2 [7] 1 0 BVGZ_IMG_F_EXEC \<lparr>f_written = [], f_room = 100\<rparr> = Some (0, f) \<and>
     read_bvgz_image [] () (f_written f @ [9]) = Some (loaded_vm [] () 0 [72, 1] [7], [9])"
  using image_roundtrip [of "[72, 1]" "[7]" BVGZ_IMG_F_EXEC 100 0 "[]" "()" "[9]"]
  by (simp add: BVGZ_IMG_F_EXEC_def)

text \<open>
  C28. A stream is loaded exactly when it starts with an image in the format, executable and with
  code; the machine is then the one of that image. Everything else is rejected.
\<close>

lemma read_image_iff:
  "read_bvgz_image junk w s = Some (vm, rest) \<longleftrightarrow>
     (\<exists>fl entry cd mem. s = image_bytes fl entry cd mem @ rest \<and> fl AND BVGZ_IMG_F_EXEC \<noteq> 0 \<and>
        cd \<noteq> [] \<and> length cd < 2 ^ 32 \<and> length mem < 2 ^ 32 \<and> vm = loaded_vm junk w entry cd mem)"
proof
  assume r: "read_bvgz_image junk w s = Some (vm, rest)"
  from read_image_only [OF this] obtain fl entry cd mem where
    "s = image_bytes fl entry cd mem @ rest" "fl AND BVGZ_IMG_F_EXEC \<noteq> 0" "cd \<noteq> []" "length cd < 2 ^ 32" "length mem < 2 ^ 32"
    by blast
  with r read_image show "\<exists>fl entry cd mem. s = image_bytes fl entry cd mem @ rest \<and> fl AND BVGZ_IMG_F_EXEC \<noteq> 0 \<and>
        cd \<noteq> [] \<and> length cd < 2 ^ 32 \<and> length mem < 2 ^ 32 \<and> vm = loaded_vm junk w entry cd mem"
    by (metis Pair_inject option.inject)
qed (auto simp: read_image)

end
