(* ===== verification/Asm.thy ===== *)
theory Asm
  imports HashMap InstnDefs
begin

text \<open>
  The result of parsing an assembly file (\<open>parser.h\<close>): instructions with their operands,
  labels, the memory built from the data directives, and references to labels from there.

  File names are pointers that the code compares as pointers: they are addresses here, and a
  map from addresses to strings stands for what they point to as long as it lives.
\<close>

section \<open>Operands and instructions\<close>

datatype arg_type = T_ARG_IMM | T_ARG_REF_NUM | T_ARG_REF_LBL | T_ARG_IMM_LBL

text \<open>The union of a value and a label.\<close>

datatype arg_data = Value u64 | Label string

record prs_arg_t =
  a_type :: arg_type
  n_bytes :: u8
  a_data :: arg_data

text \<open>The array of operands has as many elements as the definition has operands.\<close>

record prs_instn_t =
  i_filename :: nat
  i_lineno :: u32
  i_def :: instn_def_t
  i_args :: "prs_arg_t list"
  mem_offset :: u32

record label_t =
  l_filename :: nat
  l_lineno :: u32
  l_offset :: u32
  is_mem_ref :: bool

record label_ref_t =
  r_filename :: nat
  r_lineno :: u32
  r_label :: string
  r_size :: u32
  write_offset :: u32

text \<open>
  The table of labels maps names to label blocks. The list of references is kept in the order of
  the code, the latest first.
\<close>

record prs_result_t =
  pr_files :: u32
  errors :: u32
  warnings :: u32
  pr_instns :: "prs_instn_t list"
  pr_memory :: "u8 list"
  pr_memsz :: u32
  mem_alloc :: u32
  labels :: "label_t hashmap_map"
  label_refs :: "label_ref_t list"

definition n_instns :: "prs_result_t \<Rightarrow> u32" where
  "n_instns r = of_nat (length (pr_instns r))"

text \<open>\<open>hmap_get\<close> into a pointer that was null: a missing label leaves it null.\<close>

definition find_label :: "prs_result_t \<Rightarrow> string \<Rightarrow> label_t option" where
  "find_label r l = snd (hmap_get (labels r) l)"

end
