(* ===== verification/BytecodeGen.thy ===== *)
theory BytecodeGen
  imports Asm Bytecode
begin

text \<open>
  The generation of byte code from parsed instructions (\<open>bytecode_gen.c\<close>), and its two
  correctness theorems: the code is the concatenation of the encodings of the instructions, and
  decoding such an encoding gives the instruction back.
\<close>

section \<open>The layout of an instruction\<close>

definition nlog2 :: "u8 \<Rightarrow> u8" where
  "nlog2 n = (if n = 1 then 0 else if n = 2 then 1 else if n = 4 then 2 else 3)"

definition imm_type :: "arg_type \<Rightarrow> bool" where
  "imm_type t \<longleftrightarrow> t = T_ARG_IMM \<or> t = T_ARG_IMM_LBL"

fun layout_args :: "nat \<Rightarrow> prs_arg_t list \<Rightarrow> u32 \<times> u16 \<times> u8 \<Rightarrow> u32 \<times> u16 \<times> u8" where
  "layout_args j [] acc = acc"
| "layout_args j (a # as) (sz, OpIR, ISz) =
     layout_args (j + 1) as
       (sz + ucast (n_bytes a),
        if imm_type (a_type a) then OpIR OR push_bit j 1 else OpIR,
        if imm_type (a_type a) then ISz OR push_bit (2 * j) (nlog2 (n_bytes a)) else ISz)"

definition compute_layout :: "prs_instn_t \<Rightarrow> u32 \<times> u16 \<times> u8" where
  "compute_layout instn =
     (let (sz, OpIR, ISz) = layout_args 0 (i_args instn) (2, push_bit 3 (opcode (i_def instn)), 0) in
      (if OpIR AND 7 \<noteq> 0 then sz + 1 else sz, OpIR, ISz))"

section \<open>The buffer\<close>

definition BUF_BLOCK_SIZE :: u32 where "BUF_BLOCK_SIZE = 256"

text \<open>
  The buffer grows by blocks until it has \<open>need\<close> bytes. The product is a 32-bit one, so a
  need of more than \<open>2 ^ 32 - 256\<close> bytes makes the loop run for ever.
\<close>

partial_function (option) grow_buffer :: "u32 \<Rightarrow> u32 \<Rightarrow> u8 block \<Rightarrow> (u32 \<times> u8 block) option" where
  "grow_buffer need n_blocks buffer =
     (if need > n_blocks * BUF_BLOCK_SIZE then do {
        buffer \<leftarrow> blk_realloc 1 (unat ((n_blocks + 1) * BUF_BLOCK_SIZE)) buffer;
        grow_buffer need (n_blocks + 1) buffer
      } else Some (n_blocks, buffer))"

fun blk_puts :: "'a block \<Rightarrow> nat \<Rightarrow> 'a list \<Rightarrow> 'a block option" where
  "blk_puts b p [] = Some b"
| "blk_puts b p (x # xs) = do { b \<leftarrow> blk_write b p x; blk_puts b (p + 1) xs }"

definition write_num_ref_arg :: "u8 block \<Rightarrow> u32 \<Rightarrow> u64 \<Rightarrow> (u32 \<times> u8 block) option" where
  "write_num_ref_arg buffer offset v = do {
     b \<leftarrow> blk_puts buffer (unat offset) (le_bytes 4 (unat v));
     Some (offset + 4, b)
   }"

definition write_imm32bit :: "u8 block \<Rightarrow> u32 \<Rightarrow> u32 \<Rightarrow> (u32 \<times> u8 block) option" where
  "write_imm32bit buffer offset v = do {
     b \<leftarrow> blk_puts buffer (unat offset) (le_bytes 4 (unat v));
     Some (offset + 4, b)
   }"

definition write_imm_arg :: "u8 block \<Rightarrow> u32 \<Rightarrow> u8 \<Rightarrow> u64 \<Rightarrow> (u32 \<times> u8 block) option" where
  "write_imm_arg buffer offset n v =
     (if n = 1 then do { b \<leftarrow> blk_puts buffer (unat offset) (le_bytes 1 (unat v)); Some (offset + 1, b) }
      else if n = 2 then do { b \<leftarrow> blk_puts buffer (unat offset) (le_bytes 2 (unat v)); Some (offset + 2, b) }
      else if n = 4 then write_imm32bit buffer offset (ucast v)
      else do { b \<leftarrow> blk_puts buffer (unat offset) (le_bytes 8 (unat v)); Some (offset + 8, b) })"

section \<open>Operands\<close>

text \<open>
  The references to be filled in later are pairs of an offset and an instruction, the array of
  \<open>struct ref\<close>. An operand whose data is of the other member of the union is not read.
\<close>

definition add_delayed_ref :: "(u32 \<times> u32) list \<Rightarrow> u32 \<Rightarrow> u32 \<Rightarrow> (u32 \<times> u32) list" where
  "add_delayed_ref refs offset instn = refs @ [(offset, instn)]"

definition write_arg ::
  "prs_result_t \<Rightarrow> prs_instn_t list \<Rightarrow> nat \<Rightarrow> prs_arg_t \<Rightarrow> u8 block \<Rightarrow> u32 \<Rightarrow> (u32 \<times> u32) list \<Rightarrow>
    (u32 \<times> u8 block \<times> (u32 \<times> u32) list) option" where
  "write_arg parse xs cur a buffer offset refs =
     (case (a_type a, a_data a) of
        (T_ARG_REF_NUM, Value v) \<Rightarrow> do {
          (offset, b) \<leftarrow> write_num_ref_arg buffer offset v;
          Some (offset, b, refs)
        }
      | (T_ARG_IMM, Value v) \<Rightarrow> do {
          (offset, b) \<leftarrow> write_imm_arg buffer offset (n_bytes a) v;
          Some (offset, b, refs)
        }
      | (T_ARG_REF_NUM, Label _) \<Rightarrow> None
      | (T_ARG_IMM, Label _) \<Rightarrow> None
      | (_, Value _) \<Rightarrow> None
      | (_, Label l) \<Rightarrow> do {
          lbl \<leftarrow> find_label parse l;
          if is_mem_ref lbl then do {
            (offset, b) \<leftarrow> write_imm32bit buffer offset (l_offset lbl);
            Some (offset, b, refs)
          } else if unat (l_offset lbl) \<le> cur then do {
            (offset, b) \<leftarrow> write_imm32bit buffer offset (mem_offset (xs ! unat (l_offset lbl)));
            Some (offset, b, refs)
          } else Some (offset + 4, buffer, add_delayed_ref refs offset (l_offset lbl))
        })"

fun write_args ::
  "prs_result_t \<Rightarrow> prs_instn_t list \<Rightarrow> nat \<Rightarrow> prs_arg_t list \<Rightarrow> u8 block \<Rightarrow> u32 \<Rightarrow> (u32 \<times> u32) list \<Rightarrow>
    (u32 \<times> u8 block \<times> (u32 \<times> u32) list) option" where
  "write_args parse xs cur [] buffer offset refs = Some (offset, buffer, refs)"
| "write_args parse xs cur (a # as) buffer offset refs = do {
     (offset, buffer, refs) \<leftarrow> write_arg parse xs cur a buffer offset refs;
     write_args parse xs cur as buffer offset refs
   }"

section \<open>Instructions\<close>

record gen_t =
  g_instns :: "prs_instn_t list"
  g_buffer :: "u8 block"
  n_blocks :: u32
  g_offset :: u32
  delayed_refs :: "(u32 \<times> u32) list"

text \<open>
  The loop over the preceding instructions left out of the code: they get the offset of this
  one, so that labels at them lead here.
\<close>

fun backfill :: "nat \<Rightarrow> u32 \<Rightarrow> prs_instn_t list \<Rightarrow> prs_instn_t list" where
  "backfill 0 offset xs = xs"
| "backfill (Suc j) offset xs =
     (if mem_offset (xs ! j) = - 1 then backfill j offset (xs[j := (xs ! j)\<lparr>mem_offset := offset\<rparr>]) else xs)"

definition left_out :: "bool \<Rightarrow> prs_instn_t \<Rightarrow> bool" where
  "left_out debug_mode instn \<longleftrightarrow> flags (i_def instn) AND F_Debug_Only_Instn \<noteq> 0 \<and> \<not> debug_mode"

definition gen_instn :: "prs_result_t \<Rightarrow> bool \<Rightarrow> nat \<Rightarrow> gen_t \<Rightarrow> gen_t option" where
  "gen_instn parse debug_mode i g =
     (let instn = g_instns g ! i in
      if left_out debug_mode instn then Some g
      else let (sz, OpIR, ISz) = compute_layout instn; offset = g_offset g in do {
        (nb, b) \<leftarrow> grow_buffer (offset + sz) (n_blocks g) (g_buffer g);
        let xs = backfill i offset ((g_instns g)[i := instn\<lparr>mem_offset := offset\<rparr>]);
        b \<leftarrow> blk_puts b (unat offset) (le_bytes 2 (unat OpIR));
        let offset = offset + 2;
        (offset, b) \<leftarrow> (if OpIR AND 7 \<noteq> 0 then do {
                           b \<leftarrow> blk_write b (unat offset) ISz;
                           Some (offset + 1, b)
                         } else Some (offset, b));
        (offset, b, refs) \<leftarrow> write_args parse xs i (i_args instn) b offset (delayed_refs g);
        Some \<lparr>g_instns = xs, g_buffer = b, n_blocks = nb, g_offset = offset, delayed_refs = refs\<rparr>
      })"

fun gen_instns :: "prs_result_t \<Rightarrow> bool \<Rightarrow> nat \<Rightarrow> nat \<Rightarrow> gen_t \<Rightarrow> gen_t option" where
  "gen_instns parse debug_mode 0 i g = Some g"
| "gen_instns parse debug_mode (Suc n) i g = do {
     g \<leftarrow> gen_instn parse debug_mode i g;
     gen_instns parse debug_mode n (i + 1) g
   }"

text \<open>A label at the end of the file is a reference to an instruction that does not exist: undefined.\<close>

fun patch_refs :: "prs_instn_t list \<Rightarrow> (u32 \<times> u32) list \<Rightarrow> u8 block \<Rightarrow> u8 block option" where
  "patch_refs xs [] b = Some b"
| "patch_refs xs ((offset, k) # refs) b =
     (if unat k < length xs then do {
        (_, b) \<leftarrow> write_imm32bit b offset (mem_offset (xs ! unat k));
        patch_refs xs refs b
      } else None)"

text \<open>The instructions with their offsets, the buffer and the size of the code. A parse with errors is an assertion failure.\<close>

definition parse_to_bytecode ::
  "prs_result_t \<Rightarrow> bool \<Rightarrow> (prs_instn_t list \<times> u8 block \<times> u32) option" where
  "parse_to_bytecode parse debug_mode =
     (if errors parse \<noteq> 0 then None
      else do {
        g \<leftarrow> gen_instns parse debug_mode (length (pr_instns parse)) 0
          \<lparr>g_instns = pr_instns parse, g_buffer = Null, n_blocks = 0, g_offset = 0, delayed_refs = []\<rparr>;
        b \<leftarrow> patch_refs (g_instns g) (delayed_refs g) (g_buffer g);
        Some (g_instns g, b, g_offset g)
      })"

section \<open>The buffer as a partial map\<close>

lemma blk_puts_correct:
  "p + length xs \<le> blk_slots b \<Longrightarrow> b \<noteq> Freed \<Longrightarrow>
     \<exists>b'. blk_puts b p xs = Some b' \<and> blk_slots b' = blk_slots b \<and> b' \<noteq> Freed \<and>
       (\<forall>q. blk_read b' q = (if p \<le> q \<and> q < p + length xs then Some (xs ! (q - p)) else blk_read b q))"
proof (induction xs arbitrary: p b)
  case Nil
  then show ?case by (intro exI [of _ b]) (simp, linarith)
next
  case (Cons x xs)
  then obtain b1 where b1: "blk_write b p x = Some b1" using blk_write_Some [of p b x] by auto
  have f: "b1 \<noteq> Freed" using b1 by (cases b) (auto split: if_splits)
  from Cons.IH [of "p + 1" b1] Cons.prems b1 f obtain b' where
    b': "blk_puts b1 (p + 1) xs = Some b'" "blk_slots b' = blk_slots b" "b' \<noteq> Freed"
      "\<forall>q. blk_read b' q = (if p + 1 \<le> q \<and> q < p + 1 + length xs then Some (xs ! (q - (p + 1))) else blk_read b1 q)"
    by auto
  have "blk_read b' q = (if p \<le> q \<and> q < p + length (x # xs) then Some ((x # xs) ! (q - p)) else blk_read b q)" for q
    using b'(4) [rule_format, of q] blk_read_write [OF b1, of q] by (cases "q = p") (auto simp: nth_Cons')
  moreover have "blk_puts b p (x # xs) = Some b'" using b1 b'(1) by simp
  ultimately show ?case using b'(2,3) by blast
qed

lemma grow_buffer_correct:
  assumes "unat need \<le> 2 ^ 32 - 256" "blk_slots b = 256 * unat nb" "b \<noteq> Freed" "256 * unat nb < 2 ^ 32"
  shows "\<exists>nb' b'. grow_buffer need nb b = Some (nb', b') \<and> blk_slots b' = 256 * unat nb' \<and> b' \<noteq> Freed \<and>
    unat need \<le> blk_slots b' \<and> 256 * unat nb' < 2 ^ 32 \<and> blk_slots b \<le> blk_slots b' \<and>
    (\<forall>q < blk_slots b. blk_read b' q = blk_read b q)"
  using assms
proof (induction "2 ^ 32 - 256 * unat nb" arbitrary: nb b rule: less_induct)
  case less
  have nb: "unat (nb * BUF_BLOCK_SIZE) = 256 * unat nb"
    using less.prems(4) by (simp add: BUF_BLOCK_SIZE_def unat_word_ariths)
  show ?case
  proof (cases "need > nb * BUF_BLOCK_SIZE")
    case False
    then have "unat need \<le> 256 * unat nb" using nb by (simp add: word_le_nat_alt not_less)
    with False less.prems show ?thesis by (simp add: grow_buffer.simps [of need nb])
  next
    case True
    then have lt: "256 * unat nb < unat need" using nb by (simp add: word_less_nat_alt)
    then have n1: "unat (nb + 1) = unat nb + 1"
      using less.prems(1) by (simp add: unat_word_ariths)
    have m1: "unat ((nb + 1) * BUF_BLOCK_SIZE) = 256 * (unat nb + 1)"
      using lt less.prems(1) n1 by (simp add: BUF_BLOCK_SIZE_def unat_word_ariths)
    obtain b1 where b1: "blk_realloc 1 (unat ((nb + 1) * BUF_BLOCK_SIZE)) b = Some b1"
      using less.prems(3) by (cases b) auto
    have s1: "blk_slots b1 = 256 * unat (nb + 1)" using blk_slots_realloc [OF b1] m1 n1 by simp
    have f1: "b1 \<noteq> Freed" using b1 by (cases b) auto
    have r1: "blk_read b1 q = blk_read b q" if "q < blk_slots b" for q
      using blk_read_realloc [OF b1 that] that m1 less.prems(2) by simp
    have "\<exists>nb' b'. grow_buffer need (nb + 1) b1 = Some (nb', b') \<and> blk_slots b' = 256 * unat nb' \<and> b' \<noteq> Freed \<and>
        unat need \<le> blk_slots b' \<and> 256 * unat nb' < 2 ^ 32 \<and> blk_slots b1 \<le> blk_slots b' \<and>
        (\<forall>q < blk_slots b1. blk_read b' q = blk_read b1 q)"
      by (rule less.hyps) (use lt less.prems n1 s1 f1 in simp_all)
    then obtain nb' b' where g: "grow_buffer need (nb + 1) b1 = Some (nb', b')" "blk_slots b' = 256 * unat nb'"
        "b' \<noteq> Freed" "unat need \<le> blk_slots b'" "256 * unat nb' < 2 ^ 32" "blk_slots b1 \<le> blk_slots b'"
        "\<forall>q < blk_slots b1. blk_read b' q = blk_read b1 q" by blast
    have "blk_slots b \<le> blk_slots b1" using s1 n1 less.prems(2) by simp
    moreover have "grow_buffer need nb b = Some (nb', b')"
      using True b1 g(1) by (simp add: grow_buffer.simps [of need nb])
    ultimately show ?thesis using g r1 by fastforce
  qed
qed

section \<open>The encoding of an instruction\<close>

definition op_ir :: "prs_instn_t \<Rightarrow> u16" where
  "op_ir i = fst (snd (compute_layout i))"

definition i_sz :: "prs_instn_t \<Rightarrow> u8" where
  "i_sz i = snd (snd (compute_layout i))"

definition arg_val :: "(string \<Rightarrow> u32) \<Rightarrow> prs_arg_t \<Rightarrow> u64" where
  "arg_val res a = (case a_data a of Value v \<Rightarrow> v | Label l \<Rightarrow> ucast (res l))"

definition enc_arg :: "(string \<Rightarrow> u32) \<Rightarrow> prs_arg_t \<Rightarrow> u8 list" where
  "enc_arg res a = le_bytes (unat (n_bytes a)) (unat (arg_val res a))"

definition enc_instn :: "(string \<Rightarrow> u32) \<Rightarrow> prs_instn_t \<Rightarrow> u8 list" where
  "enc_instn res i = le_bytes 2 (unat (op_ir i)) @ (if op_ir i AND 7 \<noteq> 0 then [i_sz i] else []) @
     concat (map (enc_arg res) (i_args i))"

definition isize :: "prs_instn_t \<Rightarrow> nat" where
  "isize i = 2 + (if op_ir i AND 7 \<noteq> 0 then 1 else 0) + sum_list (map (\<lambda>a. unat (n_bytes a)) (i_args i))"

lemma length_enc_args: "length (concat (map (enc_arg res) as)) = sum_list (map (\<lambda>a. unat (n_bytes a)) as)"
  by (induction as) (simp_all add: enc_arg_def)

lemma length_enc_instn [simp]: "length (enc_instn res i) = isize i"
  by (simp add: enc_instn_def isize_def length_enc_args)

text \<open>What the parser guarantees of an operand.\<close>

definition arg_wf :: "prs_result_t \<Rightarrow> prs_arg_t \<Rightarrow> bool" where
  "arg_wf parse a \<longleftrightarrow>
     (case a_data a of
        Value v \<Rightarrow> a_type a = T_ARG_IMM \<and> n_bytes a \<in> {1, 2, 4, 8} \<or> a_type a = T_ARG_REF_NUM \<and> n_bytes a = 4
      | Label l \<Rightarrow> (a_type a = T_ARG_REF_LBL \<or> a_type a = T_ARG_IMM_LBL) \<and> n_bytes a = 4 \<and>
          (\<exists>lbl. find_label parse l = Some lbl \<and>
             (\<not> is_mem_ref lbl \<longrightarrow> unat (l_offset lbl) < length (pr_instns parse))))"

definition instn_wf :: "prs_result_t \<Rightarrow> prs_instn_t \<Rightarrow> bool" where
  "instn_wf parse i \<longleftrightarrow> length (i_args i) = arg_count (i_def i) \<and> length (i_args i) \<le> 3 \<and>
     unat (opcode (i_def i)) < 2 ^ 13 \<and> mem_offset i = - 1 \<and> (\<forall>a \<in> set (i_args i). arg_wf parse a)"

definition n_bytes_ok :: "prs_arg_t \<Rightarrow> bool" where
  "n_bytes_ok a \<longleftrightarrow> n_bytes a \<in> {1, 2, 4, 8}"

lemma arg_wf_bytes: "arg_wf parse a \<Longrightarrow> n_bytes_ok a"
  by (auto simp: arg_wf_def n_bytes_ok_def split: arg_data.splits)

lemma unat_u8_lt: "unat (x :: u8) < 256"
proof -
  have "unat x < 2 ^ LENGTH(8)" by (rule unsigned_less)
  then show ?thesis by simp
qed

lemma layout_args_size:
  "unat (fst (layout_args j as (sz, ir, isz))) = (unat sz + sum_list (map (\<lambda>a. unat (n_bytes a)) as)) mod 2 ^ 32"
proof (induction as arbitrary: j sz ir isz)
  case (Cons a as)
  have "unat (ucast (n_bytes a) :: u32) = unat (n_bytes a)"
    by (simp add: unsigned_ucast_eq take_bit_nat_eq_self_iff unat_u8_lt less_trans [OF unat_u8_lt])
  then show ?case by (simp add: Cons unat_word_ariths mod_simps add.assoc)
qed (simp add: unat_u32_lt)

lemma sum_bytes_le: "(\<And>a. a \<in> set as \<Longrightarrow> n_bytes_ok a) \<Longrightarrow> sum_list (map (\<lambda>a. unat (n_bytes a)) as) \<le> 8 * length as"
  by (induction as) (fastforce simp: n_bytes_ok_def)+

lemma instn_wf_bytes: "instn_wf parse i \<Longrightarrow> sum_list (map (\<lambda>a. unat (n_bytes a)) (i_args i)) \<le> 24"
  using sum_bytes_le [of "i_args i"] arg_wf_bytes by (fastforce simp: instn_wf_def)

lemma isize_bound: "instn_wf parse i \<Longrightarrow> isize i \<le> 27"
  using instn_wf_bytes [of parse i] by (simp add: isize_def)

lemma compute_layout_wf:
  assumes "instn_wf parse i"
  shows "compute_layout i = (of_nat (isize i), op_ir i, i_sz i)"
proof -
  obtain sz ir iz where l: "layout_args 0 (i_args i) (2, push_bit 3 (opcode (i_def i)), 0) = (sz, ir, iz)"
    by (metis prod_cases3)
  have s: "unat sz = 2 + sum_list (map (\<lambda>a. unat (n_bytes a)) (i_args i))"
    using layout_args_size [of 0 "i_args i" 2 "push_bit 3 (opcode (i_def i))" 0] l instn_wf_bytes [OF assms] by simp
  have ir: "op_ir i = ir" "i_sz i = iz" by (simp_all add: op_ir_def i_sz_def compute_layout_def l)
  have "(if ir AND 7 \<noteq> 0 then sz + 1 else sz) = of_nat (isize i)"
    using s instn_wf_bytes [OF assms] by (simp add: isize_def ir word_unat_eq_iff unat_word_ariths)
  then show ?thesis using ir by (simp add: compute_layout_def l)
qed

section \<open>Where the instructions end up\<close>

definition code_off :: "bool \<Rightarrow> prs_instn_t list \<Rightarrow> nat \<Rightarrow> nat" where
  "code_off dbg xs i = sum_list (map isize (filter (\<lambda>x. \<not> left_out dbg x) (take i xs)))"

text \<open>The offset of an instruction: that of the next one in the code, if there is one.\<close>

definition off_before :: "bool \<Rightarrow> prs_instn_t list \<Rightarrow> nat \<Rightarrow> nat \<Rightarrow> u32" where
  "off_before dbg xs i j = (if \<exists>k. j \<le> k \<and> k < i \<and> \<not> left_out dbg (xs ! k) then of_nat (code_off dbg xs j) else - 1)"

definition final_off :: "bool \<Rightarrow> prs_instn_t list \<Rightarrow> nat \<Rightarrow> u32" where
  "final_off dbg xs j = off_before dbg xs (length xs) j"

definition resolve :: "bool \<Rightarrow> prs_result_t \<Rightarrow> string \<Rightarrow> u32" where
  "resolve dbg parse l =
     (case find_label parse l of
        None \<Rightarrow> 0
      | Some lbl \<Rightarrow> if is_mem_ref lbl then l_offset lbl
                    else final_off dbg (pr_instns parse) (unat (l_offset lbl)))"

definition full_code :: "bool \<Rightarrow> prs_result_t \<Rightarrow> u8 list" where
  "full_code dbg parse =
     concat (map (enc_instn (resolve dbg parse)) (filter (\<lambda>x. \<not> left_out dbg x) (pr_instns parse)))"

lemma code_off_Suc:
  "i < length xs \<Longrightarrow> code_off dbg xs (Suc i) = code_off dbg xs i + (if left_out dbg (xs ! i) then 0 else isize (xs ! i))"
  by (simp add: code_off_def take_Suc_conv_app_nth)

lemma length_full_code: "length (full_code dbg parse) = code_off dbg (pr_instns parse) (length (pr_instns parse))"
  by (simp add: full_code_def code_off_def length_concat comp_def)

lemma code_off_mono: "i \<le> j \<Longrightarrow> code_off dbg xs i \<le> code_off dbg xs j"
proof -
  assume "i \<le> j"
  then have "take j xs = take i xs @ take (j - i) (drop i xs)" by (metis add_diff_inverse_nat not_less take_add)
  then show ?thesis by (simp add: code_off_def)
qed

lemma full_code_slice:
  assumes i: "i < length (pr_instns parse)" "\<not> left_out dbg (pr_instns parse ! i)"
  shows "\<exists>post. drop (code_off dbg (pr_instns parse) i) (full_code dbg parse) =
    enc_instn (resolve dbg parse) (pr_instns parse ! i) @ post"
proof -
  let ?xs = "pr_instns parse" and ?e = "enc_instn (resolve dbg parse)"
  have s: "filter (\<lambda>x. \<not> left_out dbg x) ?xs = filter (\<lambda>x. \<not> left_out dbg x) (take i ?xs) @
      ?xs ! i # filter (\<lambda>x. \<not> left_out dbg x) (drop (Suc i) ?xs)"
    using i by (subst id_take_nth_drop [OF i(1)]) (simp add: min_def)
  have l: "length (concat (map ?e (filter (\<lambda>x. \<not> left_out dbg x) (take i ?xs)))) = code_off dbg ?xs i"
    by (simp add: length_concat code_off_def comp_def)
  show ?thesis unfolding full_code_def s by (simp add: l [symmetric])
qed

section \<open>Holes\<close>

text \<open>
  Up to \<open>hi\<close> the buffer holds the code, except where a reference is still to be written; such
  a reference is inside, and the code has there the offset of the instruction it is for.
\<close>

definition covered :: "u8 list \<Rightarrow> u8 block \<Rightarrow> (u32 \<times> u32) list \<Rightarrow> nat \<Rightarrow> bool" where
  "covered cd b refs hi \<longleftrightarrow> (\<forall>q < hi. blk_read b q = Some (cd ! q) \<or>
     (\<exists>(o', k) \<in> set refs. unat o' \<le> q \<and> q < unat o' + 4))"

definition refs_ok :: "(nat \<Rightarrow> u32) \<Rightarrow> nat \<Rightarrow> u8 list \<Rightarrow> (u32 \<times> u32) list \<Rightarrow> nat \<Rightarrow> bool" where
  "refs_ok off n cd refs hi \<longleftrightarrow> (\<forall>(o', k) \<in> set refs. unat o' + 4 \<le> hi \<and> unat k < n \<and>
     (\<forall>j < 4. cd ! (unat o' + j) = le_bytes 4 (unat (off (unat k))) ! j))"

lemma covered_write:
  assumes "covered cd b refs hi"
    and r: "\<forall>q. blk_read b' q = (if hi \<le> q \<and> q < hi + length xs then Some (xs ! (q - hi)) else blk_read b q)"
    and c: "\<And>j. j < length xs \<Longrightarrow> cd ! (hi + j) = xs ! j"
  shows "covered cd b' refs (hi + length xs)"
  unfolding covered_def
proof (intro allI impI)
  fix q assume q: "q < hi + length xs"
  show "blk_read b' q = Some (cd ! q) \<or> (\<exists>(o', k) \<in> set refs. unat o' \<le> q \<and> q < unat o' + 4)"
  proof (cases "q < hi")
    case True
    with assms(1) r show ?thesis by (simp add: covered_def)
  next
    case False
    with c [of "q - hi"] q r show ?thesis by simp
  qed
qed

lemma refs_ok_mono: "refs_ok off n cd refs hi \<Longrightarrow> hi \<le> hi' \<Longrightarrow> refs_ok off n cd refs hi'"
  by (fastforce simp: refs_ok_def)

lemma covered_delay:
  assumes "covered cd b refs hi" "hi < 2 ^ 32"
  shows "covered cd b (refs @ [(of_nat hi, k)]) (hi + 4)"
  unfolding covered_def
proof (intro allI impI)
  fix q assume "q < hi + 4"
  with assms show "blk_read b q = Some (cd ! q) \<or>
      (\<exists>(o', k) \<in> set (refs @ [(of_nat hi, k)]). unat o' \<le> q \<and> q < unat o' + 4)"
    by (cases "q < hi") (auto simp: covered_def)
qed

lemma patch_refs_correct:
  assumes "covered cd b refs hi" "refs_ok off n cd refs hi" "hi \<le> blk_slots b" "b \<noteq> Freed" "length ys = n"
    and "\<And>j. j < n \<Longrightarrow> mem_offset (ys ! j) = off j"
  shows "\<exists>b'. patch_refs ys refs b = Some b' \<and> (\<forall>q < hi. blk_read b' q = Some (cd ! q))"
  using assms
proof (induction refs arbitrary: b)
  case Nil
  then show ?case by (simp add: covered_def)
next
  case (Cons r refs)
  obtain p k where [simp]: "r = (p, k)" by (cases r)
  have k: "unat k < n" and p: "unat p + 4 \<le> hi"
    and c: "\<And>j. j < 4 \<Longrightarrow> cd ! (unat p + j) = le_bytes 4 (unat (off (unat k))) ! j"
    using Cons.prems(2) by (simp_all add: refs_ok_def)
  have "unat p + length (le_bytes 4 (unat (off (unat k)))) \<le> blk_slots b" using p Cons.prems(3) by simp
  from blk_puts_correct [OF this Cons.prems(4)] obtain b1 where
    b1: "blk_puts b (unat p) (le_bytes 4 (unat (off (unat k)))) = Some b1" "blk_slots b1 = blk_slots b" "b1 \<noteq> Freed"
      "\<forall>q. blk_read b1 q = (if unat p \<le> q \<and> q < unat p + 4 then Some (le_bytes 4 (unat (off (unat k))) ! (q - unat p))
         else blk_read b q)"
    by auto
  have "covered cd b1 refs hi"
    unfolding covered_def
  proof (intro allI impI)
    fix q assume q: "q < hi"
    show "blk_read b1 q = Some (cd ! q) \<or> (\<exists>(o', k) \<in> set refs. unat o' \<le> q \<and> q < unat o' + 4)"
    proof (cases "unat p \<le> q \<and> q < unat p + 4")
      case True
      then have "q - unat p < 4" "unat p + (q - unat p) = q" by auto
      with c [of "q - unat p"] b1(4) True show ?thesis by simp
    next
      case False
      with b1(4) [rule_format, of q] have "blk_read b1 q = blk_read b q" by (simp only: if_False)
      with False q Cons.prems(1) show ?thesis by (auto simp: covered_def)
    qed
  qed
  moreover have "refs_ok off n cd refs hi" using Cons.prems(2) by (simp add: refs_ok_def)
  ultimately obtain b' where "patch_refs ys refs b1 = Some b'" "\<forall>q < hi. blk_read b' q = Some (cd ! q)"
    using Cons.IH [of b1] Cons.prems b1 by auto
  moreover have "write_imm32bit b p (mem_offset (ys ! unat k)) = Some (p + 4, b1)"
    using b1(1) Cons.prems(6) [OF k] by (simp add: write_imm32bit_def)
  ultimately show ?case using k Cons.prems(5) by auto
qed

section \<open>Writing operands\<close>

lemma le_bytes_low32: "le_bytes 4 (unat (ucast (v :: u64) :: u32)) = le_bytes 4 (unat v)"
  using le_bytes_mod [of 4 "unat v"] by (simp add: unat_ucast_u64_u32)

lemma bind_Some_Pair: "Option.bind m (\<lambda>b. Some (p, b)) = map_option (Pair p) m"
  by (cases m) simp_all

lemma write_imm_arg_bytes:
  assumes "n \<in> {1, 2, 4, 8}"
  shows "write_imm_arg b p n v = map_option (Pair (p + ucast n)) (blk_puts b (unat p) (le_bytes (unat n) (unat v)))"
proof -
  consider "n = 1" | "n = 2" | "n = 4" | "n = 8" using assms by blast
  then show ?thesis
    by cases (simp_all add: write_imm_arg_def write_imm32bit_def le_bytes_low32 bind_Some_Pair del: le_bytes.simps)
qed

definition buf_ok :: "bool \<Rightarrow> prs_result_t \<Rightarrow> u8 block \<Rightarrow> (u32 \<times> u32) list \<Rightarrow> nat \<Rightarrow> bool" where
  "buf_ok dbg parse b refs hi \<longleftrightarrow> covered (full_code dbg parse) b refs hi \<and>
     refs_ok (final_off dbg (pr_instns parse)) (length (pr_instns parse)) (full_code dbg parse) refs hi \<and>
     b \<noteq> Freed \<and> blk_slots b < 2 ^ 32"

lemma buf_ok_puts:
  assumes ok: "buf_ok dbg parse b refs hi" and s: "hi + length bs \<le> blk_slots b"
    and c: "\<And>j. j < length bs \<Longrightarrow> full_code dbg parse ! (hi + j) = bs ! j"
  shows "\<exists>b'. blk_puts b (unat (of_nat hi :: u32)) bs = Some b' \<and> buf_ok dbg parse b' refs (hi + length bs) \<and>
    blk_slots b' = blk_slots b"
proof -
  have h: "unat (of_nat hi :: u32) = hi" using ok s by (simp add: buf_ok_def)
  from blk_puts_correct [OF s] ok obtain b' where b': "blk_puts b hi bs = Some b'" "blk_slots b' = blk_slots b"
      "b' \<noteq> Freed" "\<forall>q. blk_read b' q = (if hi \<le> q \<and> q < hi + length bs then Some (bs ! (q - hi)) else blk_read b q)"
    by (auto simp: buf_ok_def)
  have "covered (full_code dbg parse) b' refs (hi + length bs)"
    by (rule covered_write [OF _ b'(4) c]) (use ok in \<open>simp_all add: buf_ok_def\<close>)
  moreover have "refs_ok (final_off dbg (pr_instns parse)) (length (pr_instns parse)) (full_code dbg parse) refs (hi + length bs)"
    by (rule refs_ok_mono [of _ _ _ _ hi]) (use ok in \<open>simp_all add: buf_ok_def\<close>)
  moreover have "blk_slots b' < 2 ^ 32" using b'(2) ok by (simp add: buf_ok_def)
  ultimately show ?thesis using b'(1-3) unfolding h buf_ok_def by blast
qed

text \<open>A label, whose value is written when it is known and is noted for later when it is not.\<close>

lemma write_label_arg:
  assumes t: "a_type a = T_ARG_REF_LBL \<or> a_type a = T_ARG_IMM_LBL" and Label: "a_data a = Label l" and n: "n_bytes a = 4"
    and lbl: "find_label parse l = Some lbl" "\<not> is_mem_ref lbl \<Longrightarrow> unat (l_offset lbl) < length (pr_instns parse)"
    and hi: "hi + 4 \<le> blk_slots b" and ok: "buf_ok dbg parse b refs hi"
    and c: "\<And>j. j < 4 \<Longrightarrow> full_code dbg parse ! (hi + j) = le_bytes 4 (unat (resolve dbg parse l)) ! j"
    and b1: "blk_puts b (unat (of_nat hi :: u32)) (le_bytes 4 (unat (resolve dbg parse l))) = Some b1"
      "buf_ok dbg parse b1 refs (hi + 4)" "blk_slots b1 = blk_slots b"
    and bk: "\<And>j. j \<le> cur \<Longrightarrow> mem_offset (ys ! j) = final_off dbg (pr_instns parse) j"
  shows "\<exists>b' refs'. write_arg parse ys cur a b (of_nat hi) refs = Some (of_nat (hi + 4), b', refs') \<and>
    buf_ok dbg parse b' refs' (hi + 4) \<and> blk_slots b' = blk_slots b"
proof -
  have w: "write_imm32bit b (of_nat hi) (resolve dbg parse l) = Some (of_nat hi + 4, b1)"
    using b1(1) by (simp add: write_imm32bit_def)
  have r: "resolve dbg parse l = (if is_mem_ref lbl then l_offset lbl else final_off dbg (pr_instns parse) (unat (l_offset lbl)))"
    by (simp add: resolve_def lbl(1))
  show ?thesis
  proof (cases "is_mem_ref lbl \<or> unat (l_offset lbl) \<le> cur")
    case True
    then have "write_arg parse ys cur a b (of_nat hi) refs = Some (of_nat hi + 4, b1, refs)"
      using t Label lbl(1) w bk r by (auto simp: write_arg_def)
    then show ?thesis using b1 by simp
  next
    case False
    have h: "unat (of_nat hi :: u32) = hi" "hi < 2 ^ 32" using ok hi by (simp_all add: buf_ok_def)
    have "buf_ok dbg parse b (refs @ [(of_nat hi, l_offset lbl)]) (hi + 4)"
      using ok covered_delay [of _ b refs hi "l_offset lbl"] h c lbl(2) r False refs_ok_mono [of _ _ _ refs hi "hi + 4"]
      by (auto simp: buf_ok_def refs_ok_def)
    moreover have "write_arg parse ys cur a b (of_nat hi) refs = Some (of_nat hi + 4, b, refs @ [(of_nat hi, l_offset lbl)])"
      using t Label lbl(1) False by (auto simp: write_arg_def add_delayed_ref_def)
    ultimately show ?thesis by simp
  qed
qed

lemma write_arg_correct:
  assumes wf: "arg_wf parse a" and s: "hi + unat (n_bytes a) \<le> blk_slots b" and ok: "buf_ok dbg parse b refs hi"
    and c: "\<And>j. j < unat (n_bytes a) \<Longrightarrow> full_code dbg parse ! (hi + j) = enc_arg (resolve dbg parse) a ! j"
    and bk: "\<And>j. j \<le> cur \<Longrightarrow> mem_offset (ys ! j) = final_off dbg (pr_instns parse) j"
  shows "\<exists>b' refs'. write_arg parse ys cur a b (of_nat hi) refs = Some (of_nat (hi + unat (n_bytes a)), b', refs') \<and>
    buf_ok dbg parse b' refs' (hi + unat (n_bytes a)) \<and> blk_slots b' = blk_slots b"
proof -
  let ?bs = "enc_arg (resolve dbg parse) a"
  have l: "length ?bs = unat (n_bytes a)" by (simp add: enc_arg_def)
  obtain b1 where b1: "blk_puts b (unat (of_nat hi :: u32)) ?bs = Some b1" "buf_ok dbg parse b1 refs (hi + unat (n_bytes a))"
      "blk_slots b1 = blk_slots b"
    using buf_ok_puts [OF ok, of ?bs] s c l by auto
  show ?thesis
  proof (cases "a_data a")
    case (Value v)
    then consider "a_type a = T_ARG_IMM" "n_bytes a \<in> {1, 2, 4, 8}" | "a_type a = T_ARG_REF_NUM" "n_bytes a = 4"
      using wf by (auto simp: arg_wf_def)
    then show ?thesis
    proof cases
      case 1
      have "of_nat hi + ucast (n_bytes a) = (of_nat (hi + unat (n_bytes a)) :: u32)" using 1(2) by auto
      then show ?thesis using 1 Value b1
        by (simp add: write_arg_def write_imm_arg_bytes [OF 1(2)] enc_arg_def arg_val_def)
    next
      case 2
      then show ?thesis using Value b1
        by (simp add: write_arg_def write_num_ref_arg_def enc_arg_def arg_val_def)
    qed
  next
    case (Label l)
    then have t: "a_type a = T_ARG_REF_LBL \<or> a_type a = T_ARG_IMM_LBL" and n: "n_bytes a = 4"
      using wf by (auto simp: arg_wf_def)
    obtain lbl where lbl: "find_label parse l = Some lbl"
        "\<not> is_mem_ref lbl \<Longrightarrow> unat (l_offset lbl) < length (pr_instns parse)"
      using wf Label by (auto simp: arg_wf_def)
    have e: "?bs = le_bytes 4 (unat (resolve dbg parse l))" by (simp add: enc_arg_def n arg_val_def Label)
    show ?thesis
      using write_label_arg [OF t Label n lbl _ ok _ _ _ _ bk, of b1] s c b1 by (simp add: n e)
  qed
qed

lemma write_args_correct:
  assumes "\<And>a. a \<in> set as \<Longrightarrow> arg_wf parse a"
    and "hi + sum_list (map (\<lambda>a. unat (n_bytes a)) as) \<le> blk_slots b" "buf_ok dbg parse b refs hi"
    and "\<And>j. j < sum_list (map (\<lambda>a. unat (n_bytes a)) as) \<Longrightarrow>
      full_code dbg parse ! (hi + j) = concat (map (enc_arg (resolve dbg parse)) as) ! j"
    and bk: "\<And>j. j \<le> cur \<Longrightarrow> mem_offset (ys ! j) = final_off dbg (pr_instns parse) j"
  shows "\<exists>b' refs'. write_args parse ys cur as b (of_nat hi) refs =
      Some (of_nat (hi + sum_list (map (\<lambda>a. unat (n_bytes a)) as)), b', refs') \<and>
    buf_ok dbg parse b' refs' (hi + sum_list (map (\<lambda>a. unat (n_bytes a)) as)) \<and> blk_slots b' = blk_slots b"
  using assms(1-4)
proof (induction as arbitrary: hi b refs)
  case Nil
  then show ?case by simp
next
  case (Cons a as)
  have l: "length (enc_arg (resolve dbg parse) a) = unat (n_bytes a)" by (simp add: enc_arg_def)
  have "full_code dbg parse ! (hi + j) = enc_arg (resolve dbg parse) a ! j" if "j < unat (n_bytes a)" for j
    using Cons.prems(4) [of j] that l by (simp add: nth_append)
  moreover have "arg_wf parse a" "hi + unat (n_bytes a) \<le> blk_slots b" using Cons.prems(1,2) by auto
  ultimately obtain b1 refs1 where
    1: "write_arg parse ys cur a b (of_nat hi) refs = Some (of_nat (hi + unat (n_bytes a)), b1, refs1)"
      "buf_ok dbg parse b1 refs1 (hi + unat (n_bytes a))" "blk_slots b1 = blk_slots b"
    using write_arg_correct [OF _ _ Cons.prems(3) _ bk, where a = a] by blast
  have c: "full_code dbg parse ! (hi + unat (n_bytes a) + j) = concat (map (enc_arg (resolve dbg parse)) as) ! j"
    if "j < sum_list (map (\<lambda>a. unat (n_bytes a)) as)" for j
    using Cons.prems(4) [of "unat (n_bytes a) + j"] that l by (simp add: nth_append add.assoc)
  have s: "hi + unat (n_bytes a) + sum_list (map (\<lambda>a. unat (n_bytes a)) as) \<le> blk_slots b1"
    using Cons.prems(2) 1(3) by simp
  from Cons.IH [OF _ s 1(2) c] Cons.prems(1) obtain b2 refs2 where
    "write_args parse ys cur as b1 (of_nat (hi + unat (n_bytes a))) refs1 =
       Some (of_nat (hi + unat (n_bytes a) + sum_list (map (\<lambda>a. unat (n_bytes a)) as)), b2, refs2)"
    "buf_ok dbg parse b2 refs2 (hi + unat (n_bytes a) + sum_list (map (\<lambda>a. unat (n_bytes a)) as))"
    "blk_slots b2 = blk_slots b1"
    by auto
  with 1 show ?case by (simp add: add.assoc)
qed

section \<open>Generating the code\<close>

lemma full_code_nth:
  assumes "i < length (pr_instns parse)" "\<not> left_out dbg (pr_instns parse ! i)" "j < isize (pr_instns parse ! i)"
  shows "full_code dbg parse ! (code_off dbg (pr_instns parse) i + j) =
    enc_instn (resolve dbg parse) (pr_instns parse ! i) ! j"
proof -
  have "code_off dbg (pr_instns parse) i \<le> length (full_code dbg parse)"
    unfolding length_full_code using assms(1) by (intro code_off_mono) simp
  with full_code_slice [OF assms(1,2)] assms(3) show ?thesis
    by (metis length_enc_instn nth_append nth_drop)
qed

lemma backfill_correct:
  assumes "i \<le> length ys"
    and "\<And>j k. j \<le> k \<Longrightarrow> k < i \<Longrightarrow> mem_offset (ys ! j) = - 1 \<Longrightarrow> mem_offset (ys ! k) = - 1"
  shows "length (backfill i off ys) = length ys \<and>
    (\<forall>j < length ys. backfill i off ys ! j =
       (if j < i \<and> mem_offset (ys ! j) = - 1 then (ys ! j)\<lparr>mem_offset := off\<rparr> else ys ! j))"
  using assms
proof (induction i arbitrary: ys)
  case (Suc i)
  show ?case
  proof (cases "mem_offset (ys ! i) = - 1")
    case True
    let ?ys = "ys[i := (ys ! i)\<lparr>mem_offset := off\<rparr>]"
    have "length (backfill i off ?ys) = length ?ys \<and> (\<forall>j < length ?ys. backfill i off ?ys ! j =
       (if j < i \<and> mem_offset (?ys ! j) = - 1 then (?ys ! j)\<lparr>mem_offset := off\<rparr> else ?ys ! j))"
    proof (rule Suc.IH)
      show "mem_offset (?ys ! k) = - 1" if "j \<le> k" "k < i" "mem_offset (?ys ! j) = - 1" for j k
        using Suc.prems(2) [of j k] that by simp
    qed (use Suc.prems(1) in simp)
    then show ?thesis using True Suc.prems(1) by (auto simp: nth_list_update less_Suc_eq)
  next
    case False
    then have "mem_offset (ys ! j) \<noteq> - 1" if "j < Suc i" for j
      using Suc.prems(2) [of j i] that by auto
    then show ?thesis using False by auto
  qed
qed simp

lemma off_before_Suc_left_out: "left_out dbg (xs ! i) \<Longrightarrow> off_before dbg xs (Suc i) j = off_before dbg xs i j"
  unfolding off_before_def by (metis less_Suc_eq)

lemma off_before_in: "\<not> left_out dbg (xs ! k) \<Longrightarrow> j \<le> k \<Longrightarrow> k < i \<Longrightarrow> off_before dbg xs i j = of_nat (code_off dbg xs j)"
  by (auto simp: off_before_def)

lemma code_off_skip:
  assumes "j \<le> i" "i \<le> length xs" "\<And>k. j \<le> k \<Longrightarrow> k < i \<Longrightarrow> left_out dbg (xs ! k)"
  shows "code_off dbg xs i = code_off dbg xs j"
  using assms
proof (induction i rule: dec_induct)
  case (step i)
  then show ?case by (simp add: code_off_Suc)
qed simp

text \<open>The state of the loop before instruction \<open>i\<close>.\<close>

definition gen_inv :: "bool \<Rightarrow> prs_result_t \<Rightarrow> nat \<Rightarrow> gen_t \<Rightarrow> bool" where
  "gen_inv dbg parse i g \<longleftrightarrow>
     length (g_instns g) = length (pr_instns parse) \<and>
     (\<forall>j < length (pr_instns parse). g_instns g ! j =
        (pr_instns parse ! j)\<lparr>mem_offset := off_before dbg (pr_instns parse) i j\<rparr>) \<and>
     g_offset g = of_nat (code_off dbg (pr_instns parse) i) \<and>
     blk_slots (g_buffer g) = 256 * unat (n_blocks g) \<and>
     code_off dbg (pr_instns parse) i \<le> blk_slots (g_buffer g) \<and>
     buf_ok dbg parse (g_buffer g) (delayed_refs g) (code_off dbg (pr_instns parse) i)"

definition parse_wf :: "bool \<Rightarrow> prs_result_t \<Rightarrow> bool" where
  "parse_wf dbg parse \<longleftrightarrow> errors parse = 0 \<and> (\<forall>x \<in> set (pr_instns parse). instn_wf parse x) \<and>
     code_off dbg (pr_instns parse) (length (pr_instns parse)) \<le> 2 ^ 32 - 256"

lemma off_before_unset:
  assumes "parse_wf dbg parse" "j \<le> length (pr_instns parse)"
  shows "off_before dbg (pr_instns parse) i j = - 1 \<longleftrightarrow>
    (\<forall>k. j \<le> k \<longrightarrow> k < i \<longrightarrow> left_out dbg (pr_instns parse ! k))"
proof -
  have b: "code_off dbg (pr_instns parse) j \<le> 2 ^ 32 - 256"
    using assms(1) code_off_mono [OF assms(2), of dbg "pr_instns parse"] by (simp add: parse_wf_def)
  have "(of_nat (code_off dbg (pr_instns parse) j) :: u32) \<noteq> - 1"
  proof
    assume "(of_nat (code_off dbg (pr_instns parse) j) :: u32) = - 1"
    then have "unat (of_nat (code_off dbg (pr_instns parse) j) :: u32) = unat (- 1 :: u32)" by simp
    then show False using b by (simp add: unat_of_nat unsigned_minus_1_eq_mask mask_eq_exp_minus_1)
  qed
  then show ?thesis by (auto simp: off_before_def)
qed

lemma backfilled:
  assumes wf: "parse_wf dbg parse" and inv: "gen_inv dbg parse i g"
    and i: "i < length (pr_instns parse)" "\<not> left_out dbg (pr_instns parse ! i)"
  defines "off \<equiv> of_nat (code_off dbg (pr_instns parse) i)"
  defines "ys \<equiv> backfill i off ((g_instns g)[i := (g_instns g ! i)\<lparr>mem_offset := off\<rparr>])"
  shows "length ys = length (pr_instns parse)"
    and "j < length (pr_instns parse) \<Longrightarrow>
      ys ! j = (pr_instns parse ! j)\<lparr>mem_offset := off_before dbg (pr_instns parse) (Suc i) j\<rparr>"
proof -
  let ?xs = "pr_instns parse"
  let ?zs = "(g_instns g)[i := (g_instns g ! i)\<lparr>mem_offset := off\<rparr>]"
  have g: "length (g_instns g) = length ?xs"
      "\<And>j. j < length ?xs \<Longrightarrow> g_instns g ! j = (?xs ! j)\<lparr>mem_offset := off_before dbg ?xs i j\<rparr>"
    using inv by (simp_all add: gen_inv_def)
  have B: "length ys = length ?zs \<and> (\<forall>j < length ?zs. ys ! j =
       (if j < i \<and> mem_offset (?zs ! j) = - 1 then (?zs ! j)\<lparr>mem_offset := off\<rparr> else ?zs ! j))"
    unfolding ys_def
  proof (rule backfill_correct)
    show "mem_offset (?zs ! k) = - 1" if "j \<le> k" "k < i" "mem_offset (?zs ! j) = - 1" for j k
      using that i g off_before_unset [OF wf, of j i] off_before_unset [OF wf, of k i] by simp
  qed (use i g in simp)
  then show "length ys = length ?xs" using g by simp
  assume j: "j < length ?xs"
  consider "j < i" | "j = i" | "i < j" by linarith
  then show "ys ! j = (?xs ! j)\<lparr>mem_offset := off_before dbg ?xs (Suc i) j\<rparr>"
  proof cases
    case 1
    have n: "off_before dbg ?xs (Suc i) j = of_nat (code_off dbg ?xs j)"
      using off_before_in [OF i(2), of j "Suc i"] 1 by simp
    show ?thesis
    proof (cases "off_before dbg ?xs i j = - 1")
      case True
      then have "code_off dbg ?xs i = code_off dbg ?xs j"
        using off_before_unset [OF wf, of j i] 1 i j by (intro code_off_skip) auto
      with B j g 1 True n show ?thesis by (simp add: off_def)
    next
      case False
      then have "off_before dbg ?xs i j = of_nat (code_off dbg ?xs j)" by (auto simp: off_before_def split: if_splits)
      with B j g 1 False n show ?thesis by simp
    qed
  next
    case 2
    with B j g off_before_in [OF i(2), of j "Suc i"] show ?thesis by (simp add: off_def)
  next
    case 3
    then have "off_before dbg ?xs i j = - 1" "off_before dbg ?xs (Suc i) j = - 1" by (auto simp: off_before_def)
    with B j g 3 show ?thesis by simp
  qed
qed

text \<open>The head of an instruction: its opcode and, if an operand is immediate, the sizes.\<close>

definition enc_head :: "prs_instn_t \<Rightarrow> u8 list" where
  "enc_head i = le_bytes 2 (unat (op_ir i)) @ (if op_ir i AND 7 \<noteq> 0 then [i_sz i] else [])"

lemma write_head:
  assumes ok: "buf_ok dbg parse b refs hi" and s: "hi + length (enc_head i) \<le> blk_slots b"
    and c: "\<And>j. j < length (enc_head i) \<Longrightarrow> full_code dbg parse ! (hi + j) = enc_head i ! j"
  shows "\<exists>b'. do {
      b \<leftarrow> blk_puts b (unat (of_nat hi :: u32)) (le_bytes 2 (unat (op_ir i)));
      if op_ir i AND 7 \<noteq> 0 then do {
        b \<leftarrow> blk_write b (unat (of_nat hi + 2 :: u32)) (i_sz i);
        Some (of_nat hi + 2 + 1, b)
      } else Some (of_nat hi + 2, b)
    } = Some (of_nat (hi + length (enc_head i)) :: u32, b') \<and>
    buf_ok dbg parse b' refs (hi + length (enc_head i)) \<and> blk_slots b' = blk_slots b"
proof -
  let ?o = "le_bytes 2 (unat (op_ir i))"
  have "full_code dbg parse ! (hi + j) = ?o ! j" if "j < length ?o" for j
    using c [of j] that by (simp add: enc_head_def nth_append)
  then obtain b1 where b1: "blk_puts b (unat (of_nat hi :: u32)) ?o = Some b1" "buf_ok dbg parse b1 refs (hi + 2)"
      "blk_slots b1 = blk_slots b"
    using buf_ok_puts [OF ok, of ?o] s by (auto simp: enc_head_def split: if_splits)
  show ?thesis
  proof (cases "op_ir i AND 7 = 0")
    case True
    with b1 show ?thesis by (simp add: enc_head_def)
  next
    case False
    then have "full_code dbg parse ! (hi + 2) = i_sz i" using c [of 2] by (simp add: enc_head_def nth_append)
    then obtain b2 where b2: "blk_puts b1 (unat (of_nat (hi + 2) :: u32)) [i_sz i] = Some b2"
        "buf_ok dbg parse b2 refs (hi + 2 + 1)" "blk_slots b2 = blk_slots b1"
      using buf_ok_puts [OF b1(2), of "[i_sz i]"] s b1(3) False by (auto simp: enc_head_def)
    have "blk_write b1 (unat (of_nat hi + 2 :: u32)) (i_sz i) = Some b2"
      using b2(1) by (cases "blk_write b1 (unat (of_nat (hi + 2) :: u32)) (i_sz i)") (simp_all add: add.commute)
    with b1 b2 False show ?thesis by (simp add: enc_head_def add.commute add.left_commute)
  qed
qed

lemma enc_instn_head: "enc_instn res i = enc_head i @ concat (map (enc_arg res) (i_args i))"
  by (simp add: enc_instn_def enc_head_def)

lemma isize_head: "isize i = length (enc_head i) + sum_list (map (\<lambda>a. unat (n_bytes a)) (i_args i))"
  by (simp add: isize_def enc_head_def)

lemma buf_ok_grow:
  assumes "buf_ok dbg parse b refs hi" "hi \<le> blk_slots b" "b' \<noteq> Freed" "blk_slots b' < 2 ^ 32"
    and "\<And>q. q < blk_slots b \<Longrightarrow> blk_read b' q = blk_read b q"
  shows "buf_ok dbg parse b' refs hi"
  using assms by (simp add: buf_ok_def covered_def)

lemma final_off_Suc:
  "i < length xs \<Longrightarrow> \<not> left_out dbg (xs ! i) \<Longrightarrow> j \<le> i \<Longrightarrow> final_off dbg xs j = off_before dbg xs (Suc i) j"
  using off_before_in [of dbg xs i j] by (simp add: final_off_def)

lemma gen_instn_left_out:
  assumes inv: "gen_inv dbg parse i g" and i: "i < length (pr_instns parse)" "left_out dbg (pr_instns parse ! i)"
  shows "gen_instn parse dbg i g = Some g \<and> gen_inv dbg parse (Suc i) g"
proof -
  have "left_out dbg (g_instns g ! i)" using inv i by (simp add: gen_inv_def left_out_def)
  then show ?thesis
    using inv i by (simp add: gen_instn_def gen_inv_def code_off_Suc off_before_Suc_left_out)
qed

lemma instn_room:
  assumes wf: "parse_wf dbg parse" and inv: "gen_inv dbg parse i g"
    and i: "i < length (pr_instns parse)" "\<not> left_out dbg (pr_instns parse ! i)"
  shows "\<exists>nb b. grow_buffer (g_offset g + of_nat (isize (pr_instns parse ! i))) (n_blocks g) (g_buffer g) = Some (nb, b) \<and>
    blk_slots b = 256 * unat nb \<and> 256 * unat nb < 2 ^ 32 \<and>
    code_off dbg (pr_instns parse) i + isize (pr_instns parse ! i) \<le> blk_slots b \<and>
    buf_ok dbg parse b (delayed_refs g) (code_off dbg (pr_instns parse) i)"
proof -
  let ?hi = "code_off dbg (pr_instns parse) i" and ?sz = "isize (pr_instns parse ! i)"
  have hi: "g_offset g = of_nat ?hi" and buf: "buf_ok dbg parse (g_buffer g) (delayed_refs g) ?hi"
    and sl: "blk_slots (g_buffer g) = 256 * unat (n_blocks g)" "?hi \<le> blk_slots (g_buffer g)"
    using inv by (simp_all add: gen_inv_def)
  have le: "?hi + ?sz \<le> 2 ^ 32 - 256"
    using wf code_off_mono [of "Suc i" "length (pr_instns parse)" dbg "pr_instns parse"] i
    by (simp add: parse_wf_def code_off_Suc)
  have need: "unat (g_offset g + of_nat ?sz) = ?hi + ?sz"
    unfolding hi of_nat_add [symmetric] using le by (subst unat_of_nat) simp
  obtain nb b where b: "grow_buffer (g_offset g + of_nat ?sz) (n_blocks g) (g_buffer g) = Some (nb, b)"
      "blk_slots b = 256 * unat nb" "b \<noteq> Freed" "?hi + ?sz \<le> blk_slots b" "256 * unat nb < 2 ^ 32"
      "\<forall>q < blk_slots (g_buffer g). blk_read b q = blk_read (g_buffer g) q"
    using grow_buffer_correct [of "g_offset g + of_nat ?sz" "g_buffer g" "n_blocks g"] buf sl le
    unfolding need by (auto simp: buf_ok_def)
  then show ?thesis
    using buf_ok_grow [OF buf sl(2), of b] by (intro exI [of _ nb] exI [of _ b]) simp
qed

lemma gen_instn_step:
  assumes wf: "parse_wf dbg parse" and inv: "gen_inv dbg parse i g"
    and i: "i < length (pr_instns parse)" "\<not> left_out dbg (pr_instns parse ! i)"
  shows "\<exists>g'. gen_instn parse dbg i g = Some g' \<and> gen_inv dbg parse (Suc i) g'"
proof -
  let ?xs = "pr_instns parse"
  let ?x = "?xs ! i" and ?hi = "code_off dbg ?xs i"
  let ?ys = "backfill i (g_offset g) ((g_instns g)[i := (g_instns g ! i)\<lparr>mem_offset := g_offset g\<rparr>])"
  have x: "instn_wf parse ?x" using wf i by (simp add: parse_wf_def)
  have hi: "g_offset g = of_nat ?hi" using inv by (simp add: gen_inv_def)
  have "mem_offset ?x = - 1" "off_before dbg ?xs i i = - 1" using x by (auto simp: instn_wf_def off_before_def)
  then have gi: "g_instns g ! i = ?x" using inv i by (cases ?x) (simp add: gen_inv_def)
  have next_off: "code_off dbg ?xs (Suc i) = ?hi + isize ?x" using i by (simp add: code_off_Suc)
  obtain nb b where b: "grow_buffer (g_offset g + of_nat (isize ?x)) (n_blocks g) (g_buffer g) = Some (nb, b)"
      "blk_slots b = 256 * unat nb" "256 * unat nb < 2 ^ 32" "?hi + isize ?x \<le> blk_slots b"
      and ok: "buf_ok dbg parse b (delayed_refs g) ?hi"
    using instn_room [OF wf inv i] by blast
  have ys: "length ?ys = length ?xs" "\<And>j. j < length ?xs \<Longrightarrow> ?ys ! j = (?xs ! j)\<lparr>mem_offset := off_before dbg ?xs (Suc i) j\<rparr>"
    using backfilled [OF wf inv i] unfolding hi by blast+
  have enc: "full_code dbg parse ! (?hi + j) = (enc_head ?x @ concat (map (enc_arg (resolve dbg parse)) (i_args ?x))) ! j"
    if "j < isize ?x" for j
    using full_code_nth [OF i that] by (simp add: enc_instn_head)
  obtain b1 b2 where h: "blk_puts b (unat (g_offset g)) (le_bytes 2 (unat (op_ir ?x))) = Some b1"
      "(if op_ir ?x AND 7 \<noteq> 0 then do {
          b \<leftarrow> blk_write b1 (unat (g_offset g + 2)) (i_sz ?x);
          Some (g_offset g + 2 + 1, b)
        } else Some (g_offset g + 2, b1)) = Some (of_nat (?hi + length (enc_head ?x)), b2)"
      "buf_ok dbg parse b2 (delayed_refs g) (?hi + length (enc_head ?x))" "blk_slots b2 = blk_slots b"
    using write_head [OF ok, of ?x] b(4) enc unfolding hi isize_head by (auto simp: nth_append bind_eq_Some_conv)
  have "full_code dbg parse ! (?hi + length (enc_head ?x) + j) = concat (map (enc_arg (resolve dbg parse)) (i_args ?x)) ! j"
    if "j < sum_list (map (\<lambda>a. unat (n_bytes a)) (i_args ?x))" for j
    using enc [of "length (enc_head ?x) + j"] that by (simp add: isize_head add.assoc)
  moreover have "arg_wf parse a" if "a \<in> set (i_args ?x)" for a using x that by (simp add: instn_wf_def)
  moreover have "mem_offset (?ys ! j) = final_off dbg ?xs j" if "j \<le> i" for j
    using ys(2) [of j] that i final_off_Suc [OF i that] by simp
  ultimately obtain b3 refs where w: "write_args parse ?ys i (i_args ?x) b2 (of_nat (?hi + length (enc_head ?x))) (delayed_refs g) =
        Some (of_nat (?hi + isize ?x), b3, refs)"
      "buf_ok dbg parse b3 refs (?hi + isize ?x)" "blk_slots b3 = blk_slots b2"
    using write_args_correct [of "i_args ?x" parse "?hi + length (enc_head ?x)" b2 dbg "delayed_refs g" i ?ys] h(3,4) b(4)
    unfolding isize_head by (auto simp: add.assoc)
  have "gen_instn parse dbg i g =
      Some \<lparr>g_instns = ?ys, g_buffer = b3, n_blocks = nb, g_offset = of_nat (?hi + isize ?x), delayed_refs = refs\<rparr>"
    using i(2) compute_layout_wf [OF x] b(1) h(1,2) w(1) unfolding gen_instn_def Let_def gi by simp
  moreover have "gen_inv dbg parse (Suc i)
      \<lparr>g_instns = ?ys, g_buffer = b3, n_blocks = nb, g_offset = of_nat (?hi + isize ?x), delayed_refs = refs\<rparr>"
    using ys w(2,3) h(4) b(2-4) next_off by (simp add: gen_inv_def)
  ultimately show ?thesis by blast
qed

lemma gen_instns_correct:
  assumes "parse_wf dbg parse"
  shows "i + n = length (pr_instns parse) \<Longrightarrow> gen_inv dbg parse i g \<Longrightarrow>
    \<exists>g'. gen_instns parse dbg n i g = Some g' \<and> gen_inv dbg parse (length (pr_instns parse)) g'"
proof (induction n arbitrary: i g)
  case (Suc n)
  then obtain g1 where "gen_instn parse dbg i g = Some g1" "gen_inv dbg parse (Suc i) g1"
    using gen_instn_left_out [of dbg parse i g] gen_instn_step [OF assms, of i g] by (cases "left_out dbg (pr_instns parse ! i)") auto
  with Suc.IH [of "Suc i" g1] Suc.prems(1) show ?case by simp
qed simp

lemma parse_to_bytecode_ok:
  assumes "parse_wf dbg parse"
  shows "\<exists>ys b. parse_to_bytecode parse dbg = Some (ys, b, of_nat (length (full_code dbg parse))) \<and>
    (\<forall>q < length (full_code dbg parse). blk_read b q = Some (full_code dbg parse ! q)) \<and>
    length ys = length (pr_instns parse) \<and>
    (\<forall>j < length ys. ys ! j = (pr_instns parse ! j)\<lparr>mem_offset := final_off dbg (pr_instns parse) j\<rparr>)"
proof -
  let ?g = "\<lparr>g_instns = pr_instns parse, g_buffer = Null, n_blocks = 0, g_offset = 0, delayed_refs = []\<rparr>"
  let ?n = "length (pr_instns parse)"
  have m: "mem_offset (pr_instns parse ! j) = - 1" if "j < ?n" for j
    using assms that by (simp add: parse_wf_def instn_wf_def)
  have "gen_inv dbg parse 0 ?g"
    using m by (simp add: gen_inv_def off_before_def code_off_def buf_ok_def covered_def refs_ok_def)
  then obtain g where g: "gen_instns parse dbg ?n 0 ?g = Some g" "gen_inv dbg parse ?n g"
    using gen_instns_correct [OF assms, of 0 ?n ?g] by auto
  obtain b where "patch_refs (g_instns g) (delayed_refs g) (g_buffer g) = Some b"
      "\<forall>q < length (full_code dbg parse). blk_read b q = Some (full_code dbg parse ! q)"
    using patch_refs_correct [of "full_code dbg parse" "g_buffer g" "delayed_refs g" "length (full_code dbg parse)"
        "final_off dbg (pr_instns parse)" ?n "g_instns g"] g(2)
    unfolding gen_inv_def buf_ok_def length_full_code final_off_def by auto
  with g assms show ?thesis
    by (simp add: parse_to_bytecode_def parse_wf_def gen_inv_def length_full_code final_off_def)
qed

text \<open>
  C6. Code generation is correct: for instructions as the parser makes them, whose code is no
  larger than 2^32 - 256 bytes, it returns the concatenation of the encodings of the
  instructions, debug-only ones left out, every label replaced by the offset its instruction
  ends up at, or, if that was left out, the next one. Labels ahead of their use are patched in.
\<close>

lemma parse_to_bytecode_correct:
  assumes "parse_wf dbg parse"
  shows "\<exists>ys b. parse_to_bytecode parse dbg = Some (ys, b, of_nat (length (full_code dbg parse))) \<and>
    (\<forall>q < length (full_code dbg parse). blk_read b q = Some (full_code dbg parse ! q)) \<and>
    length ys = length (pr_instns parse) \<and>
    (\<forall>j < length ys. ys ! j = (pr_instns parse ! j)\<lparr>mem_offset := final_off dbg (pr_instns parse) j\<rparr>)"
  using assms by (rule parse_to_bytecode_ok)

text \<open>
  A jump over a debug-only instruction to a label that stands at it: without debugging the label
  leads to what follows.
\<close>

definition demo_label :: label_t where
  "demo_label = \<lparr>l_filename = 1, l_lineno = 2, l_offset = 1, is_mem_ref = False\<rparr>"

definition demo_jmp :: prs_instn_t where
  "demo_jmp = \<lparr>i_filename = 1, i_lineno = 1, i_def = std_defs ! 15,
     i_args = [\<lparr>a_type = T_ARG_IMM_LBL, n_bytes = 4, a_data = Label ''end''\<rparr>], mem_offset = - 1\<rparr>"

definition demo_assert :: prs_instn_t where
  "demo_assert = \<lparr>i_filename = 1, i_lineno = 2, i_def = std_defs ! 6,
     i_args = replicate 2 \<lparr>a_type = T_ARG_REF_NUM, n_bytes = 4, a_data = Value 0\<rparr>, mem_offset = - 1\<rparr>"

definition demo_ret :: prs_instn_t where
  "demo_ret = \<lparr>i_filename = 1, i_lineno = 3, i_def = std_defs ! 41, i_args = [], mem_offset = - 1\<rparr>"

definition demo_parse :: prs_result_t where
  "demo_parse = \<lparr>pr_files = 1, errors = 0, warnings = 0, pr_instns = [demo_jmp, demo_assert, demo_ret],
     pr_memory = [], pr_memsz = 0, mem_alloc = 0,
     labels = put_at (hash_of INITIAL_SIZE ''end'') ''end'' (Some demo_label) hm_new, label_refs = []\<rparr>"

lemma demo_parse_simps:
  "pr_instns demo_parse = [demo_jmp, demo_assert, demo_ret]" "errors demo_parse = 0"
  by (simp_all add: demo_parse_def)

lemma std_entries:
  "arg_count (std_defs ! 15) = 1 \<and> arg_count (std_defs ! 6) = 2 \<and> arg_count (std_defs ! 41) = 0 \<and>
   flags (std_defs ! 15) AND F_Debug_Only_Instn = 0 \<and> flags (std_defs ! 6) AND F_Debug_Only_Instn \<noteq> 0 \<and>
   flags (std_defs ! 41) AND F_Debug_Only_Instn = 0"
  by code_simp

lemma std_opcodes: "opcode (std_defs ! 15) = 15" "opcode (std_defs ! 6) = 6" "opcode (std_defs ! 41) = 41"
  using table_opcode [OF std_table, of 15] table_opcode [OF std_table, of 6] table_opcode [OF std_table, of 41]
    table_length [OF std_table] by simp_all

lemma demo_left_out: "\<not> left_out False demo_jmp" "left_out False demo_assert" "\<not> left_out False demo_ret"
  using std_entries by (simp_all add: left_out_def demo_jmp_def demo_assert_def demo_ret_def)

lemma demo_find: "find_label demo_parse ''end'' = Some demo_label"
  using hmap_put_correct [OF hm.inv_new hmap_put_blank [of "\<lambda>_. True" "''end''" "Some demo_label"]]
  by (simp add: find_label_def demo_parse_def hmap_get_hm_abs)

lemma demo_layouts: "compute_layout demo_jmp = (7, 121, 2)" "compute_layout demo_ret = (2, 328, 0)"
  by (simp_all add: demo_jmp_def demo_ret_def compute_layout_def std_opcodes imm_type_def nlog2_def)

lemma demo_isize: "isize demo_jmp = 7" "isize demo_ret = 2"
  using demo_layouts by (simp_all add: isize_def op_ir_def) (simp_all add: demo_jmp_def demo_ret_def)

lemma demo_offsets: "final_off False (pr_instns demo_parse) 1 = 7" "code_off False (pr_instns demo_parse) 3 = 9"
proof -
  have "code_off False (pr_instns demo_parse) 1 = 7" "code_off False (pr_instns demo_parse) 3 = 9"
    by (simp_all add: code_off_def demo_parse_simps demo_left_out demo_isize)
  moreover have "\<exists>k. 1 \<le> k \<and> k < length (pr_instns demo_parse) \<and> \<not> left_out False (pr_instns demo_parse ! k)"
    by (intro exI [of _ 2]) (simp add: demo_parse_simps demo_left_out)
  ultimately show "final_off False (pr_instns demo_parse) 1 = 7" "code_off False (pr_instns demo_parse) 3 = 9"
    by (simp_all add: final_off_def off_before_def)
qed

lemma le_bytes_2_4:
  "le_bytes 2 k = [of_nat (k mod 256), of_nat (k div 256 mod 256)]"
  "le_bytes 4 k = [of_nat (k mod 256), of_nat (k div 256 mod 256), of_nat (k div 256 div 256 mod 256),
     of_nat (k div 256 div 256 div 256 mod 256)]"
proof -
  have "(2 :: nat) = Suc (Suc 0)" "(4 :: nat) = Suc (Suc (Suc (Suc 0)))" by simp_all
  then show "le_bytes 2 k = [of_nat (k mod 256), of_nat (k div 256 mod 256)]"
    "le_bytes 4 k = [of_nat (k mod 256), of_nat (k div 256 mod 256), of_nat (k div 256 div 256 mod 256),
       of_nat (k div 256 div 256 div 256 mod 256)]"
    by (simp_all only: le_bytes.simps)
qed

lemma demo_code: "full_code False demo_parse = [121, 0, 2, 7, 0, 0, 0, 72, 1]"
proof -
  have "resolve False demo_parse ''end'' = 7"
    using demo_offsets(1) by (simp add: resolve_def demo_find demo_label_def)
  then have "enc_instn (resolve False demo_parse) demo_jmp = [121, 0, 2, 7, 0, 0, 0]"
      "enc_instn (resolve False demo_parse) demo_ret = [72, 1]"
    by (simp_all add: enc_instn_def op_ir_def i_sz_def demo_layouts)
      (simp_all add: demo_jmp_def demo_ret_def enc_arg_def arg_val_def le_bytes_2_4)
  then show ?thesis by (simp add: full_code_def demo_parse_simps demo_left_out)
qed

lemma demo_parse_wf: "parse_wf False demo_parse"
proof -
  have "instn_wf demo_parse demo_jmp" "instn_wf demo_parse demo_assert" "instn_wf demo_parse demo_ret"
    using std_entries
    by (simp_all add: instn_wf_def demo_jmp_def demo_assert_def demo_ret_def std_opcodes arg_wf_def demo_find
        demo_parse_simps) (simp add: demo_label_def)
  then show ?thesis using demo_offsets(2) by (simp add: parse_wf_def demo_parse_simps numeral_3_eq_3)
qed

lemma parse_to_bytecode_correct_witness:
  "\<exists>ys b. parse_to_bytecode demo_parse False = Some (ys, b, 9) \<and>
     (\<forall>q < 9. blk_read b q = Some ([121, 0, 2, 7, 0, 0, 0, 72, 1] ! q)) \<and> mem_offset (ys ! 1) = 7"
proof -
  obtain ys b where "parse_to_bytecode demo_parse False = Some (ys, b, of_nat (length (full_code False demo_parse)))"
      "\<forall>q < length (full_code False demo_parse). blk_read b q = Some (full_code False demo_parse ! q)"
      "length ys = length (pr_instns demo_parse)"
      "\<forall>j < length ys. ys ! j = (pr_instns demo_parse ! j)\<lparr>mem_offset := final_off False (pr_instns demo_parse) j\<rparr>"
    using parse_to_bytecode_correct [OF demo_parse_wf] by blast
  then show ?thesis using demo_offsets(1) by (simp add: demo_code demo_parse_simps)
qed
end
