(* ===== verification/CodeRoundtrip.thy ===== *)
theory CodeRoundtrip
  imports BytecodeGen
begin

text \<open>
  The round trip between the code generator and the decoder: an instruction of the generated code
  is decoded as the instruction it was generated from.
\<close>

section \<open>The bits of the layout\<close>

lemma nlog2_bits: "bit (nlog2 n) m \<Longrightarrow> m < 2"
proof -
  have "take_bit 2 (nlog2 n) = nlog2 n" by (simp add: nlog2_def)
  then show "bit (nlog2 n) m \<Longrightarrow> m < 2" by (metis bit_take_bit_iff)
qed

lemma nlog2_exp: "n \<in> {1, 2, 4, 8} \<Longrightarrow> 2 ^ unat (nlog2 n) = unat n"
  by (auto simp: nlog2_def)

lemma op_ir_bits:
  "k < 16 \<Longrightarrow> bit (fst (snd (layout_args j as (sz, ir, iz)))) k \<longleftrightarrow>
     bit ir k \<or> j \<le> k \<and> k < j + length as \<and> imm_type (a_type (as ! (k - j)))"
proof (induction as arbitrary: j sz ir iz k)
  case (Cons a as)
  show ?case
    using Cons.prems
    by (cases "k = j") (auto simp: Cons.IH bit_or_iff bit_exp_iff nth_Cons' Suc_diff_Suc)
qed auto

lemma i_sz_bits:
  "k < 8 \<Longrightarrow> bit (snd (snd (layout_args j as (sz, ir, iz)))) k \<longleftrightarrow>
     bit iz k \<or> j \<le> k div 2 \<and> k div 2 < j + length as \<and> imm_type (a_type (as ! (k div 2 - j))) \<and>
       bit (nlog2 (n_bytes (as ! (k div 2 - j)))) (k mod 2)"
proof (induction as arbitrary: j sz ir iz k)
  case (Cons a as)
  have h: "2 * j \<le> k \<and> bit (nlog2 n) (k - 2 * j) \<longleftrightarrow> k div 2 = j \<and> bit (nlog2 n) (k mod 2)" for n
  proof
    assume l: "2 * j \<le> k \<and> bit (nlog2 n) (k - 2 * j)"
    then have "k - 2 * j < 2" using nlog2_bits by blast
    with l obtain r where "k = 2 * j + r" "r < 2" by (metis le_add_diff_inverse)
    with l show "k div 2 = j \<and> bit (nlog2 n) (k mod 2)" by simp
  next
    assume "k div 2 = j \<and> bit (nlog2 n) (k mod 2)"
    then show "2 * j \<le> k \<and> bit (nlog2 n) (k - 2 * j)" by (auto simp: minus_mult_div_eq_mod [symmetric])
  qed
  show ?case
    using Cons.prems h
    by (cases "k div 2 = j") (auto simp: Cons.IH bit_or_iff bit_push_bit_iff nth_Cons' Suc_diff_Suc)
qed auto

lemma op_ir_bit:
  assumes "k < 16"
  shows "bit (op_ir x) k \<longleftrightarrow> bit (push_bit 3 (opcode (i_def x))) k \<or> k < length (i_args x) \<and> imm_type (a_type (i_args x ! k))"
  using op_ir_bits [OF assms, of 0 "i_args x" 2 "push_bit 3 (opcode (i_def x))" 0]
  by (cases "layout_args 0 (i_args x) (2, push_bit 3 (opcode (i_def x)), 0)") (simp add: op_ir_def compute_layout_def)

lemma i_sz_bit:
  assumes "k < 8"
  shows "bit (i_sz x) k \<longleftrightarrow> k div 2 < length (i_args x) \<and> imm_type (a_type (i_args x ! (k div 2))) \<and>
    bit (nlog2 (n_bytes (i_args x ! (k div 2)))) (k mod 2)"
  using i_sz_bits [OF assms, of 0 "i_args x" 2 "push_bit 3 (opcode (i_def x))" 0]
  by (cases "layout_args 0 (i_args x) (2, push_bit 3 (opcode (i_def x)), 0)") (simp add: i_sz_def compute_layout_def)

lemma op_ir_opcode:
  assumes "length (i_args x) \<le> 3" "unat (opcode (i_def x)) < 2 ^ 13"
  shows "drop_bit 3 (op_ir x) = opcode (i_def x)"
proof (rule bit_word_eqI)
  fix k assume k: "k < LENGTH(16)"
  have t: "take_bit 13 (opcode (i_def x)) = opcode (i_def x)"
    using assms(2) by (simp add: word_unat_eq_iff unsigned_take_bit_eq take_bit_nat_eq_self_iff)
  have big: "\<not> bit (opcode (i_def x)) k" if "13 \<le> k" using t that by (metis bit_take_bit_iff not_less)
  show "bit (drop_bit 3 (op_ir x)) k \<longleftrightarrow> bit (opcode (i_def x)) k"
  proof (cases "k < 13")
    case True
    then show ?thesis using assms(1) op_ir_bit [of "3 + k" x] by (auto simp: bit_drop_bit_eq bit_push_bit_iff)
  next
    case False
    then show ?thesis using big bit_imp_le_length [of "op_ir x" "3 + k"] by (auto simp: bit_drop_bit_eq)
  qed
qed

lemma op_ir_is_imm:
  "j < length (i_args x) \<Longrightarrow> length (i_args x) \<le> 3 \<Longrightarrow> bit (op_ir x) j \<longleftrightarrow> imm_type (a_type (i_args x ! j))"
  using op_ir_bit [of j x] by (simp add: bit_push_bit_iff)

lemma op_ir_no_imm:
  assumes "op_ir x AND 7 = 0" "j < length (i_args x)" "length (i_args x) \<le> 3"
  shows "\<not> imm_type (a_type (i_args x ! j))"
proof
  assume "imm_type (a_type (i_args x ! j))"
  then have "bit (op_ir x) j" using op_ir_is_imm assms(2,3) by blast
  moreover have "bit (7 :: u16) j"
    using assms(2,3) by (cases "j = 0 \<or> j = 1 \<or> j = 2") auto
  ultimately have "bit (op_ir x AND 7) j" by (simp add: bit_and_iff)
  then show False using assms(1) by simp
qed

lemma i_sz_bytes:
  assumes "j < length (i_args x)" "length (i_args x) \<le> 3" "imm_type (a_type (i_args x ! j))" "n_bytes_ok (i_args x ! j)"
  shows "2 ^ unat (drop_bit (2 * j) (i_sz x) AND 3) = unat (n_bytes (i_args x ! j))"
proof -
  have "drop_bit (2 * j) (i_sz x) AND 3 = nlog2 (n_bytes (i_args x ! j))"
  proof (rule bit_word_eqI)
    fix k assume "k < LENGTH(8)"
    show "bit (drop_bit (2 * j) (i_sz x) AND 3) k \<longleftrightarrow> bit (nlog2 (n_bytes (i_args x ! j))) k"
    proof (cases "k < 2")
      case True
      then have "bit (3 :: u8) k" by (cases "k = 0 \<or> k = 1") auto
      with True assms show ?thesis
        using i_sz_bit [of "2 * j + k" x] by (simp add: bit_and_iff bit_drop_bit_eq)
    next
      case False
      have "take_bit 2 (3 :: u8) = 3" by simp
      with False have "\<not> bit (3 :: u8) k" by (metis bit_take_bit_iff)
      with False nlog2_bits show ?thesis by (auto simp: bit_and_iff)
    qed
  qed
  then show ?thesis using nlog2_exp assms(4) by (simp add: n_bytes_ok_def)
qed

section \<open>Decoding operands\<close>

text \<open>What an operand is decoded to, its label being resolved by \<open>res\<close>.\<close>

definition dec_arg :: "(string \<Rightarrow> u32) \<Rightarrow> prs_arg_t \<Rightarrow> arg" where
  "dec_arg res a =
     (if imm_type (a_type a) then Imm (take_bit (8 * unat (n_bytes a)) (arg_val res a))
      else Ref (unat (ucast (arg_val res a) :: u32)))"

text \<open>The operands that are references: four bytes there lie in the memory.\<close>

definition in_memory :: "(string \<Rightarrow> u32) \<Rightarrow> 'w vm_t \<Rightarrow> prs_arg_t \<Rightarrow> bool" where
  "in_memory res vm a \<longleftrightarrow> (\<not> imm_type (a_type a) \<longrightarrow> n_bytes a = 4 \<and> \<not> mem_null vm \<and>
     unat (ucast (arg_val res a) :: u32) + 4 \<le> unat (memsz vm))"

lemma enc_arg_value: "of_nat (le_nat (enc_arg res a)) = take_bit (8 * unat (n_bytes a)) (arg_val res a)"
proof -
  have p: "(256 :: nat) ^ n = 2 ^ (8 * n)" for n by (simp add: power_mult)
  have "take_bit (8 * unat (n_bytes a)) (unat (arg_val res a)) < 18446744073709551616"
    using take_bit_nat_less_eq_self unat_u64_lt by (rule le_less_trans)
  then show ?thesis
    by (simp add: enc_arg_def p take_bit_eq_mod [symmetric] word_unat_eq_iff unsigned_take_bit_eq)
qed

lemma load_enc:
  assumes "drop p m = bs @ rest" "bs \<noteq> []"
  shows "load (length bs) m p = Some (le_nat bs)"
proof -
  have "length (drop p m) = length bs + length rest" using assms(1) by simp
  moreover have "0 < length bs" using assms(2) by simp
  ultimately have "p + length bs \<le> length m" unfolding length_drop by linarith
  then show ?thesis by (simp add: load_def assms(1))
qed

lemma drop_append: "drop p m = bs @ rest \<Longrightarrow> drop (p + length bs) m = rest"
  by (metis add.commute append_eq_conv_conj drop_drop)

text \<open>The decoder at an operand: \<open>instn\<close> has the head of the instruction \<open>x\<close>.\<close>

lemma decode_arg_enc:
  assumes x: "length (i_args x) \<le> 3" "i < length (i_args x)" "n_bytes_ok (i_args x ! i)"
    and ref: "in_memory res vm (i_args x ! i)"
    and head: "icode instn = op_ir x" "op_ir x AND 7 \<noteq> 0 \<Longrightarrow> arg_sizes instn = i_sz x"
    and cd: "drop (at + offset) (code vm) = enc_arg res (i_args x ! i) @ rest"
    and bound: "at + offset + unat (n_bytes (i_args x ! i)) \<le> unat (codesz vm)"
  shows "decode_arg at i offset instn vm =
    Some (int (offset + unat (n_bytes (i_args x ! i))), set_arg i (dec_arg res (i_args x ! i)) instn, vm)"
proof -
  let ?a = "i_args x ! i"
  have imm: "is_imm instn i \<longleftrightarrow> imm_type (a_type ?a)"
    using op_ir_is_imm [OF x(2,1)] head(1) by (simp add: is_imm_def)
  have l: "length (enc_arg res ?a) = unat (n_bytes ?a)" "enc_arg res ?a \<noteq> []"
    using x(3) by (auto simp: enc_arg_def n_bytes_ok_def simp del: length_0_conv simp: length_0_conv [symmetric])
  have ld: "load (unat (n_bytes ?a)) (code vm) (at + offset) = Some (le_nat (enc_arg res ?a))"
    using load_enc [OF cd l(2)] l(1) by simp
  show ?thesis
  proof (cases "imm_type (a_type ?a)")
    case True
    have "op_ir x AND 7 \<noteq> 0" using op_ir_no_imm [OF _ x(2,1)] True by blast
    then have b: "imm_bytes instn i = unat (n_bytes ?a)"
      using i_sz_bytes [OF x(2,1) True x(3)] head(2) by (simp add: imm_bytes_def)
    have "\<not> past_bound at (unat (n_bytes ?a)) vm" using bound by (simp add: past_bound_def)
    with True imm b ld show ?thesis by (simp add: decode_arg_imm dec_arg_def enc_arg_value)
  next
    case False
    with ref have n: "n_bytes ?a = 4" and r: "unat (ucast (arg_val res ?a) :: u32) + 4 \<le> unat (memsz vm)"
        "\<not> mem_null vm"
      by (simp_all add: in_memory_def)
    have "\<not> past_bound at 4 vm" using bound n by (simp add: past_bound_def)
    moreover have "of_nat (le_nat (enc_arg res ?a)) = (ucast (arg_val res ?a) :: u32)"
      by (simp add: enc_arg_def n word_unat_eq_iff unat_ucast_u64_u32)
    moreover have "deref_mem_ptr (ucast (arg_val res ?a)) 4 vm = (Some (unat (ucast (arg_val res ?a) :: u32)), vm)"
      using r unat_u32_lt [of "memsz vm"]
      by (simp add: deref_mem_ptr_def mem_ptr_def word_less_nat_alt unat_word_ariths)
    ultimately show ?thesis using False imm ld n by (simp add: decode_arg_ref dec_arg_def)
  qed
qed

lemma decode_args_Suc:
  "decode_arg at i offset instn vm = Some (int k, instn', vm') \<Longrightarrow>
     decode_args at (Suc n) i offset instn vm = decode_args at n (Suc i) k instn' vm'"
  by simp

lemma decode_args_enc:
  assumes x: "length (i_args x) \<le> 3" "\<And>a. a \<in> set (i_args x) \<Longrightarrow> n_bytes_ok a \<and> in_memory res vm a"
    and bound: "at + isize x \<le> unat (codesz vm)"
  shows "i + n = length (i_args x) \<Longrightarrow> icode instn = op_ir x \<Longrightarrow>
    (op_ir x AND 7 \<noteq> 0 \<Longrightarrow> arg_sizes instn = i_sz x) \<Longrightarrow>
    drop (at + offset) (code vm) = concat (map (enc_arg res) (drop i (i_args x))) @ rest \<Longrightarrow>
    offset + sum_list (map (\<lambda>a. unat (n_bytes a)) (drop i (i_args x))) = isize x \<Longrightarrow>
    length (i_args x) \<le> length (iargs instn) \<Longrightarrow>
    \<exists>instn'. decode_args at n i offset instn vm = Some (int (isize x), instn', vm) \<and>
      icode instn' = icode instn \<and> arg_sizes instn' = arg_sizes instn \<and>
      length (iargs instn') = length (iargs instn) \<and>
      (\<forall>j < length (iargs instn). iargs instn' ! j =
         (if i \<le> j \<and> j < length (i_args x) then dec_arg res (i_args x ! j) else iargs instn ! j))"
proof (induction n arbitrary: i offset instn)
  case 0
  then show ?case by auto
next
  case (Suc n)
  let ?a = "i_args x ! i"
  have i: "i < length (i_args x)" using Suc.prems(1) by simp
  then have d: "drop i (i_args x) = ?a # drop (Suc i) (i_args x)" by (simp add: Cons_nth_drop_Suc)
  have a: "n_bytes_ok ?a" "in_memory res vm ?a" using x(2) i by simp_all
  have cd: "drop (at + offset) (code vm) = enc_arg res ?a @ (concat (map (enc_arg res) (drop (Suc i) (i_args x))) @ rest)"
    using Suc.prems(4) d by simp
  have b: "at + offset + unat (n_bytes ?a) \<le> unat (codesz vm)" using Suc.prems(5) d bound by simp
  let ?o = "offset + unat (n_bytes ?a)" and ?i = "set_arg i (dec_arg res ?a) instn"
  have 1: "decode_arg at i offset instn vm = Some (int ?o, ?i, vm)"
    by (rule decode_arg_enc [OF x(1) i a Suc.prems(2,3) cd b])
  have "drop (at + ?o) (code vm) = concat (map (enc_arg res) (drop (Suc i) (i_args x))) @ rest"
    using drop_append [OF cd] by (simp add: enc_arg_def add.assoc)
  then have "\<exists>instn'. decode_args at n (Suc i) ?o ?i vm = Some (int (isize x), instn', vm) \<and>
      icode instn' = icode ?i \<and> arg_sizes instn' = arg_sizes ?i \<and> length (iargs instn') = length (iargs ?i) \<and>
      (\<forall>j < length (iargs ?i). iargs instn' ! j =
         (if Suc i \<le> j \<and> j < length (i_args x) then dec_arg res (i_args x ! j) else iargs ?i ! j))"
    using Suc.prems d by (intro Suc.IH) (simp_all add: set_arg_def)
  then obtain instn' where "decode_args at n (Suc i) ?o ?i vm = Some (int (isize x), instn', vm)"
      "icode instn' = icode ?i" "arg_sizes instn' = arg_sizes ?i" "length (iargs instn') = length (iargs ?i)"
      "\<forall>j < length (iargs ?i). iargs instn' ! j =
         (if Suc i \<le> j \<and> j < length (i_args x) then dec_arg res (i_args x ! j) else iargs ?i ! j)"
    by blast
  then show ?case unfolding decode_args_Suc [OF 1] using i Suc.prems(6)
    by (intro exI [of _ instn']) (auto simp: set_arg_def nth_list_update Suc_le_eq)
qed

section \<open>The round trip\<close>

text \<open>A decoded instruction whose fields are those of an encoded one.\<close>

definition decoded_as :: "(string \<Rightarrow> u32) \<Rightarrow> prs_instn_t \<Rightarrow> instn_t \<Rightarrow> bool" where
  "decoded_as res x instn \<longleftrightarrow> icode instn = op_ir x \<and> (op_ir x AND 7 \<noteq> 0 \<longrightarrow> arg_sizes instn = i_sz x) \<and>
     length (iargs instn) = 3 \<and> (\<forall>j < length (i_args x). iargs instn ! j = dec_arg res (i_args x ! j))"

lemma decode_encoded:
  assumes x: "length (i_args x) \<le> 3" "unat (opcode (i_def x)) < 2 ^ 13"
      "\<And>a. a \<in> set (i_args x) \<Longrightarrow> n_bytes_ok a \<and> in_memory res vm a"
    and t: "unat (opcode (i_def x)) < nInstnDefs defs" "nInstnDefs defs < 256"
      "arg_count (defs ! unat (opcode (i_def x))) = length (i_args x)"
    and cd: "drop at (code vm) = enc_instn res x @ rest" and bound: "at + isize x \<le> unat (codesz vm)"
    and buf: "length (iargs instn) = 3"
  shows "\<exists>instn'. decode_instn defs at instn vm = Some (int (isize x), instn', vm) \<and> decoded_as res x instn'"
proof -
  let ?c = "le_bytes 2 (unat (op_ir x))" and ?as = "concat (map (enc_arg res) (i_args x))"
  let ?k = "unat (opcode (i_def x))"
  have sz: "2 \<le> isize x" "op_ir x AND 7 \<noteq> 0 \<Longrightarrow> 3 \<le> isize x" by (simp_all add: isize_def)
  have p: "\<not> past_bound at 2 vm" "\<not> past_bound at 1 vm" using bound sz by (simp_all add: past_bound_def)
  have cd0: "drop at (code vm) = ?c @ (if op_ir x AND 7 \<noteq> 0 then [i_sz x] else []) @ ?as @ rest"
    using cd by (simp add: enc_instn_def)
  have w: "load 2 (code vm) at = Some (le_nat ?c)" using load_enc [OF cd0] by simp
  have c: "(of_nat (le_nat ?c) :: u16) = op_ir x" by (simp add: word_unat_eq_iff)
  have k: "unat (ucast (opcode (i_def x)) :: u8) = ?k"
    using t by (simp add: unsigned_ucast_eq take_bit_nat_eq_self_iff)
  have n: "arg_count_at defs ?k = Some (length (i_args x))" using t by (simp add: arg_count_at_def)
  have op: "drop_bit 3 (op_ir x) = opcode (i_def x)" by (rule op_ir_opcode [OF x(1,2)])
  note args = decode_args_enc [OF x(1,3) bound, of 0 "length (i_args x)", simplified]
  show ?thesis
  proof (cases "op_ir x AND 7 = 0")
    case True
    have "drop (at + 2) (code vm) = ?as @ rest" using drop_append [OF cd0] True by simp
    moreover have "2 + sum_list (map (\<lambda>a. unat (n_bytes a)) (i_args x)) = isize x" using True by (simp add: isize_def)
    ultimately obtain instn' where "decode_args at (length (i_args x)) 0 2 (instn\<lparr>icode := op_ir x\<rparr>) vm =
        Some (int (isize x), instn', vm)" "icode instn' = op_ir x" "length (iargs instn') = 3"
        "\<forall>j < length (i_args x). iargs instn' ! j = dec_arg res (i_args x ! j)"
      using args [of "instn\<lparr>icode := op_ir x\<rparr>" 2 rest] buf x(1) True by auto
    with True p(1) w c k n op t show ?thesis by (simp add: decoded_as_def decode_instn_def Let_def not_less)
  next
    case False
    have cd1: "drop (at + 2) (code vm) = [i_sz x] @ ?as @ rest" using drop_append [OF cd0] False by simp
    have s: "load 1 (code vm) (at + 2) = Some (unat (i_sz x))" using load_enc [OF cd1] by simp
    have "drop (at + 3) (code vm) = ?as @ rest" using drop_append [OF cd1] by (simp add: numeral_3_eq_3)
    moreover have "3 + sum_list (map (\<lambda>a. unat (n_bytes a)) (i_args x)) = isize x" using False by (simp add: isize_def)
    ultimately obtain instn' where "decode_args at (length (i_args x)) 0 3 (instn\<lparr>icode := op_ir x, arg_sizes := i_sz x\<rparr>) vm =
        Some (int (isize x), instn', vm)" "icode instn' = op_ir x" "arg_sizes instn' = i_sz x" "length (iargs instn') = 3"
        "\<forall>j < length (i_args x). iargs instn' ! j = dec_arg res (i_args x ! j)"
      using args [of "instn\<lparr>icode := op_ir x, arg_sizes := i_sz x\<rparr>" 3 rest] buf x(1) False by auto
    with False p w c k n op t s show ?thesis by (simp add: decoded_as_def decode_instn_def Let_def not_less)
  qed
qed

lemma code_decodes_at:
  assumes "instn_table defs" "parse_wf dbg parse"
    and i: "i < length (pr_instns parse)" "\<not> left_out dbg (pr_instns parse ! i)" "i_def (pr_instns parse ! i) \<in> set defs"
    and "code vm = full_code dbg parse" "codesz vm = of_nat (length (full_code dbg parse))"
    and "\<forall>a \<in> set (i_args (pr_instns parse ! i)). in_memory (resolve dbg parse) vm a"
    and "length (iargs instn) = 3"
  shows "\<exists>instn'. decode_instn defs (code_off dbg (pr_instns parse) i) instn vm =
      Some (int (isize (pr_instns parse ! i)), instn', vm) \<and>
    decoded_as (resolve dbg parse) (pr_instns parse ! i) instn'"
proof -
  let ?xs = "pr_instns parse"
  let ?x = "?xs ! i" and ?at = "code_off dbg ?xs i" and ?n = "length (full_code dbg parse)"
  obtain k where d: "k < length defs" "i_def ?x = defs ! k" using i(3) by (metis in_set_conv_nth)
  have x: "instn_wf parse ?x" using assms(2,3) by (simp add: parse_wf_def)
  have k: "k < 56" "unat (opcode (i_def ?x)) = k"
    using table_length [OF assms(1)] table_opcode [OF assms(1) d(1)] d by auto
  have le: "?at + isize ?x \<le> ?n" "?n \<le> 2 ^ 32 - 256"
    using code_off_mono [of "Suc i" "length ?xs" dbg ?xs] assms(2-4)
    by (simp_all add: code_off_Suc length_full_code parse_wf_def)
  have n: "unat (codesz vm) = ?n" using le assms(7) by simp
  obtain rest where cd: "drop ?at (code vm) = enc_instn (resolve dbg parse) ?x @ rest"
    using full_code_slice [OF assms(3,4)] assms(6) by auto
  have args: "\<And>a. a \<in> set (i_args ?x) \<Longrightarrow> n_bytes_ok a \<and> in_memory (resolve dbg parse) vm a"
    using x arg_wf_bytes assms(8) by (auto simp: instn_wf_def)
  show ?thesis
    by (rule decode_encoded [OF _ _ args _ _ _ cd _ assms(9)])
      (use x k le n d table_length [OF assms(1)] in \<open>simp_all add: instn_wf_def nInstnDefs_def\<close>)
qed

lemma code_decodes_ok:
  assumes "instn_table defs" "parse_wf dbg parse"
    and "i < length (pr_instns parse)" "\<not> left_out dbg (pr_instns parse ! i)"
    and "k < length defs" "i_def (pr_instns parse ! i) = defs ! k"
    and "code vm = full_code dbg parse" "codesz vm = of_nat (length (full_code dbg parse))"
    and "\<forall>a \<in> set (i_args (pr_instns parse ! i)). in_memory (resolve dbg parse) vm a"
    and "length (iargs instn) = 3"
  shows "\<exists>instn'. decode_instn defs (unat (final_off dbg (pr_instns parse) i)) instn vm =
      Some (int (isize (pr_instns parse ! i)), instn', vm) \<and>
    drop_bit 3 (icode instn') = of_nat k \<and>
    (\<forall>j < length (i_args (pr_instns parse ! i)).
       iargs instn' ! j = dec_arg (resolve dbg parse) (i_args (pr_instns parse ! i) ! j))"
proof -
  let ?xs = "pr_instns parse"
  have "code_off dbg ?xs i \<le> length (full_code dbg parse)" "length (full_code dbg parse) \<le> 2 ^ 32 - 256"
    using code_off_mono [of i "length ?xs" dbg ?xs] assms(2,3) by (simp_all add: length_full_code parse_wf_def)
  then have off: "unat (final_off dbg ?xs i) = code_off dbg ?xs i"
    using final_off_Suc [OF assms(3,4), of i] off_before_in [OF assms(4), of i "Suc i"] by simp
  have "instn_wf parse (?xs ! i)" using assms(2,3) by (simp add: parse_wf_def)
  then have "drop_bit 3 (op_ir (?xs ! i)) = of_nat k"
    using op_ir_opcode [of "?xs ! i"] assms(6) table_opcode [OF assms(1,5)] by (simp add: instn_wf_def)
  moreover have "i_def (?xs ! i) \<in> set defs" using assms(5,6) by simp
  ultimately show ?thesis
    using code_decodes_at [OF assms(1-4) _ assms(7-10)] off by (auto simp: decoded_as_def)
qed

text \<open>
  C7. The decoder undoes the code generator: in a machine that runs the generated code, decoding
  at the offset of an instruction gives its opcode, the operands it was written with, labels
  resolved, and its length, and leaves the machine alone. References must lie in the memory.
\<close>

lemma code_decodes:
  assumes "instn_table defs" "parse_wf dbg parse"
    and "i < length (pr_instns parse)" "\<not> left_out dbg (pr_instns parse ! i)"
    and "k < length defs" "i_def (pr_instns parse ! i) = defs ! k"
    and "code vm = full_code dbg parse" "codesz vm = of_nat (length (full_code dbg parse))"
    and "\<forall>a \<in> set (i_args (pr_instns parse ! i)). in_memory (resolve dbg parse) vm a"
    and "length (iargs instn) = 3"
  shows "\<exists>instn'. decode_instn defs (unat (final_off dbg (pr_instns parse) i)) instn vm =
      Some (int (isize (pr_instns parse ! i)), instn', vm) \<and>
    drop_bit 3 (icode instn') = of_nat k \<and>
    (\<forall>j < length (i_args (pr_instns parse ! i)).
       iargs instn' ! j = dec_arg (resolve dbg parse) (i_args (pr_instns parse ! i) ! j))"
  using assms by (rule code_decodes_ok)

lemma code_decodes_witness:
  "\<exists>i. decode_instn std_defs 0 no_instn (make_vm [121, 0, 2, 7, 0, 0, 0, 72, 1] 9 16 0 ()) =
      Some (7, i, make_vm [121, 0, 2, 7, 0, 0, 0, 72, 1] 9 16 0 ()) \<and>
    drop_bit 3 (icode i) = 15 \<and> iargs i ! 0 = Imm 7"
proof -
  let ?vm = "make_vm [121, 0, 2, 7, 0, 0, 0, 72, 1] 9 16 0 ()"
  have "code_off False (pr_instns demo_parse) 0 = 0" by (simp add: code_off_def)
  then have o: "final_off False (pr_instns demo_parse) 0 = 0"
    using final_off_Suc [of 0 "pr_instns demo_parse" False 0] by (simp add: demo_parse_simps demo_left_out off_before_def)
  have d: "dec_arg (resolve False demo_parse) (i_args demo_jmp ! 0) = Imm 7" "length (i_args demo_jmp) = 1"
    using demo_offsets(1)
    by (simp_all add: demo_jmp_def dec_arg_def imm_type_def arg_val_def resolve_def demo_find)
      (simp add: demo_label_def)
  have "\<exists>instn'. decode_instn std_defs (unat (final_off False (pr_instns demo_parse) 0)) no_instn ?vm =
      Some (int (isize (pr_instns demo_parse ! 0)), instn', ?vm) \<and>
    drop_bit 3 (icode instn') = of_nat 15 \<and>
    (\<forall>j < length (i_args (pr_instns demo_parse ! 0)).
       iargs instn' ! j = dec_arg (resolve False demo_parse) (i_args (pr_instns demo_parse ! 0) ! j))"
  proof (rule code_decodes [OF std_table demo_parse_wf])
    show "i_def (pr_instns demo_parse ! 0) = std_defs ! 15" by (simp add: demo_parse_simps demo_jmp_def)
    show "\<forall>a \<in> set (i_args (pr_instns demo_parse ! 0)). in_memory (resolve False demo_parse) ?vm a"
      by (simp add: demo_parse_simps demo_jmp_def in_memory_def imm_type_def)
  qed (simp_all add: demo_parse_simps demo_left_out table_length [OF std_table] demo_code make_vm_def make_procedure_def
      Let_def no_instn_def)
  then show ?thesis unfolding o by (auto simp: demo_parse_simps demo_isize d)
qed
end
