(* ===== verification/CText.thy ===== *)
theory CText
  imports Prelude
begin

text \<open>
  Text in C: strings, a line buffer that the parser cuts in place, and \<open>strtoull\<close>. Characters
  are bytes; the locale is the C locale and \<open>unsigned long\<close> has 64 bits.
\<close>

section \<open>Characters and strings\<close>

definition NUL :: char where "NUL = CHR 0x00"

definition isspace :: "char \<Rightarrow> bool" where
  "isspace c \<longleftrightarrow> c = CHR 0x20 \<or> 9 \<le> (of_char c :: nat) \<and> (of_char c :: nat) \<le> 13"

definition char_u8 :: "char \<Rightarrow> u8" where
  "char_u8 c = of_nat (of_char c)"

text \<open>The character at an index of a C string, its end included.\<close>

definition chr :: "string \<Rightarrow> nat \<Rightarrow> char" where
  "chr s i = (if i < length s then s ! i else NUL)"

text \<open>
  A line buffer is a string that may have null characters and is followed by one. Reading behind
  that one is undefined, and writing anything else there does not happen.
\<close>

definition chr_at :: "string \<Rightarrow> nat \<Rightarrow> char option" where
  "chr_at b i = (if i \<le> length b then Some (chr b i) else None)"

definition put_chr :: "string \<Rightarrow> nat \<Rightarrow> char \<Rightarrow> string option" where
  "put_chr b i c =
     (if i < length b then Some (b[i := c]) else if i = length b \<and> c = NUL then Some b else None)"

definition cstr :: "string \<Rightarrow> nat \<Rightarrow> string" where
  "cstr b i = takeWhile (\<lambda>c. c \<noteq> NUL) (drop i b)"

text \<open>\<open>while (*p && P(*p)) p++\<close>\<close>

definition scan :: "(char \<Rightarrow> bool) \<Rightarrow> string \<Rightarrow> nat \<Rightarrow> nat option" where
  "scan P b i =
     (if i \<le> length b then Some (i + length (takeWhile (\<lambda>c. c \<noteq> NUL \<and> P c) (drop i b))) else None)"

section \<open>Numbers\<close>

definition digit_val :: "char \<Rightarrow> nat" where
  "digit_val c =
     (let n = of_char c in
      if 48 \<le> n \<and> n \<le> 57 then n - 48
      else if 65 \<le> n \<and> n \<le> 90 then n - 55
      else if 97 \<le> n \<and> n \<le> 122 then n - 87 else 36)"

definition digits_of :: "nat \<Rightarrow> string \<Rightarrow> string" where
  "digits_of base s = takeWhile (\<lambda>c. digit_val c < base) s"

definition number_of :: "nat \<Rightarrow> string \<Rightarrow> nat" where
  "number_of base ds = foldl (\<lambda>n c. n * base + digit_val c) 0 ds"

text \<open>The base a number is in and the length of its prefix.\<close>

definition base_prefix :: "nat \<Rightarrow> string \<Rightarrow> nat \<times> nat" where
  "base_prefix base s =
     (if (base = 0 \<or> base = 16) \<and> chr s 0 = CHR ''0'' \<and> (chr s 1 = CHR ''x'' \<or> chr s 1 = CHR ''X'') \<and>
         digit_val (chr s 2) < 16 then (16, 2)
      else if base = 0 then (if chr s 0 = CHR ''0'' then 8 else 10, 0)
      else (base, 0))"

text \<open>
  \<open>strtoull\<close>: the value, the number of characters up to \<open>endptr\<close> (0 when there is no number)
  and whether it set \<open>errno\<close> to \<open>ERANGE\<close>. \<open>strtoul\<close> is the same function.
\<close>

definition strtoull :: "nat \<Rightarrow> string \<Rightarrow> u64 \<times> nat \<times> bool" where
  "strtoull base s =
     (let ws = length (takeWhile isspace s);
          neg = (chr s ws = CHR ''-'');
          sg = (if neg \<or> chr s ws = CHR ''+'' then 1 else 0);
          (b, pre) = base_prefix base (drop (ws + sg) s);
          ds = digits_of b (drop (ws + sg + pre) s);
          n = number_of b ds
      in if ds = [] then (0, 0, False)
         else (if 2 ^ 64 \<le> n then - 1 else if neg then - of_nat n else of_nat n,
               ws + sg + pre + length ds, 2 ^ 64 \<le> n))"

section \<open>Scanning\<close>

lemma chr_append [simp]: "chr (pre @ c # post) (length pre) = c"
  by (simp add: chr_def)

lemma scan_Some: "scan P b i = Some j \<Longrightarrow> i \<le> j \<and> j \<le> length b"
proof -
  assume s: "scan P b i = Some j"
  have "length (takeWhile (\<lambda>c. c \<noteq> NUL \<and> P c) (drop i b)) \<le> length b - i"
    using length_takeWhile_le [of "\<lambda>c. c \<noteq> NUL \<and> P c" "drop i b"] by simp
  then show ?thesis using s by (auto simp: scan_def split: if_splits)
qed

lemma put_chr_length [simp]: "put_chr b i c = Some b' \<Longrightarrow> length b' = length b"
  by (auto simp: put_chr_def split: if_splits)

end
