(* ===== verification/Parser.thy ===== *)
theory Parser
  imports Asm CText
begin

text \<open>
  The parser of the assembler (\<open>parser.c\<close>): lines and their tokens, labels, instructions and
  their operands, data directives and included files. Messages are left out, their counts are
  kept.
\<close>

section \<open>State\<close>

text \<open>
  What parsing works on: the result, the set of labels referred to (a hash map to null
  pointers), and whether \<open>errno\<close> is \<open>ERANGE\<close>, which the code tests without clearing it.
\<close>

record asm_t =
  result :: prs_result_t
  seen_refs :: "unit hashmap_map"
  erange :: bool

text \<open>
  What parsing depends on: the table of instructions, which allocations of hash tables succeed,
  the files by their paths (a path without a file fails \<open>stat\<close> and \<open>fopen\<close>), the growth
  \<open>MEM_ALLOC_BLOCK_SZ\<close> of the memory (10, or 512 with \<open>NDEBUG\<close>), and whether fresh memory
  looks like an operand with a label, see \<open>destroy_instn\<close>.
\<close>

record asm_env =
  e_defs :: "instn_def_t list"
  e_calloc :: "nat \<Rightarrow> bool"
  e_files :: "string \<Rightarrow> string option"
  MEM_ALLOC_BLOCK_SZ :: nat
  e_junk_label :: bool

definition FILEPATH_BUF_SZ :: nat where "FILEPATH_BUF_SZ = 256"
definition MAX_TOKENS :: nat where "MAX_TOKENS = 4"
definition PREPROC_DATA :: string where "PREPROC_DATA = ''%data''"
definition PREPROC_INCL :: string where "PREPROC_INCL = ''%include''"

text \<open>The value \<open>(uint32_t)-1\<close> of an offset or size that is not given.\<close>

definition unset :: u32 where "unset = - 1"

datatype report_kind = P_ERROR | P_WARN

fun report :: "report_kind \<Rightarrow> asm_t \<Rightarrow> asm_t" where
  "report P_ERROR s = s\<lparr>result := (result s)\<lparr>errors := errors (result s) + 1\<rparr>\<rparr>"
| "report P_WARN s = s\<lparr>result := (result s)\<lparr>warnings := warnings (result s) + 1\<rparr>\<rparr>"

definition init_parse_result :: prs_result_t where
  "init_parse_result = \<lparr>pr_files = 0, errors = 0, warnings = 0, pr_instns = [], pr_memory = [], pr_memsz = 0,
     mem_alloc = 0, labels = hm_new, label_refs = []\<rparr>"

text \<open>A call of \<open>strtoull\<close>: the value and the rest of the string.\<close>

definition read_number :: "nat \<Rightarrow> string \<Rightarrow> asm_t \<Rightarrow> u64 \<times> string \<times> asm_t" where
  "read_number base str s =
     (case strtoull base str of (v, n, rng) \<Rightarrow> (v, drop n str, if rng then s\<lparr>erange := True\<rparr> else s))"

section \<open>Labels\<close>

definition add_label :: "asm_env \<Rightarrow> nat \<Rightarrow> u32 \<Rightarrow> string \<Rightarrow> u32 \<Rightarrow> bool \<Rightarrow> asm_t \<Rightarrow> asm_t option" where
  "add_label env fn lineno token offset mem_ref s =
     (let lbl = \<lparr>l_filename = fn, l_lineno = lineno, l_offset = offset, is_mem_ref = mem_ref\<rparr> in do {
        (_, m) \<leftarrow> hmap_put (e_calloc env) (labels (result s)) token (Some lbl);
        Some (s\<lparr>result := (result s)\<lparr>labels := m\<rparr>\<rparr>)
      })"

definition hset_add :: "asm_env \<Rightarrow> string \<Rightarrow> asm_t \<Rightarrow> asm_t option" where
  "hset_add env l s = do {
     (_, m) \<leftarrow> hmap_put (e_calloc env) (seen_refs s) l None;
     Some (s\<lparr>seen_refs := m\<rparr>)
   }"

section \<open>The memory of the data directives\<close>

text \<open>
  The loop adds blocks in 32 bits: it may wrap around near the end of the range, and then it
  returns only if it comes to lie above \<open>alloc\<close>.
\<close>

partial_function (option) grow_size :: "nat \<Rightarrow> u32 \<Rightarrow> u32 \<Rightarrow> u32 option" where
  "grow_size block alloc new_size =
     (if alloc > new_size then grow_size block alloc (new_size + of_nat block) else Some new_size)"

definition ensure_memory_alloc :: "asm_env \<Rightarrow> u32 \<Rightarrow> asm_t \<Rightarrow> asm_t option" where
  "ensure_memory_alloc env alloc s =
     (let r = result s in
      if alloc > pr_memsz r then do {
        new_size \<leftarrow> grow_size (MEM_ALLOC_BLOCK_SZ env) alloc (mem_alloc r);
        if new_size > mem_alloc r then
          Some (s\<lparr>result := r\<lparr>
            pr_memory := take (unat (mem_alloc r)) (pr_memory r) @ replicate (unat (new_size - mem_alloc r)) 0,
            mem_alloc := new_size\<rparr>\<rparr>)
        else Some s
      } else Some s)"

definition ensure_memory_at_offset :: "asm_env \<Rightarrow> u32 \<Rightarrow> u32 \<Rightarrow> asm_t \<Rightarrow> asm_t option" where
  "ensure_memory_at_offset env sz offset s =
     (if offset = unset then Some s
      else ensure_memory_alloc env (offset + (if sz \<noteq> 0 then sz else 1)) s)"

text \<open>The size becomes the end of what is written, whatever lay behind.\<close>

definition write_to_memory :: "asm_env \<Rightarrow> u8 list \<Rightarrow> u32 \<Rightarrow> asm_t \<Rightarrow> asm_t option" where
  "write_to_memory env src offset s = do {
     let end_offset = offset + of_nat (length src);
     s \<leftarrow> ensure_memory_alloc env end_offset s;
     m \<leftarrow> store_bytes (pr_memory (result s)) (unat offset) src;
     Some (s\<lparr>result := (result s)\<lparr>pr_memory := m, pr_memsz := end_offset\<rparr>\<rparr>)
   }"

definition set_memory_size :: "asm_env \<Rightarrow> u32 \<Rightarrow> u32 \<Rightarrow> asm_t \<Rightarrow> asm_t option" where
  "set_memory_size env original_offset sz s =
     (if sz = unset then Some s
      else let total = sz + original_offset in do {
        s \<leftarrow> (if total < pr_memsz (result s) then Some (report P_WARN s)
              else if total > pr_memsz (result s) then ensure_memory_alloc env total s
              else Some s);
        Some (s\<lparr>result := (result s)\<lparr>pr_memsz := total\<rparr>\<rparr>)
      })"

text \<open>\<open>offset != (uint32_t)-1 ? offset : result->memsz\<close>\<close>

definition place :: "u32 \<Rightarrow> asm_t \<Rightarrow> u32" where
  "place offset s = (if offset \<noteq> unset then offset else pr_memsz (result s))"

text \<open>The end of every data directive: its size and its label, whose name follows a \<open>@\<close>.\<close>

definition end_data :: "asm_env \<Rightarrow> nat \<Rightarrow> u32 \<Rightarrow> string option \<Rightarrow> u32 \<Rightarrow> u32 \<Rightarrow> asm_t \<Rightarrow> asm_t option" where
  "end_data env fn lineno lbl offset sz s = do {
     s \<leftarrow> set_memory_size env offset sz s;
     (case lbl of None \<Rightarrow> Some s | Some l \<Rightarrow> add_label env fn lineno (drop 1 l) offset True s)
   }"

section \<open>Data\<close>

text \<open>
  The file is looked for in the directories of the list; paths are cut to the buffer. A file
  that is not there sets \<open>errno\<close> to another value.
\<close>

fun find_file :: "asm_env \<Rightarrow> string \<Rightarrow> string list \<Rightarrow> asm_t \<Rightarrow> string option \<times> asm_t" where
  "find_file env f [] s = (None, s)"
| "find_file env f (d # ds) s =
     (let path = take (FILEPATH_BUF_SZ - 1) (d @ ''/'' @ f) in
      if e_files env path \<noteq> None then (Some path, s)
      else find_file env f ds (s\<lparr>erange := False\<rparr>))"

text \<open>The blocks of a file: \<open>k\<close> is at least their number.\<close>

fun write_blocks :: "nat \<Rightarrow> asm_env \<Rightarrow> u8 list \<Rightarrow> u32 \<Rightarrow> asm_t \<Rightarrow> asm_t option" where
  "write_blocks k env [] offset s = Some s"
| "write_blocks 0 env bs offset s = None"
| "write_blocks (Suc k) env bs offset s =
     (let chunk = take (MEM_ALLOC_BLOCK_SZ env) bs in do {
        s \<leftarrow> write_to_memory env chunk offset s;
        write_blocks k env (drop (MEM_ALLOC_BLOCK_SZ env) bs) (offset + of_nat (length chunk)) s
      })"

definition add_file_to_memory ::
  "asm_env \<Rightarrow> nat \<Rightarrow> u32 \<Rightarrow> string option \<Rightarrow> string \<Rightarrow> u32 \<Rightarrow> u32 \<Rightarrow> string list \<Rightarrow> asm_t \<Rightarrow> asm_t option" where
  "add_file_to_memory env fn lineno lbl incl_file sz offset paths s =
     (case find_file env incl_file paths s of
        (None, s) \<Rightarrow> Some (report P_ERROR s)
      | (Some path, s) \<Rightarrow> do {
          s \<leftarrow> ensure_memory_at_offset env sz offset s;
          contents \<leftarrow> e_files env path;
          let w_offset = place offset s;
          s \<leftarrow> write_blocks (length contents) env (map char_u8 contents) w_offset s;
          end_data env fn lineno lbl w_offset sz s
        })"

text \<open>
  The escapes; a backslash before any other character is dropped and stays in effect until one
  of the characters of the list below.
\<close>

definition escape_of :: "char \<Rightarrow> u8 option" where
  "escape_of c = map_of (zip ''abfnrtv'' [7, 8, 12, 10, 13, 9, 11]) c"

fun write_str :: "asm_env \<Rightarrow> string \<Rightarrow> bool \<Rightarrow> u32 \<Rightarrow> asm_t \<Rightarrow> (bool \<times> u32 \<times> asm_t) option" where
  "write_str env [] escape w_offset s = Some (False, w_offset, s)"
| "write_str env (c # cs) escape w_offset s =
     (if c = CHR 0x5C \<and> \<not> escape then write_str env cs True w_offset s
      else if c = CHR 0x22 \<and> \<not> escape then Some (True, w_offset, s)
      else let special = (c = CHR 0x5C \<or> c = CHR 0x22 \<or> escape_of c \<noteq> None);
               b = (case escape_of c of Some e \<Rightarrow> if escape then e else char_u8 c | None \<Rightarrow> char_u8 c)
      in do {
        s \<leftarrow> write_to_memory env [b] w_offset s;
        write_str env cs (escape \<and> \<not> special) (w_offset + 1) s
      })"

definition add_str_to_memory ::
  "asm_env \<Rightarrow> nat \<Rightarrow> u32 \<Rightarrow> string option \<Rightarrow> string \<Rightarrow> u32 \<Rightarrow> u32 \<Rightarrow> asm_t \<Rightarrow> asm_t option" where
  "add_str_to_memory env fn lineno lbl str sz offset s = do {
     s \<leftarrow> ensure_memory_at_offset env sz offset s;
     let original_offset = place offset s;
     (stop, w_offset, s) \<leftarrow> write_str env (drop 1 str) False original_offset s;
     s \<leftarrow> write_to_memory env [0] w_offset s;
     let s = (if stop then s else report P_ERROR s);
     end_data env fn lineno lbl original_offset sz s
   }"

definition hex_width :: "nat \<Rightarrow> nat" where
  "hex_width len = (if len \<le> 2 then 1 else if len \<le> 4 then 2 else if len \<le> 8 then 4 else 8)"

definition add_hex_to_memory ::
  "asm_env \<Rightarrow> nat \<Rightarrow> u32 \<Rightarrow> string option \<Rightarrow> string \<Rightarrow> u32 \<Rightarrow> u32 \<Rightarrow> asm_t \<Rightarrow> asm_t option" where
  "add_hex_to_memory env fn lineno lbl hex sz offset s = do {
     s \<leftarrow> ensure_memory_at_offset env sz offset s;
     let (n, rest, s) = read_number 16 (drop 2 hex) s;
     let s = (if rest \<noteq> [] then report P_WARN s else s);
     let w_offset = place offset s;
     let len = length (drop 2 hex);
     let s = (if len > 16 then report P_WARN s else s);
     s \<leftarrow> write_to_memory env (le_bytes (hex_width len) (unat n)) w_offset s;
     end_data env fn lineno lbl w_offset sz s
   }"

definition add_label_to_memory ::
  "asm_env \<Rightarrow> nat \<Rightarrow> u32 \<Rightarrow> string option \<Rightarrow> string \<Rightarrow> u32 \<Rightarrow> u32 \<Rightarrow> asm_t \<Rightarrow> asm_t option" where
  "add_label_to_memory env fn lineno lbl label_value sz offset s =
     (let sz = (if sz = unset then 4 else sz) in
      if sz \<noteq> 4 \<and> sz \<noteq> 8 then Some (report P_ERROR s)
      else do {
        s \<leftarrow> ensure_memory_at_offset env sz offset s;
        let w_offset = place offset s;
        let ref = \<lparr>r_filename = fn, r_lineno = lineno, r_label = label_value, r_size = sz, write_offset = w_offset\<rparr>;
        let s = s\<lparr>result := (result s)\<lparr>label_refs := ref # label_refs (result s)\<rparr>\<rparr>;
        s \<leftarrow> write_to_memory env (replicate (unat sz) 0) w_offset s;
        end_data env fn lineno lbl w_offset sz s
      })"

section \<open>Data directives\<close>

text \<open>
  \<open>NEXT_TOKEN\<close>: the buffer with the token cut out, its start, its end and the character that
  was there; \<^term>\<open>Some None\<close> when a required token is missing.
\<close>

definition next_token :: "bool \<Rightarrow> string \<Rightarrow> nat \<Rightarrow> (string \<times> nat \<times> nat \<times> char) option option" where
  "next_token required b token = do {
     token \<leftarrow> scan isspace b token;
     p \<leftarrow> scan (\<lambda>c. \<not> isspace c \<and> c \<noteq> CHR '';'') b token;
     c \<leftarrow> chr_at b p;
     if required \<and> (token = p \<or> c = NUL) then Some None
     else do {
       t \<leftarrow> chr_at b token;
       b \<leftarrow> (if t = CHR '';'' then put_chr b token NUL else Some b);
       p_value \<leftarrow> chr_at b p;
       b \<leftarrow> put_chr b p NUL;
       Some (Some (b, token, p, p_value))
     }
   }"

text \<open>The distance from a character behind the opening quote to the one behind the closing quote, or to the end.\<close>

fun close_quote :: "char \<Rightarrow> string \<Rightarrow> nat" where
  "close_quote prev [] = 0"
| "close_quote prev (c # cs) =
     (if c = NUL then 0 else if c = CHR 0x22 \<and> prev \<noteq> CHR 0x5C then 1 else Suc (close_quote c cs))"

definition parse_string_literal :: "string \<Rightarrow> nat \<Rightarrow> (string \<times> nat) option" where
  "parse_string_literal b token =
     (if token < length b then
        (let c = token + 1 + close_quote NUL (drop (token + 1) b) in do { b \<leftarrow> put_chr b c NUL; Some (b, c) })
      else None)"

definition parse_preproc_data_no :: "string \<Rightarrow> asm_t \<Rightarrow> u32 \<times> asm_t" where
  "parse_preproc_data_no str s =
     (let (n, rest, s) = read_number 10 str s in
      if rest \<noteq> [] \<and> hd rest \<noteq> CHR '';'' then (0, report P_ERROR s) else (ucast n, s))"

text \<open>
  The loop over the offset and the size of a directive. It ends: every turn goes forward in the
  line.
\<close>

lemma next_token_forward:
  "next_token required b token = Some (Some (b', token', p, v)) \<Longrightarrow> length b' = length b \<and> token \<le> p \<and> p \<le> length b"
  by (auto simp: next_token_def split: if_splits dest!: scan_Some)

function data_options :: "string \<Rightarrow> nat \<Rightarrow> u32 \<Rightarrow> u32 \<Rightarrow> asm_t \<Rightarrow> (string \<times> u32 \<times> u32 \<times> asm_t) option" where
  "data_options b token sz offset s =
     (case next_token False b token of
        Some (Some (b, token, p, _)) \<Rightarrow>
          if chr b token = NUL then Some (b, sz, offset, s)
          else if chr b token = CHR '':'' then
            (let s = (if offset \<noteq> unset then report P_ERROR s else s);
                 (offset, s) = parse_preproc_data_no (cstr b (token + 1)) s;
                 s = (if offset \<noteq> 0 \<and> offset < pr_memsz (result s) then report P_WARN s else s)
             in data_options b (p + 1) sz offset s)
          else if chr b token = CHR ''/'' then
            (let s = (if offset \<noteq> unset then report P_ERROR s else s);
                 (sz, s) = parse_preproc_data_no (cstr b (token + 1)) s
             in data_options b (p + 1) sz offset s)
          else Some (b, sz, offset, report P_ERROR s)
      | _ \<Rightarrow> None)"
  by pat_completeness auto
termination
  by (relation "measure (\<lambda>(b, token, _). length b + 1 - token)") (auto dest!: next_token_forward)

declare data_options.simps [simp del]

text \<open>What the data is decides what is written.\<close>

definition add_data ::
  "asm_env \<Rightarrow> nat \<Rightarrow> u32 \<Rightarrow> string option \<Rightarrow> string \<Rightarrow> u32 \<Rightarrow> u32 \<Rightarrow> string list \<Rightarrow> asm_t \<Rightarrow> asm_t option" where
  "add_data env fn lineno lbl d sz offset paths s =
     (if chr d 0 = CHR ''&'' then add_label_to_memory env fn lineno lbl (drop 1 d) sz offset s
      else if chr d 0 = CHR ''='' \<or> chr d 0 = CHR 0x22 \<or>
              chr d 0 = CHR ''0'' \<and> chr d 1 = CHR ''x'' \<and> chr d 2 \<noteq> NUL then do {
        s \<leftarrow> (if chr d 0 = CHR ''='' then add_file_to_memory env fn lineno lbl (drop 1 d) sz offset paths s
              else if chr d 0 = CHR 0x22 then add_str_to_memory env fn lineno lbl d sz offset s
              else add_hex_to_memory env fn lineno lbl d sz offset s);
        if pr_memsz (result s) \<le> mem_alloc (result s) then Some s else None
      } else Some (report P_ERROR s))"

definition parse_preproc_data ::
  "asm_env \<Rightarrow> nat \<Rightarrow> u32 \<Rightarrow> string \<Rightarrow> string list \<Rightarrow> asm_t \<Rightarrow> asm_t option" where
  "parse_preproc_data env fn lineno line paths s = do {
     r \<leftarrow> next_token True line (length PREPROC_DATA + 1);
     (case r of
        None \<Rightarrow> Some (report P_ERROR s)
      | Some (b, token, p, v) \<Rightarrow> do {
          r \<leftarrow> (if chr b token = CHR ''@'' then next_token True b (p + 1) else Some (Some (b, token, p, v)));
          (case r of
             None \<Rightarrow> Some (report P_ERROR s)
           | Some (b, data, p, v) \<Rightarrow> do {
               (b, p) \<leftarrow> (if chr b data = CHR 0x22 then do {
                            b \<leftarrow> put_chr b p v;
                            parse_string_literal b data
                          } else Some (b, p));
               (b, sz, offset, s) \<leftarrow> data_options b (p + 1) unset unset s;
               let lbl = (if chr b token = CHR ''@'' then Some (cstr b token) else None);
               add_data env fn lineno lbl (cstr b data) sz offset paths s
             })
        })
   }"

section \<open>Instructions\<close>

definition IS_BYTES_LONG :: "nat \<Rightarrow> u64 \<Rightarrow> bool" where
  "IS_BYTES_LONG n x \<longleftrightarrow> x AND NOT (mask (8 * n)) = 0"

text \<open>\<open>INT64_MAX - 1\<close>, compared as an unsigned number.\<close>

definition big_imm :: "u64 \<Rightarrow> bool" where
  "big_imm v \<longleftrightarrow> v > 2 ^ 63 - 2"

text \<open>One optional character in front of an operand.\<close>

definition eat :: "char \<Rightarrow> string \<Rightarrow> bool \<times> string" where
  "eat c p = (if chr p 0 = c then (True, drop 1 p) else (False, p))"

definition imm_bytes_of :: "bool \<Rightarrow> u64 \<Rightarrow> u8" where
  "imm_bytes_of negative imm =
     (if negative then 8 else if IS_BYTES_LONG 1 imm then 1 else if IS_BYTES_LONG 2 imm then 2
      else if IS_BYTES_LONG 4 imm then 4 else 8)"

text \<open>The result is the operand, or \<^term>\<open>None\<close> for the return value \<open>- 1\<close>.\<close>

definition parse_arg :: "asm_env \<Rightarrow> string \<Rightarrow> asm_t \<Rightarrow> (prs_arg_t option \<times> asm_t) option" where
  "parse_arg env token s =
     (let (negative, p) = eat (CHR ''-'') token;
          (reference, p) = eat (CHR ''*'') p;
          (imm_ref, p) = eat (CHR ''&'') p;
          base = (if chr p 0 = CHR ''0'' \<and> chr p 1 = CHR ''x'' then 16 else 0);
          (imm, endp, s) = read_number base p s
      in if imm = - 1 \<and> erange s \<or> big_imm imm \<and> negative then Some (None, report P_ERROR s)
      else let s = (if \<not> negative \<and> big_imm imm then report P_WARN s else s) in
        if endp = p then
          if negative \<or> reference then Some (None, report P_ERROR s)
          else do {
            s \<leftarrow> hset_add env p s;
            Some (Some \<lparr>a_type = (if imm_ref then T_ARG_IMM_LBL else T_ARG_REF_LBL), n_bytes = 4, a_data = Label p\<rparr>, s)
          }
        else if endp \<noteq> [] then Some (None, report P_ERROR s)
        else let imm = (if negative then - imm else imm) in
          if reference then Some (Some \<lparr>a_type = T_ARG_REF_NUM, n_bytes = 4, a_data = Value imm\<rparr>, s)
          else Some (Some \<lparr>a_type = T_ARG_IMM, n_bytes = imm_bytes_of negative imm, a_data = Value imm\<rparr>, s))"

text \<open>
  An instruction given up while its operands are parsed is destroyed with all its operands. The
  ones not parsed yet are indeterminate: if they look like operands with labels, wild pointers
  are freed. The label of one that was parsed is freed, but the set of labels keeps the pointer
  and \<open>parse_asm\<close> reads it at the end: that is undefined at once here.
\<close>

definition destroy_instn :: "asm_env \<Rightarrow> nat \<Rightarrow> prs_arg_t list \<Rightarrow> asm_t \<Rightarrow> asm_t option" where
  "destroy_instn env n parsed s =
     (if length parsed < n \<and> e_junk_label env \<or> (\<exists>a \<in> set parsed. a_type a = T_ARG_REF_LBL \<or> a_type a = T_ARG_IMM_LBL)
      then None else Some s)"

text \<open>The loop over the operands; the second component is \<^term>\<open>None\<close> when the instruction was given up.\<close>

fun parse_args ::
  "asm_env \<Rightarrow> instn_def_t \<Rightarrow> prs_arg_t list \<Rightarrow> string list \<Rightarrow> asm_t \<Rightarrow> (prs_arg_t list option \<times> asm_t) option" where
  "parse_args env fmt parsed [] s = Some (Some parsed, s)"
| "parse_args env fmt parsed (t # ts) s = do {
     (a, s) \<leftarrow> parse_arg env t s;
     (case a of
        None \<Rightarrow> do { s \<leftarrow> destroy_instn env (arg_count fmt) parsed s; Some (None, s) }
      | Some a \<Rightarrow>
          if parsed = [] \<and> a_type a = T_ARG_IMM \<and> flags fmt AND F_ALLOW_IMM_1st_Arg = 0 then do {
            s \<leftarrow> destroy_instn env (arg_count fmt) [a] (report P_ERROR s);
            Some (None, s)
          } else parse_args env fmt (parsed @ [a]) ts s)
   }"

definition parse_instn ::
  "asm_env \<Rightarrow> string list \<Rightarrow> asm_t \<Rightarrow> ((instn_def_t \<times> prs_arg_t list) option \<times> asm_t) option" where
  "parse_instn env tokens s = do {
     r \<leftarrow> find_instn (e_defs env) (hd tokens) (length tokens - 1);
     (case r of
        Found j \<Rightarrow> do {
          (parsed, s) \<leftarrow> parse_args env (e_defs env ! j) [] (tl tokens) s;
          Some (map_option (Pair (e_defs env ! j)) parsed, s)
        }
      | _ \<Rightarrow> Some (None, report P_ERROR s))
   }"

definition add_instn :: "asm_env \<Rightarrow> nat \<Rightarrow> u32 \<Rightarrow> string list \<Rightarrow> asm_t \<Rightarrow> asm_t option" where
  "add_instn env fn lineno tokens s = do {
     (r, s) \<leftarrow> parse_instn env tokens s;
     (case r of
        None \<Rightarrow> Some s
      | Some (d, parsed) \<Rightarrow>
          let instn = \<lparr>i_filename = fn, i_lineno = lineno, i_def = d, i_args = parsed, mem_offset = - 1\<rparr>
          in Some (s\<lparr>result := (result s)\<lparr>pr_instns := pr_instns (result s) @ [instn]\<rparr>\<rparr>))
   }"

section \<open>Lines\<close>

text \<open>
  The loop that cuts a line into tokens at white space and commas. It is at \<open>p\<close> in the buffer
  \<open>b\<close>; \<open>tokens\<close> are the starts of the tokens so far, and a fifth one is written behind
  the array. The result says whether the line was given up, and whether it holds an instruction.
\<close>

fun cut_tokens ::
  "asm_env \<Rightarrow> nat \<Rightarrow> u32 \<Rightarrow> nat \<Rightarrow> nat \<Rightarrow> string \<Rightarrow> nat list \<Rightarrow> bool \<Rightarrow> bool \<Rightarrow> asm_t \<Rightarrow>
    (bool \<times> string \<times> nat list \<times> bool \<times> asm_t) option" where
  "cut_tokens env fn lineno 0 p b tokens mark_token is_instn s = Some (False, b, tokens, is_instn, s)"
| "cut_tokens env fn lineno (Suc k) p b tokens mark_token is_instn s =
     (if chr b p = NUL then Some (False, b, tokens, is_instn, s)
      else if chr b p = CHR '';'' then Some (False, b[p := NUL], tokens, is_instn, s)
      else if isspace (chr b p) \<or> chr b p = CHR '','' then
        cut_tokens env fn lineno k (p + 1) (b[p := NUL]) tokens True is_instn s
      else if length tokens = 1 \<and> chr b p = CHR '':'' then do {
        let b = b[p := NUL];
        s \<leftarrow> add_label env fn lineno (cstr b (hd tokens)) (n_instns (result s)) False s;
        cut_tokens env fn lineno k (p + 1) b tokens mark_token False s
      }
      else if \<not> is_instn then Some (True, b, tokens, is_instn, report P_ERROR s)
      else if mark_token then
        if MAX_TOKENS \<le> length tokens then None
        else cut_tokens env fn lineno k (p + 1) b (tokens @ [p]) False is_instn s
      else cut_tokens env fn lineno k (p + 1) b tokens mark_token is_instn s)"

text \<open>
  \<open>%include\<close>: the parser of files is an argument. The path is in a buffer of this call, whose
  address becomes the file name of everything in the file; a buffer has the address of the one
  at the same depth before it, so that the depth stands for it.
\<close>

type_synonym file_parser = "nat \<Rightarrow> string \<Rightarrow> asm_t \<Rightarrow> asm_t option"

definition parse_preproc_include ::
  "asm_env \<Rightarrow> file_parser \<Rightarrow> nat \<Rightarrow> u32 \<Rightarrow> string \<Rightarrow> string list \<Rightarrow> asm_t \<Rightarrow> asm_t option" where
  "parse_preproc_include env parse_file fn lineno line paths s = do {
     file \<leftarrow> scan isspace line (length PREPROC_INCL + 1);
     p \<leftarrow> scan (\<lambda>c. \<not> isspace c \<and> c \<noteq> CHR '';'') line file;
     b \<leftarrow> put_chr line p NUL;
     if file = p then Some (report P_ERROR s)
     else (case find_file env (cstr b file) paths s of
             (None, s) \<Rightarrow> Some (report P_ERROR s)
           | (Some path, s) \<Rightarrow> parse_file (fn + 1) path s)
   }"

text \<open>The directive is looked for at the start of the line, not where the \<open>%\<close> was found.\<close>

definition parse_preproc_line ::
  "asm_env \<Rightarrow> file_parser \<Rightarrow> nat \<Rightarrow> u32 \<Rightarrow> string \<Rightarrow> string list \<Rightarrow> asm_t \<Rightarrow> asm_t option" where
  "parse_preproc_line env parse_file fn lineno line paths s =
     (if take (length PREPROC_DATA) line = PREPROC_DATA then parse_preproc_data env fn lineno line paths s
      else if take (length PREPROC_INCL) line = PREPROC_INCL then
        parse_preproc_include env parse_file fn lineno line paths s
      else Some s)"

definition parse_line ::
  "asm_env \<Rightarrow> file_parser \<Rightarrow> nat \<Rightarrow> u32 \<Rightarrow> string list \<Rightarrow> string \<Rightarrow> asm_t \<Rightarrow> asm_t option" where
  "parse_line env parse_file fn lineno paths line s = do {
     p \<leftarrow> scan isspace line 0;
     if chr line p = NUL \<or> chr line p = CHR '';'' then Some s
     else if chr line p = CHR ''%'' then parse_preproc_line env parse_file fn lineno line paths s
     else do {
       (ret, b, tokens, is_instn, s) \<leftarrow> cut_tokens env fn lineno (length line - p) p line [p] False True s;
       if \<not> ret \<and> is_instn then add_instn env fn lineno (map (cstr b) tokens) s else Some s
     }
   }"

section \<open>Files\<close>

text \<open>\<open>getline\<close>: every line with its newline; the last one may lack it.\<close>

fun get_lines :: "string \<Rightarrow> string list" where
  "get_lines [] = []"
| "get_lines (c # cs) =
     (if c = CHR 0x0A then [c] # get_lines cs
      else case get_lines cs of [] \<Rightarrow> [[c]] | l # ls \<Rightarrow> (c # l) # ls)"

fun parse_lines ::
  "asm_env \<Rightarrow> file_parser \<Rightarrow> nat \<Rightarrow> u32 \<Rightarrow> string list \<Rightarrow> string list \<Rightarrow> asm_t \<Rightarrow> asm_t option" where
  "parse_lines env parse_file fn lineno paths [] s = Some s"
| "parse_lines env parse_file fn lineno paths (l # ls) s = do {
     s \<leftarrow> parse_line env parse_file fn (lineno + 1) paths l s;
     parse_lines env parse_file fn (lineno + 1) paths ls s
   }"

text \<open>
  A file that cannot be opened is a null stream that is read: undefined. \<open>depth\<close> bounds the
  nesting of included files; files that include each other exhaust the stack or the open files.
\<close>

fun parse_asm_into :: "nat \<Rightarrow> asm_env \<Rightarrow> string list \<Rightarrow> file_parser" where
  "parse_asm_into 0 env paths fn path s = None"
| "parse_asm_into (Suc depth) env paths fn path s = do {
     contents \<leftarrow> e_files env path;
     s \<leftarrow> parse_lines env (parse_asm_into depth env paths) fn 0 paths (get_lines contents) s;
     Some (s\<lparr>result := (result s)\<lparr>pr_files := pr_files (result s) + 1\<rparr>\<rparr>)
   }"

definition label_refs_visitor :: "asm_t \<Rightarrow> string \<Rightarrow> unit option \<Rightarrow> asm_t" where
  "label_refs_visitor s l unused =
     (if fst (hmap_get (labels (result s)) l) \<noteq> MAP_OK then report P_ERROR s else s)"

text \<open>\<open>strrchr(filename, '/')\<close>: the directory of the file.\<close>

definition dir_of :: "string \<Rightarrow> string option" where
  "dir_of path =
     (if CHR ''/'' \<in> set path then Some (rev (drop 1 (dropWhile (\<lambda>c. c \<noteq> CHR ''/'') (rev path)))) else None)"

text \<open>
  The inner option is the returned pointer. A file found in a directory of the list only is then
  opened by its bare name. \<open>parse_files\<close> is what comes before the check of the labels.
\<close>

definition parse_files :: "nat \<Rightarrow> asm_env \<Rightarrow> string \<Rightarrow> string list \<Rightarrow> bool \<Rightarrow> asm_t option option" where
  "parse_files depth env filename paths rng =
     (let s = \<lparr>result = init_parse_result, seen_refs = hm_new, erange = rng\<rparr>;
          there = e_files env filename \<noteq> None;
          paths' = (case dir_of filename of Some d \<Rightarrow> if there then d # paths else paths | None \<Rightarrow> paths);
          (found, s) = (if there then (Some filename, s) else find_file env filename paths (s\<lparr>erange := False\<rparr>))
      in if found = None then Some None
      else map_option Some (parse_asm_into depth env paths' 0 filename s))"

definition parse_asm :: "nat \<Rightarrow> asm_env \<Rightarrow> string \<Rightarrow> string list \<Rightarrow> bool \<Rightarrow> prs_result_t option option" where
  "parse_asm depth env filename paths rng =
     map_option (map_option (\<lambda>s. result (snd (hmap_iterate (seen_refs s) s label_refs_visitor))))
       (parse_files depth env filename paths rng)"

section \<open>After parsing\<close>

text \<open>A label at the end of the file has no instruction: undefined.\<close>

definition resolve_ref :: "label_ref_t \<Rightarrow> prs_result_t \<Rightarrow> (int \<times> prs_result_t) option" where
  "resolve_ref ref r =
     (let give_up = Some (- 1, r\<lparr>errors := errors r + 1\<rparr>) in
      case find_label r (r_label ref) of
        None \<Rightarrow> give_up
      | Some lbl \<Rightarrow> do {
          v \<leftarrow> (if is_mem_ref lbl then Some (Some (l_offset lbl))
                else if unat (l_offset lbl) < length (pr_instns r) then
                  (let v = mem_offset (pr_instns r ! unat (l_offset lbl)) in Some (if v = - 1 then None else Some v))
                else None);
          (case v of
             None \<Rightarrow> give_up
           | Some v \<Rightarrow> do {
               m \<leftarrow> store (if r_size ref = 4 then 4 else 8) (pr_memory r) (unat (write_offset ref)) (unat v);
               Some (0, r\<lparr>pr_memory := m\<rparr>)
             })
        })"

fun resolve_refs :: "label_ref_t list \<Rightarrow> prs_result_t \<Rightarrow> (int \<times> prs_result_t) option" where
  "resolve_refs [] r = Some (0, r)"
| "resolve_refs (ref # refs) r = do {
     (ret, r) \<leftarrow> resolve_ref ref r;
     if ret < 0 then Some (ret, r) else resolve_refs refs r
   }"

definition resolve_data_label_refs :: "prs_result_t \<Rightarrow> (int \<times> prs_result_t) option" where
  "resolve_data_label_refs r = resolve_refs (label_refs r) r"

text \<open>The offset of a label in the code is the number of its instruction, and so is the result.\<close>

definition resolve_entry_point :: "string \<Rightarrow> prs_result_t \<Rightarrow> u32" where
  "resolve_entry_point entry_label r =
     (case find_label r entry_label of
        None \<Rightarrow> - 1
      | Some lbl \<Rightarrow> if is_mem_ref lbl then - 1 else l_offset lbl)"

end
