(* ===== verification/ParserInv.thy ===== *)
theory ParserInv
  imports Parser
begin

text \<open>
  What parsing guarantees: the memory is never larger than its allocation, instructions have the
  operands their definitions ask for, and in a parse without errors every label that is referred
  to is there. This is what the code generator needs.
\<close>

section \<open>Tables whose allocation never fails\<close>

lemma reinsert_no_omem:
  assumes "\<And>m k v st m'. put m k v = Some (st, m') \<Longrightarrow> st = MAP_OK"
  shows "reinsert put es m = Some (st, m') \<Longrightarrow> st = MAP_OK"
  by (induction es arbitrary: m) (auto split: if_splits option.splits prod.splits dest: assms)

lemma hmap_put_f_no_omem:
  assumes c: "\<And>n. calloc n"
  shows "hmap_put_f f calloc (m :: 'v hashmap_map) k v = Some (st, m') \<Longrightarrow> st = MAP_OK"
proof (induction f arbitrary: m k v st m')
  case (Suc f)
  have ri: "reinsert (hmap_put_f f calloc) es m1 = Some (st1, m2) \<Longrightarrow> st1 = MAP_OK"
    for es m1 st1 and m2 :: "'v hashmap_map"
    using reinsert_no_omem [of "hmap_put_f f calloc" es m1 st1 m2] Suc.IH by blast
  have r: "hashmap_rehash calloc (hmap_put_f f calloc) m = Some (st1, m1) \<Longrightarrow> st1 = MAP_OK" for st1 m1
    using ri c by (simp add: hashmap_rehash_def)
  show ?case
  proof (cases "hashmap_hash m k")
    case None
    with Suc.prems obtain st1 m1 where 1: "hashmap_rehash calloc (hmap_put_f f calloc) m = Some (st1, m1)"
      by (auto split: option.splits)
    with r have "st1 = MAP_OK" by blast
    with 1 None Suc.prems have "hmap_put_f f calloc m1 k v = Some (st, m')" by simp
    then show ?thesis by (rule Suc.IH)
  qed (use Suc.prems in simp)
qed auto

text \<open>The table of instructions is the sorted one, and hash tables can be allocated.\<close>

definition env_ok :: "asm_env \<Rightarrow> bool" where
  "env_ok env \<longleftrightarrow> (\<forall>n. e_calloc env n) \<and> instn_table (e_defs env)"

lemma hmap_put_always:
  assumes "env_ok env" "hmap_put (e_calloc env) m k v = Some (st, m')" "hm_inv m"
  shows "hm_inv m' \<and> hm_abs m' = (hm_abs m)(k \<mapsto> v)"
proof -
  have "st = MAP_OK"
    using assms(1,2) hmap_put_f_no_omem [of "e_calloc env" 32 m k v st m'] by (simp add: env_ok_def hmap_put_def)
  then show ?thesis using hmap_put_correct [OF assms(3)] assms(2) by simp
qed

section \<open>The memory\<close>

definition mem_inv :: "prs_result_t \<Rightarrow> bool" where
  "mem_inv r \<longleftrightarrow> pr_memsz r \<le> mem_alloc r \<and> length (pr_memory r) = unat (mem_alloc r)"

text \<open>A step that touches only the memory, its references and the counts, and keeps the memory right.\<close>

definition mem_step :: "asm_t \<Rightarrow> asm_t \<Rightarrow> bool" where
  "mem_step s s' \<longleftrightarrow> pr_instns (result s') = pr_instns (result s) \<and> labels (result s') = labels (result s) \<and>
     seen_refs s' = seen_refs s \<and> (mem_inv (result s) \<longrightarrow> mem_inv (result s'))"

lemma mem_step_refl [simp]: "mem_step s s"
  by (simp add: mem_step_def)

lemma mem_step_trans: "mem_step s s' \<Longrightarrow> mem_step s' s'' \<Longrightarrow> mem_step s s''"
  by (simp add: mem_step_def)

lemma mem_step_report [simp]: "mem_step s (report k s)"
  by (cases k) (simp_all add: mem_step_def mem_inv_def)

lemma mem_step_report_trans [simp]: "mem_step s s' \<Longrightarrow> mem_step s (report k s')"
  by (erule mem_step_trans) (rule mem_step_report)

declare report.simps [simp del]

lemma mem_step_erange [simp]: "mem_step s (s\<lparr>erange := e\<rparr>)"
  by (simp add: mem_step_def)

lemma read_number_step: "read_number base str s = (v, rest, s') \<Longrightarrow> mem_step s s'"
  by (auto simp: read_number_def split: prod.splits if_splits)

lemma find_file_step: "find_file env f ds s = (r, s') \<Longrightarrow> mem_step s s'"
  by (induction env f ds s rule: find_file.induct)
    (auto simp: Let_def split: if_splits intro: mem_step_trans [OF mem_step_erange])

lemma grow_size_ge: "grow_size block alloc n = Some n' \<Longrightarrow> alloc \<le> n'"
  by (erule grow_size.raw_induct [of "\<lambda>block alloc n n'. alloc \<le> n'", rotated]) (auto split: if_splits)

lemma ensure_memory_alloc_step:
  assumes "ensure_memory_alloc env alloc s = Some s'"
  shows "mem_step s s'" and "pr_memsz (result s') = pr_memsz (result s)"
    and "mem_inv (result s) \<Longrightarrow> alloc \<le> mem_alloc (result s')"
proof -
  have g: "mem_step s s' \<and> pr_memsz (result s') = pr_memsz (result s) \<and>
      (mem_inv (result s) \<longrightarrow> alloc \<le> mem_alloc (result s'))"
  proof (cases "alloc > pr_memsz (result s)")
    case True
    then obtain n where n: "grow_size (MEM_ALLOC_BLOCK_SZ env) alloc (mem_alloc (result s)) = Some n"
      and s': "s' = (if n > mem_alloc (result s) then s\<lparr>result := (result s)\<lparr>
            pr_memory := take (unat (mem_alloc (result s))) (pr_memory (result s)) @
              replicate (unat (n - mem_alloc (result s))) 0,
            mem_alloc := n\<rparr>\<rparr> else s)"
      using assms by (auto simp: ensure_memory_alloc_def Let_def split: if_splits)
    have "alloc \<le> n" by (rule grow_size_ge [OF n])
    moreover have "unat (mem_alloc (result s)) + unat (n - mem_alloc (result s)) = unat n" if "n > mem_alloc (result s)"
      using that by (simp add: unat_sub word_le_nat_alt word_less_nat_alt)
    ultimately show ?thesis
      by (auto simp: s' mem_step_def mem_inv_def)
  next
    case False
    with assms show ?thesis by (auto simp: ensure_memory_alloc_def mem_inv_def)
  qed
  then show "mem_step s s'" "pr_memsz (result s') = pr_memsz (result s)"
    "mem_inv (result s) \<Longrightarrow> alloc \<le> mem_alloc (result s')" by blast+
qed

lemma ensure_memory_at_offset_step: "ensure_memory_at_offset env sz offset s = Some s' \<Longrightarrow> mem_step s s'"
  by (auto simp: ensure_memory_at_offset_def split: if_splits dest: ensure_memory_alloc_step)

lemma write_to_memory_step:
  assumes "write_to_memory env src offset s = Some s'"
  shows "mem_step s s'"
proof -
  obtain s1 m where 1: "ensure_memory_alloc env (offset + of_nat (length src)) s = Some s1"
      "store_bytes (pr_memory (result s1)) (unat offset) src = Some m"
    and s': "s' = s1\<lparr>result := (result s1)\<lparr>pr_memory := m, pr_memsz := offset + of_nat (length src)\<rparr>\<rparr>"
    using assms by (auto simp: write_to_memory_def Let_def)
  note e = ensure_memory_alloc_step [OF 1(1)]
  show ?thesis
    using e store_bytes_length [OF 1(2)] by (auto simp: s' mem_step_def mem_inv_def)
qed

lemma set_memory_size_step:
  assumes "set_memory_size env offset sz s = Some s'"
  shows "mem_step s s'"
proof (cases "sz = unset")
  case True
  with assms show ?thesis by (simp add: set_memory_size_def)
next
  case False
  let ?t = "sz + offset"
  obtain s1 where
    1: "(if ?t < pr_memsz (result s) then Some (report P_WARN s)
         else if ?t > pr_memsz (result s) then ensure_memory_alloc env ?t s else Some s) = Some s1"
    and s': "s' = s1\<lparr>result := (result s1)\<lparr>pr_memsz := ?t\<rparr>\<rparr>"
    using assms unfolding set_memory_size_def if_not_P [OF False] Let_def bind_Some_iff option.inject by metis
  have "mem_step s s1 \<and> (mem_inv (result s) \<longrightarrow> ?t \<le> mem_alloc (result s1))"
  proof (cases rule: linorder_cases [of ?t "pr_memsz (result s)"])
    case less
    then have s1: "s1 = report P_WARN s" using 1 by simp
    then have "mem_alloc (result s1) = mem_alloc (result s)" by (simp add: report.simps)
    with less s1 show ?thesis by (auto simp: mem_inv_def)
  next
    case equal
    with 1 show ?thesis by (simp add: mem_inv_def)
  next
    case greater
    then have "\<not> ?t < pr_memsz (result s)" by auto
    with greater have "ensure_memory_alloc env ?t s = Some s1" using 1 by simp
    then show ?thesis using ensure_memory_alloc_step by blast
  qed
  then show ?thesis by (auto simp: s' mem_step_def mem_inv_def)
qed

lemma write_blocks_step: "write_blocks k env bs offset s = Some s' \<Longrightarrow> mem_step s s'"
proof (induction k env bs offset s arbitrary: s' rule: write_blocks.induct)
  case (3 k env b bs offset s)
  let ?n = "MEM_ALLOC_BLOCK_SZ env"
  obtain s1 where 1: "write_to_memory env (take ?n (b # bs)) offset s = Some s1"
    and 2: "write_blocks k env (drop ?n (b # bs)) (offset + of_nat (length (take ?n (b # bs)))) s1 = Some s'"
    using "3.prems" by (auto simp: Let_def)
  show ?case by (rule mem_step_trans [OF write_to_memory_step [OF 1] "3.IH" [OF refl 1 2]])
qed simp_all

lemma write_str_step: "write_str env cs e w s = Some (stop, w', s') \<Longrightarrow> mem_step s s'"
proof (induction cs arbitrary: e w s)
  case (Cons c cs)
  show ?case
  proof (cases "\<not> e \<and> (c = CHR 0x5C \<or> c = CHR 0x22)")
    case True
    with Cons show ?thesis by (auto split: if_splits)
  next
    case False
    with Cons.prems obtain b e' s1 where "write_to_memory env [b] w s = Some s1" "write_str env cs e' (w + 1) s1 = Some (stop, w', s')"
      by (auto simp: Let_def split: if_splits)
    then show ?thesis using Cons.IH write_to_memory_step mem_step_trans by blast
  qed
qed simp

lemma parse_preproc_data_no_step: "parse_preproc_data_no str s = (n, s') \<Longrightarrow> mem_step s s'"
  by (auto simp: parse_preproc_data_no_def split: prod.splits if_splits dest: read_number_step)


section \<open>Instructions and labels\<close>

text \<open>
  An operand as the parser makes it: a value fits into the bytes it takes, and a label has been
  entered into the set of labels.
\<close>

definition arg_shape :: "prs_arg_t \<Rightarrow> bool" where
  "arg_shape a \<longleftrightarrow>
     (case a_data a of
        Value v \<Rightarrow> a_type a = T_ARG_IMM \<and> n_bytes a \<in> {1, 2, 4, 8} \<and> unat v < 256 ^ unat (n_bytes a) \<or>
                   a_type a = T_ARG_REF_NUM \<and> n_bytes a = 4
      | Label l \<Rightarrow> (a_type a = T_ARG_REF_LBL \<or> a_type a = T_ARG_IMM_LBL) \<and> n_bytes a = 4)"

definition arg_labels :: "prs_arg_t list \<Rightarrow> string set" where
  "arg_labels as = {l. \<exists>a \<in> set as. a_data a = Label l}"

definition instn_shape :: "instn_def_t list \<Rightarrow> prs_instn_t \<Rightarrow> bool" where
  "instn_shape defs x \<longleftrightarrow> i_def x \<in> set defs \<and> length (i_args x) = arg_count (i_def x) \<and> mem_offset x = - 1 \<and>
     (\<forall>a \<in> set (i_args x). arg_shape a)"

definition asm_inv :: "asm_env \<Rightarrow> asm_t \<Rightarrow> bool" where
  "asm_inv env s \<longleftrightarrow> mem_inv (result s) \<and> hm_inv (labels (result s)) \<and> hm_inv (seen_refs s) \<and>
     (\<forall>x \<in> set (pr_instns (result s)). instn_shape (e_defs env) x \<and>
        arg_labels (i_args x) \<subseteq> dom (hm_abs (seen_refs s))) \<and>
     (\<forall>l v. hm_abs (labels (result s)) l = Some v \<longrightarrow>
        (\<exists>lbl. v = Some lbl \<and> (\<not> is_mem_ref lbl \<longrightarrow> unat (l_offset lbl) \<le> length (pr_instns (result s)))))"

text \<open>A step of the parser keeps the invariant and forgets no label.\<close>

definition asm_step :: "asm_env \<Rightarrow> asm_t \<Rightarrow> asm_t \<Rightarrow> bool" where
  "asm_step env s s' \<longleftrightarrow> (asm_inv env s \<longrightarrow> asm_inv env s' \<and> dom (hm_abs (seen_refs s)) \<subseteq> dom (hm_abs (seen_refs s')))"

lemma asm_step_refl [simp]: "asm_step env s s"
  by (simp add: asm_step_def)

lemma asm_step_trans: "asm_step env s s' \<Longrightarrow> asm_step env s' s'' \<Longrightarrow> asm_step env s s''"
  by (auto simp: asm_step_def)

lemma asm_step_mem: "mem_step s s' \<Longrightarrow> asm_step env s s'"
  by (auto simp: mem_step_def asm_step_def asm_inv_def)

lemma asm_step_report [simp]: "asm_step env s s' \<Longrightarrow> asm_step env s (report k s')"
  by (erule asm_step_trans) (simp add: asm_step_mem)

lemma add_label_step:
  assumes "env_ok env" "add_label env fn lineno tok offset mr s = Some s'"
    and "\<not> mr \<Longrightarrow> unat offset \<le> length (pr_instns (result s))"
  shows "asm_step env s s'"
proof -
  obtain st m where m: "hmap_put (e_calloc env) (labels (result s)) tok
        (Some \<lparr>l_filename = fn, l_lineno = lineno, l_offset = offset, is_mem_ref = mr\<rparr>) = Some (st, m)"
    and s': "s' = s\<lparr>result := (result s)\<lparr>labels := m\<rparr>\<rparr>"
    using assms(2) by (auto simp: add_label_def Let_def)
  show ?thesis
    unfolding asm_step_def
  proof
    assume inv: "asm_inv env s"
    then have "hm_inv m" "hm_abs m = (hm_abs (labels (result s)))(tok \<mapsto>
        Some \<lparr>l_filename = fn, l_lineno = lineno, l_offset = offset, is_mem_ref = mr\<rparr>)"
      using hmap_put_always [OF assms(1) m] by (simp_all add: asm_inv_def)
    with inv assms(3) show "asm_inv env s' \<and> dom (hm_abs (seen_refs s)) \<subseteq> dom (hm_abs (seen_refs s'))"
      by (auto simp: s' asm_inv_def mem_inv_def)
  qed
qed

lemma hset_add_step:
  assumes "env_ok env" "hset_add env l s = Some s'"
  shows "asm_step env s s'" and "asm_inv env s \<Longrightarrow> l \<in> dom (hm_abs (seen_refs s'))"
proof -
  obtain st m where m: "hmap_put (e_calloc env) (seen_refs s) l None = Some (st, m)" and s': "s' = s\<lparr>seen_refs := m\<rparr>"
    using assms(2) by (auto simp: hset_add_def)
  have *: "hm_inv m \<and> hm_abs m = (hm_abs (seen_refs s))(l \<mapsto> None)" if "asm_inv env s"
    using hmap_put_always [OF assms(1) m] that by (simp add: asm_inv_def)
  then show "asm_step env s s'" unfolding asm_step_def by (auto simp: s' asm_inv_def)
  show "asm_inv env s \<Longrightarrow> l \<in> dom (hm_abs (seen_refs s'))" using * by (simp add: s')
qed

lemma end_data_step:
  assumes "env_ok env" "end_data env fn lineno lbl offset sz s = Some s'"
  shows "asm_step env s s'"
proof -
  obtain s1 where 1: "set_memory_size env offset sz s = Some s1"
    and 2: "(case lbl of None \<Rightarrow> Some s1 | Some l \<Rightarrow> add_label env fn lineno (drop 1 l) offset True s1) = Some s'"
    using assms(2) by (auto simp: end_data_def)
  have "asm_step env s1 s'"
  proof (cases lbl)
    case (Some l)
    with 2 have "add_label env fn lineno (drop 1 l) offset True s1 = Some s'" by simp
    then show ?thesis by (rule add_label_step [OF assms(1)]) simp
  qed (use 2 in simp)
  with asm_step_mem [OF set_memory_size_step [OF 1]] show ?thesis by (rule asm_step_trans)
qed


section \<open>Data directives\<close>

lemma add_file_step:
  assumes "env_ok env" "add_file_to_memory env fn lineno lbl f sz offset paths s = Some s'"
  shows "asm_step env s s'"
proof -
  obtain r s1 where f: "find_file env f paths s = (r, s1)" by fastforce
  note 1 = asm_step_mem [OF find_file_step [OF f]]
  show ?thesis
  proof (cases r)
    case None
    with assms(2) f 1 show ?thesis by (auto simp: add_file_to_memory_def)
  next
    case (Some path)
    then obtain s2 contents s3 where "ensure_memory_at_offset env sz offset s1 = Some s2"
        "write_blocks (length contents) env (map char_u8 contents) (place offset s2) s2 = Some s3"
        "end_data env fn lineno lbl (place offset s2) sz s3 = Some s'"
      using assms(2) f by (auto simp: add_file_to_memory_def Let_def)
    then show ?thesis
      using 1 ensure_memory_at_offset_step write_blocks_step end_data_step [OF assms(1)] asm_step_mem asm_step_trans
      by metis
  qed
qed

lemma add_str_step:
  assumes "env_ok env" "add_str_to_memory env fn lineno lbl str sz offset s = Some s'"
  shows "asm_step env s s'"
proof -
  obtain s1 stop w s2 s3 where 1: "ensure_memory_at_offset env sz offset s = Some s1"
      "write_str env (drop 1 str) False (place offset s1) s1 = Some (stop, w, s2)"
      "write_to_memory env [0] w s2 = Some s3"
    and e: "end_data env fn lineno lbl (place offset s1) sz (if stop then s3 else report P_ERROR s3) = Some s'"
    using assms(2) by (auto simp: add_str_to_memory_def Let_def)
  have "mem_step s s3"
    using 1 ensure_memory_at_offset_step write_str_step write_to_memory_step mem_step_trans by metis
  then have "asm_step env s (if stop then s3 else report P_ERROR s3)" by (simp add: asm_step_mem)
  with end_data_step [OF assms(1) e] show ?thesis by (rule asm_step_trans [rotated])
qed

lemma add_hex_step:
  assumes "env_ok env" "add_hex_to_memory env fn lineno lbl hex sz offset s = Some s'"
  shows "asm_step env s s'"
proof -
  obtain s1 n rest s2 where 1: "ensure_memory_at_offset env sz offset s = Some s1"
      "read_number 16 (drop 2 hex) s1 = (n, rest, s2)"
    using assms(2) by (cases "ensure_memory_at_offset env sz offset s") (auto simp: add_hex_to_memory_def, metis prod_cases3)
  define s3 where "s3 = (if rest \<noteq> [] then report P_WARN s2 else s2)"
  define s4 where "s4 = (if length (drop 2 hex) > 16 then report P_WARN s3 else s3)"
  obtain s5 where 5: "write_to_memory env (le_bytes (hex_width (length (drop 2 hex))) (unat n)) (place offset s3) s4 = Some s5"
    and e: "end_data env fn lineno lbl (place offset s3) sz s5 = Some s'"
    using assms(2) 1 unfolding add_hex_to_memory_def Let_def s3_def s4_def by auto
  have "mem_step s s2" using 1 ensure_memory_at_offset_step read_number_step mem_step_trans by metis
  then have "mem_step s s4" by (simp add: s3_def s4_def)
  then have "mem_step s s5" using write_to_memory_step [OF 5] by (rule mem_step_trans)
  then show ?thesis using end_data_step [OF assms(1) e] asm_step_mem asm_step_trans by blast
qed

lemma add_label_mem_step:
  assumes "env_ok env" "add_label_to_memory env fn lineno lbl v sz offset s = Some s'"
  shows "asm_step env s s'"
proof -
  let ?sz = "if sz = unset then 4 else sz"
  show ?thesis
  proof (cases "?sz \<noteq> 4 \<and> ?sz \<noteq> 8")
    case True
    with assms(2) have "s' = report P_ERROR s" by (simp add: add_label_to_memory_def Let_def split: if_splits)
    then show ?thesis by simp
  next
    case False
    obtain s1 ref s2 where 1: "ensure_memory_at_offset env ?sz offset s = Some s1"
        "write_to_memory env (replicate (unat ?sz) 0) (place offset s1)
           (s1\<lparr>result := (result s1)\<lparr>label_refs := ref # label_refs (result s1)\<rparr>\<rparr>) = Some s2"
      and e: "end_data env fn lineno lbl (place offset s1) ?sz s2 = Some s'"
      using assms(2) unfolding add_label_to_memory_def Let_def if_not_P [OF False] bind_Some_iff by blast
    have "mem_step s1 (s1\<lparr>result := (result s1)\<lparr>label_refs := ref # label_refs (result s1)\<rparr>\<rparr>)"
      by (simp add: mem_step_def mem_inv_def)
    then have "mem_step s s2"
      by (rule mem_step_trans [OF ensure_memory_at_offset_step [OF 1(1)] mem_step_trans [OF _ write_to_memory_step [OF 1(2)]]])
    then show ?thesis using end_data_step [OF assms(1) e] asm_step_mem asm_step_trans by blast
  qed
qed

lemma data_options_step: "data_options b token sz offset s = Some (b', sz', offset', s') \<Longrightarrow> mem_step s s'"
proof (induction b token sz offset s rule: data_options.induct)
  case (1 b token sz offset s)
  obtain b1 t1 p v where n: "next_token False b token = Some (Some (b1, t1, p, v))"
    using "1.prems" by (auto simp: data_options.simps [of b] split: option.splits)
  let ?s = "if offset \<noteq> unset then report P_ERROR s else s"
  obtain n s1 where p: "parse_preproc_data_no (cstr b1 (t1 + 1)) ?s = (n, s1)" by fastforce
  have s1: "mem_step s s1" using parse_preproc_data_no_step [OF p] by (auto intro: mem_step_trans [rotated])
  consider "chr b1 t1 = NUL" | "chr b1 t1 = CHR '':''" | "chr b1 t1 = CHR ''/''"
    | "chr b1 t1 \<noteq> NUL" "chr b1 t1 \<noteq> CHR '':''" "chr b1 t1 \<noteq> CHR ''/''" by blast
  then show ?case
  proof cases
    case 2
    let ?s2 = "if n \<noteq> 0 \<and> n < pr_memsz (result s1) then report P_WARN s1 else s1"
    have "data_options b1 (p + 1) sz n ?s2 = Some (b', sz', offset', s')"
      using "1.prems" n 2 p by (simp add: data_options.simps [of b] NUL_def Let_def)
    then have "mem_step ?s2 s'" using "1.IH"(1) n 2 p by (simp add: NUL_def)
    moreover have "mem_step s ?s2" using s1 by simp
    ultimately show ?thesis by (rule mem_step_trans [rotated])
  next
    case 3
    have "data_options b1 (p + 1) n offset s1 = Some (b', sz', offset', s')"
      using "1.prems" n 3 p by (simp add: data_options.simps [of b] NUL_def Let_def)
    then have "mem_step s1 s'" using "1.IH"(2) n 3 p by (simp add: NUL_def)
    with s1 show ?thesis by (rule mem_step_trans)
  qed (use "1.prems" n in \<open>auto simp: data_options.simps [of b]\<close>)
qed


lemma add_data_step:
  assumes a: "env_ok env" and r: "add_data env fn lineno lbl d sz offset paths s = Some s'"
  shows "asm_step env s s'"
proof (cases "chr d 0 = CHR ''&''")
  case True
  then have "add_label_to_memory env fn lineno lbl (drop 1 d) sz offset s = Some s'"
    using r unfolding add_data_def if_P [OF True] by blast
  then show ?thesis by (rule add_label_mem_step [OF a])
next
  case no_ref: False
  show ?thesis
  proof (cases "chr d 0 = CHR ''='' \<or> chr d 0 = CHR 0x22 \<or> chr d 0 = CHR ''0'' \<and> chr d 1 = CHR ''x'' \<and> chr d 2 \<noteq> NUL")
    case True
    obtain s1 where 1: "(if chr d 0 = CHR ''='' then add_file_to_memory env fn lineno lbl (drop 1 d) sz offset paths s
             else if chr d 0 = CHR 0x22 then add_str_to_memory env fn lineno lbl d sz offset s
             else add_hex_to_memory env fn lineno lbl d sz offset s) = Some s1"
      and s': "(if pr_memsz (result s1) \<le> mem_alloc (result s1) then Some s1 else None) = Some s'"
      using r unfolding add_data_def if_not_P [OF no_ref] if_P [OF True] bind_Some_iff by blast
    have "s1 = s'" using s' by (metis option.distinct(1) option.inject)
    with 1 show ?thesis
      using add_file_step [OF a] add_str_step [OF a] add_hex_step [OF a] by metis
  next
    case False
    then have "s' = report P_ERROR s" using r unfolding add_data_def if_not_P [OF no_ref] if_not_P [OF False] by simp
    then show ?thesis by simp
  qed
qed

text \<open>The rest of a data directive, behind its label.\<close>

lemma parse_data_rest_step:
  assumes "env_ok env" and k: "(case r2 of
       None \<Rightarrow> Some (report P_ERROR s)
     | Some (b, data, p, v) \<Rightarrow> do {
         (b, p) \<leftarrow> (if chr b data = CHR 0x22 then do {
                      b \<leftarrow> put_chr b p v;
                      parse_string_literal b data
                    } else Some (b, p));
         (b, sz, offset, s) \<leftarrow> data_options b (p + 1) unset unset s;
         let lbl = (if chr b token = CHR ''@'' then Some (cstr b token) else None);
         add_data env fn lineno lbl (cstr b data) sz offset paths s
       }) = Some s'"
  shows "asm_step env s s'"
proof (cases r2)
  case None
  with k have "s' = report P_ERROR s" by simp
  then show ?thesis by simp
next
  case (Some t2)
  obtain b2 data p2 v2 where t2: "t2 = (b2, data, p2, v2)" by (cases t2)
  obtain x where "(case x of (b, p) \<Rightarrow> do {
           (b, sz, offset, s) \<leftarrow> data_options b (p + 1) unset unset s;
           let lbl = (if chr b token = CHR ''@'' then Some (cstr b token) else None);
           add_data env fn lineno lbl (cstr b data) sz offset paths s
         }) = Some s'"
    using k unfolding Some t2 option.case prod.case
      bind_Some_iff [where m = "if chr b2 data = CHR 0x22 then do { b \<leftarrow> put_chr b2 p2 v2; parse_string_literal b data }
        else Some (b2, p2)"]
    by blast
  then obtain b3 p3 y where 1: "data_options b3 (p3 + 1) unset unset s = Some y"
    and 2: "(case y of (b, sz, offset, s) \<Rightarrow>
           let lbl = (if chr b token = CHR ''@'' then Some (cstr b token) else None) in
           add_data env fn lineno lbl (cstr b data) sz offset paths s) = Some s'"
    unfolding case_prod_beta bind_Some_iff by blast
  obtain b4 sz offset s4 where y: "y = (b4, sz, offset, s4)" by (cases y)
  with 1 2 obtain lbl where o: "data_options b3 (p3 + 1) unset unset s = Some (b4, sz, offset, s4)"
    and a: "add_data env fn lineno lbl (cstr b4 data) sz offset paths s4 = Some s'"
    unfolding Let_def by auto
  show ?thesis
    by (rule asm_step_trans [OF asm_step_mem [OF data_options_step [OF o]] add_data_step [OF assms(1) a]])
qed

lemma parse_data_step:
  assumes "env_ok env" "parse_preproc_data env fn lineno line paths s = Some s'"
  shows "asm_step env s s'"
proof -
  obtain r where r: "next_token True line (length PREPROC_DATA + 1) = Some r"
    using assms(2) by (auto simp: parse_preproc_data_def)
  show ?thesis
  proof (cases r)
    case None
    with assms(2) r have "s' = report P_ERROR s" by (simp add: parse_preproc_data_def)
    then show ?thesis by simp
  next
    case (Some t1)
    obtain b token p v where t1: "t1 = (b, token, p, v)" by (cases t1)
    obtain r2 where k: "(case r2 of
             None \<Rightarrow> Some (report P_ERROR s)
           | Some (b, data, p, v) \<Rightarrow> do {
               (b, p) \<leftarrow> (if chr b data = CHR 0x22 then do {
                            b \<leftarrow> put_chr b p v;
                            parse_string_literal b data
                          } else Some (b, p));
               (b, sz, offset, s) \<leftarrow> data_options b (p + 1) unset unset s;
               let lbl = (if chr b token = CHR ''@'' then Some (cstr b token) else None);
               add_data env fn lineno lbl (cstr b data) sz offset paths s
             }) = Some s'"
      using assms(2)
      unfolding parse_preproc_data_def r Some t1 bind.bind_lunit option.case prod.case
        bind_Some_iff [where m = "if chr b token = CHR ''@'' then next_token True b (p + 1) else Some (Some (b, token, p, v))"]
      by blast
    show ?thesis by (rule parse_data_rest_step [OF assms(1) k])
  qed
qed

section \<open>Instructions\<close>

lemma imm_bytes_of_fits: "unat v < 256 ^ unat (imm_bytes_of neg v)" "imm_bytes_of neg v \<in> {1, 2, 4, 8}"
proof -
  have fits: "unat v < 2 ^ (8 * n)" if "IS_BYTES_LONG n v" for n
  proof -
    have "v = take_bit (8 * n) v"
      using that unfolding IS_BYTES_LONG_def take_bit_eq_mask
      by (metis (no_types) and.right_neutral bit.conj_disj_distrib bit.disj_cancel_right or.right_neutral)
    then have "unat v = take_bit (8 * n) (unat v)" by (metis unsigned_take_bit_eq)
    then show ?thesis by (metis take_bit_nat_less_exp)
  qed
  have "unat v < 2 ^ LENGTH(64)" by (rule unsigned_less)
  then show "unat v < 256 ^ unat (imm_bytes_of neg v)"
    using fits [of 1] fits [of 2] fits [of 4] by (auto simp: imm_bytes_of_def)
  show "imm_bytes_of neg v \<in> {1, 2, 4, 8}" by (simp add: imm_bytes_of_def)
qed

lemma parse_arg_step:
  assumes "env_ok env" "parse_arg env tok s = Some (r, s')"
  shows "asm_step env s s'"
    and "r = Some a \<Longrightarrow> arg_shape a \<and> (asm_inv env s \<longrightarrow> arg_labels [a] \<subseteq> dom (hm_abs (seen_refs s')))"
proof -
  obtain negative p1 where e1: "eat (CHR ''-'') tok = (negative, p1)" by fastforce
  obtain reference p2 where e2: "eat (CHR ''*'') p1 = (reference, p2)" by fastforce
  obtain imm_ref p where e3: "eat (CHR ''&'') p2 = (imm_ref, p)" by fastforce
  let ?base = "if chr p 0 = CHR ''0'' \<and> chr p 1 = CHR ''x'' then 16 else (0 :: nat)"
  obtain imm endp s1 where n: "read_number ?base p s = (imm, endp, s1)" by (metis prod_cases3)
  define s2 where "s2 = (if \<not> negative \<and> big_imm imm then report P_WARN s1 else s1)"
  have m: "mem_step s s1" "mem_step s s2" using read_number_step [OF n] by (simp_all add: s2_def)
  have "(r, s') = (None, report P_ERROR s1) \<or> (r, s') = (None, report P_ERROR s2) \<or>
      (\<exists>t. (t = T_ARG_IMM_LBL \<or> t = T_ARG_REF_LBL) \<and> r = Some \<lparr>a_type = t, n_bytes = 4, a_data = Label p\<rparr> \<and>
         hset_add env p s2 = Some s') \<or>
      (\<exists>v. r = Some \<lparr>a_type = T_ARG_REF_NUM, n_bytes = 4, a_data = Value v\<rparr> \<and> s' = s2) \<or>
      (\<exists>v. r = Some \<lparr>a_type = T_ARG_IMM, n_bytes = imm_bytes_of negative v, a_data = Value v\<rparr> \<and> s' = s2)"
    using assms(2) unfolding parse_arg_def e1 e2 e3 n Let_def prod.case s2_def [symmetric]
    by (auto split: if_split_asm)
  then consider (fail) "r = None" "s' = report P_ERROR s1 \<or> s' = report P_ERROR s2"
    | (lbl) t where "t = T_ARG_IMM_LBL \<or> t = T_ARG_REF_LBL" "r = Some \<lparr>a_type = t, n_bytes = 4, a_data = Label p\<rparr>"
        "hset_add env p s2 = Some s'"
    | (val) t n v where "r = Some \<lparr>a_type = t, n_bytes = n, a_data = Value v\<rparr>" "s' = s2"
        "t = T_ARG_REF_NUM \<and> n = 4 \<or> t = T_ARG_IMM \<and> n = imm_bytes_of negative v"
    by blast
  then have "asm_step env s s' \<and> (r = Some a \<longrightarrow> arg_shape a \<and> (asm_inv env s \<longrightarrow> arg_labels [a] \<subseteq> dom (hm_abs (seen_refs s'))))"
  proof cases
    case fail
    with m show ?thesis by (auto simp: asm_step_mem)
  next
    case lbl
    note h = hset_add_step [OF assms(1) lbl(3)]
    have i: "asm_inv env s \<Longrightarrow> asm_inv env s2" using asm_step_mem [OF m(2)] by (simp add: asm_step_def)
    show ?thesis
      using lbl(1,2) h(2) i asm_step_trans [OF asm_step_mem [OF m(2)] h(1)] by (auto simp: arg_shape_def arg_labels_def)
  next
    case val
    with m imm_bytes_of_fits [where v = v and neg = negative] show ?thesis by (auto simp: asm_step_mem arg_shape_def arg_labels_def)
  qed
  then show "asm_step env s s'"
    "r = Some a \<Longrightarrow> arg_shape a \<and> (asm_inv env s \<longrightarrow> arg_labels [a] \<subseteq> dom (hm_abs (seen_refs s')))" by blast+
qed

lemma parse_args_step:
  assumes "env_ok env"
  shows "parse_args env fmt parsed toks s = Some (r, s') \<Longrightarrow> asm_step env s s'"
    and "parse_args env fmt parsed toks s = Some (Some as, s') \<Longrightarrow> asm_inv env s \<Longrightarrow>
      (\<forall>a \<in> set parsed. arg_shape a) \<Longrightarrow> arg_labels parsed \<subseteq> dom (hm_abs (seen_refs s)) \<Longrightarrow>
      length as = length parsed + length toks \<and> (\<forall>a \<in> set as. arg_shape a) \<and>
      arg_labels as \<subseteq> dom (hm_abs (seen_refs s'))"
proof (induction toks arbitrary: parsed s)
  case (Cons t toks)
  {
    case 1
    then obtain a s1 where a: "parse_arg env t s = Some (a, s1)"
      and k: "(case a of
        None \<Rightarrow> do { s \<leftarrow> destroy_instn env (arg_count fmt) parsed s1; Some (None, s) }
      | Some a \<Rightarrow>
          if parsed = [] \<and> a_type a = T_ARG_IMM \<and> flags fmt AND F_ALLOW_IMM_1st_Arg = 0 then do {
            s \<leftarrow> destroy_instn env (arg_count fmt) [a] (report P_ERROR s1);
            Some (None, s)
          } else parse_args env fmt (parsed @ [a]) toks s1) = Some (r, s')"
      by auto
    note s1 = parse_arg_step(1) [OF assms a]
    have "asm_step env s1 s'"
      using k Cons.IH(1) by (auto simp: destroy_instn_def split: option.splits if_split_asm)
    with s1 show ?case by (rule asm_step_trans)
  next
    case 2
    then obtain a s1 where a: "parse_arg env t s = Some (Some a, s1)" "parse_args env fmt (parsed @ [a]) toks s1 = Some (Some as, s')"
      by (auto split: option.splits if_split_asm)
    note s1 = parse_arg_step [OF assms a(1)]
    have i: "asm_inv env s1" "dom (hm_abs (seen_refs s)) \<subseteq> dom (hm_abs (seen_refs s1))"
      using s1(1) 2(2) by (simp_all add: asm_step_def)
    have "arg_labels (parsed @ [a]) \<subseteq> dom (hm_abs (seen_refs s1))"
      using 2(2,4) i(2) s1(2) [OF refl] by (auto simp: arg_labels_def)
    with Cons.IH(2) [OF a(2) i(1)] 2(3) s1(2) [OF refl] show ?case by auto
  }
qed auto

lemma add_instn_step:
  assumes env: "env_ok env" and r: "add_instn env fn lineno toks s = Some s'"
  shows "asm_step env s s'"
proof -
  obtain r1 s1 where 1: "parse_instn env toks s = Some (r1, s1)"
    and 2: "s' = (case r1 of None \<Rightarrow> s1 | Some (d, parsed) \<Rightarrow>
      s1\<lparr>result := (result s1)\<lparr>pr_instns := pr_instns (result s1) @
        [\<lparr>i_filename = fn, i_lineno = lineno, i_def = d, i_args = parsed, mem_offset = - 1\<rparr>]\<rparr>\<rparr>)"
    using r by (auto simp: add_instn_def Let_def split: option.splits)
  obtain l where l: "find_instn (e_defs env) (hd toks) (length toks - 1) = Some l"
    using 1 by (auto simp: parse_instn_def)
  show ?thesis
  proof (cases "\<exists>j. l = Found j")
    case False
    then have "r1 = None" "s1 = report P_ERROR s" using 1 l by (auto simp: parse_instn_def split: instn_lookup.splits)
    with 2 show ?thesis by simp
  next
    case True
    then obtain j as where j: "l = Found j" "parse_args env (e_defs env ! j) [] (tl toks) s = Some (as, s1)"
        "r1 = map_option (Pair (e_defs env ! j)) as"
      using 1 l by (auto simp: parse_instn_def)
    have d: "j < length (e_defs env)" "arg_count (e_defs env ! j) = length toks - 1"
      using find_instn_cases [of "e_defs env" "hd toks" "length toks - 1"] env l j(1)
      by (simp_all add: env_ok_def)
    note s1 = parse_args_step(1) [OF env j(2)]
    show ?thesis
    proof (cases as)
      case None
      with s1 2 j(3) show ?thesis by simp
    next
      case (Some ps)
      have "asm_inv env s' \<and> dom (hm_abs (seen_refs s)) \<subseteq> dom (hm_abs (seen_refs s'))" if inv: "asm_inv env s"
      proof -
        have p: "length ps = length toks - 1" "\<forall>a \<in> set ps. arg_shape a" "arg_labels ps \<subseteq> dom (hm_abs (seen_refs s1))"
          using parse_args_step(2) [OF env, of "e_defs env ! j" "[]" "tl toks" s ps s1] j(2) Some inv
          by (auto simp: arg_labels_def)
        have "asm_inv env s1" "dom (hm_abs (seen_refs s)) \<subseteq> dom (hm_abs (seen_refs s1))"
          using s1 inv by (simp_all add: asm_step_def)
        with p d show ?thesis
          by (auto simp: 2 j(3) Some asm_inv_def mem_inv_def instn_shape_def) (metis le_SucI)
      qed
      then show ?thesis by (simp add: asm_step_def)
    qed
  qed
qed


section \<open>Lines and files\<close>

lemma n_instns_le: "unat (n_instns r) \<le> length (pr_instns r)"
  by (simp add: n_instns_def)

lemma cut_tokens_step:
  assumes "env_ok env"
  shows "cut_tokens env fn lineno k p b toks mark ins s = Some (ret, b', toks', ins', s') \<Longrightarrow> asm_step env s s'"
proof (induction k arbitrary: p b toks mark ins s)
  case (Suc k)
  show ?case
  proof (cases "length toks = 1 \<and> chr b p = CHR '':''")
    case True
    then have c: "chr b p \<noteq> NUL" "chr b p \<noteq> CHR '';''" "\<not> isspace (chr b p)" "chr b p \<noteq> CHR '',''"
      by (simp_all add: NUL_def isspace_def)
    obtain s1 where 1: "add_label env fn lineno (cstr (b[p := NUL]) (hd toks)) (n_instns (result s)) False s = Some s1"
        "cut_tokens env fn lineno k (p + 1) (b[p := NUL]) toks mark False s1 = Some (ret, b', toks', ins', s')"
      using Suc.prems True c by (auto simp: Let_def)
    have "asm_step env s s1"
      by (rule add_label_step [OF assms 1(1)]) (rule n_instns_le)
    then show ?thesis using Suc.IH [OF 1(2)] by (rule asm_step_trans)
  next
    case False
    then show ?thesis
      using Suc.prems Suc.IH by (auto split: if_split_asm)
  qed
qed simp

definition file_step :: "asm_env \<Rightarrow> file_parser \<Rightarrow> bool" where
  "file_step env f \<longleftrightarrow> (\<forall>fn path s s'. f fn path s = Some s' \<longrightarrow> asm_step env s s')"

lemma parse_include_step:
  assumes f: "file_step env f" and r: "parse_preproc_include env f fn lineno line paths s = Some s'"
  shows "asm_step env s s'"
proof -
  obtain fl p b where 1: "(if fl = p then Some (report P_ERROR s)
     else (case find_file env (cstr b fl) paths s of
             (None, s) \<Rightarrow> Some (report P_ERROR s)
           | (Some path, s) \<Rightarrow> f (fn + 1) path s)) = Some s'"
    using r unfolding parse_preproc_include_def bind_Some_iff by blast
  show ?thesis
  proof (cases "fl = p")
    case True
    with 1 have "s' = report P_ERROR s" by simp
    then show ?thesis by simp
  next
    case False
    obtain q s1 where q: "find_file env (cstr b fl) paths s = (q, s1)" by fastforce
    have s1: "asm_step env s s1" by (rule asm_step_mem [OF find_file_step [OF q]])
    show ?thesis
    proof (cases q)
      case None
      with 1 False q have "s' = report P_ERROR s1" by simp
      with s1 show ?thesis by simp
    next
      case (Some path)
      with 1 False q have "f (fn + 1) path s1 = Some s'" by simp
      then have "asm_step env s1 s'" using f by (simp add: file_step_def)
      with s1 show ?thesis by (rule asm_step_trans)
    qed
  qed
qed

lemma parse_line_step:
  assumes env: "env_ok env" and f: "file_step env f" and r: "parse_line env f fn lineno paths line s = Some s'"
  shows "asm_step env s s'"
proof -
  obtain p where p: "scan isspace line 0 = Some p" using r by (auto simp: parse_line_def)
  show ?thesis
  proof (cases "chr line p = NUL \<or> chr line p = CHR '';''")
    case True
    with r p have "s' = s" by (simp add: parse_line_def)
    then show ?thesis by simp
  next
    case code: False
    show ?thesis
    proof (cases "chr line p = CHR ''%''")
      case True
      with code p r have "parse_preproc_line env f fn lineno line paths s = Some s'" by (simp add: parse_line_def)
      then show ?thesis
        using parse_data_step [OF env] parse_include_step [OF f] asm_step_refl
        unfolding parse_preproc_line_def by (metis option.inject)
    next
      case False
      obtain ret b toks ins s1 where 1: "cut_tokens env fn lineno (length line - p) p line [p] False True s = Some (ret, b, toks, ins, s1)"
        and 2: "(if \<not> ret \<and> ins then add_instn env fn lineno (map (cstr b) toks) s1 else Some s1) = Some s'"
        using r p code False by (auto simp: parse_line_def)
      have "asm_step env s1 s'"
        using 2 add_instn_step [OF env] asm_step_refl by (metis option.inject)
      with cut_tokens_step [OF env 1] show ?thesis by (rule asm_step_trans)
    qed
  qed
qed

lemma parse_lines_step:
  assumes "env_ok env" "file_step env f"
  shows "parse_lines env f fn lineno paths ls s = Some s' \<Longrightarrow> asm_step env s s'"
proof (induction ls arbitrary: lineno s)
  case (Cons l ls)
  then obtain s1 where "parse_line env f fn (lineno + 1) paths l s = Some s1"
      "parse_lines env f fn (lineno + 1) paths ls s1 = Some s'" by auto
  with Cons.IH parse_line_step [OF assms] show ?case by (metis asm_step_trans)
qed simp

lemma parse_asm_into_step:
  assumes "env_ok env"
  shows "file_step env (parse_asm_into depth env paths)"
proof (induction depth)
  case (Suc depth)
  show ?case unfolding file_step_def
  proof (intro allI impI)
    fix fn path s s' assume "parse_asm_into (Suc depth) env paths fn path s = Some s'"
    then obtain contents s1 where "parse_lines env (parse_asm_into depth env paths) fn 0 paths (get_lines contents) s = Some s1"
        and s': "s' = s1\<lparr>result := (result s1)\<lparr>pr_files := pr_files (result s1) + 1\<rparr>\<rparr>"
      by auto
    then have "asm_step env s s1" using parse_lines_step [OF assms Suc] by blast
    moreover have "mem_step s1 s'" by (simp add: s' mem_step_def mem_inv_def)
    ultimately show "asm_step env s s'" using asm_step_mem asm_step_trans by blast
  qed
qed (simp add: file_step_def)

lemma asm_inv_init: "asm_inv env \<lparr>result = init_parse_result, seen_refs = hm_new, erange = e\<rparr>"
  by (simp add: asm_inv_def init_parse_result_def mem_inv_def hm.inv_new hm.look_new)

lemma parse_files_inv:
  assumes "env_ok env" "parse_files depth env filename paths rng = Some (Some s)"
  shows "asm_inv env s"
proof -
  let ?s0 = "\<lambda>e. \<lparr>result = init_parse_result, seen_refs = hm_new, erange = e\<rparr>"
  obtain paths' s1 where s1: "asm_step env (?s0 rng) s1" and r: "parse_asm_into depth env paths' 0 filename s1 = Some s"
  proof (cases "e_files env filename \<noteq> None")
    case True
    with assms(2) that [OF asm_step_refl] show ?thesis by (auto simp: parse_files_def Let_def)
  next
    case False
    obtain q s1 where q: "find_file env filename paths (?s0 False) = (q, s1)" by fastforce
    have "mem_step (?s0 rng) (?s0 False)" by (simp add: mem_step_def)
    then have "asm_step env (?s0 rng) s1" using asm_step_mem mem_step_trans [OF _ find_file_step [OF q]] by blast
    with False assms(2) q that show ?thesis by (auto simp: parse_files_def Let_def split: if_split_asm)
  qed
  have "asm_step env s1 s" using parse_asm_into_step [OF assms(1)] r by (simp add: file_step_def)
  with s1 have "asm_step env (?s0 rng) s" by (rule asm_step_trans)
  then show ?thesis by (simp add: asm_step_def asm_inv_init)
qed


section \<open>The check of the labels\<close>

definition missing :: "asm_t \<Rightarrow> unit hashmap_element \<Rightarrow> bool" where
  "missing s e \<longleftrightarrow> in_use e \<and> hm_abs (labels (result s)) (the (key e)) = None"

lemma label_refs_visitor_eq:
  "label_refs_visitor s l u = (if hm_abs (labels (result s)) l = None then report P_ERROR s else s)"
  by (simp add: label_refs_visitor_def hmap_get_hm_abs split: option.split)

lemma iterate_missing:
  "iterate_slots label_refs_visitor es s =
     s\<lparr>result := (result s)\<lparr>errors := errors (result s) + of_nat (length (filter (missing s) es))\<rparr>\<rparr>"
proof (induction es arbitrary: s)
  case (Cons e es)
  let ?s = "if missing s e then report P_ERROR s else s"
  have m: "missing ?s = missing s" by (simp add: fun_eq_iff missing_def report.simps)
  have "iterate_slots label_refs_visitor (e # es) s = iterate_slots label_refs_visitor es ?s"
    by (simp add: label_refs_visitor_eq missing_def)
  also have "\<dots> = ?s\<lparr>result := (result ?s)\<lparr>errors := errors (result ?s) + of_nat (length (filter (missing s) es))\<rparr>\<rparr>"
    using Cons.IH [of ?s] m by simp
  finally show ?case by (simp add: report.simps algebra_simps)
qed simp

text \<open>The labels are all there if neither the lines nor the check counted an error.\<close>

lemma parse_labels:
  assumes env: "env_ok env" and s: "parse_files depth env filename paths rng = Some (Some s)" "errors (result s) = 0"
    and sz: "table_size (seen_refs s) < 2 ^ 32"
    and r: "parse_asm depth env filename paths rng = Some (Some r)" "errors r = 0"
  shows "r = result s" and "hm_abs (seen_refs s) l \<noteq> None \<Longrightarrow> hm_abs (labels r) l \<noteq> None"
proof -
  have inv: "asm_inv env s" by (rule parse_files_inv [OF env s(1)])
  then have hm: "hm_inv (seen_refs s)" by (simp add: asm_inv_def)
  then have len: "length (hdata (seen_refs s)) = table_size (seen_refs s)"
    and cnt: "int (length (filter in_use (hdata (seen_refs s)))) \<le> hsize (seen_refs s)"
    by (simp_all add: hm_inv_def)
  let ?es = "hdata (seen_refs s)"
  have r': "r = result (snd (hmap_iterate (seen_refs s) s label_refs_visitor))"
    using r(1) s(1) by (simp add: parse_asm_def)
  have none: "filter (missing s) ?es = [] \<and> r = result s"
  proof (cases "hmap_size (seen_refs s) \<le> 0")
    case True
    then have "int (length (filter in_use ?es)) \<le> 0" using cnt unfolding hmap_size_def by linarith
    then have "filter in_use ?es = []" by simp
    then have "filter (missing s) ?es = []" by (auto simp: filter_empty_conv missing_def)
    with True r' show ?thesis by (simp add: hmap_iterate_def)
  next
    case False
    have "length (filter (missing s) ?es) < 2 ^ 32"
      using sz len length_filter_le [of "missing s" ?es] by linarith
    moreover have "r = (result s)\<lparr>errors := of_nat (length (filter (missing s) ?es))\<rparr>"
      using r' False len iterate_missing [of ?es s] s(2) by (simp add: hmap_iterate_def)
    ultimately have z: "length (filter (missing s) ?es) = 0" and "r = (result s)\<lparr>errors := of_nat (length (filter (missing s) ?es))\<rparr>"
      using r(2) by (auto simp: word_of_nat_eq_0_iff dest: dvd_imp_le)
    then show ?thesis using s(2) by simp
  qed
  then show "r = result s" by simp
  assume "hm_abs (seen_refs s) l \<noteq> None"
  then obtain i where "i < table_size (seen_refs s)" "holds_key ?es i l" unfolding hm_abs_None [OF hm] by blast
  then have "?es ! i \<in> set ?es" "in_use (?es ! i)" "the (key (?es ! i)) = l"
    using len by (simp_all add: holds_key_def)
  with none show "hm_abs (labels r) l \<noteq> None" by (auto simp: filter_empty_conv missing_def)
qed

lemma find_label_abs: "find_label r l = (case hm_abs (labels r) l of None \<Rightarrow> None | Some v \<Rightarrow> v)"
  by (simp add: find_label_def hmap_get_hm_abs split: option.split)

lemma parse_asm_delivers_ok:
  assumes "env_ok env" "parse_files depth env filename paths rng = Some (Some s)" "errors (result s) = 0"
    and "table_size (seen_refs s) < 2 ^ 32"
    and "parse_asm depth env filename paths rng = Some (Some r)" "errors r = 0"
  shows "mem_inv r \<and> (\<forall>x \<in> set (pr_instns r). instn_shape (e_defs env) x \<and>
    (\<forall>l \<in> arg_labels (i_args x). \<exists>lbl. find_label r l = Some lbl \<and>
       (\<not> is_mem_ref lbl \<longrightarrow> unat (l_offset lbl) \<le> length (pr_instns r))))"
proof -
  have inv: "asm_inv env s" by (rule parse_files_inv [OF assms(1,2)])
  note l = parse_labels [OF assms]
  have "\<exists>lbl. find_label r l = Some lbl \<and> (\<not> is_mem_ref lbl \<longrightarrow> unat (l_offset lbl) \<le> length (pr_instns r))"
    if "x \<in> set (pr_instns r)" "l \<in> arg_labels (i_args x)" for x l
  proof -
    have "hm_abs (seen_refs s) l \<noteq> None" using that inv l(1) by (auto simp: asm_inv_def)
    then obtain v where "hm_abs (labels r) l = Some v" using l(2) by blast
    then show ?thesis using inv l(1) by (auto simp: asm_inv_def find_label_abs)
  qed
  then show ?thesis using inv l(1) by (auto simp: asm_inv_def)
qed

text \<open>
  C4. A parse whose lines and labels gave no error delivers instructions of the table with as
  many operands as they take, each of a size that holds its value, and every label an operand
  refers to is there, in the memory or at an instruction, or at the end of the file. The memory
  is as long as its allocation says and holds what is used of it.
\<close>

lemma parse_asm_delivers:
  assumes "env_ok env" "parse_files depth env filename paths rng = Some (Some s)" "errors (result s) = 0"
    and "table_size (seen_refs s) < 2 ^ 32"
    and "parse_asm depth env filename paths rng = Some (Some r)" "errors r = 0"
  shows "mem_inv r \<and> (\<forall>x \<in> set (pr_instns r). instn_shape (e_defs env) x \<and>
    (\<forall>l \<in> arg_labels (i_args x). \<exists>lbl. find_label r l = Some lbl \<and>
       (\<not> is_mem_ref lbl \<longrightarrow> unat (l_offset lbl) \<le> length (pr_instns r))))"
  using assms by (rule parse_asm_delivers_ok)

section \<open>A small file\<close>

definition tiny_env :: asm_env where
  "tiny_env = \<lparr>e_defs = std_defs, e_calloc = (\<lambda>_. True),
     e_files = (\<lambda>p. if p = ''a'' then Some (''ret'' @ [CHR 0x0A]) else None),
     MEM_ALLOC_BLOCK_SZ = 512, e_junk_label = False\<rparr>"

definition tiny_result :: prs_result_t where
  "tiny_result = init_parse_result\<lparr>pr_files := 1, pr_instns := [\<lparr>i_filename = 0, i_lineno = 1, i_def = std_defs ! 41,
     i_args = [], mem_offset = - 1\<rparr>]\<rparr>"

lemma std_ret_entry: "name (std_defs ! 41) = ''ret'' \<and> arg_count (std_defs ! 41) = 0"
  by code_simp

lemma tiny_files: "parse_files 1 tiny_env ''a'' [] False = Some (Some \<lparr>result = tiny_result, seen_refs = hm_new, erange = False\<rparr>)"
proof -
  have f: "find_instn std_defs ''ret'' 0 = Some (Found 41)"
    using find_instn_entry [OF std_table, of 41] table_length [OF std_table] std_ret_entry by simp
  show ?thesis
    by (simp add: parse_files_def dir_of_def tiny_env_def parse_line_def scan_def isspace_def chr_def NUL_def
        add_instn_def parse_instn_def f cstr_def tiny_result_def init_parse_result_def)
qed

lemma tiny_parse: "parse_asm 1 tiny_env ''a'' [] False = Some (Some tiny_result)"
  unfolding parse_asm_def tiny_files by (simp add: hmap_iterate_def hmap_size_def hm_new_def)

lemma parse_asm_delivers_witness:
  "parse_asm 1 tiny_env ''a'' [] False = Some (Some tiny_result) \<and> mem_inv tiny_result \<and>
     (\<exists>x. pr_instns tiny_result = [x] \<and> instn_shape std_defs x)"
proof -
  have "mem_inv tiny_result \<and> (\<forall>x \<in> set (pr_instns tiny_result). instn_shape (e_defs tiny_env) x \<and>
    (\<forall>l \<in> arg_labels (i_args x). \<exists>lbl. find_label tiny_result l = Some lbl \<and>
       (\<not> is_mem_ref lbl \<longrightarrow> unat (l_offset lbl) \<le> length (pr_instns tiny_result))))"
    by (rule parse_asm_delivers [OF _ tiny_files _ _ tiny_parse])
      (simp_all add: env_ok_def tiny_env_def std_table tiny_result_def init_parse_result_def hm_new_def INITIAL_SIZE_def)
  then show ?thesis using tiny_parse by (simp add: tiny_env_def tiny_result_def)
qed
end
