(* ===== verification/ParserRoundtrip.thy ===== *)
theory ParserRoundtrip
  imports Parser
begin

text \<open>
  Printing and parsing: an instruction printed with its operands separated by commas is parsed
  as the same instruction. Numbers are printed in base ten.
\<close>

section \<open>Decimal numbers\<close>

definition digit :: "nat \<Rightarrow> char" where
  "digit n = ''0123456789'' ! n"

fun dec :: "nat \<Rightarrow> string" where
  "dec n = (if n < 10 then [digit n] else dec (n div 10) @ [digit (n mod 10)])"

declare dec.simps [simp del]

text \<open>The characters of a number: none of them ends a token or starts something else.\<close>

definition is_digit :: "char \<Rightarrow> bool" where
  "is_digit c \<longleftrightarrow> c \<in> set ''0123456789''"

lemma is_digit_facts:
  assumes "is_digit c"
  shows "digit_val c < 10" "\<not> isspace c" "c \<noteq> NUL" "c \<notin> set '';,:-*&+x%''"
proof -
  have "\<forall>c \<in> set ''0123456789''. digit_val c < 10 \<and> \<not> isspace c \<and> c \<noteq> NUL \<and> c \<notin> set '';,:-*&+x%''"
    by code_simp
  then show "digit_val c < 10" "\<not> isspace c" "c \<noteq> NUL" "c \<notin> set '';,:-*&+x%''"
    using assms by (auto simp: is_digit_def)
qed

lemma digit_val_digit: "n < 10 \<Longrightarrow> digit_val (digit n) = n"
proof -
  have "\<forall>n \<in> set [0..<10]. digit_val (digit n) = n" by code_simp
  then show "n < 10 \<Longrightarrow> digit_val (digit n) = n" by simp
qed

lemma is_digit_digit: "n < 10 \<Longrightarrow> is_digit (digit n)"
  unfolding is_digit_def digit_def by (rule nth_mem) simp

lemma dec_digits: "c \<in> set (dec n) \<Longrightarrow> is_digit c"
proof (induction n rule: dec.induct)
  case (1 n)
  show ?case
  proof (cases "n < 10")
    case True
    with "1.prems" have "c = digit n" by (simp add: dec.simps)
    with True show ?thesis by (simp add: is_digit_digit)
  next
    case False
    with "1.prems" have "c \<in> set (dec (n div 10)) \<or> c = digit (n mod 10)" by (auto simp: dec.simps [of n])
    with "1.IH" False show ?thesis by (auto simp: is_digit_digit)
  qed
qed

lemma dec_ne [simp]: "dec n \<noteq> []" "[] \<noteq> dec n"
  by (subst dec.simps, simp)+

lemma dec_hd: "hd (dec n) = digit 0 \<longleftrightarrow> n = 0"
proof (induction n rule: dec.induct)
  case (1 n)
  have "digit n = digit 0 \<longleftrightarrow> n = 0" if "n < 10" using digit_val_digit that by (metis zero_less_numeral)
  with 1 show ?case by (subst dec.simps) (auto simp: hd_append)
qed

lemma number_of_append: "number_of b (ds @ [c]) = number_of b ds * b + digit_val c"
  by (simp add: number_of_def)

lemma number_of_dec: "number_of 10 (dec n) = n"
proof (induction n rule: dec.induct)
  case (1 n)
  then show ?case
    by (subst dec.simps) (auto simp: number_of_append digit_val_digit, simp add: number_of_def digit_val_digit)
qed

lemma dec_0: "dec 0 = ''0''"
  by (simp add: dec.simps digit_def)

lemma strtoull_dec:
  assumes "n < 2 ^ 64"
  shows "strtoull 0 (dec n) = (of_nat n, length (dec n), False)"
proof (cases "n = 0")
  case True
  then show ?thesis
    by (simp add: dec_0 strtoull_def isspace_def chr_def NUL_def base_prefix_def digits_of_def digit_val_def
        number_of_def Let_def)
next
  case False
  obtain c cs where d: "dec n = c # cs" by (cases "dec n") simp_all
  have c: "is_digit c" using dec_digits [of c n] d by simp
  have c0: "c \<noteq> CHR ''0''" using dec_hd [of n] False d by (simp add: digit_def)
  have ds: "takeWhile (\<lambda>c. digit_val c < 10) (dec n) = dec n"
    using dec_digits is_digit_facts(1) by (simp add: takeWhile_eq_all_conv)
  have "takeWhile isspace (dec n) = []" using is_digit_facts(2) [OF c] d by simp
  moreover have "chr (dec n) 0 = c" using d by (simp add: chr_def)
  ultimately show ?thesis
    using is_digit_facts(4) [OF c] c0 assms
    by (simp add: strtoull_def base_prefix_def digits_of_def Let_def ds number_of_dec)
qed

section \<open>Operands\<close>

text \<open>A name that can stand as a label where an operand is expected.\<close>

definition plain :: "char \<Rightarrow> bool" where
  "plain c \<longleftrightarrow> c \<noteq> NUL \<and> \<not> isspace c \<and> c \<notin> set '';,:''"

definition label_name :: "string \<Rightarrow> bool" where
  "label_name l \<longleftrightarrow> l \<noteq> [] \<and> (\<forall>c \<in> set l. plain c) \<and> \<not> is_digit (hd l) \<and> hd l \<notin> set ''-*&+''"

definition show_arg :: "prs_arg_t \<Rightarrow> string" where
  "show_arg a =
     (case a_data a of
        Value v \<Rightarrow> (if a_type a = T_ARG_REF_NUM then ''*'' else []) @ dec (unat v)
      | Label l \<Rightarrow> (if a_type a = T_ARG_IMM_LBL then ''&'' else []) @ l)"

text \<open>The operands the parser makes of printed ones: an immediate value takes as few bytes as it can.\<close>

definition printable :: "prs_arg_t \<Rightarrow> bool" where
  "printable a \<longleftrightarrow>
     (case a_data a of
        Value v \<Rightarrow> a_type a = T_ARG_REF_NUM \<and> n_bytes a = 4 \<or>
                   a_type a = T_ARG_IMM \<and> n_bytes a = imm_bytes_of False v
      | Label l \<Rightarrow> label_name l \<and> n_bytes a = 4 \<and> (a_type a = T_ARG_REF_LBL \<or> a_type a = T_ARG_IMM_LBL))"

text \<open>What parsing an operand leaves behind: a warning for a large number, or the use of a label.\<close>

definition arg_effect :: "asm_env \<Rightarrow> prs_arg_t \<Rightarrow> asm_t \<Rightarrow> asm_t option" where
  "arg_effect env a s =
     (case a_data a of
        Value v \<Rightarrow> Some (if big_imm v then report P_WARN s else s)
      | Label l \<Rightarrow> hset_add env l s)"

lemma eat_no: "p \<noteq> [] \<Longrightarrow> hd p \<noteq> c \<Longrightarrow> eat c p = (False, p)"
  by (cases p) (simp_all add: eat_def chr_def)

lemma eat_yes: "eat c (c # p) = (True, p)"
  by (simp add: eat_def chr_def)

lemma digit_val_ge: "\<not> is_digit c \<Longrightarrow> 10 \<le> digit_val c"
proof -
  have "of_char c \<in> (of_char :: char \<Rightarrow> nat) ` set ''0123456789''" if "48 \<le> (of_char c :: nat)" "(of_char c :: nat) \<le> 57"
  proof -
    have "(of_char c :: nat) \<in> set [48..<58]" using that unfolding set_upt by simp
    also have "set [48..<58] = (of_char :: char \<Rightarrow> nat) ` set ''0123456789''" by code_simp
    finally show ?thesis .
  qed
  then have "is_digit c" if "48 \<le> (of_char c :: nat)" "(of_char c :: nat) \<le> 57"
    using that unfolding is_digit_def by (metis imageE of_char_eq_iff)
  then show "\<not> is_digit c \<Longrightarrow> 10 \<le> digit_val c" by (auto simp: digit_val_def Let_def)
qed

lemma strtoull_label:
  assumes "label_name l"
  shows "strtoull 0 l = (0, 0, False)" "chr l 0 \<noteq> CHR ''0''"
proof -
  obtain c cs where l: "l = c # cs" "plain c" "\<not> is_digit c" "c \<notin> set ''-*&+''"
    using assms by (cases l) (auto simp: label_name_def)
  have "CHR ''0'' \<in> set ''0123456789''" by simp
  then have c0: "c \<noteq> CHR ''0''" using l(3) by (auto simp: is_digit_def)
  then show "chr l 0 \<noteq> CHR ''0''" by (simp add: l(1) chr_def)
  have "10 \<le> digit_val c" by (rule digit_val_ge [OF l(3)])
  then show "strtoull 0 l = (0, 0, False)"
    using l c0 by (simp add: strtoull_def plain_def chr_def base_prefix_def digits_of_def Let_def)
qed

lemma hd_dec: "is_digit (hd (dec n))"
  using dec_digits [of "hd (dec n)" n] by simp

lemma parse_arg_show:
  assumes p: "printable a" and e: "\<not> erange s"
  shows "parse_arg env (show_arg a) s = map_option (\<lambda>s. (Some a, s)) (arg_effect env a s)"
proof (cases "a_data a")
  case (Value v)
  have v: "unat v < 2 ^ 64" using unsigned_less [of v] by simp
  have d: "hd (dec (unat v)) \<notin> set '';,:-*&+x%''" by (rule is_digit_facts(4) [OF hd_dec])
  have e1: "eat (CHR ''-'') (show_arg a) = (False, show_arg a)"
    using d by (intro eat_no) (auto simp: show_arg_def Value)
  have e2: "eat (CHR ''*'') (show_arg a) = (a_type a = T_ARG_REF_NUM, dec (unat v))"
    using d eat_no [of "dec (unat v)" "CHR ''*''"] by (auto simp: show_arg_def Value eat_yes)
  have e3: "eat (CHR ''&'') (dec (unat v)) = (False, dec (unat v))" using d by (intro eat_no) auto
  have x: "chr (dec (unat v)) 1 \<noteq> CHR ''x''"
  proof (cases "1 < length (dec (unat v))")
    case True
    then have "dec (unat v) ! 1 \<in> set (dec (unat v))" by simp
    then show ?thesis using True is_digit_facts(4) dec_digits by (fastforce simp: chr_def)
  qed (simp add: chr_def NUL_def)
  have r: "read_number 0 (dec (unat v)) s = (v, [], s)"
    using strtoull_dec [OF v] by (simp add: read_number_def)
  have "a = \<lparr>a_type = a_type a, n_bytes = n_bytes a, a_data = Value v\<rparr>" using Value by simp
  then show ?thesis
    using p e x by (cases "a_type a")
      (auto simp: parse_arg_def e1 e2 e3 r printable_def Value arg_effect_def Let_def)
next
  case (Label l)
  then have l: "label_name l" and t: "n_bytes a = 4" "a_type a = T_ARG_REF_LBL \<or> a_type a = T_ARG_IMM_LBL"
    using p by (auto simp: printable_def)
  have h: "l \<noteq> []" "hd l \<notin> set ''-*&+''" using l by (auto simp: label_name_def)
  have e1: "eat (CHR ''-'') (show_arg a) = (False, show_arg a)" "eat (CHR ''*'') (show_arg a) = (False, show_arg a)"
    using h by (intro eat_no; auto simp: show_arg_def Label)+
  have e3: "eat (CHR ''&'') (show_arg a) = (a_type a = T_ARG_IMM_LBL, l)"
    using h eat_no [of l "CHR ''&''"] by (auto simp: show_arg_def Label eat_yes)
  have r: "read_number 0 l s = (0, l, s)" using strtoull_label [OF l] by (simp add: read_number_def)
  have b: "\<not> big_imm 0" by (simp add: big_imm_def)
  have "a = \<lparr>a_type = a_type a, n_bytes = 4, a_data = Label l\<rparr>" using Label t(1) by simp
  then show ?thesis
    using t(2) strtoull_label(2) [OF l] b
    by (cases "hset_add env l s") (auto simp: parse_arg_def e1 e3 r arg_effect_def Label Let_def)
qed

section \<open>Cutting a line\<close>

text \<open>A token, and what may stand between two tokens.\<close>

definition word :: "string \<Rightarrow> bool" where
  "word w \<longleftrightarrow> w \<noteq> [] \<and> (\<forall>c \<in> set w. plain c)"

definition seps :: "string \<Rightarrow> bool" where
  "seps w \<longleftrightarrow> w \<noteq> [] \<and> (\<forall>c \<in> set w. isspace c \<or> c = CHR '','')"

lemma plain_facts: "plain c \<Longrightarrow> c \<noteq> NUL \<and> c \<noteq> CHR '';'' \<and> \<not> isspace c \<and> c \<noteq> CHR '','' \<and> c \<noteq> CHR '':''"
  by (simp add: plain_def)

lemma cut_word:
  assumes "\<forall>c \<in> set w. plain c"
  shows "cut_tokens env fn ln (length (w @ post)) (length pre) (pre @ w @ post) toks False True s =
    cut_tokens env fn ln (length post) (length (pre @ w)) (pre @ w @ post) toks False True s"
  using assms
proof (induction w arbitrary: pre)
  case (Cons c w)
  have "plain c" using Cons.prems by simp
  with plain_facts [of c] Cons.IH [of "pre @ [c]"] Cons.prems show ?case by simp
qed simp

lemma cut_seps:
  assumes "\<forall>c \<in> set w. isspace c \<or> c = CHR '',''"
  shows "cut_tokens env fn ln (length (w @ post)) (length pre) (pre @ w @ post) toks m ins s =
    cut_tokens env fn ln (length post) (length (pre @ w)) (pre @ replicate (length w) NUL @ post) toks (m \<or> w \<noteq> []) ins s"
  using assms
proof (induction w arbitrary: pre m)
  case (Cons c w)
  then have "isspace c \<or> c = CHR '',''" by simp
  then have "c \<noteq> NUL" "c \<noteq> CHR '';''" by (auto simp: isspace_def NUL_def)
  with Cons.IH [of "pre @ [NUL]" True] Cons.prems show ?case by auto
qed simp

text \<open>The first character of a token after the first.\<close>

lemma cut_start:
  assumes "plain c" "length toks < 4"
  shows "cut_tokens env fn ln (length (c # post)) (length pre) (pre @ c # post) toks True True s =
    cut_tokens env fn ln (length post) (length (pre @ [c])) (pre @ c # post) (toks @ [length pre]) False True s"
  using assms plain_facts [of c] by (simp add: MAX_TOKENS_def)

lemma cut_next:
  assumes "seps sep" "word w" "length toks < 4"
  shows "cut_tokens env fn ln (length (sep @ w @ post)) (length pre) (pre @ sep @ w @ post) toks False True s =
    cut_tokens env fn ln (length post) (length (pre @ replicate (length sep) NUL @ w))
      (pre @ replicate (length sep) NUL @ w @ post) (toks @ [length (pre @ sep)]) False True s"
proof -
  obtain c cs where w: "w = c # cs" "plain c" "\<forall>c \<in> set cs. plain c" using assms(2) by (cases w) (auto simp: word_def)
  let ?n = "replicate (length sep) NUL"
  have "cut_tokens env fn ln (length (sep @ w @ post)) (length pre) (pre @ sep @ w @ post) toks False True s =
      cut_tokens env fn ln (length (w @ post)) (length (pre @ sep)) (pre @ ?n @ w @ post) toks True True s"
    using cut_seps [of sep env fn ln "w @ post" pre toks False True s] assms(1) by (simp add: seps_def)
  also have "\<dots> = cut_tokens env fn ln (length (cs @ post)) (length ((pre @ ?n) @ [c])) ((pre @ ?n) @ c # (cs @ post))
      (toks @ [length (pre @ ?n)]) False True s"
    using cut_start [OF w(2) assms(3), of env fn ln "cs @ post" "pre @ ?n" s] by (simp add: w(1))
  also have "\<dots> = cut_tokens env fn ln (length post) (length ((pre @ ?n @ [c]) @ cs)) ((pre @ ?n @ [c]) @ cs @ post)
      (toks @ [length (pre @ ?n)]) False True s"
    using cut_word [OF w(3), of env fn ln post "pre @ ?n @ [c]" "toks @ [length (pre @ ?n)]" s] by simp
  finally show ?thesis by (simp add: w(1))
qed

definition sep_words :: "(string \<times> string) list \<Rightarrow> string" where
  "sep_words ws = concat (map (\<lambda>(sep, w). sep @ w) ws)"

lemma cstr_word: "word w \<Longrightarrow> cstr (pre @ w @ NUL # post) (length pre) = w"
  by (auto simp: cstr_def word_def plain_def takeWhile_append2 takeWhile_tail)

lemma cut_line:
  assumes "\<forall>(sep, w) \<in> set ws. seps sep \<and> word w" "length toks + length ws \<le> 4"
  shows "\<exists>ps post. cut_tokens env fn ln (length (sep_words ws @ [CHR 0x0A])) (length pre)
      (pre @ sep_words ws @ [CHR 0x0A]) toks False True s =
      Some (False, pre @ NUL # post, toks @ ps, True, s) \<and> map (cstr (pre @ NUL # post)) ps = map snd ws"
  using assms
proof (induction ws arbitrary: pre toks)
  case Nil
  have "cut_tokens env fn ln (Suc 0) (length pre) (pre @ [CHR 0x0A]) toks False True s =
      Some (False, pre @ NUL # [], toks, True, s)"
    by (simp add: NUL_def isspace_def)
  then show ?case by (intro exI [of _ "[]"]) (simp add: sep_words_def)
next
  case (Cons x ws)
  obtain sep w where x: "x = (sep, w)" by (cases x)
  then have sw: "seps sep" "word w" "length toks < 4" using Cons.prems by auto
  let ?n = "replicate (length sep) NUL" and ?rest = "sep_words ws @ [CHR 0x0A]"
  let ?pre = "pre @ ?n @ w" and ?toks = "toks @ [length (pre @ sep)]"
  have "\<exists>ps post. cut_tokens env fn ln (length ?rest) (length ?pre) (?pre @ ?rest) ?toks False True s =
      Some (False, ?pre @ NUL # post, ?toks @ ps, True, s) \<and> map (cstr (?pre @ NUL # post)) ps = map snd ws"
    using Cons.prems by (intro Cons.IH) auto
  then obtain ps post where 1: "cut_tokens env fn ln (length ?rest) (length ?pre) (?pre @ ?rest) ?toks False True s =
      Some (False, ?pre @ NUL # post, ?toks @ ps, True, s)" "map (cstr (?pre @ NUL # post)) ps = map snd ws" by blast
  have "cut_tokens env fn ln (length (sep_words (x # ws) @ [CHR 0x0A])) (length pre)
      (pre @ sep_words (x # ws) @ [CHR 0x0A]) toks False True s =
      Some (False, ?pre @ NUL # post, ?toks @ ps, True, s)"
    using cut_next [OF sw, of env fn ln ?rest pre s] 1(1) by (simp add: sep_words_def x)
  moreover obtain k where "sep \<noteq> []" "?n = NUL # replicate k NUL"
    using sw(1) by (cases sep) (auto simp: seps_def)
  moreover have "cstr (?pre @ NUL # post) (length (pre @ sep)) = w"
    using cstr_word [OF sw(2), of "pre @ ?n" post] by simp
  ultimately show ?case
    using 1(2) by (intro exI [of _ "length (pre @ sep) # ps"] exI [of _ "replicate k NUL @ w @ NUL # post"]) (simp add: x)
qed

section \<open>Lines\<close>

text \<open>An instruction as it is printed: its name, and its operands after a space and commas.\<close>

definition arg_words :: "prs_arg_t list \<Rightarrow> (string \<times> string) list" where
  "arg_words as = (case as of [] \<Rightarrow> [] | a # as \<Rightarrow> ('' '', show_arg a) # map (\<lambda>a. ('', '', show_arg a)) as)"

definition show_line :: "instn_def_t \<Rightarrow> prs_arg_t list \<Rightarrow> string" where
  "show_line d as = name d @ sep_words (arg_words as) @ [CHR 0x0A]"

fun args_effect :: "asm_env \<Rightarrow> prs_arg_t list \<Rightarrow> asm_t \<Rightarrow> asm_t option" where
  "args_effect env [] s = Some s"
| "args_effect env (a # as) s = do { s \<leftarrow> arg_effect env a s; args_effect env as s }"

lemma word_show_arg: "printable a \<Longrightarrow> word (show_arg a)"
proof -
  have p: "is_digit c \<Longrightarrow> plain c" for c using is_digit_facts [of c] by (auto simp: plain_def)
  have c: "plain (CHR ''*'')" "plain (CHR ''&'')" by (simp_all add: plain_def NUL_def isspace_def)
  assume "printable a"
  then show "word (show_arg a)"
    using p c dec_digits by (auto simp: printable_def word_def show_arg_def label_name_def split: arg_data.splits)
qed

lemma arg_effect_erange: "arg_effect env a s = Some s' \<Longrightarrow> erange s' = erange s"
  by (auto simp: arg_effect_def hset_add_def split: arg_data.splits if_splits)

lemma parse_args_show:
  assumes "\<forall>a \<in> set as. printable a" "\<not> erange s"
    and "parsed = [] \<Longrightarrow> as \<noteq> [] \<Longrightarrow> a_type (hd as) = T_ARG_IMM \<Longrightarrow> flags d AND F_ALLOW_IMM_1st_Arg \<noteq> 0"
  shows "parse_args env d parsed (map show_arg as) s = map_option (\<lambda>s. (Some (parsed @ as), s)) (args_effect env as s)"
  using assms
proof (induction as arbitrary: parsed s)
  case (Cons a as)
  have a: "parse_arg env (show_arg a) s = map_option (\<lambda>s. (Some a, s)) (arg_effect env a s)"
    using Cons.prems by (intro parse_arg_show) simp_all
  show ?case
  proof (cases "arg_effect env a s")
    case None
    with a show ?thesis by simp
  next
    case (Some s1)
    have "parse_args env d (parsed @ [a]) (map show_arg as) s1 =
        map_option (\<lambda>s. (Some ((parsed @ [a]) @ as), s)) (args_effect env as s1)"
      using Cons.prems arg_effect_erange [OF Some] by (intro Cons.IH) auto
    with a Some Cons.prems(3) show ?thesis by auto
  qed
qed simp

lemma table_names:
  assumes "instn_table defs" "j < length defs"
  shows "word (name (defs ! j))" "hd (name (defs ! j)) \<noteq> CHR ''%''" "arg_count (defs ! j) \<le> 3"
proof -
  have all: "\<forall>x \<in> set (map signature InstnDefs). fst x \<noteq> [] \<and> list_all plain (fst x) \<and> hd (fst x) \<noteq> CHR ''%'' \<and> fst (snd x) \<le> 3"
    by code_simp
  have "signature (defs ! j) \<in> set (map signature InstnDefs)"
    using assms(2) table_mem [OF assms(1)] by (metis length_map nth_map nth_mem)
  with all have "name (defs ! j) \<noteq> [] \<and> list_all plain (name (defs ! j)) \<and> hd (name (defs ! j)) \<noteq> CHR ''%'' \<and>
      arg_count (defs ! j) \<le> 3"
    unfolding signature_def by auto
  then show "word (name (defs ! j))" "hd (name (defs ! j)) \<noteq> CHR ''%''" "arg_count (defs ! j) \<le> 3"
    by (simp_all add: word_def list_all_iff)
qed

lemma arg_words_snd: "map snd (arg_words as) = map show_arg as"
  by (cases as) (simp_all add: arg_words_def comp_def)

lemma arg_words_ok: "\<forall>a \<in> set as. printable a \<Longrightarrow> \<forall>(sep, w) \<in> set (arg_words as). seps sep \<and> word w"
  by (cases as) (auto simp: arg_words_def seps_def isspace_def word_show_arg)

lemma parse_line_code:
  assumes "scan isspace line 0 = Some p" "chr line p \<noteq> NUL" "chr line p \<noteq> CHR '';''" "chr line p \<noteq> CHR ''%''"
  shows "parse_line env f fn lineno paths line s = do {
      (ret, b, toks, ins, s) \<leftarrow> cut_tokens env fn lineno (length line - p) p line [p] False True s;
      if \<not> ret \<and> ins then add_instn env fn lineno (map (cstr b) toks) s else Some s }"
  using assms by (simp add: parse_line_def)

lemma isspace_not_NUL: "isspace c \<Longrightarrow> c \<noteq> NUL"
  by (auto simp: isspace_def NUL_def)

lemma add_instn_show:
  assumes "instn_table (e_defs env)" "j < length (e_defs env)" "length as = arg_count (e_defs env ! j)"
    and "\<forall>a \<in> set as. printable a" "\<not> erange s"
    and "as \<noteq> [] \<Longrightarrow> a_type (hd as) = T_ARG_IMM \<Longrightarrow> flags (e_defs env ! j) AND F_ALLOW_IMM_1st_Arg \<noteq> 0"
  shows "add_instn env fn lineno (name (e_defs env ! j) # map show_arg as) s =
    map_option (\<lambda>s. s\<lparr>result := (result s)\<lparr>pr_instns := pr_instns (result s) @
        [\<lparr>i_filename = fn, i_lineno = lineno, i_def = e_defs env ! j, i_args = as, mem_offset = - 1\<rparr>]\<rparr>\<rparr>)
      (args_effect env as s)"
proof -
  have "find_instn (e_defs env) (name (e_defs env ! j)) (length as) = Some (Found j)"
    using find_instn_entry [OF assms(1,2)] assms(3) by simp
  moreover have "parse_args env (e_defs env ! j) [] (map show_arg as) s =
      map_option (\<lambda>s. (Some ([] @ as), s)) (args_effect env as s)"
    using assms(4-6) by (intro parse_args_show) auto
  ultimately show ?thesis
    by (cases "args_effect env as s") (simp_all add: add_instn_def parse_instn_def)
qed

text \<open>
  Printing and parsing an instruction: a line with the name of an instruction and operands,
  numbers in base ten and labels, is parsed as the instruction of the table of that name and
  arity with exactly these operands, every number in the fewest bytes. The rest of the state
  changes only by the warnings for large numbers and the labels that are noted.
\<close>

lemma parse_line_show:
  assumes "instn_table (e_defs env)" "j < length (e_defs env)" "length as = arg_count (e_defs env ! j)"
    and "\<forall>a \<in> set as. printable a" "\<not> erange s"
    and "as \<noteq> [] \<Longrightarrow> a_type (hd as) = T_ARG_IMM \<Longrightarrow> flags (e_defs env ! j) AND F_ALLOW_IMM_1st_Arg \<noteq> 0"
  shows "parse_line env f fn lineno paths (show_line (e_defs env ! j) as) s =
    map_option (\<lambda>s. s\<lparr>result := (result s)\<lparr>pr_instns := pr_instns (result s) @
        [\<lparr>i_filename = fn, i_lineno = lineno, i_def = e_defs env ! j, i_args = as, mem_offset = - 1\<rparr>]\<rparr>\<rparr>)
      (args_effect env as s)"
proof -
  let ?w = "name (e_defs env ! j)" and ?rest = "sep_words (arg_words as) @ [CHR 0x0A]"
  let ?line = "show_line (e_defs env ! j) as"
  note w = table_names [OF assms(1,2)]
  obtain c cs where c: "?w = c # cs" "plain c" "c \<noteq> CHR ''%''" "\<forall>c \<in> set ?w. plain c"
    using w(1,2) by (cases ?w) (auto simp: word_def)
  have p: "scan isspace ?line 0 = Some 0" "chr ?line 0 = c"
    using c(1,2) by (simp_all add: scan_def show_line_def plain_def chr_def)
  have "length (arg_words as) = length as" using arg_words_snd [of as] by (metis length_map)
  then have len: "length [0 :: nat] + length (arg_words as) \<le> 4" using w(3) assms(3) by simp
  obtain ps post where cut: "cut_tokens env fn lineno (length ?rest) (length ?w) (?w @ ?rest) [0] False True s =
      Some (False, ?w @ NUL # post, [0] @ ps, True, s)" "map (cstr (?w @ NUL # post)) ps = map show_arg as"
    using cut_line [OF arg_words_ok [OF assms(4)] len, of env fn lineno ?w s] unfolding arg_words_snd by blast
  have "cut_tokens env fn lineno (length ?line) 0 ?line [0] False True s =
      Some (False, ?w @ NUL # post, 0 # ps, True, s)"
    using cut_word [OF c(4), of env fn lineno ?rest "[]" "[0]" s] cut(1) by (simp add: show_line_def)
  moreover have "cstr (?w @ NUL # post) 0 = ?w" using cstr_word [OF w(1), of "[]" post] by simp
  ultimately have "parse_line env f fn lineno paths (show_line (e_defs env ! j) as) s = add_instn env fn lineno (?w # map show_arg as) s"
    using parse_line_code [OF p(1), of env f fn lineno paths s] p(2) c(3) plain_facts [OF c(2)] cut(2) by simp
  also have "\<dots> = map_option (\<lambda>s. s\<lparr>result := (result s)\<lparr>pr_instns := pr_instns (result s) @
        [\<lparr>i_filename = fn, i_lineno = lineno, i_def = e_defs env ! j, i_args = as, mem_offset = - 1\<rparr>]\<rparr>\<rparr>)
      (args_effect env as s)"
    using assms by (rule add_instn_show)
  finally show ?thesis .
qed

text \<open>
  A label in front of the rest of an empty line: it is entered with the number of the next
  instruction, whatever white space surrounds it.
\<close>

lemma parse_line_label:
  assumes "word l" "hd l \<noteq> CHR ''%''" "\<forall>c \<in> set before \<union> set after. isspace c"
  shows "parse_line env f fn lineno paths (before @ l @ '':'' @ after) s =
    add_label env fn lineno l (n_instns (result s)) False s"
proof -
  let ?line = "before @ l @ '':'' @ after" and ?n = "length before"
  let ?b = "before @ l @ NUL # after"
  obtain c cs where c: "l = c # cs" "plain c" "c \<noteq> CHR ''%''" "\<forall>c \<in> set l. plain c"
    using assms(1,2) by (cases l) (auto simp: word_def)
  note pc = plain_facts [OF c(2)]
  have "takeWhile (\<lambda>c. c \<noteq> NUL \<and> isspace c) ?line = before"
    using assms(3) isspace_not_NUL c(1) pc by (subst takeWhile_append2) auto
  then have p: "scan isspace ?line 0 = Some ?n" "chr ?line ?n = c"
    using c(1) by (simp_all add: scan_def)
  have ch: "chr (before @ l @ CHR '':'' # after) (length before + length l) = CHR '':''"
    using chr_append [of "before @ l" "CHR '':''" after] by simp
  have upd: "(before @ l @ CHR '':'' # after)[length before + length l := NUL] = ?b"
    using list_update_length [of "before @ l" "CHR '':''" after NUL] by simp
  have "cut_tokens env fn lineno (length (l @ '':'' @ after)) ?n ?line [?n] False True s =
      cut_tokens env fn lineno (Suc (length after)) (length (before @ l)) ((before @ l) @ CHR '':'' # after) [?n] False True s"
    using cut_word [OF c(4), of env fn lineno "'':'' @ after" before "[?n]" s] by simp
  also have "\<dots> = do {
      s \<leftarrow> add_label env fn lineno (cstr ?b ?n) (n_instns (result s)) False s;
      cut_tokens env fn lineno (length after) (length (before @ l @ [NUL])) ?b [?n] False False s }"
    using ch upd by (simp add: Let_def isspace_def) (simp add: NUL_def)
  also have "cstr ?b ?n = l" using cstr_word [OF assms(1)] by blast
  finally have cut: "cut_tokens env fn lineno (length ?line - ?n) ?n ?line [?n] False True s = do {
      s \<leftarrow> add_label env fn lineno l (n_instns (result s)) False s;
      Some (False, before @ l @ NUL # replicate (length after) NUL, [?n], False, s) }"
    using cut_seps [of after env fn lineno "[]" "before @ l @ [NUL]" "[?n]" False False] assms(3) by simp
  show ?thesis
    using parse_line_code [OF p(1), of env f fn lineno paths s] p(2) pc c(3) unfolding cut
    by (cases "add_label env fn lineno l (n_instns (result s)) False s") simp_all
qed

section \<open>A line with an instruction and one with a label\<close>

definition line_env :: asm_env where
  "line_env = \<lparr>e_defs = std_defs, e_calloc = (\<lambda>_. True), e_files = (\<lambda>_. None), MEM_ALLOC_BLOCK_SZ = 512,
     e_junk_label = False\<rparr>"

definition line_state :: asm_t where
  "line_state = \<lparr>result = init_parse_result, seen_refs = hm_new, erange = False\<rparr>"

definition line_args :: "prs_arg_t list" where
  "line_args = [\<lparr>a_type = T_ARG_REF_NUM, n_bytes = 4, a_data = Value 16\<rparr>,
     \<lparr>a_type = T_ARG_REF_LBL, n_bytes = 4, a_data = Label ''x''\<rparr>,
     \<lparr>a_type = T_ARG_IMM, n_bytes = 2, a_data = Value 300\<rparr>]"

lemma line_shown: "show_line (std_defs ! 1) line_args = ''add *16, x, 300'' @ [CHR 0x0A] \<and> arg_count (std_defs ! 1) = 3"
  by code_simp

lemma line_printable: "\<forall>a \<in> set line_args. printable a"
proof -
  have "imm_bytes_of False 300 = 2" "label_name ''x''" by code_simp+
  then show ?thesis by (simp add: line_args_def printable_def)
qed

lemma line_effect: "args_effect line_env line_args line_state =
    Some (line_state\<lparr>seen_refs := put_at (hash_of INITIAL_SIZE ''x'') ''x'' None hm_new\<rparr>)"
  by (simp add: line_args_def arg_effect_def hset_add_def line_state_def hmap_put_blank big_imm_def)

lemma parse_line_show_witness:
  "\<exists>s'. parse_line line_env (\<lambda>_ _ _. None) 0 7 [] (''add *16, x, 300'' @ [CHR 0x0A]) line_state = Some s' \<and>
     pr_instns (result s') = [\<lparr>i_filename = 0, i_lineno = 7, i_def = std_defs ! 1, i_args = line_args, mem_offset = - 1\<rparr>]"
proof -
  have "parse_line line_env (\<lambda>_ _ _. None) 0 7 [] (show_line (e_defs line_env ! 1) line_args) line_state =
    map_option (\<lambda>s. s\<lparr>result := (result s)\<lparr>pr_instns := pr_instns (result s) @
        [\<lparr>i_filename = 0, i_lineno = 7, i_def = e_defs line_env ! 1, i_args = line_args, mem_offset = - 1\<rparr>]\<rparr>\<rparr>)
      (args_effect line_env line_args line_state)"
    by (rule parse_line_show)
      (use line_printable line_shown in \<open>simp_all add: line_env_def line_state_def std_table table_length [OF std_table] line_args_def\<close>)
  then show ?thesis
    using line_shown unfolding line_effect by (simp add: line_env_def line_state_def init_parse_result_def)
qed

lemma parse_line_label_witness:
  "\<exists>s' lbl. parse_line line_env (\<lambda>_ _ _. None) 0 3 [] ('' loop:'' @ [CHR 0x0A]) line_state = Some s' \<and>
     find_label (result s') ''loop'' = Some lbl \<and> l_offset lbl = 0 \<and> l_lineno lbl = 3"
proof -
  let ?l = "\<lparr>l_filename = 0, l_lineno = 3, l_offset = 0, is_mem_ref = False\<rparr>"
  have w: "word ''loop''" by code_simp
  have "parse_line line_env (\<lambda>_ _ _. None) 0 3 [] ('' '' @ ''loop'' @ '':'' @ [CHR 0x0A]) line_state =
      add_label line_env 0 3 ''loop'' (n_instns (result line_state)) False line_state"
    by (rule parse_line_label [OF w]) (simp_all add: isspace_def)
  then have r: "parse_line line_env (\<lambda>_ _ _. None) 0 3 [] ('' loop:'' @ [CHR 0x0A]) line_state =
      Some (line_state\<lparr>result := init_parse_result\<lparr>labels := put_at (hash_of INITIAL_SIZE ''loop'') ''loop'' (Some ?l) hm_new\<rparr>\<rparr>)"
    by (simp add: add_label_def hmap_put_blank line_state_def init_parse_result_def n_instns_def)
  have "hm_abs (put_at (hash_of INITIAL_SIZE ''loop'') ''loop'' (Some ?l) hm_new) ''loop'' = Some (Some ?l)"
    using hmap_put_correct [OF hm.inv_new hmap_put_blank [of "\<lambda>_. True" "''loop''" "Some ?l"]] by simp
  then show ?thesis using r by (simp add: find_label_def hmap_get_hm_abs)
qed
end
