(* ===== verification/Assemble.thy ===== *)
theory Assemble
  imports CodeRoundtrip ParserInv
begin

text \<open>
  The way from a source file to a decoded instruction: what the parser delivers is what the code
  generator asks for, and the decoder gives it back.
\<close>

lemma table_limits:
  assumes "instn_table defs" "d \<in> set defs"
  shows "arg_count d \<le> 3" "unat (opcode d) < 56" "defs ! unat (opcode d) = d"
proof -
  obtain k where k: "k < length defs" "d = defs ! k" using assms(2) by (metis in_set_conv_nth)
  have "\<forall>x \<in> set (map signature InstnDefs). fst (snd x) \<le> 3" by code_simp
  moreover have "signature d \<in> set (map signature defs)" using assms(2) by simp
  ultimately have "fst (snd (signature d)) \<le> 3" using table_mem [OF assms(1)] by blast
  then show "arg_count d \<le> 3" by (simp add: signature_def)
  have "opcode d = of_nat k" using table_opcode [OF assms(1) k(1)] k(2) by simp
  then have "unat (opcode d) = k" using k(1) table_length [OF assms(1)] by simp
  then show "unat (opcode d) < 56" "defs ! unat (opcode d) = d" using k table_length [OF assms(1)] by simp_all
qed

text \<open>No operand refers to the end of the file.\<close>

definition labels_inside :: "prs_result_t \<Rightarrow> bool" where
  "labels_inside r \<longleftrightarrow> (\<forall>x \<in> set (pr_instns r). \<forall>l \<in> arg_labels (i_args x). \<forall>lbl.
     find_label r l = Some lbl \<longrightarrow> \<not> is_mem_ref lbl \<longrightarrow> unat (l_offset lbl) < length (pr_instns r))"

lemma shape_wf:
  assumes t: "instn_table defs" and x: "instn_shape defs x" and m: "x \<in> set (pr_instns r)"
    and l: "\<forall>l \<in> arg_labels (i_args x). \<exists>lbl. find_label r l = Some lbl" and i: "labels_inside r"
  shows "instn_wf r x"
proof -
  have d: "arg_count (i_def x) \<le> 3" "unat (opcode (i_def x)) < 56"
    using table_limits [OF t] x by (auto simp: instn_shape_def)
  have "arg_wf r a" if a: "a \<in> set (i_args x)" for a
  proof -
    have s: "arg_shape a" using x a by (simp add: instn_shape_def)
    show ?thesis
    proof (cases "a_data a")
      case (Value v)
      with s show ?thesis by (auto simp: arg_shape_def arg_wf_def)
    next
      case (Label n)
      then have "n \<in> arg_labels (i_args x)" using a by (auto simp: arg_labels_def)
      with l i m obtain lbl where "find_label r n = Some lbl"
          "\<not> is_mem_ref lbl \<longrightarrow> unat (l_offset lbl) < length (pr_instns r)"
        unfolding labels_inside_def by blast
      with s Label show ?thesis by (auto simp: arg_shape_def arg_wf_def)
    qed
  qed
  with d x show ?thesis by (simp add: instn_wf_def instn_shape_def)
qed

lemma parsed_wf:
  assumes "env_ok env" "parse_files depth env filename paths rng = Some (Some s)" "errors (result s) = 0"
    and "table_size (seen_refs s) < 2 ^ 32"
    and "parse_asm depth env filename paths rng = Some (Some r)" "errors r = 0"
    and "labels_inside r" "length (full_code dbg r) \<le> 2 ^ 32 - 256"
  shows "parse_wf dbg r" and "x \<in> set (pr_instns r) \<Longrightarrow> i_def x \<in> set (e_defs env)"
proof -
  note del = parse_asm_delivers_ok [OF assms(1-6)]
  have t: "instn_table (e_defs env)" using assms(1) by (simp add: env_ok_def)
  have "\<forall>x \<in> set (pr_instns r). instn_wf r x"
    using shape_wf [OF t _ _ _ assms(7)] del by blast
  then show "parse_wf dbg r" using assms(6,8) by (simp add: parse_wf_def length_full_code)
  show "x \<in> set (pr_instns r) \<Longrightarrow> i_def x \<in> set (e_defs env)" using del by (simp add: instn_shape_def)
qed

end
