(* ===== verification/DebugData.thy ===== *)
theory DebugData
  imports BytecodeGen Image CText
begin

text \<open>
  The debug data of an image: making it from a parsed file (\<open>bytecode_gen.c\<close>), writing it, and
  the macros that read it in the debugger (\<open>bytecode.h\<close>).
\<close>

section \<open>The data\<close>

record dbg_line_assoc_t =
  ln_address :: u32
  ln_fileno :: u32
  ln_lineno :: u32
  ln_label_ref :: i32

text \<open>The arrays and, by their lengths, their sizes.\<close>

record debug_t =
  d_files :: "u32 list"
  d_labels :: "u32 list"
  d_code_lines :: "dbg_line_assoc_t list"
  d_mem_lines :: "dbg_line_assoc_t list"
  d_string_table :: "u8 list"

text \<open>File names are compared as pointers.\<close>

fun find_filename :: "nat \<Rightarrow> nat list \<Rightarrow> nat \<Rightarrow> nat option" where
  "find_filename fn [] f = None"
| "find_filename fn (x # xs) f = (if fn = x then Some f else find_filename fn xs (f + 1))"

definition filename_index :: "nat \<Rightarrow> nat list \<Rightarrow> u32 \<times> nat list" where
  "filename_index fn filenames =
     (case find_filename fn filenames 0 of
        Some f \<Rightarrow> (of_nat f, filenames)
      | None \<Rightarrow> (of_nat (length filenames), filenames @ [fn]))"

text \<open>
  A string and its null character, at the end of the string table. Lengths are \<open>int\<close>s, and a
  table beyond 32 bits is allocated too small for the copy.
\<close>

definition add_string :: "string \<Rightarrow> u8 list \<Rightarrow> u8 list option" where
  "add_string s tab =
     (if length s + 1 < 2 ^ 31 \<and> length tab + length s + 1 < 2 ^ 32
      then Some (tab @ map char_u8 s @ [0]) else None)"

fun add_code_lines :: "prs_instn_t list \<Rightarrow> debug_t \<times> nat list \<Rightarrow> debug_t \<times> nat list" where
  "add_code_lines [] s = s"
| "add_code_lines (instn # is) (d, filenames) =
     (let (f, filenames) = filename_index (i_filename instn) filenames;
          ln = \<lparr>ln_address = mem_offset instn, ln_fileno = f, ln_lineno = i_lineno instn, ln_label_ref = - 1\<rparr>
      in add_code_lines is (d\<lparr>d_code_lines := d_code_lines d @ [ln]\<rparr>, filenames))"

text \<open>\<open>names\<close> is what the pointers to file names point to, as long as it lives.\<close>

fun add_files :: "(nat \<Rightarrow> string option) \<Rightarrow> nat list \<Rightarrow> debug_t \<Rightarrow> debug_t option" where
  "add_files names [] d = Some d"
| "add_files names (fn # fns) d = do {
     s \<leftarrow> names fn;
     tab \<leftarrow> add_string s (d_string_table d);
     add_files names fns (d\<lparr>d_files := d_files d @ [of_nat (length (d_string_table d))], d_string_table := tab\<rparr>)
   }"

text \<open>
  The visitor of the labels works on copies of the array of file names and of its size. A name
  that is not there yet makes \<open>realloc\<close> free the array behind the caller, who uses it for the
  next label and frees it again; there is no array yet when there are no instructions.
\<close>

definition add_label_line :: "nat list \<Rightarrow> label_t \<Rightarrow> debug_t \<Rightarrow> debug_t option" where
  "add_label_line filenames lbl d =
     (if is_mem_ref lbl then
        (case filename_index (l_filename lbl) filenames of (f, filenames') \<Rightarrow>
           if filenames' \<noteq> filenames \<and> filenames \<noteq> [] then None
           else Some (d\<lparr>d_mem_lines := d_mem_lines d @ [\<lparr>ln_address = l_offset lbl, ln_fileno = f,
                  ln_lineno = l_lineno lbl, ln_label_ref = of_nat (length (d_labels d))\<rparr>]\<rparr>))
      else if unat (l_offset lbl) < length (d_code_lines d) then
        Some (d\<lparr>d_code_lines := (d_code_lines d)[unat (l_offset lbl) :=
                  (d_code_lines d ! unat (l_offset lbl))\<lparr>ln_label_ref := of_nat (length (d_labels d))\<rparr>]\<rparr>)
      else None)"

definition mk_label_debug_data :: "nat list \<Rightarrow> debug_t option \<Rightarrow> string \<Rightarrow> label_t option \<Rightarrow> debug_t option" where
  "mk_label_debug_data filenames s lbl_name lbl = do {
     d \<leftarrow> s;
     lbl \<leftarrow> lbl;
     d \<leftarrow> add_label_line filenames lbl d;
     tab \<leftarrow> add_string lbl_name (d_string_table d);
     Some (d\<lparr>d_labels := d_labels d @ [of_nat (length (d_string_table d))], d_string_table := tab\<rparr>)
   }"

text \<open>The differences are 32-bit ones and the result is an \<open>int\<close>.\<close>

definition compare_dbg_lines :: "dbg_line_assoc_t \<Rightarrow> dbg_line_assoc_t \<Rightarrow> int" where
  "compare_dbg_lines a b =
     (if ln_fileno a \<noteq> ln_fileno b then sint (ln_fileno a - ln_fileno b) else sint (ln_lineno a - ln_lineno b))"

text \<open>The library function, given the comparison.\<close>

type_synonym line_sort = "(dbg_line_assoc_t \<Rightarrow> dbg_line_assoc_t \<Rightarrow> int) \<Rightarrow> dbg_line_assoc_t list \<Rightarrow> dbg_line_assoc_t list"

definition mk_debug_data :: "(nat \<Rightarrow> string option) \<Rightarrow> line_sort \<Rightarrow> prs_result_t \<Rightarrow> debug_t option" where
  "mk_debug_data names qsort parse =
     (let d = \<lparr>d_files = [], d_labels = [], d_code_lines = [], d_mem_lines = [], d_string_table = []\<rparr>;
          (d, filenames) = add_code_lines (pr_instns parse) (d, [])
      in do {
        d \<leftarrow> add_files names filenames d;
        d \<leftarrow> snd (hmap_iterate (labels parse) (Some d) (mk_label_debug_data filenames));
        Some (d\<lparr>d_code_lines := qsort compare_dbg_lines (d_code_lines d),
                d_mem_lines := qsort compare_dbg_lines (d_mem_lines d)\<rparr>)
      })"

section \<open>Writing\<close>

definition u32_bytes :: "u32 \<Rightarrow> u8 list" where
  "u32_bytes x = le_bytes 4 (unat x)"

definition line_bytes :: "dbg_line_assoc_t \<Rightarrow> u8 list" where
  "line_bytes l = u32_bytes (ln_address l) @ u32_bytes (ln_fileno l) @ u32_bytes (ln_lineno l) @ u32_bytes (ln_label_ref l)"

definition n_of :: "'a list \<Rightarrow> u32" where
  "n_of xs = of_nat (length xs)"

definition write_bvgz_image_debug ::
  "(nat \<Rightarrow> string option) \<Rightarrow> line_sort \<Rightarrow> prs_result_t \<Rightarrow> wfile \<Rightarrow> (int \<times> wfile) option" where
  "write_bvgz_image_debug names qsort parse fp = do {
     dbg \<leftarrow> mk_debug_data names qsort parse;
     or_fail (fwrite (u32_bytes (n_of (d_code_lines dbg))) fp) (\<lambda>fp.
     or_fail (fwrite (u32_bytes (n_of (d_mem_lines dbg))) fp) (\<lambda>fp.
     or_fail (fwrite (u32_bytes (n_of (d_labels dbg))) fp) (\<lambda>fp.
     or_fail (fwrite (u32_bytes (n_of (d_files dbg))) fp) (\<lambda>fp.
     or_fail (fwrite (u32_bytes (n_of (d_string_table dbg))) fp) (\<lambda>fp.
     or_fail (fwrite_items (concat (map line_bytes (d_code_lines dbg))) fp) (\<lambda>fp.
     or_fail (fwrite_items (concat (map line_bytes (d_mem_lines dbg))) fp) (\<lambda>fp.
     or_fail (fwrite_items (concat (map u32_bytes (d_labels dbg))) fp) (\<lambda>fp.
     or_fail (fwrite_items (concat (map u32_bytes (d_files dbg))) fp) (\<lambda>fp.
     or_fail (fwrite (d_string_table dbg) fp) (\<lambda>fp. Some (0, fp)))))))))))
   }"

definition write_bvgz_image ::
  "(nat \<Rightarrow> string option) \<Rightarrow> line_sort \<Rightarrow> prs_result_t \<Rightarrow> u8 list \<Rightarrow> u32 \<Rightarrow> u32 \<Rightarrow> bool \<Rightarrow> wfile \<Rightarrow> (int \<times> wfile) option" where
  "write_bvgz_image names qsort parse cd csz entry_label debug fp = do {
     let fl = (if debug then BVGZ_IMG_F_EXEC OR BVGZ_IMG_F_DEBUG else BVGZ_IMG_F_EXEC);
     (ret, fp) \<leftarrow> write_bvgz_image_direct cd csz (pr_memory parse) (pr_memsz parse) entry_label fl fp;
     if \<not> debug \<or> ret < 0 then Some (ret, fp) else write_bvgz_image_debug names qsort parse fp
   }"

section \<open>Reading\<close>

text \<open>
  The macros compute an offset into the data behind the header. The sums of counts are 32-bit
  ones, the rest is done in 64 bits; an index may be negative, as the label of a line is, and
  what lies before the data is out of it.
\<close>

definition dbg_load :: "vm_debug_data_t \<Rightarrow> int \<Rightarrow> u32 option" where
  "dbg_load dbg p = (if p < 0 then None else map_option of_nat (load 4 (dbg_data dbg) (nat p)))"

definition dbg_line_at :: "vm_debug_data_t \<Rightarrow> int \<Rightarrow> dbg_line_assoc_t option" where
  "dbg_line_at dbg p = do {
     a \<leftarrow> dbg_load dbg p;
     f \<leftarrow> dbg_load dbg (p + 4);
     n \<leftarrow> dbg_load dbg (p + 8);
     l \<leftarrow> dbg_load dbg (p + 12);
     Some \<lparr>ln_address = a, ln_fileno = f, ln_lineno = n, ln_label_ref = l\<rparr>
   }"

definition DBG_CODE_LINE :: "vm_debug_data_t \<Rightarrow> u32 \<Rightarrow> dbg_line_assoc_t option" where
  "DBG_CODE_LINE dbg n = dbg_line_at dbg (16 * uint n)"

definition DBG_MEM_LINE :: "vm_debug_data_t \<Rightarrow> u32 \<Rightarrow> dbg_line_assoc_t option" where
  "DBG_MEM_LINE dbg n = dbg_line_at dbg (16 * uint (n_code_lines dbg + n))"

definition DBG_LABEL_OFFSET :: "vm_debug_data_t \<Rightarrow> i32 \<Rightarrow> u32 option" where
  "DBG_LABEL_OFFSET dbg n = dbg_load dbg (16 * uint (n_code_lines dbg + n_mem_lines dbg) + 4 * sint n)"

definition DBG_FILE_OFFSET :: "vm_debug_data_t \<Rightarrow> u32 \<Rightarrow> u32 option" where
  "DBG_FILE_OFFSET dbg n = dbg_load dbg (16 * uint (n_code_lines dbg + n_mem_lines dbg) + 4 * uint (n_labels dbg + n))"

definition DBG_STRTAB_OFFSET :: "vm_debug_data_t \<Rightarrow> nat" where
  "DBG_STRTAB_OFFSET dbg = 16 * unat (n_code_lines dbg + n_mem_lines dbg) + 4 * unat (n_labels dbg + n_files dbg)"

text \<open>A string in a block of bytes: it must end in the block.\<close>

definition str_at :: "u8 list \<Rightarrow> nat \<Rightarrow> string option" where
  "str_at bs p =
     (if p < length bs \<and> 0 \<in> set (drop p bs)
      then Some (map (\<lambda>b. char_of (unat b)) (takeWhile (\<lambda>b. b \<noteq> 0) (drop p bs))) else None)"

definition DBG_LABEL :: "vm_debug_data_t \<Rightarrow> i32 \<Rightarrow> string option" where
  "DBG_LABEL dbg n = do {
     p \<leftarrow> DBG_LABEL_OFFSET dbg n;
     str_at (dbg_data dbg) (DBG_STRTAB_OFFSET dbg + unat p)
   }"

definition DBG_FILE :: "vm_debug_data_t \<Rightarrow> u32 \<Rightarrow> string option" where
  "DBG_FILE dbg n = do {
     p \<leftarrow> DBG_FILE_OFFSET dbg n;
     str_at (dbg_data dbg) (DBG_STRTAB_OFFSET dbg + unat p)
   }"

section \<open>The format\<close>

definition debug_head :: "debug_t \<Rightarrow> u8 list" where
  "debug_head d = u32_bytes (n_of (d_code_lines d)) @ u32_bytes (n_of (d_mem_lines d)) @
     u32_bytes (n_of (d_labels d)) @ u32_bytes (n_of (d_files d)) @ u32_bytes (n_of (d_string_table d))"

definition debug_body :: "debug_t \<Rightarrow> u8 list" where
  "debug_body d = concat (map line_bytes (d_code_lines d)) @ concat (map line_bytes (d_mem_lines d)) @
     concat (map u32_bytes (d_labels d)) @ concat (map u32_bytes (d_files d)) @ d_string_table d"

text \<open>The data has a string and its size is one of 32 bits.\<close>

definition debug_fits :: "debug_t \<Rightarrow> bool" where
  "debug_fits d \<longleftrightarrow> d_string_table d \<noteq> [] \<and> length (debug_body d) < 2 ^ 32"

definition loaded_debug :: "debug_t \<Rightarrow> vm_debug_data_t" where
  "loaded_debug d = \<lparr>n_code_lines = n_of (d_code_lines d), n_mem_lines = n_of (d_mem_lines d),
     n_labels = n_of (d_labels d), n_files = n_of (d_files d), strtab_sz = n_of (d_string_table d),
     dbg_data = debug_body d\<rparr>"

lemma length_u32_bytes [simp]: "length (u32_bytes x) = 4"
  by (simp add: u32_bytes_def)

lemma length_line_bytes [simp]: "length (line_bytes l) = 16"
  by (simp add: line_bytes_def)

lemma length_concat_map: "(\<And>x. length (f x) = k) \<Longrightarrow> length (concat (map f xs)) = k * length xs"
  by (induction xs) auto

lemma length_lines [simp]: "length (concat (map line_bytes xs)) = 16 * length xs"
  by (rule length_concat_map) simp

lemma length_words [simp]: "length (concat (map u32_bytes xs)) = 4 * length xs"
  by (rule length_concat_map) simp

lemma length_debug_head [simp]: "length (debug_head d) = 20"
  by (simp add: debug_head_def)

lemma length_debug_body: "length (debug_body d) =
    16 * (length (d_code_lines d) + length (d_mem_lines d)) + 4 * (length (d_labels d) + length (d_files d)) +
      length (d_string_table d)"
  by (simp add: debug_body_def)

lemma fits_sizes:
  assumes "debug_fits d"
  shows "16 * (length (d_code_lines d) + length (d_mem_lines d)) + 4 * (length (d_labels d) + length (d_files d)) +
      length (d_string_table d) < 2 ^ 32"
  using assms by (simp add: debug_fits_def length_debug_body)

lemma unat_n_of: "length xs < 2 ^ 32 \<Longrightarrow> unat (n_of xs) = length xs"
  by (simp add: n_of_def)

lemma fits_counts:
  assumes "debug_fits d"
  shows "unat (n_of (d_code_lines d)) = length (d_code_lines d)"
    and "unat (n_of (d_mem_lines d)) = length (d_mem_lines d)"
    and "unat (n_of (d_labels d)) = length (d_labels d)"
    and "unat (n_of (d_files d)) = length (d_files d)"
    and "unat (n_of (d_string_table d)) = length (d_string_table d)"
  using fits_sizes [OF assms] by (auto intro!: unat_n_of)

text \<open>An item of a list of items of one size.\<close>

lemma concat_map_split:
  assumes "i < length xs"
  shows "concat (map f xs) = concat (map f (take i xs)) @ f (xs ! i) @ concat (map f (drop (Suc i) xs))"
proof -
  have "concat (map f xs) = concat (map f (take i xs @ xs ! i # drop (Suc i) xs))"
    using id_take_nth_drop [OF assms] by simp
  then show ?thesis by simp
qed

lemma dbg_load_word:
  assumes "dbg_data v = pre @ u32_bytes x @ post" "p = int (length pre)"
  shows "dbg_load v p = Some x"
  using assms by (simp add: dbg_load_def load_def u32_bytes_def)

lemma dbg_line_at_line:
  assumes "dbg_data v = pre @ line_bytes l @ post" "p = int (length pre)"
  shows "dbg_line_at v p = Some l"
proof -
  let ?w = "u32_bytes"
  have "dbg_load v p = Some (ln_address l)"
    by (rule dbg_load_word [where pre = pre and post = "?w (ln_fileno l) @ ?w (ln_lineno l) @ ?w (ln_label_ref l) @ post"])
      (use assms in \<open>simp_all add: line_bytes_def\<close>)
  moreover have "dbg_load v (p + 4) = Some (ln_fileno l)"
    by (rule dbg_load_word [where pre = "pre @ ?w (ln_address l)" and post = "?w (ln_lineno l) @ ?w (ln_label_ref l) @ post"])
      (use assms in \<open>simp_all add: line_bytes_def\<close>)
  moreover have "dbg_load v (p + 8) = Some (ln_lineno l)"
    by (rule dbg_load_word [where pre = "pre @ ?w (ln_address l) @ ?w (ln_fileno l)" and post = "?w (ln_label_ref l) @ post"])
      (use assms in \<open>simp_all add: line_bytes_def\<close>)
  moreover have "dbg_load v (p + 12) = Some (ln_label_ref l)"
    by (rule dbg_load_word [where pre = "pre @ ?w (ln_address l) @ ?w (ln_fileno l) @ ?w (ln_lineno l)" and post = post])
      (use assms in \<open>simp_all add: line_bytes_def\<close>)
  ultimately show ?thesis by (simp add: dbg_line_at_def)
qed

section \<open>The macros on loaded data\<close>

lemma uint_unat_n: "n < 2 ^ 32 \<Longrightarrow> uint (of_nat n :: u32) = int n"
  by (simp add: uint_nat)

lemma n_of_plus: "n_of xs + of_nat i = of_nat (length xs + i)"
  by (simp add: n_of_def)

lemma code_line_loaded:
  assumes "debug_fits d" "i < length (d_code_lines d)"
  shows "DBG_CODE_LINE (loaded_debug d) (of_nat i) = Some (d_code_lines d ! i)"
proof -
  have "uint (of_nat i :: u32) = int i"
    using fits_sizes [OF assms(1)] assms(2) by (intro uint_unat_n) simp
  then show ?thesis
    unfolding DBG_CODE_LINE_def
    by (intro dbg_line_at_line [where pre = "concat (map line_bytes (take i (d_code_lines d)))"])
      (use assms(2) concat_map_split [OF assms(2), of line_bytes] in \<open>simp_all add: loaded_debug_def debug_body_def\<close>)
qed

lemma mem_line_loaded:
  assumes "debug_fits d" "i < length (d_mem_lines d)"
  shows "DBG_MEM_LINE (loaded_debug d) (of_nat i) = Some (d_mem_lines d ! i)"
proof -
  have "uint (n_of (d_code_lines d) + of_nat i) = int (length (d_code_lines d) + i)"
    unfolding n_of_plus using fits_sizes [OF assms(1)] assms(2) by (intro uint_unat_n) simp
  then show ?thesis
    unfolding DBG_MEM_LINE_def
    by (intro dbg_line_at_line [where pre = "concat (map line_bytes (d_code_lines d)) @ concat (map line_bytes (take i (d_mem_lines d)))"])
      (use assms(2) concat_map_split [OF assms(2), of line_bytes] in \<open>simp_all add: loaded_debug_def debug_body_def\<close>)
qed

lemma lines_size:
  assumes "debug_fits d"
  shows "uint (n_of (d_code_lines d) + n_of (d_mem_lines d)) = int (length (d_code_lines d) + length (d_mem_lines d))"
  unfolding n_of_def of_nat_add [symmetric] using fits_sizes [OF assms] by (intro uint_unat_n) simp

lemma sint_small: "n < 2 ^ 31 \<Longrightarrow> sint (of_nat n :: u32) = int n"
  by (simp add: signed_of_nat signed_take_bit_int_eq_self)

lemma label_offset_loaded:
  assumes "debug_fits d" "i < length (d_labels d)"
  shows "DBG_LABEL_OFFSET (loaded_debug d) (of_nat i) = Some (d_labels d ! i)"
proof -
  have "sint (of_nat i :: u32) = int i"
    using fits_sizes [OF assms(1)] assms(2) by (intro sint_small) simp
  then show ?thesis
    unfolding DBG_LABEL_OFFSET_def
    by (intro dbg_load_word [where pre = "concat (map line_bytes (d_code_lines d)) @ concat (map line_bytes (d_mem_lines d)) @
          concat (map u32_bytes (take i (d_labels d)))"])
      (use assms(2) concat_map_split [OF assms(2), of u32_bytes] lines_size [OF assms(1)] in
        \<open>simp_all add: loaded_debug_def debug_body_def\<close>)
qed

lemma file_offset_loaded:
  assumes "debug_fits d" "i < length (d_files d)"
  shows "DBG_FILE_OFFSET (loaded_debug d) (of_nat i) = Some (d_files d ! i)"
proof -
  have "uint (n_of (d_labels d) + of_nat i) = int (length (d_labels d) + i)"
    unfolding n_of_plus using fits_sizes [OF assms(1)] assms(2) by (intro uint_unat_n) simp
  then show ?thesis
    unfolding DBG_FILE_OFFSET_def
    by (intro dbg_load_word [where pre = "concat (map line_bytes (d_code_lines d)) @ concat (map line_bytes (d_mem_lines d)) @
          concat (map u32_bytes (d_labels d)) @ concat (map u32_bytes (take i (d_files d)))"])
      (use assms(2) concat_map_split [OF assms(2), of u32_bytes] lines_size [OF assms(1)] in
        \<open>simp_all add: loaded_debug_def debug_body_def\<close>)
qed

lemma unat_n_of_add: "length xs + length ys < 2 ^ 32 \<Longrightarrow> unat (n_of xs + n_of ys) = length xs + length ys"
  unfolding n_of_def of_nat_add [symmetric] by (simp del: of_nat_add)

lemma strtab_loaded:
  assumes "debug_fits d"
  shows "str_at (dbg_data (loaded_debug d)) (DBG_STRTAB_OFFSET (loaded_debug d) + p) = str_at (d_string_table d) p"
proof -
  have "unat (n_of (d_code_lines d) + n_of (d_mem_lines d)) = length (d_code_lines d) + length (d_mem_lines d)"
    using fits_sizes [OF assms] by (intro unat_n_of_add) simp
  moreover have "unat (n_of (d_labels d) + n_of (d_files d)) = length (d_labels d) + length (d_files d)"
    using fits_sizes [OF assms] by (intro unat_n_of_add) simp
  ultimately show ?thesis
    by (simp add: str_at_def DBG_STRTAB_OFFSET_def loaded_debug_def debug_body_def)
qed

lemma label_loaded:
  assumes "debug_fits d" "i < length (d_labels d)"
  shows "DBG_LABEL (loaded_debug d) (of_nat i) = str_at (d_string_table d) (unat (d_labels d ! i))"
  using label_offset_loaded [OF assms] strtab_loaded [OF assms(1)] by (simp add: DBG_LABEL_def)

lemma file_loaded:
  assumes "debug_fits d" "i < length (d_files d)"
  shows "DBG_FILE (loaded_debug d) (of_nat i) = str_at (d_string_table d) (unat (d_files d ! i))"
  using file_offset_loaded [OF assms] strtab_loaded [OF assms(1)] by (simp add: DBG_FILE_def)

section \<open>Written and read\<close>

lemma u32_bytes_ne [simp]: "u32_bytes x \<noteq> []"
  by (metis length_u32_bytes list.size(3) zero_neq_numeral)

lemma fwrite_items_ok: "length bs \<le> f_room f \<Longrightarrow>
    fwrite_items bs f = (True, \<lparr>f_written = f_written f @ bs, f_room = f_room f - length bs\<rparr>)"
  by (cases f) (simp add: fwrite_items_def fput_def)

lemma write_debug:
  assumes "mk_debug_data names qsort parse = Some d" "debug_fits d" "20 + length (debug_body d) \<le> f_room f"
  shows "write_bvgz_image_debug names qsort parse f =
    Some (0, \<lparr>f_written = f_written f @ debug_head d @ debug_body d, f_room = f_room f - (20 + length (debug_body d))\<rparr>)"
  using assms
  by (simp add: write_bvgz_image_debug_def or_fail_def fwrite_ok fwrite_items_ok debug_fits_def debug_head_def debug_body_def)

lemma rest_size:
  assumes "debug_fits d"
  shows "unat (dbg_rest_size (n_of (d_code_lines d)) (n_of (d_mem_lines d)) (n_of (d_labels d)) (n_of (d_files d))
      (n_of (d_string_table d))) = length (debug_body d)"
proof -
  have "dbg_rest_size (n_of (d_code_lines d)) (n_of (d_mem_lines d)) (n_of (d_labels d)) (n_of (d_files d))
      (n_of (d_string_table d)) = of_nat (length (debug_body d))"
    by (simp add: dbg_rest_size_def n_of_def length_debug_body algebra_simps)
  then show ?thesis using assms by (simp add: debug_fits_def)
qed

lemma read_debug:
  assumes "debug_fits d"
  shows "read_bvgz_debug_data (debug_head d @ debug_body d @ rest) = Some (loaded_debug d)"
proof -
  have w: "of_nat (le_nat (u32_bytes x)) = x" for x :: u32 by (simp add: u32_bytes_def)
  have "fread 20 (debug_head d @ debug_body d @ rest) = Some (debug_head d, debug_body d @ rest)"
    by (rule fread_append) simp_all
  moreover have "fread (length (debug_body d)) (debug_body d @ rest) = Some (debug_body d, rest)"
    using assms by (intro fread_append) (auto simp: debug_fits_def length_debug_body)
  moreover have "debug_head d = u32_bytes (n_of (d_code_lines d)) @ u32_bytes (n_of (d_mem_lines d)) @
     u32_bytes (n_of (d_labels d)) @ u32_bytes (n_of (d_files d)) @ u32_bytes (n_of (d_string_table d))"
    by (rule debug_head_def)
  then have "of_nat (le_nat (take 4 (debug_head d))) = n_of (d_code_lines d)"
      "of_nat (le_nat (take 4 (drop 4 (debug_head d)))) = n_of (d_mem_lines d)"
      "of_nat (le_nat (take 4 (drop 8 (debug_head d)))) = n_of (d_labels d)"
      "of_nat (le_nat (take 4 (drop 12 (debug_head d)))) = n_of (d_files d)"
      "of_nat (le_nat (take 4 (drop 16 (debug_head d)))) = n_of (d_string_table d)"
    by (simp_all add: w)
  ultimately show ?thesis
    using rest_size [OF assms] by (simp add: read_bvgz_debug_data_def Let_def loaded_debug_def)
qed

text \<open>An image with debug data, as the assembler writes it.\<close>

text \<open>The memory may be allocated beyond its size.\<close>

lemma write_direct_part:
  assumes "take (unat msz) m = mem" "length mem = unat msz"
  shows "write_bvgz_image_direct cd csz m msz entry fl f = write_bvgz_image_direct cd csz mem (of_nat (length mem)) entry fl f"
proof -
  have "of_nat (length mem) = msz" "take_exactly msz mem = take_exactly msz m"
    using assms by (auto simp: take_exactly_def)
  then show ?thesis by (simp only: write_bvgz_image_direct_def)
qed

lemma write_image_debug:
  assumes "mk_debug_data names qsort parse = Some d" "debug_fits d"
    and "cd \<noteq> []" "length cd < 2 ^ 32" "take (unat (pr_memsz parse)) (pr_memory parse) = mem" "length mem = unat (pr_memsz parse)"
    and "36 + length cd + length mem + length (debug_body d) \<le> room"
  shows "\<exists>r. write_bvgz_image names qsort parse cd (of_nat (length cd)) entry True \<lparr>f_written = [], f_room = room\<rparr> =
    Some (0, \<lparr>f_written = image_bytes (BVGZ_IMG_F_EXEC OR BVGZ_IMG_F_DEBUG) entry cd mem @ debug_head d @ debug_body d, f_room = r\<rparr>)"
proof -
  let ?fl = "BVGZ_IMG_F_EXEC OR BVGZ_IMG_F_DEBUG" and ?f = "\<lparr>f_written = [], f_room = room\<rparr>"
  have m: "of_nat (length mem) = pr_memsz parse" "length mem < 2 ^ 32" "unat (pr_memsz parse) \<le> length (pr_memory parse)"
    using assms(5,6) unsigned_less [of "pr_memsz parse"] by auto
  have "write_bvgz_image_direct cd (of_nat (length cd)) (pr_memory parse) (pr_memsz parse) entry ?fl ?f =
      write_bvgz_image_direct cd (of_nat (length cd)) mem (of_nat (length mem)) entry ?fl ?f"
    by (rule write_direct_part [OF assms(5,6)])
  also have "\<dots> = Some (0, \<lparr>f_written = image_bytes ?fl entry cd mem, f_room = room - (16 + length cd + length mem)\<rparr>)"
    using write_image [OF assms(3,4) m(2), of ?fl entry ?f] assms(7) by (simp add: m(1) length_image)
  finally show ?thesis
    using assms(7) write_debug [OF assms(1,2)] by (simp add: write_bvgz_image_def)
qed

end
