(* ===== verification/DebugCorrect.thy ===== *)
theory DebugCorrect
  imports DebugData "HOL-Library.Multiset"
begin

text \<open>
  What the debug data of a parsed file says: its lines are those of the instructions, its labels
  those of the table, and its strings their names. Written and read back, it is the same.
\<close>

section \<open>The string table\<close>

lemma char_of_char_u8 [simp]: "char_of (unat (char_u8 c)) = c"
proof -
  have "(of_char c :: nat) < 256" using of_char_eq_iff by (metis char_of_mod_256 mod_less_divisor of_char_mod_256 zero_less_numeral)
  then show ?thesis by (simp add: char_u8_def)
qed

lemma char_u8_0: "char_u8 c = 0 \<longleftrightarrow> c = NUL"
proof
  assume "char_u8 c = 0"
  then have "c = char_of (0 :: nat)" using char_of_char_u8 [of c] by (metis unsigned_0)
  then show "c = NUL" by (simp add: NUL_def char_of_def)
qed (simp add: char_u8_def NUL_def)

lemma str_at_append: "str_at tab p = Some s \<Longrightarrow> str_at (tab @ zs) p = Some s"
  by (auto simp: str_at_def split: if_splits)

lemma str_at_end:
  assumes "NUL \<notin> set s"
  shows "str_at (tab @ map char_u8 s @ [0]) (length tab) = Some s"
proof -
  have "takeWhile (\<lambda>b. b \<noteq> 0) (map char_u8 s @ [0]) = map char_u8 s"
    using assms by (subst takeWhile_append2) (auto simp: char_u8_0)
  then show ?thesis by (simp add: str_at_def comp_def)
qed

lemma add_string_Some: "add_string s tab = Some tab' \<longleftrightarrow>
    length s + 1 < 2 ^ 31 \<and> length tab + length s + 1 < 2 ^ 32 \<and> tab' = tab @ map char_u8 s @ [0]"
  by (auto simp: add_string_def)

lemma add_string_here:
  assumes "add_string s tab = Some tab'" "NUL \<notin> set s"
  shows "str_at tab' (unat (of_nat (length tab) :: u32)) = Some s"
  using assms str_at_end [OF assms(2), of tab] by (simp add: add_string_Some)

section \<open>The lines and the files\<close>

definition line_of :: "nat list \<Rightarrow> prs_instn_t \<Rightarrow> dbg_line_assoc_t \<Rightarrow> bool" where
  "line_of fns x ln \<longleftrightarrow> ln_address ln = mem_offset x \<and> ln_lineno ln = i_lineno x \<and> ln_label_ref ln = - 1 \<and>
     (\<exists>j < length fns. fns ! j = i_filename x \<and> ln_fileno ln = of_nat j)"

lemma find_filename_Some: "find_filename fn fns f = Some j \<Longrightarrow> f \<le> j \<and> j < f + length fns \<and> fns ! (j - f) = fn"
proof (induction fns arbitrary: f)
  case Nil
  then show ?case by simp
next
  case (Cons x xs)
  show ?case
  proof (cases "fn = x")
    case False
    with Cons.prems have "find_filename fn xs (f + 1) = Some j" by simp
    from Cons.IH [OF this] have "f + 1 \<le> j" "j < f + 1 + length xs" "xs ! (j - (f + 1)) = fn" by simp_all
    moreover then have "j - f = Suc (j - (f + 1))" by simp
    ultimately show ?thesis by simp
  qed (use Cons in auto)
qed

lemma find_filename_None: "find_filename fn fns f = None \<longleftrightarrow> fn \<notin> set fns"
  by (induction fns arbitrary: f) auto

lemma filename_index_cases:
  assumes "filename_index fn fns = (f, fns')"
  obtains zs j where "fns' = fns @ zs" "j < length fns'" "fns' ! j = fn" "f = of_nat j" "length fns' \<le> length fns + 1"
proof (cases "find_filename fn fns 0")
  case None
  show ?thesis
    by (rule that [of "[fn]" "length fns"]) (use None assms in \<open>auto simp: filename_index_def\<close>)
next
  case (Some j)
  show ?thesis
    by (rule that [of "[]" j]) (use Some assms find_filename_Some [OF Some] in \<open>auto simp: filename_index_def\<close>)
qed

lemma line_of_append: "line_of fns x ln \<Longrightarrow> line_of (fns @ zs) x ln"
  unfolding line_of_def by (metis length_append nth_append trans_less_add1)

lemma add_code_lines_correct:
  assumes "add_code_lines xs (d, fns) = (d', fns')"
  shows "\<exists>lns zs. fns' = fns @ zs \<and> length zs \<le> length xs \<and> d' = d\<lparr>d_code_lines := d_code_lines d @ lns\<rparr> \<and>
    list_all2 (line_of fns') xs lns"
  using assms
proof (induction xs arbitrary: d fns)
  case Nil
  then show ?case by auto
next
  case (Cons x xs)
  obtain f fns1 where f: "filename_index (i_filename x) fns = (f, fns1)" by fastforce
  obtain zs1 j where j: "fns1 = fns @ zs1" "j < length fns1" "fns1 ! j = i_filename x" "f = of_nat j"
      "length fns1 \<le> length fns + 1"
    by (rule filename_index_cases [OF f])
  let ?ln = "\<lparr>ln_address = mem_offset x, ln_fileno = f, ln_lineno = i_lineno x, ln_label_ref = - 1\<rparr>"
  from Cons.prems f have "add_code_lines xs (d\<lparr>d_code_lines := d_code_lines d @ [?ln]\<rparr>, fns1) = (d', fns')" by simp
  from Cons.IH [OF this] obtain lns zs where r: "fns' = fns1 @ zs" "length zs \<le> length xs"
      "d' = d\<lparr>d_code_lines := d_code_lines d @ ?ln # lns\<rparr>" "list_all2 (line_of fns') xs lns"
    by auto
  have "line_of fns1 x ?ln" using j unfolding line_of_def by auto
  then have "line_of fns' x ?ln" using r(1) line_of_append by blast
  with r j(1,5) show ?case by (intro exI [of _ "?ln # lns"] exI [of _ "zs1 @ zs"]) simp
qed

lemma add_files_correct:
  assumes "add_files names fns d = Some d'"
  shows "\<exists>offs zs. d' = d\<lparr>d_files := d_files d @ offs, d_string_table := d_string_table d @ zs\<rparr> \<and> length offs = length fns \<and>
    (\<forall>j < length fns. \<exists>s. names (fns ! j) = Some s \<and> (NUL \<notin> set s \<longrightarrow> str_at (d_string_table d') (unat (offs ! j)) = Some s))"
  using assms
proof (induction fns arbitrary: d)
  case Nil
  then show ?case by (intro exI [of _ "[]"]) simp
next
  case (Cons fn fns)
  from Cons.prems obtain s tab where s: "names fn = Some s" "add_string s (d_string_table d) = Some tab"
    and r: "add_files names fns (d\<lparr>d_files := d_files d @ [of_nat (length (d_string_table d))], d_string_table := tab\<rparr>) = Some d'"
    by auto
  from Cons.IH [OF r] obtain offs zs where i:
      "d' = d\<lparr>d_files := (d_files d @ [of_nat (length (d_string_table d))]) @ offs, d_string_table := tab @ zs\<rparr>"
      "length offs = length fns"
      "\<forall>j < length fns. \<exists>s. names (fns ! j) = Some s \<and> (NUL \<notin> set s \<longrightarrow> str_at (d_string_table d') (unat (offs ! j)) = Some s)"
    by auto
  obtain ys where ys: "tab = d_string_table d @ ys" using s(2) by (auto simp: add_string_Some)
  let ?o = "of_nat (length (d_string_table d)) # offs"
  have "\<exists>s. names ((fn # fns) ! j) = Some s \<and> (NUL \<notin> set s \<longrightarrow> str_at (d_string_table d') (unat (?o ! j)) = Some s)"
    if "j < length (fn # fns)" for j
  proof (cases j)
    case 0
    then show ?thesis
      using s(1) add_string_here [OF s(2)] str_at_append [of tab _ s zs] i(1) by (simp del: unat_of_nat_u32)
  next
    case (Suc k)
    then show ?thesis using i(3) that by simp
  qed
  with i(1,2) ys show ?case by (intro exI [of _ ?o] exI [of _ "ys @ zs"]) simp
qed

section \<open>The labels\<close>

text \<open>
  What the entries \<open>es\<close> visited so far have left: the name of each at the end of its offset,
  a line for each in the memory, and at every instruction the last of its labels.
\<close>

text \<open>The last label of instruction \<open>i\<close> among the entries.\<close>

definition last_label :: "(string \<times> label_t option) list \<Rightarrow> nat \<Rightarrow> string option" where
  "last_label es i = fold (\<lambda>(l, x) r. case x of
       Some lbl \<Rightarrow> if \<not> is_mem_ref lbl \<and> unat (l_offset lbl) = i then Some l else r
     | None \<Rightarrow> r) es None"

lemma last_label_Nil [simp]: "last_label [] i = None"
  by (simp add: last_label_def)

lemma last_label_snoc [simp]:
  "last_label (es @ [(l, x)]) i =
    (case x of
       Some lbl \<Rightarrow> if \<not> is_mem_ref lbl \<and> unat (l_offset lbl) = i then Some l else last_label es i
     | None \<Rightarrow> last_label es i)"
  unfolding last_label_def by simp

lemma last_label_None:
  "last_label es i = None \<longleftrightarrow> (\<forall>l lbl. (l, Some lbl) \<in> set es \<longrightarrow> \<not> is_mem_ref lbl \<longrightarrow> unat (l_offset lbl) \<noteq> i)"
proof (induction es rule: rev_induct)
  case (snoc e es)
  obtain l x where "e = (l, x)" by fastforce
  with snoc show ?case by (auto split: option.splits)
qed simp

lemma last_label_Some:
  "last_label es i = Some l \<Longrightarrow> \<exists>lbl. (l, Some lbl) \<in> set es \<and> \<not> is_mem_ref lbl \<and> unat (l_offset lbl) = i"
proof (induction es rule: rev_induct)
  case (snoc e es)
  obtain l x where "e = (l, x)" by fastforce
  with snoc show ?case by (auto split: option.splits if_splits)
qed simp

definition code_ref :: "(string \<times> label_t option) list \<Rightarrow> nat \<Rightarrow> i32 \<Rightarrow> bool" where
  "code_ref es i ref \<longleftrightarrow> (ref = - 1 \<and> last_label es i = None) \<or>
     (\<exists>k < length es. ref = of_nat k \<and> last_label es i = Some (fst (es ! k)))"

definition mem_entry :: "nat list \<Rightarrow> (string \<times> label_t option) list \<Rightarrow> nat \<Rightarrow> dbg_line_assoc_t \<Rightarrow> bool" where
  "mem_entry fns es k ln \<longleftrightarrow> k < length es \<and> ln_label_ref ln = of_nat k \<and>
     (\<exists>l lbl. es ! k = (l, Some lbl) \<and> is_mem_ref lbl \<and> ln_address ln = l_offset lbl \<and> ln_lineno ln = l_lineno lbl \<and>
        (fns \<noteq> [] \<longrightarrow> (\<exists>j < length fns. fns ! j = l_filename lbl \<and> ln_fileno ln = of_nat j)))"

definition visited :: "nat list \<Rightarrow> debug_t \<Rightarrow> (string \<times> label_t option) list \<Rightarrow> debug_t \<Rightarrow> bool" where
  "visited fns d0 es d \<longleftrightarrow>
     d_files d = d_files d0 \<and> (\<exists>zs. d_string_table d = d_string_table d0 @ zs) \<and> length (d_labels d) = length es \<and>
     (\<forall>k < length es. NUL \<notin> set (fst (es ! k)) \<longrightarrow>
        str_at (d_string_table d) (unat (d_labels d ! k)) = Some (fst (es ! k))) \<and>
     length (d_code_lines d) = length (d_code_lines d0) \<and>
     (\<forall>i < length (d_code_lines d0). \<exists>ref. d_code_lines d ! i = (d_code_lines d0 ! i)\<lparr>ln_label_ref := ref\<rparr> \<and> code_ref es i ref) \<and>
     (\<forall>ln \<in> set (d_mem_lines d). \<exists>k. mem_entry fns es k ln) \<and>
     (\<forall>k < length es. (\<exists>lbl. snd (es ! k) = Some lbl \<and>
        (is_mem_ref lbl \<longrightarrow> (\<exists>ln \<in> set (d_mem_lines d). mem_entry fns es k ln)) \<and>
        (\<not> is_mem_ref lbl \<longrightarrow> unat (l_offset lbl) < length (d_code_lines d0))))"

lemma mem_entry_append: "mem_entry fns es k ln \<Longrightarrow> mem_entry fns (es @ zs) k ln"
  by (auto simp: mem_entry_def nth_append)

lemma code_ref_append:
  assumes "code_ref es i ref" "is_mem_ref lbl \<or> unat (l_offset lbl) \<noteq> i"
  shows "code_ref (es @ [(l, Some lbl)]) i ref"
  using assms unfolding code_ref_def by (auto simp: nth_append)

lemma code_ref_last:
  assumes "\<not> is_mem_ref lbl"
  shows "code_ref (es @ [(l, Some lbl)]) (unat (l_offset lbl)) (of_nat (length es))"
  using assms by (auto simp: code_ref_def intro!: exI [of _ "length es"])

lemma mem_entry_last:
  "is_mem_ref lbl \<Longrightarrow> (fns \<noteq> [] \<Longrightarrow> \<exists>j < length fns. fns ! j = l_filename lbl \<and> f = of_nat j) \<Longrightarrow>
     mem_entry fns (es @ [(l, Some lbl)]) (length es)
     \<lparr>ln_address = l_offset lbl, ln_fileno = f, ln_lineno = l_lineno lbl, ln_label_ref = of_nat (length es)\<rparr>"
  by (simp add: mem_entry_def)

text \<open>One label: its line, then its name.\<close>

lemma add_label_line_cases:
  assumes "add_label_line fns lbl d = Some d1"
  obtains f where "is_mem_ref lbl" "fns \<noteq> [] \<Longrightarrow> \<exists>j < length fns. fns ! j = l_filename lbl \<and> f = of_nat j"
    "d1 = d\<lparr>d_mem_lines := d_mem_lines d @ [\<lparr>ln_address = l_offset lbl, ln_fileno = f,
      ln_lineno = l_lineno lbl, ln_label_ref = of_nat (length (d_labels d))\<rparr>]\<rparr>"
  | "\<not> is_mem_ref lbl" "unat (l_offset lbl) < length (d_code_lines d)"
    "d1 = d\<lparr>d_code_lines := (d_code_lines d)[unat (l_offset lbl) :=
       (d_code_lines d ! unat (l_offset lbl))\<lparr>ln_label_ref := of_nat (length (d_labels d))\<rparr>]\<rparr>"
proof (cases "is_mem_ref lbl")
  case True
  obtain f fns' where f: "filename_index (l_filename lbl) fns = (f, fns')" by fastforce
  from filename_index_cases [OF f] obtain j where "j < length fns'" "fns' ! j = l_filename lbl" "f = of_nat j" by metis
  then show ?thesis using True assms f by (intro that(1) [of f]) (auto simp: add_label_line_def split: if_splits)
next
  case False
  then show ?thesis using assms by (intro that(2)) (auto simp: add_label_line_def split: if_splits)
qed

lemma visited_line:
  assumes v: "visited fns d0 es d" and a: "add_label_line fns lbl d = Some d1"
  shows "d_files d1 = d_files d \<and> d_string_table d1 = d_string_table d \<and> d_labels d1 = d_labels d \<and>
    length (d_code_lines d1) = length (d_code_lines d0) \<and>
    (\<forall>i < length (d_code_lines d0). \<exists>ref. d_code_lines d1 ! i = (d_code_lines d0 ! i)\<lparr>ln_label_ref := ref\<rparr> \<and>
       code_ref (es @ [(l, Some lbl)]) i ref) \<and>
    (\<forall>ln \<in> set (d_mem_lines d1). \<exists>k. mem_entry fns (es @ [(l, Some lbl)]) k ln) \<and>
    set (d_mem_lines d) \<subseteq> set (d_mem_lines d1) \<and>
    (is_mem_ref lbl \<longrightarrow> (\<exists>ln \<in> set (d_mem_lines d1). mem_entry fns (es @ [(l, Some lbl)]) (length es) ln)) \<and>
    (\<not> is_mem_ref lbl \<longrightarrow> unat (l_offset lbl) < length (d_code_lines d0))"
proof -
  have n: "length (d_labels d) = length es" "length (d_code_lines d) = length (d_code_lines d0)"
    and c: "\<And>i. i < length (d_code_lines d0) \<Longrightarrow>
      \<exists>ref. d_code_lines d ! i = (d_code_lines d0 ! i)\<lparr>ln_label_ref := ref\<rparr> \<and> code_ref es i ref"
    and m: "\<And>ln. ln \<in> set (d_mem_lines d) \<Longrightarrow> \<exists>k. mem_entry fns es k ln"
    using v by (auto simp: visited_def)
  have m': "\<And>ln. ln \<in> set (d_mem_lines d) \<Longrightarrow> \<exists>k. mem_entry fns (es @ [(l, Some lbl)]) k ln"
    using m mem_entry_append by blast
  from a show ?thesis
  proof (cases rule: add_label_line_cases)
    case (1 f)
    have "\<exists>ref. d_code_lines d1 ! i = (d_code_lines d0 ! i)\<lparr>ln_label_ref := ref\<rparr> \<and> code_ref (es @ [(l, Some lbl)]) i ref"
      if i: "i < length (d_code_lines d0)" for i
    proof -
      obtain ref where r: "d_code_lines d ! i = (d_code_lines d0 ! i)\<lparr>ln_label_ref := ref\<rparr>" "code_ref es i ref"
        using c [OF i] by blast
      have "code_ref (es @ [(l, Some lbl)]) i ref" using r(2) by (rule code_ref_append) (use 1(1) in auto)
      with r(1) 1(3) show ?thesis by auto
    qed
    with 1(1,3) m' n mem_entry_last [OF 1(1,2), of es l] show ?thesis by auto
  next
    case 2
    have "\<exists>ref. d_code_lines d1 ! i = (d_code_lines d0 ! i)\<lparr>ln_label_ref := ref\<rparr> \<and> code_ref (es @ [(l, Some lbl)]) i ref"
      if i: "i < length (d_code_lines d0)" for i
    proof -
      obtain ref where r: "d_code_lines d ! i = (d_code_lines d0 ! i)\<lparr>ln_label_ref := ref\<rparr>" "code_ref es i ref"
        using c [OF i] by blast
      show ?thesis
      proof (cases "unat (l_offset lbl) = i")
        case True
        then have "d_code_lines d1 ! i = (d_code_lines d0 ! i)\<lparr>ln_label_ref := of_nat (length es)\<rparr>"
          using 2 n r(1) by simp
        with code_ref_last [OF 2(1), of es l] True show ?thesis by blast
      next
        case False
        have "code_ref (es @ [(l, Some lbl)]) i ref" using r(2) by (rule code_ref_append) (use False in auto)
        moreover have "d_code_lines d1 ! i = d_code_lines d ! i" using 2(3) False by simp
        ultimately show ?thesis using r(1) by auto
      qed
    qed
    with 2 m' n show ?thesis by auto
  qed
qed

lemma visited_step:
  assumes v: "visited fns d0 es d" and m: "mk_label_debug_data fns (Some d) l x = Some d'"
  shows "visited fns d0 (es @ [(l, x)]) d'"
proof -
  from m obtain lbl d1 tab where x: "x = Some lbl" and a: "add_label_line fns lbl d = Some d1"
    and t: "add_string l (d_string_table d1) = Some tab"
    and d': "d' = d1\<lparr>d_labels := d_labels d1 @ [of_nat (length (d_string_table d1))], d_string_table := tab\<rparr>"
    by (auto simp: mk_label_debug_data_def)
  note ln = visited_line [OF v a, of l]
  obtain zs where zs: "tab = d_string_table d1 @ zs" using t by (auto simp: add_string_Some)
  have n: "length (d_labels d) = length es" using v by (simp add: visited_def)
  have names: "str_at tab (unat (d_labels d' ! k)) = Some (fst ((es @ [(l, x)]) ! k))"
    if k: "k < length (es @ [(l, x)])" "NUL \<notin> set (fst ((es @ [(l, x)]) ! k))" for k
  proof (cases "k = length es")
    case True
    then show ?thesis using k add_string_here [OF t] ln n d' by (simp add: nth_append del: unat_of_nat_u32)
  next
    case False
    then have "str_at (d_string_table d) (unat (d_labels d ! k)) = Some (fst (es ! k))"
      using k v by (simp add: visited_def nth_append)
    then have "str_at tab (unat (d_labels d ! k)) = Some (fst (es ! k))"
      using zs ln str_at_append by simp
    then show ?thesis using False k d' ln n by (simp add: nth_append)
  qed
  have labels: "\<exists>lbl'. snd ((es @ [(l, x)]) ! k) = Some lbl' \<and>
      (is_mem_ref lbl' \<longrightarrow> (\<exists>ln \<in> set (d_mem_lines d1). mem_entry fns (es @ [(l, x)]) k ln)) \<and>
      (\<not> is_mem_ref lbl' \<longrightarrow> unat (l_offset lbl') < length (d_code_lines d0))"
    if k: "k < length (es @ [(l, x)])" for k
  proof (cases "k = length es")
    case True
    then show ?thesis using ln x by auto
  next
    case False
    then have "k < length es" using k by simp
    then obtain lbl' where "snd (es ! k) = Some lbl'"
        "is_mem_ref lbl' \<longrightarrow> (\<exists>ln \<in> set (d_mem_lines d). mem_entry fns es k ln)"
        "\<not> is_mem_ref lbl' \<longrightarrow> unat (l_offset lbl') < length (d_code_lines d0)"
      using v unfolding visited_def by blast
    moreover then have "is_mem_ref lbl' \<longrightarrow> (\<exists>ln \<in> set (d_mem_lines d1). mem_entry fns (es @ [(l, x)]) k ln)"
      using mem_entry_append ln by blast
    ultimately show ?thesis using False k by (auto simp: nth_append)
  qed
  from v obtain ys where "d_files d = d_files d0" "d_string_table d = d_string_table d0 @ ys"
    by (auto simp: visited_def)
  with ln names labels zs n x show ?thesis
    unfolding visited_def d' by simp
qed

lemma visited_fold:
  assumes "fold (\<lambda>(k, x) s. mk_label_debug_data fns s k x) es (Some d0) = Some d"
    and "d_labels d0 = []" "d_mem_lines d0 = []" "\<forall>ln \<in> set (d_code_lines d0). ln_label_ref ln = - 1"
  shows "visited fns d0 es d"
  using assms(1)
proof (induction es arbitrary: d rule: rev_induct)
  case Nil
  have "d_code_lines d0 ! i = (d_code_lines d0 ! i)\<lparr>ln_label_ref := - 1\<rparr>" if "i < length (d_code_lines d0)" for i
    using that assms(4) by (cases "d_code_lines d0 ! i") (use nth_mem in force)
  with Nil assms(2,3) show ?case by (auto simp: visited_def code_ref_def)
next
  case (snoc e es)
  obtain l x where e: "e = (l, x)" by fastforce
  obtain d1 where d1: "fold (\<lambda>(k, x) s. mk_label_debug_data fns s k x) es (Some d0) = Some d1"
      "mk_label_debug_data fns (Some d1) l x = Some d"
    using snoc.prems e by (auto simp: mk_label_debug_data_def)
  from visited_step [OF snoc.IH [OF d1(1)] d1(2)] show ?case by (simp add: e)
qed

lemma find_label_entries:
  assumes "hm_inv (labels r)"
  shows "find_label r l = Some lbl \<longleftrightarrow> (l, Some lbl) \<in> set (hm_entries (labels r))"
  by (auto simp: hm_entries_abs [OF assms] find_label_def hmap_get_abs split: option.splits)

section \<open>What the debug data says\<close>

definition line_label :: "debug_t \<Rightarrow> dbg_line_assoc_t \<Rightarrow> string option" where
  "line_label d ln =
     (if sint (ln_label_ref ln) < 0 \<or> length (d_labels d) \<le> unat (ln_label_ref ln) then None
      else str_at (d_string_table d) (unat (d_labels d ! unat (ln_label_ref ln))))"

definition line_file :: "debug_t \<Rightarrow> dbg_line_assoc_t \<Rightarrow> string option" where
  "line_file d ln = str_at (d_string_table d) (unat (d_files d ! unat (ln_fileno ln)))"

text \<open>The line of an instruction, and the line of a label in the memory.\<close>

definition code_line_ok :: "(nat \<Rightarrow> string option) \<Rightarrow> prs_result_t \<Rightarrow> debug_t \<Rightarrow> nat \<Rightarrow> dbg_line_assoc_t \<Rightarrow> bool" where
  "code_line_ok names parse d i ln \<longleftrightarrow>
     ln_address ln = mem_offset (pr_instns parse ! i) \<and> ln_lineno ln = i_lineno (pr_instns parse ! i) \<and>
     line_file d ln = names (i_filename (pr_instns parse ! i)) \<and>
     line_label d ln = last_label (hm_entries (labels parse)) i \<and> (line_label d ln = None \<longrightarrow> ln_label_ref ln = - 1)"

definition mem_line_ok :: "(nat \<Rightarrow> string option) \<Rightarrow> prs_result_t \<Rightarrow> debug_t \<Rightarrow> string \<Rightarrow> label_t \<Rightarrow> dbg_line_assoc_t \<Rightarrow> bool" where
  "mem_line_ok names parse d l lbl ln \<longleftrightarrow> is_mem_ref lbl \<and> ln_address ln = l_offset lbl \<and> ln_lineno ln = l_lineno lbl \<and>
     line_label d ln = Some l \<and> (pr_instns parse \<noteq> [] \<longrightarrow> line_file d ln = names (l_filename lbl))"

text \<open>All that is known of \<open>qsort\<close>, and what the parser guarantees of its table: keys are C strings.\<close>

definition permutes :: "line_sort \<Rightarrow> bool" where
  "permutes qsort \<longleftrightarrow> (\<forall>c xs. mset (qsort c xs) = mset xs)"

definition debug_input :: "(nat \<Rightarrow> string option) \<Rightarrow> prs_result_t \<Rightarrow> bool" where
  "debug_input names parse \<longleftrightarrow> hm_inv (labels parse) \<and> table_size (labels parse) < 2 ^ 31 \<and>
     length (pr_instns parse) < 2 ^ 32 \<and> (\<forall>fn s. names fn = Some s \<longrightarrow> NUL \<notin> set s) \<and>
     (\<forall>l v. hm_abs (labels parse) l = Some v \<longrightarrow> NUL \<notin> set l)"

lemma sint_label: "k < 2 ^ 31 \<Longrightarrow> \<not> sint (of_nat k :: u32) < 0 \<and> unat (of_nat k :: u32) = k"
  by (simp add: sint_small)

lemma mk_debug_data_steps:
  assumes "mk_debug_data names qsort parse = Some d" "permutes qsort" "debug_input names parse"
  obtains lns fns offs d0 d2 where
    "list_all2 (line_of fns) (pr_instns parse) lns" "length fns < 2 ^ 32" "length offs = length fns"
    "d_code_lines d0 = lns" "d_files d0 = offs"
    "\<And>j. j < length fns \<Longrightarrow> \<exists>s. names (fns ! j) = Some s \<and> str_at (d_string_table d0) (unat (offs ! j)) = Some s"
    "visited fns d0 (hm_entries (labels parse)) d2"
    "d = d2\<lparr>d_code_lines := qsort compare_dbg_lines (d_code_lines d2), d_mem_lines := qsort compare_dbg_lines (d_mem_lines d2)\<rparr>"
proof -
  let ?d = "\<lparr>d_files = [], d_labels = [], d_code_lines = [], d_mem_lines = [], d_string_table = []\<rparr>"
  obtain d1 fns where 1: "add_code_lines (pr_instns parse) (?d, []) = (d1, fns)" by fastforce
  from add_code_lines_correct [OF this] obtain lns where lns: "length fns \<le> length (pr_instns parse)"
      "d1 = ?d\<lparr>d_code_lines := lns\<rparr>" "list_all2 (line_of fns) (pr_instns parse) lns"
    by auto
  obtain d0 d2 where 2: "add_files names fns d1 = Some d0"
      "snd (hmap_iterate (labels parse) (Some d0) (mk_label_debug_data fns)) = Some d2"
      "d = d2\<lparr>d_code_lines := qsort compare_dbg_lines (d_code_lines d2), d_mem_lines := qsort compare_dbg_lines (d_mem_lines d2)\<rparr>"
    using assms(1) 1 by (auto simp: mk_debug_data_def)
  from add_files_correct [OF 2(1)] obtain offs zs where 3:
      "d0 = d1\<lparr>d_files := offs, d_string_table := d_string_table d1 @ zs\<rparr>" "length offs = length fns"
      "\<forall>j < length fns. \<exists>s. names (fns ! j) = Some s \<and> (NUL \<notin> set s \<longrightarrow> str_at (d_string_table d0) (unat (offs ! j)) = Some s)"
    using lns(2) by auto
  have "\<forall>ln \<in> set (d_code_lines d0). ln_label_ref ln = - 1"
    using lns(3) 3(1) lns(2) by (auto simp: list_all2_conv_all_nth in_set_conv_nth line_of_def)
  then have "visited fns d0 (hm_entries (labels parse)) d2"
    using 2(2) assms(3) 3(1) lns(2) by (intro visited_fold) (simp_all add: hmap_iterate_fold debug_input_def)
  with lns 2(3) 3 assms(3) show ?thesis
    by (intro that [of fns lns offs d0 d2]) (auto simp: debug_input_def)
qed

lemma length_hm_entries: "hm_inv m \<Longrightarrow> length (hm_entries m) \<le> table_size m"
  by (simp add: hm_entries_def hm_inv_def) (metis length_filter_le)

lemma visited_label:
  assumes "visited fns d0 es d" "length es < 2 ^ 31" "es ! k = (l, Some lbl)" "k < length es" "NUL \<notin> set l"
    and "ln_label_ref ln = of_nat k" "d_string_table d' = d_string_table d" "d_labels d' = d_labels d"
  shows "line_label d' ln = Some l"
  using assms sint_label [of k] by (simp add: visited_def line_label_def)

lemma last_label_find:
  assumes "hm_inv (labels parse)" "last_label (hm_entries (labels parse)) i = Some l"
  shows "\<exists>lbl. find_label parse l = Some lbl \<and> \<not> is_mem_ref lbl \<and> unat (l_offset lbl) = i"
  using last_label_Some [OF assms(2)] by (simp add: find_label_entries [OF assms(1)])

lemma code_ref_label:
  assumes "visited fns d0 (hm_entries (labels parse)) d" "debug_input names parse"
    and "code_ref (hm_entries (labels parse)) i (ln_label_ref ln)"
    and "d_string_table d' = d_string_table d" "d_labels d' = d_labels d"
  shows "line_label d' ln = last_label (hm_entries (labels parse)) i \<and> (line_label d' ln = None \<longrightarrow> ln_label_ref ln = - 1)"
proof -
  let ?es = "hm_entries (labels parse)"
  have inv: "hm_inv (labels parse)" and n: "length ?es < 2 ^ 31"
    using assms(2) length_hm_entries [of "labels parse"] by (auto simp: debug_input_def)
  from assms(3) show ?thesis
    unfolding code_ref_def
  proof (elim disjE conjE exE)
    fix k
    assume k: "k < length ?es" "ln_label_ref ln = of_nat k" "last_label ?es i = Some (fst (?es ! k))"
    then obtain x where e: "?es ! k = (fst (?es ! k), x)" by (metis prod.collapse)
    from assms(1) k(1) obtain lbl where "x = Some lbl" unfolding visited_def by (metis e snd_conv)
    moreover have "(fst (?es ! k), x) \<in> set ?es" using nth_mem [OF k(1)] e by metis
    then have "NUL \<notin> set (fst (?es ! k))" using assms(2) hm_entries_abs [OF inv] by (auto simp: debug_input_def)
    ultimately show ?thesis using visited_label [OF assms(1) n _ k(1) _ k(2) assms(4,5)] e k(3) by fastforce
  qed (simp add: line_label_def)
qed

text \<open>What a visit of all the labels makes of one line of the code and of one of the memory.\<close>

lemma visited_file:
  assumes v: "visited fns d0 es d2" and l: "length fns < 2 ^ 32" "d_files d = offs"
    and names: "\<And>j. j < length fns \<Longrightarrow>
      \<exists>s. names (fns ! j) = Some s \<and> str_at (d_string_table d0) (unat (offs ! j)) = Some s"
    and d: "d_string_table d = d_string_table d2" and j: "j < length fns" "ln_fileno ln = of_nat j"
  shows "line_file d ln = names (fns ! j)"
proof -
  have "unat (of_nat j :: u32) = j" using j(1) l(1) by simp
  moreover obtain x where x: "names (fns ! j) = Some x" "str_at (d_string_table d0) (unat (offs ! j)) = Some x"
    using names [OF j(1)] by blast
  moreover have "str_at (d_string_table d2) (unat (offs ! j)) = Some x"
    using x(2) v str_at_append by (auto simp: visited_def)
  ultimately show ?thesis using j l(2) d by (simp add: line_file_def del: unat_of_nat_u32)
qed

lemma visited_code_line:
  assumes v: "visited fns d0 (hm_entries (labels parse)) d2" and inp: "debug_input names parse"
    and l: "list_all2 (line_of fns) (pr_instns parse) (d_code_lines d0)" "length fns < 2 ^ 32" "d_files d = offs"
    and names: "\<And>j. j < length fns \<Longrightarrow>
      \<exists>s. names (fns ! j) = Some s \<and> str_at (d_string_table d0) (unat (offs ! j)) = Some s"
    and d: "d_string_table d = d_string_table d2" "d_labels d = d_labels d2"
    and i: "i < length (pr_instns parse)"
  shows "code_line_ok names parse d i (d_code_lines d2 ! i)"
proof -
  let ?es = "hm_entries (labels parse)" and ?x = "pr_instns parse ! i" and ?ln = "d_code_lines d2 ! i"
  obtain ref where r: "?ln = (d_code_lines d0 ! i)\<lparr>ln_label_ref := ref\<rparr>" "code_ref ?es i ref"
    using l(1) v i by (auto simp: visited_def list_all2_lengthD)
  have lo: "line_of fns ?x (d_code_lines d0 ! i)" using l(1) i by (simp add: list_all2_conv_all_nth)
  then obtain j where j: "j < length fns" "fns ! j = i_filename ?x" "ln_fileno (d_code_lines d0 ! i) = of_nat j"
    by (auto simp: line_of_def)
  have "line_file d ?ln = names (i_filename ?x)"
    using visited_file [OF v l(2,3) names d(1) j(1), of ?ln] r(1) j by simp
  moreover have "ln_address ?ln = mem_offset ?x" "ln_lineno ?ln = i_lineno ?x"
    using r(1) lo by (simp_all add: line_of_def)
  moreover have "code_ref ?es i (ln_label_ref ?ln)" using r by simp
  note code_ref_label [OF v inp this d]
  ultimately show ?thesis unfolding code_line_ok_def by blast
qed

lemma visited_mem_line:
  assumes v: "visited fns d0 (hm_entries (labels parse)) d2" and inp: "debug_input names parse"
    and l: "pr_instns parse \<noteq> [] \<Longrightarrow> fns \<noteq> []" "length fns < 2 ^ 32" "d_files d = offs"
    and names: "\<And>j. j < length fns \<Longrightarrow>
      \<exists>s. names (fns ! j) = Some s \<and> str_at (d_string_table d0) (unat (offs ! j)) = Some s"
    and d: "d_string_table d = d_string_table d2" "d_labels d = d_labels d2"
    and k: "mem_entry fns (hm_entries (labels parse)) k ln"
  shows "\<exists>l lbl. find_label parse l = Some lbl \<and> hm_entries (labels parse) ! k = (l, Some lbl) \<and> mem_line_ok names parse d l lbl ln"
proof -
  let ?es = "hm_entries (labels parse)"
  have inv: "hm_inv (labels parse)" and n: "length ?es < 2 ^ 31"
    using inp length_hm_entries [of "labels parse"] by (auto simp: debug_input_def)
  obtain l lbl where e: "k < length ?es" "ln_label_ref ln = of_nat k" "?es ! k = (l, Some lbl)" "is_mem_ref lbl"
      "ln_address ln = l_offset lbl" "ln_lineno ln = l_lineno lbl"
      "fns \<noteq> [] \<longrightarrow> (\<exists>j < length fns. fns ! j = l_filename lbl \<and> ln_fileno ln = of_nat j)"
    using k by (auto simp: mem_entry_def)
  then have m: "(l, Some lbl) \<in> set ?es" by (metis nth_mem)
  then have "NUL \<notin> set l" using inp hm_entries_abs [OF inv] by (auto simp: debug_input_def)
  note lab = visited_label [OF v n e(3,1) this e(2) d]
  have "line_file d ln = names (l_filename lbl)" if "pr_instns parse \<noteq> []"
    using e(7) l(1) [OF that] visited_file [OF v l(2,3) names d(1), of _ ln] by auto
  with lab e m show ?thesis
    by (auto simp: find_label_entries [OF inv] mem_line_ok_def)
qed

lemma mk_debug_data_ok:
  assumes "mk_debug_data names qsort parse = Some d" "permutes qsort" "debug_input names parse"
  shows "\<exists>lns. mset lns = mset (d_code_lines d) \<and> length lns = length (pr_instns parse) \<and>
      (\<forall>i < length lns. code_line_ok names parse d i (lns ! i))"
    and "\<forall>ln \<in> set (d_mem_lines d). \<exists>l lbl. find_label parse l = Some lbl \<and> mem_line_ok names parse d l lbl ln"
    and "\<forall>l lbl. find_label parse l = Some lbl \<longrightarrow> is_mem_ref lbl \<longrightarrow> (\<exists>ln \<in> set (d_mem_lines d). mem_line_ok names parse d l lbl ln)"
    and "\<forall>l lbl. find_label parse l = Some lbl \<longrightarrow> \<not> is_mem_ref lbl \<longrightarrow> unat (l_offset lbl) < length (pr_instns parse)"
proof -
  let ?es = "hm_entries (labels parse)"
  obtain lns fns offs d0 d2 where s: "list_all2 (line_of fns) (pr_instns parse) lns" "length fns < 2 ^ 32" "length offs = length fns"
      "d_code_lines d0 = lns" "d_files d0 = offs"
      "\<And>j. j < length fns \<Longrightarrow> \<exists>s. names (fns ! j) = Some s \<and> str_at (d_string_table d0) (unat (offs ! j)) = Some s"
      "visited fns d0 ?es d2"
      "d = d2\<lparr>d_code_lines := qsort compare_dbg_lines (d_code_lines d2), d_mem_lines := qsort compare_dbg_lines (d_mem_lines d2)\<rparr>"
    by (rule mk_debug_data_steps [OF assms]) blast
  have inv: "hm_inv (labels parse)" using assms(3) by (auto simp: debug_input_def)
  note f = find_label_entries [OF inv]
  have p0: "mset (qsort c xs) = mset xs" for c xs using assms(2) by (simp add: permutes_def)
  have p: "mset (d_code_lines d) = mset (d_code_lines d2)" "set (d_mem_lines d) = set (d_mem_lines d2)"
    using mset_eq_setD [OF p0] by (simp_all add: s(8) p0)
  have d: "d_string_table d = d_string_table d2" "d_labels d = d_labels d2" "d_files d = offs"
    using s(5,7,8) by (simp_all add: visited_def)
  have len: "length (d_code_lines d2) = length (pr_instns parse)"
    using s(1,4,7) by (simp add: visited_def list_all2_lengthD)
  have "code_line_ok names parse d i (d_code_lines d2 ! i)" if "i < length (pr_instns parse)" for i
    by (rule visited_code_line [OF s(7) assms(3) s(1) [folded s(4)] s(2) d(3) s(6) d(1,2) that])
  with p(1) len show "\<exists>lns. mset lns = mset (d_code_lines d) \<and> length lns = length (pr_instns parse) \<and>
      (\<forall>i < length lns. code_line_ok names parse d i (lns ! i))"
    by (intro exI [of _ "d_code_lines d2"]) simp
  have ne: "fns \<noteq> []" if "pr_instns parse \<noteq> []"
    using that s(1) by (cases "pr_instns parse") (auto simp: list_all2_Cons1 line_of_def)
  have mem: "\<exists>l lbl. find_label parse l = Some lbl \<and> ?es ! k = (l, Some lbl) \<and> mem_line_ok names parse d l lbl ln"
    if "mem_entry fns ?es k ln" for k ln
    by (rule visited_mem_line [OF s(7) assms(3) _ s(2) d(3) _ d(1,2) that]) (use ne s(6) in blast)+
  show "\<forall>ln \<in> set (d_mem_lines d). \<exists>l lbl. find_label parse l = Some lbl \<and> mem_line_ok names parse d l lbl ln"
  proof
    fix ln assume "ln \<in> set (d_mem_lines d)"
    then obtain k where "mem_entry fns ?es k ln" using s(7) p(2) unfolding visited_def by blast
    from mem [OF this] show "\<exists>l lbl. find_label parse l = Some lbl \<and> mem_line_ok names parse d l lbl ln" by blast
  qed
  show "\<forall>l lbl. find_label parse l = Some lbl \<longrightarrow> is_mem_ref lbl \<longrightarrow> (\<exists>ln \<in> set (d_mem_lines d). mem_line_ok names parse d l lbl ln)"
  proof (intro allI impI)
    fix l lbl assume "find_label parse l = Some lbl" and m: "is_mem_ref lbl"
    then obtain k where k: "k < length ?es" "?es ! k = (l, Some lbl)" by (auto simp: f in_set_conv_nth)
    from s(7) k(1) obtain lbl' where "snd (?es ! k) = Some lbl'"
        "is_mem_ref lbl' \<longrightarrow> (\<exists>ln \<in> set (d_mem_lines d2). mem_entry fns ?es k ln)"
      unfolding visited_def by blast
    with m k(2) obtain ln where ln: "ln \<in> set (d_mem_lines d2)" "mem_entry fns ?es k ln" by auto
    from mem [OF this(2)] k(2) have "mem_line_ok names parse d l lbl ln" by auto
    with ln(1) p(2) show "\<exists>ln \<in> set (d_mem_lines d). mem_line_ok names parse d l lbl ln" by auto
  qed
  show "\<forall>l lbl. find_label parse l = Some lbl \<longrightarrow> \<not> is_mem_ref lbl \<longrightarrow> unat (l_offset lbl) < length (pr_instns parse)"
  proof (intro allI impI)
    fix l lbl assume "find_label parse l = Some lbl" and m: "\<not> is_mem_ref lbl"
    then obtain k where k: "k < length ?es" "?es ! k = (l, Some lbl)" by (auto simp: f in_set_conv_nth)
    from s(7) k(1) obtain lbl' where "snd (?es ! k) = Some lbl'"
        "\<not> is_mem_ref lbl' \<longrightarrow> unat (l_offset lbl') < length (d_code_lines d0)"
      unfolding visited_def by blast
    with m k(2) s(1,4) show "unat (l_offset lbl) < length (pr_instns parse)" by (simp add: list_all2_lengthD)
  qed
qed

section \<open>Properties\<close>

text \<open>
  C14. The debug data says the truth. Up to their order there is one line for every instruction,
  with its offset, its line and its file. Of the labels that name the instruction it has the last
  one in the order of the table, the others being lost, and none if there are none. There is a
  line for every label of the memory and no other, with its name, its offset, its line and, when
  the program has instructions, its file.
\<close>

lemma debug_data_correct:
  assumes "mk_debug_data names qsort parse = Some d" "permutes qsort" "debug_input names parse"
  shows "(\<exists>lns. mset lns = mset (d_code_lines d) \<and> length lns = length (pr_instns parse) \<and>
      (\<forall>i < length lns. code_line_ok names parse d i (lns ! i))) \<and>
    (\<forall>ln \<in> set (d_mem_lines d). \<exists>l lbl. find_label parse l = Some lbl \<and> mem_line_ok names parse d l lbl ln) \<and>
    (\<forall>l lbl. find_label parse l = Some lbl \<longrightarrow>
       (if is_mem_ref lbl then \<exists>ln \<in> set (d_mem_lines d). mem_line_ok names parse d l lbl ln
        else unat (l_offset lbl) < length (pr_instns parse)))"
  using mk_debug_data_ok [OF assms] by simp

text \<open>
  C15. An image written with debug data is read back: the machine first, then the data, in which
  the macros find every line, every offset of a name, and the names themselves.
\<close>

lemma debug_image_roundtrip:
  assumes "mk_debug_data names qsort parse = Some d" "debug_fits d"
    and "cd \<noteq> []" "length cd < 2 ^ 32" "take (unat (pr_memsz parse)) (pr_memory parse) = mem" "length mem = unat (pr_memsz parse)"
    and "36 + length cd + length mem + length (debug_body d) \<le> room"
  shows "\<exists>f fp v.
    write_bvgz_image names qsort parse cd (of_nat (length cd)) entry True \<lparr>f_written = [], f_room = room\<rparr> = Some (0, f) \<and>
    read_bvgz_image junk w (f_written f) = Some (loaded_vm junk w entry cd mem, fp) \<and>
    read_bvgz_debug_data fp = Some v \<and>
    unat (n_code_lines v) = length (d_code_lines d) \<and> unat (n_mem_lines v) = length (d_mem_lines d) \<and>
    (\<forall>i < length (d_code_lines d). DBG_CODE_LINE v (of_nat i) = Some (d_code_lines d ! i)) \<and>
    (\<forall>i < length (d_mem_lines d). DBG_MEM_LINE v (of_nat i) = Some (d_mem_lines d ! i)) \<and>
    (\<forall>i < length (d_labels d). DBG_LABEL v (of_nat i) = str_at (d_string_table d) (unat (d_labels d ! i))) \<and>
    (\<forall>i < length (d_files d). DBG_FILE v (of_nat i) = str_at (d_string_table d) (unat (d_files d ! i)))"
proof -
  have "length mem < 2 ^ 32" using assms(6) unsigned_less [of "pr_memsz parse"] by simp
  moreover have "(BVGZ_IMG_F_EXEC OR BVGZ_IMG_F_DEBUG) AND BVGZ_IMG_F_EXEC \<noteq> 0"
    by (simp add: BVGZ_IMG_F_EXEC_def BVGZ_IMG_F_DEBUG_def)
  ultimately have m: "read_bvgz_image junk w
      (image_bytes (BVGZ_IMG_F_EXEC OR BVGZ_IMG_F_DEBUG) entry cd mem @ debug_head d @ debug_body d) =
      Some (loaded_vm junk w entry cd mem, debug_head d @ debug_body d)"
    by (rule read_image [OF assms(3,4)])
  have v: "read_bvgz_debug_data (debug_head d @ debug_body d) = Some (loaded_debug d)"
    using read_debug [OF assms(2), of "[]"] by simp
  have c: "unat (n_code_lines (loaded_debug d)) = length (d_code_lines d)"
      "unat (n_mem_lines (loaded_debug d)) = length (d_mem_lines d)"
    using fits_counts [OF assms(2)] by (simp_all add: loaded_debug_def)
  obtain f where f: "write_bvgz_image names qsort parse cd (of_nat (length cd)) entry True \<lparr>f_written = [], f_room = room\<rparr> = Some (0, f)"
      "f_written f = image_bytes (BVGZ_IMG_F_EXEC OR BVGZ_IMG_F_DEBUG) entry cd mem @ debug_head d @ debug_body d"
    using write_image_debug [OF assms, of entry] by force
  show ?thesis
    using f(1) m [folded f(2)] v c code_line_loaded [OF assms(2)] mem_line_loaded [OF assms(2)]
      label_loaded [OF assms(2)] file_loaded [OF assms(2)]
    by (intro exI [of _ f] exI [of _ "debug_head d @ debug_body d"] exI [of _ "loaded_debug d"] conjI allI impI)
qed

section \<open>A small program\<close>

definition demo_names :: "nat \<Rightarrow> string option" where
  "demo_names fn = (if fn = 1 then Some ''a'' else None)"

definition demo_sort :: line_sort where "demo_sort c xs = xs"

definition demo_debug :: debug_t where
  "demo_debug = \<lparr>d_files = [0], d_labels = [2],
     d_code_lines = [\<lparr>ln_address = - 1, ln_fileno = 0, ln_lineno = 1, ln_label_ref = - 1\<rparr>,
       \<lparr>ln_address = - 1, ln_fileno = 0, ln_lineno = 2, ln_label_ref = 0\<rparr>,
       \<lparr>ln_address = - 1, ln_fileno = 0, ln_lineno = 3, ln_label_ref = - 1\<rparr>],
     d_mem_lines = [], d_string_table = [97, 0, 101, 110, 100, 0]\<rparr>"

lemma demo_table: "hm_inv (labels demo_parse)" "hm_abs (labels demo_parse) = [''end'' \<mapsto> Some demo_label]"
  using hmap_put_correct [OF hm.inv_new hmap_put_blank [of "\<lambda>_. True" "''end''" "Some demo_label"]]
  by (simp_all add: demo_parse_def hm_new_def INITIAL_SIZE_def hm_abs_blank)

lemma demo_entries: "hm_entries (labels demo_parse) = [(''end'', Some demo_label)]"
proof -
  let ?es = "hm_entries (labels demo_parse)"
  have "set ?es = {(''end'', Some demo_label)}"
    using hm_entries_abs [OF demo_table(1)] demo_table(2) by (auto split: if_splits)
  moreover have d: "distinct ?es" using hm_entries_distinct [OF demo_table(1)] by (simp add: distinct_map)
  ultimately have "length ?es = 1" using distinct_card [OF d] by simp
  then obtain x where "?es = [x]" by (auto simp: length_Suc_conv)
  with \<open>set ?es = _\<close> show ?thesis by simp
qed

lemma demo_mk: "mk_debug_data demo_names demo_sort demo_parse = Some demo_debug"
proof -
  have "char_u8 CHR ''a'' = 97" "char_u8 CHR ''e'' = 101" "char_u8 CHR ''n'' = 110" "char_u8 CHR ''d'' = 100"
    by code_simp+
  then show ?thesis
    by (simp add: mk_debug_data_def hmap_iterate_fold demo_table demo_entries demo_parse_simps demo_jmp_def demo_assert_def
        demo_ret_def demo_names_def demo_sort_def filename_index_def add_string_def mk_label_debug_data_def add_label_line_def
        demo_label_def demo_debug_def)
qed

lemma demo_debug_input: "debug_input demo_names demo_parse" "permutes demo_sort" "debug_fits demo_debug"
proof -
  have "NUL \<notin> set ''end''" "NUL \<notin> set ''a''" by code_simp+
  then show "debug_input demo_names demo_parse"
    using demo_table by (simp add: debug_input_def demo_names_def demo_parse_simps demo_parse_def put_at_def hm_new_def INITIAL_SIZE_def)
  show "permutes demo_sort" by (simp add: permutes_def demo_sort_def)
  show "debug_fits demo_debug" by (simp add: debug_fits_def length_debug_body demo_debug_def)
qed

lemma debug_data_correct_witness:
  "mk_debug_data demo_names demo_sort demo_parse = Some demo_debug \<and>
   (\<exists>lns. mset lns = mset (d_code_lines demo_debug) \<and> length lns = 3 \<and> ln_lineno (lns ! 2) = 3 \<and>
      line_file demo_debug (lns ! 2) = Some ''a'' \<and> line_label demo_debug (lns ! 1) = Some ''end'')"
proof -
  have l: "last_label [(''end'', Some demo_label)] 1 = Some ''end''"
    by (simp add: last_label_def demo_label_def)
  have n: "length (pr_instns demo_parse) = 3" "i_lineno (pr_instns demo_parse ! 2) = 3" "i_filename (pr_instns demo_parse ! 2) = 1"
    by (simp_all add: demo_parse_simps demo_ret_def)
  obtain lns where lns: "mset lns = mset (d_code_lines demo_debug)" "length lns = 3"
      "\<forall>i < length lns. code_line_ok demo_names demo_parse demo_debug i (lns ! i)"
    using debug_data_correct [OF demo_mk demo_debug_input(2,1)] n(1) by auto
  from lns(3) lns(2) have "ln_lineno (lns ! 2) = 3" "line_file demo_debug (lns ! 2) = Some ''a''"
      "line_label demo_debug (lns ! 1) = Some ''end''"
    using n l by (simp_all add: code_line_ok_def demo_entries demo_names_def)
  with lns(1,2) show ?thesis using demo_mk by blast
qed

lemma debug_image_roundtrip_witness:
  "\<exists>f fp v.
    write_bvgz_image demo_names demo_sort demo_parse [72, 1] 2 0 True \<lparr>f_written = [], f_room = 200\<rparr> = Some (0, f) \<and>
    read_bvgz_image [] () (f_written f) = Some (loaded_vm [] () 0 [72, 1] [], fp) \<and>
    read_bvgz_debug_data fp = Some v \<and> DBG_CODE_LINE v 1 = Some (d_code_lines demo_debug ! 1)"
proof -
  have n: "length (d_code_lines demo_debug) = 3" by (simp add: demo_debug_def)
  have "\<exists>f fp v.
    write_bvgz_image demo_names demo_sort demo_parse [72, 1] (of_nat (length ([72, 1] :: u8 list))) 0 True
      \<lparr>f_written = [], f_room = 200\<rparr> = Some (0, f) \<and>
    read_bvgz_image [] () (f_written f) = Some (loaded_vm [] () 0 [72, 1] [], fp) \<and>
    read_bvgz_debug_data fp = Some v \<and>
    unat (n_code_lines v) = length (d_code_lines demo_debug) \<and> unat (n_mem_lines v) = length (d_mem_lines demo_debug) \<and>
    (\<forall>i < length (d_code_lines demo_debug). DBG_CODE_LINE v (of_nat i) = Some (d_code_lines demo_debug ! i)) \<and>
    (\<forall>i < length (d_mem_lines demo_debug). DBG_MEM_LINE v (of_nat i) = Some (d_mem_lines demo_debug ! i)) \<and>
    (\<forall>i < length (d_labels demo_debug). DBG_LABEL v (of_nat i) = str_at (d_string_table demo_debug) (unat (d_labels demo_debug ! i))) \<and>
    (\<forall>i < length (d_files demo_debug). DBG_FILE v (of_nat i) = str_at (d_string_table demo_debug) (unat (d_files demo_debug ! i)))"
    by (rule debug_image_roundtrip [OF demo_mk demo_debug_input(3)])
      (simp_all add: demo_parse_def length_debug_body demo_debug_def)
  then obtain f fp v where
    w: "write_bvgz_image demo_names demo_sort demo_parse [72, 1] 2 0 True \<lparr>f_written = [], f_room = 200\<rparr> = Some (0, f)"
      "read_bvgz_image [] () (f_written f) = Some (loaded_vm [] () 0 [72, 1] [], fp)" "read_bvgz_debug_data fp = Some v"
    and l: "\<forall>i < length (d_code_lines demo_debug). DBG_CODE_LINE v (of_nat i) = Some (d_code_lines demo_debug ! i)"
    by auto
  from l have "1 < length (d_code_lines demo_debug) \<longrightarrow> DBG_CODE_LINE v (of_nat 1) = Some (d_code_lines demo_debug ! 1)"
    by (rule spec)
  moreover have "1 < length (d_code_lines demo_debug)" unfolding n by simp
  ultimately have "DBG_CODE_LINE v 1 = Some (d_code_lines demo_debug ! 1)" unfolding of_nat_1 by blast
  with w show ?thesis by blast
qed

end
