(* ===== verification/Printing.thy ===== *)
theory Printing
  imports VmExec CText
begin

text \<open>
  Printed text: the conversions of \<open>printf\<close> the code uses, and what \<open>vm.c\<close> prints of a
  machine. Text for the standard output is a string.
\<close>

section \<open>Conversions\<close>

definition digit_char :: "bool \<Rightarrow> nat \<Rightarrow> char" where
  "digit_char up d = char_of (if d < 10 then 48 + d else if up then 55 + d else 87 + d)"

function number_text :: "nat \<Rightarrow> bool \<Rightarrow> nat \<Rightarrow> string" where
  "number_text base up n =
     (if base < 2 \<or> n < base then [digit_char up n]
      else number_text base up (n div base) @ [digit_char up (n mod base)])"
  by pat_completeness auto
termination
  by (relation "measure (\<lambda>(base, up, n). n)") auto

declare number_text.simps [simp del]

definition pad :: "char \<Rightarrow> nat \<Rightarrow> string \<Rightarrow> string" where
  "pad c w s = replicate (w - length s) c @ s"

text \<open>\<open>%wu\<close>, \<open>%wd\<close>, \<open>%0wx\<close> and \<open>%0wX\<close>.\<close>

definition fmt_u :: "nat \<Rightarrow> nat \<Rightarrow> string" where
  "fmt_u w n = pad (CHR 0x20) w (number_text 10 False n)"

definition fmt_d :: "nat \<Rightarrow> int \<Rightarrow> string" where
  "fmt_d w i = pad (CHR 0x20) w (if i < 0 then CHR ''-'' # number_text 10 False (nat (- i)) else number_text 10 False (nat i))"

definition fmt_x :: "nat \<Rightarrow> nat \<Rightarrow> string" where
  "fmt_x w n = pad (CHR ''0'') w (number_text 16 False n)"

definition fmt_X :: "nat \<Rightarrow> nat \<Rightarrow> string" where
  "fmt_X w n = pad (CHR ''0'') w (number_text 16 True n)"

definition newline :: string where "newline = [CHR 0x0A]"
definition tab :: string where "tab = [CHR 0x09]"

text \<open>
  \<open>printf(s)\<close> for a string that is no literal: a conversion in it takes an argument that is
  not there, which is undefined.
\<close>

fun printf_of :: "string \<Rightarrow> string option" where
  "printf_of [] = Some []"
| "printf_of (c # cs) =
     (if c = CHR ''%'' then
        (case cs of
           [] \<Rightarrow> None
         | c' # cs' \<Rightarrow> if c' = CHR ''%'' then map_option (Cons c) (printf_of cs') else None)
      else map_option (Cons c) (printf_of cs))"

section \<open>The state of a machine\<close>

definition print_exception :: "string \<Rightarrow> u32 \<Rightarrow> string" where
  "print_exception prefix x =
     concat (map (\<lambda>(e, s). if x AND e \<noteq> 0 then prefix @ s @ newline else [])
       [(VM_E_Arithmetic, ''Arithmetic''), (VM_E_MemFault, ''Mem fault''), (VM_E_OutOfMemory, ''Out of memory''),
        (VM_E_MemoryUnderflow, ''Memory underflow''), (VM_E_BadInstnPointer, ''Bad Instn ptr''),
        (VM_E_BadInstnCode, ''Bad Instn''), (VM_E_BadSyscallNo, ''Bad syscall''), (VM_E_AssertFailed, ''Assert Failed'')])"

definition print_failure :: "'w vm_t \<Rightarrow> string" where
  "print_failure vm =
     (if exceptions vm \<noteq> 0 then
        ''Exceptions:'' @ newline @ print_exception ''  '' (exceptions vm) @
        (if exceptions vm AND VM_E_AssertFailed \<noteq> 0
         then ''    Failed assertion ID = '' @ fmt_u 0 (unat (assert_id vm)) @ newline else [])
      else [])"

text \<open>\<open>strerror\<close> is an argument.\<close>

definition print_vm_state :: "(i32 \<Rightarrow> string) \<Rightarrow> 'w vm_t \<Rightarrow> string" where
  "print_vm_state strerror vm =
     ''VM State: '' @ (if exceptions vm \<noteq> 0 then ''ERROR'' else if procedures vm = [] then ''STOPPED'' else ''RUNNING'') @ newline @
     ''Code size: '' @ fmt_u 0 (unat (codesz vm)) @ '' | Memory: '' @ fmt_u 0 (unat (memsz vm)) @ newline @
     ''  Last instn addr: 0x'' @ fmt_x 8 (unat (iptr vm)) @ newline @
     ''  Procedures: '' @ fmt_u 0 (unat (of_nat (length (procedures vm)) :: u32)) @ newline @
     ''  Instns run: '' @ fmt_u 0 (unat (instns vm)) @ newline @
     (if error_no vm \<noteq> 0 then ''  Last error: '' @ strerror (error_no vm) @ newline else []) @
     print_failure vm"

end
