(* ===== verification/Debugger.thy ===== *)
theory Debugger
  imports Printing DebugData LinkedList
begin

text \<open>
  The debugger (\<open>debug/\<close>, \<open>vm_debug.c\<close>): its state, symbols and addresses, and the commands
  that look at the machine.
\<close>

section \<open>State\<close>

record dbg_label_t =
  b_label :: string
  b_is_mem_ref :: bool
  b_address :: u32

text \<open>
  A breakpoint: the type and the member of the union that goes with it. The name of an
  instruction is compared as a pointer; equal literals of the table are one object.
\<close>

datatype brk_point =
    BRK_Address u32
  | BRK_Label string u32
  | BRK_Line string u32 u32
  | BRK_InstnName string
  | BRK_InstnCount u32

record dbg_break_pt_t =
  brk_id :: u32
  brk_point :: brk_point

definition F_RUNNING :: u32 where "F_RUNNING = 1"

text \<open>
  The breakpoints are a linked list in a store of nodes. Of the format string that \<open>help\<close> keeps,
  the width in it. \<open>st_out\<close> is what was printed.
\<close>

record 'w dbg_state_t =
  st_vm :: "'w vm_t"
  st_data :: "vm_debug_data_t option"
  st_flags :: u32
  st_labels :: "dbg_label_t hashmap_map option"
  breakpoints :: "nat option"
  st_nodes :: "dbg_break_pt_t store"
  brk_id_pool :: u32
  help_format_string :: "nat option"
  st_out :: string

text \<open>
  What the debugger depends on: the operating system and the fuel of the machine, the table of
  instructions, which allocations of hash tables succeed, where nodes are allocated,
  \<open>strerror\<close>, and what an instruction on the stack holds before it is decoded.
\<close>

record 'w dbg_env =
  g_os :: "'w os"
  g_fuel :: nat
  g_defs :: "instn_def_t list"
  g_calloc :: "nat \<Rightarrow> bool"
  g_malloc :: "dbg_break_pt_t store \<Rightarrow> nat"
  g_strerror :: "i32 \<Rightarrow> string"
  g_junk :: instn_t

type_synonym 'w command = "string list \<Rightarrow> 'w dbg_state_t \<Rightarrow> (int \<times> 'w dbg_state_t) option"

definition say :: "string \<Rightarrow> 'w dbg_state_t \<Rightarrow> 'w dbg_state_t" where
  "say s st = st\<lparr>st_out := st_out st @ s\<rparr>"

definition set_vm :: "'w vm_t \<Rightarrow> 'w dbg_state_t \<Rightarrow> 'w dbg_state_t" where
  "set_vm vm st = st\<lparr>st_vm := vm\<rparr>"

definition if_running :: "'w command \<Rightarrow> 'w command" where
  "if_running cmd argv st =
     (if st_flags st AND F_RUNNING = 0 then Some (0, say (''program is not running!'' @ newline) st) else cmd argv st)"

section \<open>Numbers and addresses\<close>

text \<open>The value is one of 64 bits, truncated; a range error goes unnoticed.\<close>

definition parse_uint :: "string \<Rightarrow> nat \<Rightarrow> u32" where
  "parse_uint n radix = (case strtoull radix n of (v, k, _) \<Rightarrow> if drop k n \<noteq> [] then - 1 else ucast v)"

definition resolve_address :: "string \<Rightarrow> 'w dbg_state_t \<Rightarrow> bool \<Rightarrow> u32 option" where
  "resolve_address address_or_label st is_mem =
     (let number = (if chr address_or_label 0 = CHR ''0'' \<and> chr address_or_label 1 = CHR ''x''
                    then parse_uint address_or_label 16 else parse_uint address_or_label 10) in
      case st_labels st of
        None \<Rightarrow> Some number
      | Some m \<Rightarrow>
          (case hmap_get m address_or_label of
             (MAP_OK, None) \<Rightarrow> None
           | (MAP_OK, Some lbl) \<Rightarrow> Some (if b_is_mem_ref lbl \<noteq> is_mem then - 1 else b_address lbl)
           | _ \<Rightarrow> Some number))"

definition resolve_mem_address :: "string \<Rightarrow> 'w dbg_state_t \<Rightarrow> u32 option" where
  "resolve_mem_address s st = resolve_address s st True"

definition resolve_code_address :: "string \<Rightarrow> 'w dbg_state_t \<Rightarrow> u32 option" where
  "resolve_code_address s st = resolve_address s st False"

section \<open>Printing addresses\<close>

text \<open>The last label in the order of the table. The labels of the table are never null.\<close>

definition find_label_visitor :: "u32 \<Rightarrow> bool \<Rightarrow> string option \<Rightarrow> string \<Rightarrow> dbg_label_t option \<Rightarrow> string option" where
  "find_label_visitor address is_mem found k v =
     (case v of
        None \<Rightarrow> found
      | Some lbl \<Rightarrow> if b_is_mem_ref lbl = is_mem \<and> b_address lbl = address then Some k else found)"

definition address_label :: "u32 \<Rightarrow> 'w dbg_state_t \<Rightarrow> bool \<Rightarrow> string option" where
  "address_label address st is_mem =
     (case st_labels st of
        None \<Rightarrow> None
      | Some m \<Rightarrow> snd (hmap_iterate m None (find_label_visitor address is_mem)))"

definition print_mem_address :: "u32 \<Rightarrow> 'w dbg_state_t \<Rightarrow> (int \<times> 'w dbg_state_t) option" where
  "print_mem_address address st =
     (case address_label address st True of
        Some l \<Rightarrow> do { s \<leftarrow> printf_of l; Some (1, say s st) }
      | None \<Rightarrow> Some (0, say (''0x'' @ fmt_x 8 (unat address)) st))"

text \<open>The line of the first instruction at the address, among \<open>k\<close> lines from the \<open>i\<close>-th.\<close>

fun line_number :: "vm_debug_data_t \<Rightarrow> u32 \<Rightarrow> nat \<Rightarrow> u32 \<Rightarrow> i32 option" where
  "line_number dbg address 0 i = Some (- 1)"
| "line_number dbg address (Suc k) i = do {
     ln \<leftarrow> DBG_CODE_LINE dbg i;
     if ln_address ln = address then Some (ln_lineno ln) else line_number dbg address k (i + 1)
   }"

definition print_code_address :: "u32 \<Rightarrow> 'w dbg_state_t \<Rightarrow> bool \<Rightarrow> (int \<times> 'w dbg_state_t) option" where
  "print_code_address address st skip_label =
     (case if skip_label then None else address_label address st False of
        Some l \<Rightarrow> do { s \<leftarrow> printf_of l; Some (1, say s st) }
      | None \<Rightarrow> do {
          n \<leftarrow> (case st_data st of None \<Rightarrow> Some (- 1) | Some dbg \<Rightarrow> line_number dbg address (unat (n_code_lines dbg)) 0);
          let a = ''0x'' @ fmt_x 8 (unat address);
          Some (0, say (if sint n \<ge> 0 then a @ '' ['' @ fmt_d 4 (sint n) @ '']'' else a) st)
        })"

section \<open>Printing instructions\<close>

text \<open>An operand that refers to a place: its label, or else what is printed without one.\<close>

definition label_or :: "(string \<Rightarrow> string option) \<Rightarrow> string \<Rightarrow> u32 \<Rightarrow> 'w dbg_state_t \<Rightarrow> bool \<Rightarrow> string option" where
  "label_or show_label other address st is_mem =
     (case address_label address st is_mem of Some l \<Rightarrow> show_label l | None \<Rightarrow> Some other)"

definition print_arg :: "instn_def_t \<Rightarrow> instn_t \<Rightarrow> nat \<Rightarrow> 'w dbg_state_t \<Rightarrow> string option" where
  "print_arg d instn i st =
     (if is_imm instn i then
        (case iargs instn ! i of
           Imm v \<Rightarrow>
             (let is_mem = \<not> (i = 0 \<and> flags d AND F_1st_Arg_Code_Ref \<noteq> 0);
                  n = imm_bytes instn i;
                  amp = (\<lambda>l. Some (CHR ''&'' # l)) in
              if n = 1 then Some (''0x'' @ fmt_X 2 (unat (ucast v :: u8)))
              else if n = 2 then Some (''0x'' @ fmt_X 4 (unat (ucast v :: u16)))
              else if n = 4 then label_or amp (''0x'' @ fmt_X 8 (unat (ucast v :: u32))) (ucast v) st is_mem
              else if FITS_IN_32Bit v then label_or amp (''0x'' @ fmt_X 16 (unat v)) (ucast v) st is_mem
              else Some (''0x'' @ fmt_X 16 (unat v)))
         | _ \<Rightarrow> None)
      else do {
        p \<leftarrow> arg_ptr instn i;
        label_or printf_of (''*0x'' @ fmt_X 8 (unat (of_nat p :: u32))) (of_nat p) st True
      })"

fun print_args :: "instn_def_t \<Rightarrow> instn_t \<Rightarrow> nat \<Rightarrow> nat \<Rightarrow> 'w dbg_state_t \<Rightarrow> 'w dbg_state_t option" where
  "print_args d instn 0 i st = Some st"
| "print_args d instn (Suc n) i st = do {
     s \<leftarrow> print_arg d instn i st;
     print_args d instn n (i + 1) (say (''  '' @ s) st)
   }"

text \<open>All thirteen bits index the table; the sentinel has no name to print.\<close>

definition print_instn :: "instn_def_t list \<Rightarrow> instn_t \<Rightarrow> 'w dbg_state_t \<Rightarrow> 'w dbg_state_t option" where
  "print_instn defs instn st =
     (let idx = unat (drop_bit 3 (icode instn)) in
      if idx < nInstnDefs defs then
        (let d = defs ! idx in
         print_args d instn (arg_count d) 0
           (say (pad (CHR 0x20) 8 (name d) @ ''/'' @ fmt_u 0 (arg_count d) @ tab) st))
      else None)"

section \<open>Symbols and the machine\<close>

fun print_mem_symbols :: "vm_debug_data_t \<Rightarrow> nat \<Rightarrow> u32 \<Rightarrow> 'w dbg_state_t \<Rightarrow> 'w dbg_state_t option" where
  "print_mem_symbols dbg 0 m st = Some st"
| "print_mem_symbols dbg (Suc k) m st = do {
     ln \<leftarrow> DBG_MEM_LINE dbg m;
     l \<leftarrow> DBG_LABEL dbg (ln_label_ref ln);
     print_mem_symbols dbg k (m + 1) (say (''  0x'' @ fmt_x 8 (unat (ln_address ln)) @ '':  '' @ l @ newline) st)
   }"

fun count_code_labels :: "vm_debug_data_t \<Rightarrow> nat \<Rightarrow> u32 \<Rightarrow> u32 \<Rightarrow> u32 option" where
  "count_code_labels dbg 0 c n = Some n"
| "count_code_labels dbg (Suc k) c n = do {
     ln \<leftarrow> DBG_CODE_LINE dbg c;
     count_code_labels dbg k (c + 1) (if sint (ln_label_ref ln) \<ge> 0 then n + 1 else n)
   }"

fun print_code_symbols :: "vm_debug_data_t \<Rightarrow> nat \<Rightarrow> u32 \<Rightarrow> 'w dbg_state_t \<Rightarrow> 'w dbg_state_t option" where
  "print_code_symbols dbg 0 c st = Some st"
| "print_code_symbols dbg (Suc k) c st = do {
     ln \<leftarrow> DBG_CODE_LINE dbg c;
     st \<leftarrow> (if sint (ln_label_ref ln) \<ge> 0 then do {
               l \<leftarrow> DBG_LABEL dbg (ln_label_ref ln);
               Some (say (''  0x'' @ fmt_x 8 (unat (ln_address ln)) @ '':  '' @ l @ newline) st)
             } else Some st);
     print_code_symbols dbg k (c + 1) st
   }"

definition dbg_show_symbols :: "'w command" where
  "dbg_show_symbols argv st =
     (case st_data st of
        None \<Rightarrow> Some (0, say (''No symbols available'' @ newline) st)
      | Some dbg \<Rightarrow> do {
          st \<leftarrow> (if length argv = 1 \<or> chr (argv ! 1) 0 \<noteq> CHR ''c'' then
                    print_mem_symbols dbg (unat (n_mem_lines dbg)) 0
                      (say (''Memory symbols ('' @ fmt_u 0 (unat (n_mem_lines dbg)) @ ''):'' @ newline) st)
                  else Some st);
          st \<leftarrow> (if length argv = 1 \<or> chr (argv ! 1) 0 \<noteq> CHR ''m'' then do {
                    n \<leftarrow> count_code_labels dbg (unat (n_code_lines dbg)) 0 0;
                    print_code_symbols dbg (unat (n_code_lines dbg)) 0
                      (say (''Code symbols ('' @ fmt_u 0 (unat n) @ ''):'' @ newline) st)
                  } else Some st);
          Some (0, st)
        })"

definition n_procedures :: "'w vm_t \<Rightarrow> u32" where
  "n_procedures vm = of_nat (length (procedures vm))"

definition dbg_show_vm :: "'w dbg_env \<Rightarrow> 'w command" where
  "dbg_show_vm g argv st =
     (let vm = st_vm st in Some (0, say (
        (if st_flags st = 0 then ''VM Stopped'' @ newline
         else if st_flags st AND F_RUNNING \<noteq> 0 then ''VM Running'' @ newline else []) @
        ''Code sz: '' @ fmt_u 5 (unat (codesz vm)) @ '' | Mem sz: '' @ fmt_u 0 (unat (memsz vm)) @ newline @
        ''Instns run: '' @ fmt_u 4 (unat (instns vm)) @ '' | Since last cleanup: '' @
          fmt_u 0 (unat (instns_since_last_cleanup vm)) @ newline @
        ''Events: Tmrs:'' @ fmt_u 3 (unat (n_timers vm)) @ '' | I/O fds:'' @ fmt_u 2 (unat (used_fds (io vm))) @
          '' | I/O events:'' @ fmt_u 2 (unat (n_io_events (io vm))) @ '' | Procs:'' @ fmt_u 2 (unat (n_proc (vm_proc vm))) @
          '' | Procs C/Bs:'' @ fmt_u 2 (unat (n_exit_callbacks (vm_proc vm))) @ newline @
        ''Last error: '' @ g_strerror g (error_no vm) @ newline @
        print_failure vm @
        ''Runnable procedures: '' @ fmt_u 0 (unat (n_procedures vm)) @ newline @
        ''Next instn: 0x'' @ fmt_x 8 (unat (iptr vm)) @ newline) st))"

section \<open>Dumping the memory\<close>

text \<open>The result is \<open>(uint32_t)-1\<close> when there is nothing to dump. The sum is a 32-bit one.\<close>

definition dump_cmd_prefix :: "string list \<Rightarrow> 'w dbg_state_t \<Rightarrow> u32 \<Rightarrow> (u32 \<times> 'w dbg_state_t) option" where
  "dump_cmd_prefix argv st sz =
     (if length argv \<noteq> 2 then Some (- 1, say (''Usage: '' @ argv ! 0 @ '' [label|address]'' @ newline) st)
      else do {
        address \<leftarrow> resolve_mem_address (argv ! 1) st;
        if address = - 1 then Some (- 1, say (''bad mem address: '' @ argv ! 1 @ newline) st)
        else let st = say (''0x'' @ fmt_x 8 (unat address) @ '': '') st in
          if address + sz > memsz (st_vm st) then Some (- 1, say (''out of range'' @ newline) st)
          else Some (address, st)
      })"

definition dump_value :: "nat \<Rightarrow> (nat \<Rightarrow> string) \<Rightarrow> 'w command" where
  "dump_value n show_value argv st = do {
     (address, st) \<leftarrow> dump_cmd_prefix argv st (of_nat n);
     if address = - 1 then Some (0, st)
     else do {
       v \<leftarrow> rd n (unat address) (st_vm st);
       Some (0, say (show_value v @ newline) st)
     }
   }"

definition dbg_dump_byte :: "'w command" where
  "dbg_dump_byte = dump_value 1 (\<lambda>v. ''0x'' @ fmt_x 2 v @ '' ('' @ fmt_u 3 v @ '')'')"

definition dbg_dump_word :: "'w command" where
  "dbg_dump_word = dump_value 2 (\<lambda>v. ''0x'' @ fmt_x 4 v @ '' ('' @ fmt_u 5 v @ '')'')"

definition dbg_dump_dword :: "'w command" where
  "dbg_dump_dword = dump_value 4 (\<lambda>v. ''0x'' @ fmt_x 8 v @ '' ('' @ fmt_u 0 v @ '')'')"

definition dbg_dump_qword :: "'w command" where
  "dbg_dump_qword = dump_value 8 (\<lambda>v. ''0x'' @ fmt_x 16 v @ '' ('' @ fmt_u 0 v @ '')'')"

text \<open>The number of bytes before the first null byte from an address on, if there is one before the end.\<close>

fun find_end :: "'w vm_t \<Rightarrow> nat \<Rightarrow> u32 \<Rightarrow> u32 \<Rightarrow> u32 option option" where
  "find_end vm 0 i len = Some None"
| "find_end vm (Suc k) i len = do {
     b \<leftarrow> rd 1 (unat i) vm;
     if b = 0 then Some (Some len) else find_end vm k (i + 1) (len + 1)
   }"

definition dbg_dump_str :: "'w command" where
  "dbg_dump_str argv st =
     (if length argv \<noteq> 2 then Some (0, say (''Usage: '' @ argv ! 0 @ '' [label|address]'' @ newline) st)
      else do {
        address \<leftarrow> resolve_mem_address (argv ! 1) st;
        if address = - 1 then Some (0, say (''bad mem address: '' @ argv ! 1 @ newline) st)
        else do {
          let st = say (''0x'' @ fmt_x 8 (unat address) @ '': '') st;
          e \<leftarrow> find_end (st_vm st) (unat (memsz (st_vm st)) - unat address) address 0;
          (case e of
             None \<Rightarrow> Some (0, say (''string not terminated'' @ newline) st)
           | Some len \<Rightarrow> do {
               s \<leftarrow> str_at (memory (st_vm st)) (unat address);
               Some (0, say (''len='' @ fmt_u 0 (unat len) @ '' ['' @ s @ '']'' @ newline) st)
             })
        }
      })"

section \<open>Descriptors, children, procedures\<close>

fun print_fds :: "nat \<Rightarrow> nat \<Rightarrow> nat \<Rightarrow> 'w dbg_state_t \<Rightarrow> 'w dbg_state_t option" where
  "print_fds 0 i index st = Some st"
| "print_fds (Suc k) i index st = do {
     f \<leftarrow> get_fd i (st_vm st);
     if used f then
       print_fds k (i + 1) (index + 1)
         (say (''fd['' @ fmt_u 0 index @ '']: fd='' @ fmt_d 0 (sint (fd f)) @ ''  events:'' @ fmt_u 0 (unat (n_events f)) @ newline) st)
     else print_fds k (i + 1) index st
   }"

definition dbg_io :: "'w command" where
  "dbg_io = if_running (\<lambda>argv st. do {
     let v = io (st_vm st);
     st \<leftarrow> print_fds (unat (n_fds v)) 0 0
       (say (''open fds: '' @ fmt_u 0 (unat (used_fds v)) @ ''   (total event handlers: '' @ fmt_u 0 (unat (n_io_events v)) @ '')'' @ newline) st);
     Some (0, st)
   })"

fun print_children :: "nat \<Rightarrow> nat \<Rightarrow> nat \<Rightarrow> 'w dbg_state_t \<Rightarrow> 'w dbg_state_t option" where
  "print_children 0 p index st = Some st"
| "print_children (Suc k) p index st = do {
     ch \<leftarrow> get_child p (st_vm st);
     if ch_used ch then
       print_children k (p + 1) (index + 1)
         (say (''child['' @ fmt_u 0 index @ '']: pid='' @ fmt_d 0 (sint (pid ch)) @ ''  exit c/b:'' @ fmt_u 0 (unat (n_exit_cb ch)) @ newline) st)
     else print_children k (p + 1) index st
   }"

text \<open>The loop goes over as many slots as there are children, wherever they are.\<close>

definition dbg_children :: "'w command" where
  "dbg_children = if_running (\<lambda>argv st. do {
     let n = n_proc (vm_proc (st_vm st));
     st \<leftarrow> print_children (unat n) 0 0 (say (''child processes: '' @ fmt_u 0 (unat n) @ newline) st);
     Some (0, st)
   })"

fun print_procs :: "proc_t list \<Rightarrow> nat \<Rightarrow> 'w dbg_state_t \<Rightarrow> 'w dbg_state_t option" where
  "print_procs [] index st = Some st"
| "print_procs (p # ps) index st = do {
     (_, st) \<leftarrow> print_code_address (p_iptr p) (say ('' proc['' @ fmt_u 0 index @ '']'' @ newline @ ''   i-ptr: '') st) False;
     print_procs ps (index + 1) (say (newline @ ''   stack size: '' @ fmt_u 0 (unat (cstack_sz p)) @ newline) st)
   }"

definition dbg_procs :: "'w command" where
  "dbg_procs = if_running (\<lambda>argv st. do {
     st \<leftarrow> print_procs (procedures (st_vm st)) 0
       (say (''procedures: '' @ fmt_u 0 (unat (n_procedures (st_vm st))) @ newline) st);
     Some (0, st)
   })"

text \<open>Frame \<open>s\<close> is the words \<open>3 s\<close>, \<open>3 s + 1\<close> and \<open>3 s + 2\<close> of the stack.\<close>

fun print_frames :: "proc_t \<Rightarrow> nat \<Rightarrow> nat \<Rightarrow> 'w dbg_state_t \<Rightarrow> 'w dbg_state_t option" where
  "print_frames p 0 s st = Some st"
| "print_frames p (Suc k) s st = do {
     r \<leftarrow> blk_read (cstack p) (3 * s);
     a \<leftarrow> blk_read (cstack p) (3 * s + 1);
     ret \<leftarrow> blk_read (cstack p) (3 * s + 2);
     (_, st) \<leftarrow> print_code_address ret (say (''['' @ fmt_u 2 s @ '']: ret='') st) False;
     (_, st) \<leftarrow> print_mem_address a (say (tab @ ''argv='') st);
     (_, st) \<leftarrow> print_mem_address r (say (tab @ ''retv='') st);
     print_frames p k (s + 1) (say newline st)
   }"

definition dbg_stack :: "'w command" where
  "dbg_stack = if_running (\<lambda>argv st.
     (case procedures (st_vm st) of
        [] \<Rightarrow> Some (0, say (''no current procedure'' @ newline) st)
      | p # _ \<Rightarrow>
          if cstack_sz p = 0 then Some (0, say (''stack is empty'' @ newline) st)
          else do { st \<leftarrow> print_frames p (unat (cstack_sz p)) 0 st; Some (0, st) }))"

definition dbg_yield :: "'w command" where
  "dbg_yield = if_running (\<lambda>argv st. do {
     vm \<leftarrow> sys_yield 0 0 (st_vm st);
     Some (0, set_vm vm st)
   })"

section \<open>Disassembling\<close>

text \<open>
  The loop over the code from \<open>addr\<close>. When an instruction cannot be decoded the machine is left
  with the exceptions that are new. The instruction buffer is shared by the turns.
\<close>

partial_function (option) disasm_loop ::
  "instn_def_t list \<Rightarrow> u32 \<Rightarrow> u32 \<Rightarrow> instn_t \<Rightarrow> 'w dbg_state_t \<Rightarrow> 'w dbg_state_t option" where
  "disasm_loop defs ends addr instn st =
     (if addr < ends then do {
        let old = exceptions (st_vm st);
        (offt, instn, vm) \<leftarrow> decode_instn defs (unat addr) instn (st_vm st);
        if offt < 0 then do {
          let x = exceptions vm AND NOT old;
          Some (say (''decode failed at: 0x'' @ fmt_x 8 (unat addr) @ newline @ print_exception ''  '' x)
            (set_vm (vm\<lparr>exceptions := x\<rparr>) st))
        } else do {
          (r, st) \<leftarrow> print_code_address addr (set_vm vm st) False;
          st \<leftarrow> (if r \<noteq> 0 then do {
                    (_, st) \<leftarrow> print_code_address addr (say ('':'' @ newline) st) True;
                    Some st
                  } else Some st);
          st \<leftarrow> print_instn defs instn (say ('':  '') st);
          disasm_loop defs ends (addr + of_int offt) instn (say newline st)
        }
      } else Some st)"

definition dbg_disasm :: "'w dbg_env \<Rightarrow> 'w command" where
  "dbg_disasm g argv st =
     (let run = (\<lambda>begn ends. do { st \<leftarrow> disasm_loop (g_defs g) ends begn (g_junk g) st; Some (0, st) }) in
      if length argv > 3 then Some (0, say (''Usage: '' @ argv ! 0 @ '' ([label|address]) (offset)'' @ newline) st)
      else if length argv = 1 then run 0 (codesz (st_vm st))
      else do {
        begn \<leftarrow> resolve_code_address (argv ! 1) st;
        if begn = - 1 then Some (0, say (''bad code address: '' @ argv ! 1 @ newline) st)
        else if length argv = 2 then run begn (codesz (st_vm st))
        else let offset = parse_uint (argv ! 2) 10 in
          if offset = - 1 then Some (0, say (''bad offset: '' @ argv ! 2 @ newline) st)
          else run begn (begn + offset)
      })"

end
