(* ===== verification/DebugExec.thy ===== *)
theory DebugExec
  imports Debugger
begin

text \<open>
  Breakpoints (\<open>debug_brk.c\<close>) and execution under the debugger (\<open>debug_exec.c\<close>).
\<close>

section \<open>Breakpoints\<close>

text \<open>\<open>for (n = list; n; n = n->next) if (P(n->data)) \<dots>\<close>: the first node whose data passes the test.\<close>

partial_function (option) find_node :: "('d \<Rightarrow> bool option) \<Rightarrow> nat option \<Rightarrow> 'd store \<Rightarrow> nat option option" where
  "find_node P n h =
     (case n of
        None \<Rightarrow> Some None
      | Some a \<Rightarrow> do {
          nd \<leftarrow> h a;
          found \<leftarrow> P (nd_data nd);
          if found then Some (Some a) else find_node P (nd_next nd) h
        })"

definition create_and_attach_breakpoint :: "'w dbg_env \<Rightarrow> brk_point \<Rightarrow> 'w dbg_state_t \<Rightarrow> 'w dbg_state_t option" where
  "create_and_attach_breakpoint g pt st = do {
     let bpt = \<lparr>brk_id = brk_id_pool st, brk_point = pt\<rparr>;
     let (node, h) = list_make_node (g_malloc g (st_nodes st)) bpt (st_nodes st);
     (_, h) \<leftarrow> list_prepend (breakpoints st) node h;
     Some (st\<lparr>brk_id_pool := brk_id_pool st + 1, st_nodes := h, breakpoints := Some node\<rparr>)
   }"

text \<open>The first instruction of a line: its address and the name of its file, among \<open>k\<close> lines.\<close>

fun find_line :: "vm_debug_data_t \<Rightarrow> string \<Rightarrow> u32 \<Rightarrow> nat \<Rightarrow> u32 \<Rightarrow> (string \<times> u32) option option" where
  "find_line dbg fl lineno 0 c = Some None"
| "find_line dbg fl lineno (Suc k) c = do {
     ln \<leftarrow> DBG_CODE_LINE dbg c;
     c_file \<leftarrow> DBG_FILE dbg (ln_fileno ln);
     if (fl = [] \<or> fl = c_file) \<and> lineno = ln_lineno ln then Some (Some (c_file, ln_address ln))
     else find_line dbg fl lineno k (c + 1)
   }"

text \<open>
  What comes after the lines: a label, the name of an instruction, an address. The argument is
  cut off at its colon when there was one.
\<close>

definition break_at_name :: "'w dbg_env \<Rightarrow> string \<Rightarrow> 'w dbg_state_t \<Rightarrow> (int \<times> 'w dbg_state_t) option" where
  "break_at_name g arg st =
     (let attach = (\<lambda>pt. do { st \<leftarrow> create_and_attach_breakpoint g pt st; Some (0, st) });
          cannot = Some (0, say (''cannot parse breakpoint: ['' @ arg @ '']'' @ newline) st);
          at_decimal = (let address = parse_uint arg 10 in
            if address \<noteq> - 1 then attach (BRK_Address address) else cannot);
          at_number = (if chr arg 0 = CHR ''0'' \<and> chr arg 1 = CHR ''x'' then
              (let address = parse_uint arg 16 in if address \<noteq> - 1 then attach (BRK_Address address) else at_decimal)
            else at_decimal);
          at_instn = (case bsearch_instn (g_defs g) arg of
              Some j \<Rightarrow> attach (BRK_InstnName (name (g_defs g ! j)))
            | None \<Rightarrow> at_number)
      in case map_option (\<lambda>m. hmap_get m arg) (st_labels st) of
           Some (MAP_OK, None) \<Rightarrow> None
         | Some (MAP_OK, Some lbl) \<Rightarrow>
             if b_is_mem_ref lbl then Some (0, say (''label ['' @ arg @ ''] points into data segment'' @ newline) st)
             else attach (BRK_Label (b_label lbl) (b_address lbl))
         | _ \<Rightarrow> at_instn)"

definition dbg_break :: "'w dbg_env \<Rightarrow> 'w command" where
  "dbg_break g argv st =
     (if length argv \<noteq> 2 then
        Some (0, say (''Usage: '' @ argv ! 0 @ '' [label|address|:line|file:line|+instns|instn]'' @ newline) st)
      else let arg = argv ! 1 in
        if chr arg 0 = CHR ''+'' then
          (let n = parse_uint (drop 1 arg) 10 in
           if n = - 1 then Some (0, say (''invalid instruction count: ['' @ drop 1 arg @ '']'' @ newline) st)
           else do {
             st \<leftarrow> create_and_attach_breakpoint g (BRK_InstnCount (ucast (instns (st_vm st)) + n)) st;
             Some (0, st)
           })
        else case st_data st of
          None \<Rightarrow> break_at_name g arg st
        | Some dbg \<Rightarrow>
            if CHR '':'' \<notin> set arg then break_at_name g arg st
            else let fl = takeWhile (\<lambda>c. c \<noteq> CHR '':'') arg; line = drop (length fl + 1) arg; lineno = parse_uint line 10 in
              if lineno = - 1 then Some (0, say (''bad line number: ['' @ line @ '']'' @ newline) st)
              else do {
                r \<leftarrow> find_line dbg fl lineno (unat (n_code_lines dbg)) 0;
                (case r of
                   Some (c_file, address) \<Rightarrow> do {
                     st \<leftarrow> create_and_attach_breakpoint g (BRK_Line c_file lineno address) st;
                     Some (0, st)
                   }
                 | None \<Rightarrow> break_at_name g fl st)
              })"

definition brk_type_char :: "brk_point \<Rightarrow> char" where
  "brk_type_char pt =
     (case pt of BRK_Address _ \<Rightarrow> CHR ''A'' | BRK_Label _ _ \<Rightarrow> CHR ''L'' | BRK_Line _ _ _ \<Rightarrow> CHR ''F''
      | BRK_InstnName _ \<Rightarrow> CHR ''I'' | BRK_InstnCount _ \<Rightarrow> CHR ''+'')"

definition print_breakpoint :: "dbg_break_pt_t \<Rightarrow> 'w dbg_state_t \<Rightarrow> 'w dbg_state_t option" where
  "print_breakpoint brk st =
     (let st = say (''['' @ fmt_u 3 (unat (brk_id brk)) @ ''] '' @ [brk_type_char (brk_point brk)] @ '': '') st in
      case brk_point brk of
        BRK_Address a \<Rightarrow> do { (_, st) \<leftarrow> print_code_address a st False; Some st }
      | BRK_Label l a \<Rightarrow> Some (say (''0x'' @ fmt_x 8 (unat a) @ '' :: '' @ l) st)
      | BRK_Line f n a \<Rightarrow> Some (say (''0x'' @ fmt_x 8 (unat a) @ '' :: '' @ f @ '':'' @ fmt_u 0 (unat n)) st)
      | BRK_InstnName s \<Rightarrow> Some (say (''['' @ s @ '']'') st)
      | BRK_InstnCount n \<Rightarrow> Some (say (''['' @ fmt_u 0 (unat n) @ '']'') st))"

partial_function (option) print_breakpoints :: "nat option \<Rightarrow> 'w dbg_state_t \<Rightarrow> 'w dbg_state_t option" where
  "print_breakpoints n st =
     (case n of
        None \<Rightarrow> Some st
      | Some a \<Rightarrow> do {
          nd \<leftarrow> st_nodes st a;
          st \<leftarrow> print_breakpoint (nd_data nd) st;
          print_breakpoints (nd_next nd) (say newline st)
        })"

definition dbg_show_breakpts :: "'w command" where
  "dbg_show_breakpts argv st = do {
     sz \<leftarrow> list_size (breakpoints st) (st_nodes st);
     st \<leftarrow> print_breakpoints (breakpoints st) (say (''Breakpoints ('' @ fmt_u 0 (unat sz) @ ''):'' @ newline) st);
     Some (0, st)
   }"

definition dbg_break_delete :: "'w command" where
  "dbg_break_delete argv st =
     (if length argv \<noteq> 2 then Some (0, say (''Usage: '' @ argv ! 0 @ '' [brk id]'' @ newline) st)
      else let brkid = parse_uint (argv ! 1) 10 in
        if brkid = - 1 then Some (0, say (''invalid breakpoint id: ['' @ argv ! 1 @ '']'' @ newline) st)
        else do {
          r \<leftarrow> find_node (\<lambda>b. Some (brk_id b = brkid)) (breakpoints st) (st_nodes st);
          (case r of
             None \<Rightarrow> Some (0, say (''breakpoint not found: ['' @ fmt_u 0 (unat brkid) @ '']'' @ newline) st)
           | Some n \<Rightarrow> do {
               nd \<leftarrow> st_nodes st n;
               let first = (if breakpoints st = Some n then nd_next nd else breakpoints st);
               h \<leftarrow> list_unlink n (st_nodes st);
               Some (0, st\<lparr>breakpoints := first, st_nodes := h(n := None)\<rparr>)
             })
        })"

section \<open>Execution\<close>

text \<open>
  Whether a breakpoint is hit. The count of instructions has 64 bits, the one of the breakpoint
  32. All thirteen bits of the opcode index the table, whose last entry has no name.
\<close>

definition brk_hit :: "instn_def_t list \<Rightarrow> instn_t \<Rightarrow> 'w vm_t \<Rightarrow> dbg_break_pt_t \<Rightarrow> bool option" where
  "brk_hit defs instn vm brk =
     (case brk_point brk of
        BRK_Address a \<Rightarrow> Some (a = iptr vm)
      | BRK_Label _ a \<Rightarrow> Some (a = iptr vm)
      | BRK_Line _ _ a \<Rightarrow> Some (a = iptr vm)
      | BRK_InstnName s \<Rightarrow>
          (let idx = unat (drop_bit 3 (icode instn)) in
           if idx < nInstnDefs defs then Some (s = name (defs ! idx))
           else if idx = nInstnDefs defs then Some False else None)
      | BRK_InstnCount n \<Rightarrow> Some (ucast n = instns vm))"

definition has_hit_breakpoint :: "instn_def_t list \<Rightarrow> instn_t \<Rightarrow> 'w dbg_state_t \<Rightarrow> dbg_break_pt_t option option" where
  "has_hit_breakpoint defs instn st = do {
     r \<leftarrow> find_node (brk_hit defs instn (st_vm st)) (breakpoints st) (st_nodes st);
     (case r of None \<Rightarrow> Some None | Some n \<Rightarrow> map_option (\<lambda>nd. Some (nd_data nd)) (st_nodes st n))
   }"

text \<open>
  What follows the decoding: the result is 2 at a breakpoint, 0 when the program cannot go on
  and 1 after an instruction.
\<close>

definition step_decoded ::
  "'w dbg_env \<Rightarrow> bool \<Rightarrow> instn_t \<Rightarrow> 'w dbg_state_t \<Rightarrow> (int \<times> instn_t \<times> 'w dbg_state_t) option" where
  "step_decoded g check_breakpoints instn st = do {
     hit \<leftarrow> (if check_breakpoints then has_hit_breakpoint (g_defs g) instn st else Some None);
     (case hit of
        Some brk \<Rightarrow> do {
          st \<leftarrow> print_breakpoint brk (say ''Reached breakpoint '' st);
          Some (2, instn, say newline st)
        }
      | None \<Rightarrow> do {
          (x, vm) \<leftarrow> vm_exec_instn (g_os g) (g_fuel g) (g_defs g) instn (st_vm st);
          if x < 0 then Some (0, instn, set_vm vm st)
          else do {
            vm \<leftarrow> after_instn (g_os g) (g_fuel g) vm;
            Some (1, instn, set_vm vm st)
          }
        })
   }"

text \<open>One turn of the loop: \<^term>\<open>None\<close> inside stands for \<open>continue\<close>.\<close>

definition step_turn ::
  "'w dbg_env \<Rightarrow> bool \<Rightarrow> instn_t \<Rightarrow> 'w dbg_state_t \<Rightarrow> (int option \<times> instn_t \<times> 'w dbg_state_t) option" where
  "step_turn g check_breakpoints instn st = do {
     (n_events, vm) \<leftarrow>
       (if procedures (st_vm st) = [] then vm_fire_events (g_os g) (g_fuel g) (st_vm st) else Some (1, st_vm st));
     if n_events < 0 then Some (Some 0, instn, set_vm vm st)
     else if n_events = 0 then Some (None, instn, set_vm vm st)
     else do {
       (p, vm) \<leftarrow> vm_current_procedure vm;
       (case p of
          None \<Rightarrow> Some (None, instn, set_vm vm st)
        | Some p \<Rightarrow> do {
            (d, instn, vm) \<leftarrow> vm_decode_instn (g_defs g) p instn vm;
            if d < 0 then Some (Some 0, instn, set_vm vm st)
            else do {
              (r, instn, st) \<leftarrow> step_decoded g check_breakpoints instn (set_vm vm st);
              Some (Some r, instn, st)
            }
          })
     }
   }"

partial_function (option) step_program ::
  "'w dbg_env \<Rightarrow> bool \<Rightarrow> instn_t \<Rightarrow> 'w dbg_state_t \<Rightarrow> (int \<times> instn_t \<times> 'w dbg_state_t) option" where
  "step_program g check_breakpoints instn st = do {
     (r, instn, st) \<leftarrow> step_turn g check_breakpoints instn st;
     (case r of None \<Rightarrow> step_program g check_breakpoints instn st | Some r \<Rightarrow> Some (r, instn, st))
   }"

text \<open>The loop of \<open>run\<close>: the result of the step that ended it.\<close>

partial_function (option) run_steps ::
  "'w dbg_env \<Rightarrow> instn_t \<Rightarrow> 'w dbg_state_t \<Rightarrow> (int \<times> instn_t \<times> 'w dbg_state_t) option" where
  "run_steps g instn st = do {
     (r, instn, st) \<leftarrow> step_program g True instn st;
     if r = 0 \<or> r = 2 then Some (r, instn, st) else run_steps g instn st
   }"

definition print_current :: "'w dbg_env \<Rightarrow> instn_t \<Rightarrow> 'w dbg_state_t \<Rightarrow> 'w dbg_state_t option" where
  "print_current g instn st = do {
     (_, st) \<leftarrow> print_code_address (iptr (st_vm st)) st False;
     st \<leftarrow> print_instn (g_defs g) instn (say '':  '' st);
     Some (say newline st)
   }"

definition dbg_run :: "'w dbg_env \<Rightarrow> 'w command" where
  "dbg_run g argv st = do {
     (r, instn, st) \<leftarrow> run_steps g (g_junk g) (st\<lparr>st_flags := F_RUNNING\<rparr>);
     if r = 0 then Some (0, say (''program exited'' @ newline) (st\<lparr>st_flags := st_flags st AND NOT F_RUNNING\<rparr>))
     else do { st \<leftarrow> print_current g instn st; Some (0, st) }
   }"

text \<open>After a failure the instruction is printed all the same, even when none was decoded.\<close>

definition dbg_step :: "'w dbg_env \<Rightarrow> 'w command" where
  "dbg_step g = if_running (\<lambda>argv st. do {
     (r, instn, st) \<leftarrow> step_program g False (g_junk g) st;
     st \<leftarrow> print_current g instn (if r = 0 then say (''exec instn failed'' @ newline) st else st);
     Some (0, st)
   })"

definition dbg_cleanup :: "'w dbg_env \<Rightarrow> 'w command" where
  "dbg_cleanup g = if_running (\<lambda>argv st. do {
     vm \<leftarrow> cleanup_vm (g_os g) (g_fuel g) (st_vm st);
     Some (0, set_vm vm st)
   })"

definition dbg_fire_events :: "'w dbg_env \<Rightarrow> 'w command" where
  "dbg_fire_events g = if_running (\<lambda>argv st.
     (if \<not> has_pending_events (st_vm st) then Some (0, say (''no pending events'' @ newline) st)
      else do {
        (n_events, vm) \<leftarrow> vm_fire_events (g_os g) (g_fuel g) (st_vm st);
        if n_events < 0 then Some (0, say (''events firing failed'' @ newline) (set_vm vm st))
        else Some (0, say (''events fired: '' @ fmt_d 0 n_events @ newline) (set_vm vm st))
      }))"

end
