(* ===== verification/DebugShell.thy ===== *)
theory DebugShell
  imports DebugExec
begin

text \<open>
  The shell of the debugger (\<open>vm_debug.c\<close>, the table of \<open>debug.c\<close>): its symbols, command lines,
  the dispatch on the name of a command, and the session.
\<close>

section \<open>Symbols\<close>

text \<open>
  The values of the table are the labels of the debug data, by their names. A table that was not
  allocated is a null pointer.
\<close>

type_synonym symbols = "dbg_label_t hashmap_map option"

definition put_symbol :: "'w dbg_env \<Rightarrow> bool \<Rightarrow> vm_debug_data_t \<Rightarrow> dbg_line_assoc_t \<Rightarrow> symbols \<Rightarrow> symbols option" where
  "put_symbol g is_mem dbg ln tbl = do {
     str \<leftarrow> DBG_LABEL dbg (ln_label_ref ln);
     m \<leftarrow> tbl;
     (_, m) \<leftarrow> hmap_put (g_calloc g) m str (Some \<lparr>b_label = str, b_is_mem_ref = is_mem, b_address = ln_address ln\<rparr>);
     Some (Some m)
   }"

fun put_mem_symbols :: "'w dbg_env \<Rightarrow> vm_debug_data_t \<Rightarrow> nat \<Rightarrow> u32 \<Rightarrow> symbols \<Rightarrow> symbols option" where
  "put_mem_symbols g dbg 0 i tbl = Some tbl"
| "put_mem_symbols g dbg (Suc k) i tbl = do {
     ln \<leftarrow> DBG_MEM_LINE dbg i;
     tbl \<leftarrow> put_symbol g True dbg ln tbl;
     put_mem_symbols g dbg k (i + 1) tbl
   }"

fun put_code_symbols :: "'w dbg_env \<Rightarrow> vm_debug_data_t \<Rightarrow> nat \<Rightarrow> u32 \<Rightarrow> symbols \<Rightarrow> symbols option" where
  "put_code_symbols g dbg 0 i tbl = Some tbl"
| "put_code_symbols g dbg (Suc k) i tbl = do {
     ln \<leftarrow> DBG_CODE_LINE dbg i;
     tbl \<leftarrow> (if sint (ln_label_ref ln) \<ge> 0 then put_symbol g False dbg ln tbl else Some tbl);
     put_code_symbols g dbg k (i + 1) tbl
   }"

definition setup_state :: "'w dbg_env \<Rightarrow> 'w vm_t \<Rightarrow> vm_debug_data_t option \<Rightarrow> 'w dbg_state_t option" where
  "setup_state g vm debug_data =
     (let st = \<lparr>st_vm = vm, st_data = debug_data, st_flags = 0, st_labels = None, breakpoints = None,
                st_nodes = Map.empty, brk_id_pool = 0, help_format_string = None, st_out = []\<rparr> in
      case debug_data of
        None \<Rightarrow> Some st
      | Some dbg \<Rightarrow> do {
          tbl \<leftarrow> put_mem_symbols g dbg (unat (n_mem_lines dbg)) 0 (hmap_create (g_calloc g));
          tbl \<leftarrow> put_code_symbols g dbg (unat (n_code_lines dbg)) 0 tbl;
          Some (st\<lparr>st_labels := tbl\<rparr>)
        })"

section \<open>Command lines\<close>

text \<open>White space at both ends of a line is cut off.\<close>

definition trim :: "string \<Rightarrow> string" where
  "trim s = rev (dropWhile isspace (rev (dropWhile isspace s)))"

text \<open>
  The loop is at \<open>c\<close> in the line \<open>b\<close>, of which \<open>k\<close> characters are left; \<open>argv\<close> are the starts
  of the words so far.
\<close>

fun split_words :: "nat \<Rightarrow> nat \<Rightarrow> string \<Rightarrow> bool \<Rightarrow> nat list \<Rightarrow> string \<times> nat list" where
  "split_words 0 c b reached_arg argv = (b, argv)"
| "split_words (Suc k) c b reached_arg argv =
     (if chr b c = NUL then (b, argv)
      else if isspace (chr b c) then split_words k (c + 1) (b[c := NUL]) True argv
      else if reached_arg then split_words k (c + 1) b False (argv @ [c])
      else split_words k (c + 1) b reached_arg argv)"

definition split_cmdline :: "string \<Rightarrow> string list" where
  "split_cmdline cmdline =
     (case split_words (length cmdline) 0 cmdline False [0] of (b, argv) \<Rightarrow> map (cstr b) argv)"

section \<open>Commands\<close>

datatype dbg_cmd = C_quit | C_help | C_sym | C_vm | C_db | C_dw | C_dd | C_dq | C_ds | C_brk | C_brks | C_brkd
  | C_run | C_n | C_cleanup | C_firev | C_yield | C_proc | C_bt | C_io | C_ch | C_disasm

record dbg_command_t =
  c_name :: string
  description :: string
  c_handler :: dbg_cmd

definition Commands :: "dbg_command_t list" where
  "Commands = map (\<lambda>(n, d, h). \<lparr>c_name = n, description = d, c_handler = h\<rparr>) [
     (''q'', ''quit the debugger'', C_quit),
     (''help'', ''show this message'', C_help),
     (''sym'', ''show symbols: sym [c|m]'', C_sym),
     (''vm'', ''show vm state'', C_vm),
     (''db'', ''dump byte'', C_db),
     (''dw'', ''dump word'', C_dw),
     (''dd'', ''dump doubleword'', C_dd),
     (''dq'', ''dump quadword'', C_dq),
     (''ds'', ''dump string'', C_ds),
     (''brk'', ''set breakpoint'', C_brk),
     (''brks'', ''show breakpoints'', C_brks),
     (''brkd'', ''delete breakpoint'', C_brkd),
     (''run'', ''run the program'', C_run),
     (''n'', ''execute next instn'', C_n),
     (''cleanup'', ''cleanup the vm state'', C_cleanup),
     (''firev'', ''fire events'', C_firev),
     (''yield'', ''yield procedure priority'', C_yield),
     (''proc'', ''show runnable procedures'', C_proc),
     (''bt'', ''show current procedure stack'', C_bt),
     (''io'', ''show i/o descriptors'', C_io),
     (''ch'', ''show children processes'', C_ch),
     (''disasm'', ''disassamble a code region'', C_disasm)]"

definition compare_dbg_commands :: "dbg_command_t \<Rightarrow> dbg_command_t \<Rightarrow> int" where
  "compare_dbg_commands a b = strcmp (c_name a) (c_name b)"

text \<open>The names are different, so that every sort makes the same table of them.\<close>

definition setup_commands :: "dbg_command_t list" where
  "setup_commands = sort_key c_name Commands"

definition dbg_quit :: "'w command" where
  "dbg_quit argv st = Some (- 1, say (''Exiting...'' @ newline) st)"

text \<open>The format string is made at the first call and kept; of it, the width is.\<close>

definition dbg_help :: "'w command" where
  "dbg_help argv st =
     (let st = (case help_format_string st of
                  None \<Rightarrow> st\<lparr>help_format_string := Some (fold (\<lambda>c m. max (length (c_name c)) m) setup_commands 0 + 1)\<rparr>
                | Some _ \<Rightarrow> st);
          width = (case help_format_string st of None \<Rightarrow> 0 | Some n \<Rightarrow> n)
      in Some (0, say (concat (map (\<lambda>c. pad (CHR 0x20) width (c_name c) @ tab @ description c @ newline) setup_commands)) st))"

fun run_command :: "'w dbg_env \<Rightarrow> dbg_cmd \<Rightarrow> 'w command" where
  "run_command g C_quit = dbg_quit"
| "run_command g C_help = dbg_help"
| "run_command g C_sym = dbg_show_symbols"
| "run_command g C_vm = dbg_show_vm g"
| "run_command g C_db = dbg_dump_byte"
| "run_command g C_dw = dbg_dump_word"
| "run_command g C_dd = dbg_dump_dword"
| "run_command g C_dq = dbg_dump_qword"
| "run_command g C_ds = dbg_dump_str"
| "run_command g C_brk = dbg_break g"
| "run_command g C_brks = dbg_show_breakpts"
| "run_command g C_brkd = dbg_break_delete"
| "run_command g C_run = dbg_run g"
| "run_command g C_n = dbg_step g"
| "run_command g C_cleanup = dbg_cleanup g"
| "run_command g C_firev = dbg_fire_events g"
| "run_command g C_yield = dbg_yield"
| "run_command g C_proc = dbg_procs"
| "run_command g C_bt = dbg_stack"
| "run_command g C_io = dbg_io"
| "run_command g C_ch = dbg_children"
| "run_command g C_disasm = dbg_disasm g"

definition find_command :: "string \<Rightarrow> dbg_cmd option" where
  "find_command s =
     map_option (\<lambda>i. c_handler (setup_commands ! i))
       (bsearch_loop (\<lambda>i. strcmp s (c_name (setup_commands ! i))) 0 (length setup_commands))"

definition exec_command :: "'w dbg_env \<Rightarrow> 'w command" where
  "exec_command g argv st =
     (case find_command (argv ! 0) of
        None \<Rightarrow> Some (0, say (''Unknown command: ['' @ argv ! 0 @ '']'' @ newline) st)
      | Some c \<Rightarrow> run_command g c argv st)"

section \<open>A session\<close>

definition print_init_message :: "'w dbg_state_t \<Rightarrow> 'w dbg_state_t" where
  "print_init_message st = say (
     ''BVGZ VM Debugger'' @ newline @
     ''Code: '' @ fmt_u 0 (unat (codesz (st_vm st))) @ '' bytes | Mem: '' @ fmt_u 0 (unat (memsz (st_vm st))) @ newline @
     (case st_data st of
        None \<Rightarrow> ''No debug symbols available'' @ newline
      | Some dbg \<Rightarrow>
          ''Code lines: '' @ fmt_u 0 (unat (n_code_lines dbg)) @ newline @
          ''Mem symbols: '' @ fmt_u 0 (unat (n_mem_lines dbg)) @ newline @
          ''Labels: '' @ fmt_u 0 (unat (n_labels dbg)) @ newline @
          ''Files: '' @ fmt_u 0 (unat (n_files dbg)) @ newline) @
     ''Type 'help' for a list of available commands'' @ newline) st"

text \<open>The lines are what \<open>readline\<close> returns until the end of the input; blank ones are passed over.\<close>

fun read_command :: "string list \<Rightarrow> (string \<times> string list) option" where
  "read_command [] = None"
| "read_command (l # ls) = (if trim l = [] then read_command ls else Some (trim l, ls))"

lemma read_command_shorter: "read_command ls = Some (c, ls') \<Longrightarrow> length ls' < length ls"
  by (induction ls) (auto split: if_splits)

function session :: "'w dbg_env \<Rightarrow> string list \<Rightarrow> 'w dbg_state_t \<Rightarrow> 'w dbg_state_t option" where
  "session g lines st =
     (case read_command lines of
        None \<Rightarrow> Some st
      | Some (cmd, rest) \<Rightarrow>
          (case exec_command g (split_cmdline cmd) st of
             None \<Rightarrow> None
           | Some (ret, st) \<Rightarrow> if ret < 0 then Some st else session g rest st))"
  by pat_completeness auto
termination
  by (relation "measure (\<lambda>(g, lines, st). length lines)") (auto dest: read_command_shorter)

declare session.simps [simp del]

text \<open>The breakpoints and the table of labels are freed at the end; what remains is the machine and the output.\<close>

definition cleanup_state :: "'w dbg_env \<Rightarrow> 'w dbg_state_t \<Rightarrow> 'w dbg_state_t option" where
  "cleanup_state g st = do {
     h \<leftarrow> list_destroy (breakpoints st) (st_nodes st);
     vm \<leftarrow> cleanup_vm (g_os g) (g_fuel g) (st_vm st);
     Some (st\<lparr>breakpoints := None, st_nodes := h, st_labels := None, st_vm := vm\<rparr>)
   }"

definition debug_vm :: "'w dbg_env \<Rightarrow> string list \<Rightarrow> 'w vm_t \<Rightarrow> vm_debug_data_t option \<Rightarrow> 'w dbg_state_t option" where
  "debug_vm g lines vm debug_data = do {
     st \<leftarrow> setup_state g vm debug_data;
     st \<leftarrow> session g lines (print_init_message st);
     cleanup_state g st
   }"

end
