(* ===== verification/DebugBreak.thy ===== *)
theory DebugBreak
  imports DebugExec RunQueue
begin

text \<open>
  What the debugger does to a program. The linked list of breakpoints implements a list, newest
  first; without breakpoints the debugger runs the program as the execution loop does, turn by
  turn.
\<close>

section \<open>The list of breakpoints\<close>

definition breaks_are :: "'w dbg_state_t \<Rightarrow> dbg_break_pt_t list \<Rightarrow> bool" where
  "breaks_are st bs \<longleftrightarrow> queue_is (breakpoints st, st_nodes st) bs"

text \<open>The abstract operations: the first element that passes a test, and the removal of an id.\<close>

fun first_index :: "('d \<Rightarrow> bool option) \<Rightarrow> 'd list \<Rightarrow> nat \<Rightarrow> nat option option" where
  "first_index P [] i = Some None"
| "first_index P (d # ds) i = do { b \<leftarrow> P d; if b then Some (Some i) else first_index P ds (i + 1) }"

fun first_hit :: "('d \<Rightarrow> bool option) \<Rightarrow> 'd list \<Rightarrow> 'd option option" where
  "first_hit P [] = Some None"
| "first_hit P (d # ds) = do { b \<leftarrow> P d; if b then Some (Some d) else first_hit P ds }"

fun remove_brk :: "u32 \<Rightarrow> dbg_break_pt_t list \<Rightarrow> dbg_break_pt_t list" where
  "remove_brk n [] = []"
| "remove_brk n (b # bs) = (if brk_id b = n then bs else b # remove_brk n bs)"

lemma find_node_chain:
  assumes "chain h xs ds" "i \<le> length xs"
  shows "find_node P (at xs i) h = map_option (map_option ((!) xs)) (first_index P (drop i ds) i)"
  using assms(2)
proof (induction "length xs - i" arbitrary: i)
  case 0
  then have "i = length xs" by simp
  moreover have "length ds = length xs" using assms(1) by (simp add: chain_def)
  ultimately show ?case by (simp add: find_node.simps)
next
  case (Suc k)
  then have i: "i < length xs" and l: "length ds = length xs" using assms(1) by (auto simp: chain_def)
  then have d: "drop i ds = ds ! i # drop (Suc i) ds" by (simp add: Cons_nth_drop_Suc)
  have IH: "find_node P (at xs (Suc i)) h = map_option (map_option ((!) xs)) (first_index P (drop (Suc i) ds) (Suc i))"
    by (rule Suc.hyps) (use Suc i in auto)
  have "find_node P (at xs i) h = do { found \<leftarrow> P (ds ! i); if found then Some (Some (xs ! i)) else find_node P (at xs (Suc i)) h }"
    by (subst find_node.simps) (simp add: i chainD [OF assms(1) i] node_at_def cong: if_cong)
  then show ?case by (cases "P (ds ! i)") (simp_all add: d IH)
qed

lemma first_index_bound: "first_index P ds i = Some (Some j) \<Longrightarrow> i \<le> j \<and> j < i + length ds \<and> P (ds ! (j - i)) = Some True"
proof (induction ds arbitrary: i)
  case Nil
  then show ?case by simp
next
  case (Cons d ds)
  from Cons.prems obtain b where b: "P d = Some b" by auto
  show ?case
  proof (cases b)
    case False
    with b Cons.prems have "first_index P ds (i + 1) = Some (Some j)" by simp
    from Cons.IH [OF this] have "i + 1 \<le> j" "j < i + 1 + length ds" "P (ds ! (j - (i + 1))) = Some True" by auto
    moreover then have "j - i = Suc (j - (i + 1))" by simp
    ultimately show ?thesis by simp
  qed (use b Cons.prems in auto)
qed

lemma first_hit_index: "first_hit P ds = map_option (map_option (\<lambda>j. ds ! (j - i))) (first_index P ds i)"
proof (induction ds arbitrary: i)
  case Nil
  then show ?case by simp
next
  case (Cons d ds)
  have "map_option (map_option (\<lambda>j. ds ! (j - (i + 1)))) (first_index P ds (i + 1)) =
      map_option (map_option (\<lambda>j. (d # ds) ! (j - i))) (first_index P ds (i + 1))"
  proof (cases "first_index P ds (i + 1)")
    case (Some r)
    show ?thesis
    proof (cases r)
      case (Some j)
      then have "i + 1 \<le> j" using first_index_bound [of P ds "i + 1" j] \<open>first_index P ds (i + 1) = Some r\<close> by simp
      then have "j - i = Suc (j - (i + 1))" by simp
      with Some \<open>first_index P ds (i + 1) = Some r\<close> show ?thesis by simp
    qed (use Some in simp)
  qed simp
  with Cons.IH [of "i + 1"] show ?case by (cases "P d") simp_all
qed

lemma remove_brk_index:
  "first_index (\<lambda>b. Some (brk_id b = n)) bs i = Some r \<Longrightarrow>
     remove_brk n bs = (case r of None \<Rightarrow> bs | Some j \<Rightarrow> delete_at (j - i) bs)"
proof (induction bs arbitrary: i)
  case Nil
  then show ?case by auto
next
  case (Cons b bs)
  show ?case
  proof (cases "brk_id b = n")
    case True
    with Cons.prems show ?thesis by (auto simp: delete_at_def)
  next
    case False
    with Cons.prems have p: "first_index (\<lambda>b. Some (brk_id b = n)) bs (i + 1) = Some r" by simp
    show ?thesis
    proof (cases r)
      case None
      with Cons.IH [OF p] False show ?thesis by simp
    next
      case (Some j)
      then have "i + 1 \<le> j" using first_index_bound [OF p [unfolded Some]] by simp
      then have "j - i = Suc (j - (i + 1))" by simp
      with Cons.IH [OF p] Some False show ?thesis by (simp add: delete_at_def)
    qed
  qed
qed

lemma chain_free: "chain h xs ds \<Longrightarrow> a \<notin> set xs \<Longrightarrow> chain (h(a := v)) xs ds"
  by (auto simp: chain_def in_set_conv_nth)

lemma attach_ok:
  assumes b: "breaks_are st bs" and m: "g_malloc g (st_nodes st) \<notin> dom (st_nodes st)"
  shows "\<exists>p h. create_and_attach_breakpoint g pt st =
      Some (st\<lparr>brk_id_pool := brk_id_pool st + 1, st_nodes := h, breakpoints := p\<rparr>) \<and>
    queue_is (p, h) (\<lparr>brk_id = brk_id_pool st, brk_point = pt\<rparr> # bs)"
proof -
  let ?a = "g_malloc g (st_nodes st)" and ?d = "\<lparr>brk_id = brk_id_pool st, brk_point = pt\<rparr>"
  obtain xs where xs: "chain (st_nodes st) xs bs" "breakpoints st = at xs 0"
    using b by (auto simp: breaks_are_def queue_is_def)
  have a: "?a \<notin> set xs" using chain_addr [OF xs(1)] m by blast
  obtain h where h: "list_make_node ?a ?d (st_nodes st) = (?a, h)" by (simp add: list_make_node_def)
  then have ha: "h ?a = Some \<lparr>nd_prev = None, nd_next = None, nd_data = ?d\<rparr>" and c: "chain h xs bs"
    using chain_free [OF xs(1) a] by (auto simp: list_make_node_def)
  show ?thesis
  proof (cases "xs = []")
    case True
    then have "bs = []" using xs(1) by (simp add: chain_def)
    moreover have "chain h [?a] [?d]" using chain_singleton [of ?a ?d "st_nodes st"] h by simp
    ultimately show ?thesis using True h xs(2)
      by (intro exI [of _ "Some ?a"] exI [of _ h])
        (auto simp: create_and_attach_breakpoint_def list_prepend_def queue_is_def intro!: exI [of _ "[?a]"])
  next
    case False
    from list_prepend_chain [OF c, of 0, OF _ ha a] False obtain h' where
      "list_prepend (Some (xs ! 0)) ?a h = Some (Some ?a, h')" "chain h' (?a # xs) (?d # bs)"
      by (auto simp: insert_at_def)
    then show ?thesis using False h xs(2)
      by (intro exI [of _ "Some ?a"] exI [of _ h'])
        (auto simp: create_and_attach_breakpoint_def queue_is_def intro!: exI [of _ "?a # xs"])
  qed
qed

lemma hit_ok:
  assumes "breaks_are st bs"
  shows "has_hit_breakpoint defs instn st = first_hit (brk_hit defs instn (st_vm st)) bs"
proof -
  let ?P = "brk_hit defs instn (st_vm st)"
  obtain xs where xs: "chain (st_nodes st) xs bs" "breakpoints st = at xs 0"
    using assms by (auto simp: breaks_are_def queue_is_def)
  have l: "length bs = length xs" using xs(1) by (simp add: chain_def)
  have f: "find_node ?P (breakpoints st) (st_nodes st) = map_option (map_option ((!) xs)) (first_index ?P bs 0)"
    using find_node_chain [OF xs(1), of 0 ?P] xs(2) by simp
  show ?thesis
  proof (cases "first_index ?P bs 0")
    case None
    then show ?thesis using f by (simp add: has_hit_breakpoint_def first_hit_index [of ?P bs 0])
  next
    case (Some r)
    show ?thesis
    proof (cases r)
      case None
      with Some show ?thesis using f by (simp add: has_hit_breakpoint_def first_hit_index [of ?P bs 0])
    next
      case (Some j)
      then have "j < length xs" using first_index_bound [of ?P bs 0 j] \<open>first_index ?P bs 0 = Some r\<close> l by simp
      with Some \<open>first_index ?P bs 0 = Some r\<close> show ?thesis
        using f chainD [OF xs(1)] by (simp add: has_hit_breakpoint_def first_hit_index [of ?P bs 0] node_at_def)
    qed
  qed
qed

lemma delete_ok:
  assumes "breaks_are st bs" and "parse_uint arg 10 = n" "n \<noteq> - 1"
  shows "\<exists>st'. dbg_break_delete [cmd, arg] st = Some (0, st') \<and> breaks_are st' (remove_brk n bs) \<and> st_vm st' = st_vm st"
proof -
  let ?P = "\<lambda>b. Some (brk_id b = n)"
  obtain xs where xs: "chain (st_nodes st) xs bs" "breakpoints st = at xs 0"
    using assms(1) by (auto simp: breaks_are_def queue_is_def)
  have l: "length bs = length xs" using xs(1) by (simp add: chain_def)
  have f: "find_node ?P (breakpoints st) (st_nodes st) = map_option (map_option ((!) xs)) (first_index ?P bs 0)"
    using find_node_chain [OF xs(1), of 0 ?P] xs(2) by simp
  have "\<exists>r. first_index ?P bs i = Some r" for i
    by (induction bs arbitrary: i) auto
  then obtain r where r: "first_index ?P bs 0 = Some r" by blast
  show ?thesis
  proof (cases r)
    case None
    then show ?thesis using f r remove_brk_index [OF r] assms
      by (auto simp: dbg_break_delete_def breaks_are_def say_def)
  next
    case (Some j)
    then have j: "j < length xs" using first_index_bound [of ?P bs 0 j] r l by simp
    obtain h where h: "list_unlink (xs ! j) (st_nodes st) = Some h" "chain h (delete_at j xs) (delete_at j bs)"
      using list_unlink_chain [OF xs(1) j] by blast
    have nin: "xs ! j \<notin> set (delete_at j xs)"
      using chain_distinct [OF xs(1)] id_take_nth_drop [OF j] by (metis Un_iff delete_at_def not_distinct_conv_prefix distinct_append distinct.simps(2) set_append Int_iff empty_iff list.set_intros(1))
    have c: "chain (h(xs ! j := None)) (delete_at j xs) (delete_at j bs)" by (rule chain_free [OF h(2) nin])
    have hd: "(if breakpoints st = Some (xs ! j) then nd_next (node_at xs bs j) else breakpoints st) = at (delete_at j xs) 0"
    proof (cases j)
      case 0
      then show ?thesis using xs(2) j by (auto simp: node_at_def at_def delete_at_def)
    next
      case (Suc k)
      have "0 < length xs" using j by linarith
      then have "xs ! 0 \<noteq> xs ! j" using chain_nth_eq [OF xs(1) _ j, of 0] Suc by simp
      then show ?thesis using xs(2) j Suc by (auto simp: at_def delete_at_def nth_append)
    qed
    show ?thesis
      using f r Some j h(1) c hd remove_brk_index [OF r] assms(2,3) chainD [OF xs(1) j]
      by (auto simp: dbg_break_delete_def breaks_are_def queue_is_def Let_def)
  qed
qed

section \<open>Running without breakpoints\<close>

definition os_turn :: "'w dbg_env \<Rightarrow> instn_t \<Rightarrow> 'w vm_t \<Rightarrow> (bool \<times> instn_t \<times> 'w vm_t) option" where
  "os_turn g = exec_turn (g_os g) (g_fuel g) (g_defs g)"

lemma set_vm_simps [simp]:
  "st_vm (set_vm vm st) = vm" "set_vm vm (set_vm vm' st) = set_vm vm st" "set_vm (st_vm st) st = st"
  "breakpoints (set_vm vm st) = breakpoints st"
  by (simp_all add: set_vm_def)

lemma no_hit: "breakpoints st = None \<Longrightarrow> has_hit_breakpoint defs instn st = Some None"
  by (simp add: has_hit_breakpoint_def find_node.simps)

text \<open>A turn of the debugger is a turn of the loop, its result telling more.\<close>

lemma step_decoded_exec:
  assumes "breakpoints st = None"
  shows "step_decoded g c instn st = do {
    (x, vm) \<leftarrow> vm_exec_instn (g_os g) (g_fuel g) (g_defs g) instn (st_vm st);
    if x < 0 then Some (0, instn, set_vm vm st)
    else do { vm \<leftarrow> after_instn (g_os g) (g_fuel g) vm; Some (1, instn, set_vm vm st) }
  }"
  using no_hit [OF assms] by (simp add: step_decoded_def)

lemma step_turn_sound:
  assumes "breakpoints st = None" "step_turn g c i st = Some (r, i', st')"
  shows "os_turn g i (st_vm st) = Some (r \<noteq> Some 0, i', st_vm st') \<and> st' = set_vm (st_vm st') st \<and>
    (r = None \<or> r = Some 0 \<or> r = Some 1)"
proof -
  obtain n vm1 where e: "(if procedures (st_vm st) = [] then vm_fire_events (g_os g) (g_fuel g) (st_vm st)
      else Some (1, st_vm st)) = Some (n, vm1)"
    using assms(2) by (auto simp: step_turn_def)
  consider "n < 0" | "n = 0" | "0 < n" by linarith
  then show ?thesis
  proof cases
    case 3
    then obtain p vm2 where p: "vm_current_procedure vm1 = Some (p, vm2)"
      using assms(2) e by (auto simp: step_turn_def)
    show ?thesis
    proof (cases p)
      case None
      then show ?thesis using assms(2) e p 3 by (auto simp: step_turn_def os_turn_def exec_turn_def)
    next
      case (Some q)
      then obtain d i1 vm3 where d: "vm_decode_instn (g_defs g) q i vm2 = Some (d, i1, vm3)"
        using assms(2) e p 3 by (auto simp: step_turn_def)
      show ?thesis
      proof (cases "d < 0")
        case True
        then show ?thesis using assms(2) e p 3 Some d
          by (auto simp: step_turn_def os_turn_def exec_turn_def exec_current_def)
      next
        case False
        note sd = step_decoded_exec [of "set_vm vm3 st" g c i1]
        obtain x vm4 where x: "vm_exec_instn (g_os g) (g_fuel g) (g_defs g) i1 vm3 = Some (x, vm4)"
          using assms e p 3 Some d False sd by (auto simp: step_turn_def)
        show ?thesis
        proof (cases "x < 0")
          case True
          then show ?thesis using assms e p 3 Some d False sd x
            by (auto simp: step_turn_def os_turn_def exec_turn_def exec_current_def)
        next
          case xge: False
          then show ?thesis using assms e p 3 Some d False sd x
            by (auto simp: step_turn_def os_turn_def exec_turn_def exec_current_def)
        qed
      qed
    qed
  qed (use assms(2) e in \<open>auto simp: step_turn_def os_turn_def exec_turn_def\<close>)
qed

lemma step_turn_defined:
  assumes "breakpoints st = None" "os_turn g i (st_vm st) = Some (go, i', vm')"
  shows "\<exists>t. step_turn g c i st = Some t"
proof -
  obtain n vm1 where e: "(if procedures (st_vm st) = [] then vm_fire_events (g_os g) (g_fuel g) (st_vm st)
      else Some (1, st_vm st)) = Some (n, vm1)"
    using assms(2) by (auto simp: os_turn_def exec_turn_def)
  consider "n < 0" | "n = 0" | "0 < n" by linarith
  then show ?thesis
  proof cases
    case 3
    then obtain p vm2 where p: "vm_current_procedure vm1 = Some (p, vm2)"
      using assms(2) e by (auto simp: os_turn_def exec_turn_def)
    show ?thesis
    proof (cases p)
      case None
      then show ?thesis using e p 3 by (simp add: step_turn_def)
    next
      case (Some q)
      then have x: "exec_current (g_os g) (g_fuel g) (g_defs g) q i vm2 = Some (go, i', vm')"
        using assms(2) e p 3 by (simp add: os_turn_def exec_turn_def)
      then obtain d i1 vm3 where d: "vm_decode_instn (g_defs g) q i vm2 = Some (d, i1, vm3)"
        by (auto simp: exec_current_def)
      show ?thesis
      proof (cases "d < 0")
        case True
        then show ?thesis using e p 3 Some d by (simp add: step_turn_def)
      next
        case False
        obtain y vm4 where y: "vm_exec_instn (g_os g) (g_fuel g) (g_defs g) i1 vm3 = Some (y, vm4)"
            "y < 0 \<or> (\<exists>vm5. after_instn (g_os g) (g_fuel g) vm4 = Some vm5)"
          using x d False by (auto simp: exec_current_def split: if_splits)
        then have "\<exists>t. step_decoded g c i1 (set_vm vm3 st) = Some t"
          using step_decoded_exec [of "set_vm vm3 st" g c i1] assms(1) by (cases "y < 0") auto
        then show ?thesis using e p 3 Some d False by (auto simp: step_turn_def)
      qed
    qed
  qed (use e in \<open>simp_all add: step_turn_def\<close>)
qed

lemma step_turn_complete:
  assumes "breakpoints st = None" "os_turn g i (st_vm st) = Some (go, i', vm')"
  shows "\<exists>r. step_turn g c i st = Some (r, i', set_vm vm' st) \<and> (go \<longleftrightarrow> r \<noteq> Some 0) \<and> (r = None \<or> r = Some 0 \<or> r = Some 1)"
proof -
  obtain r i1 st' where t: "step_turn g c i st = Some (r, i1, st')"
    using step_turn_defined [OF assms] by (metis prod_cases3)
  from step_turn_sound [OF assms(1) t] assms(2) t show ?thesis by auto
qed

lemma step_turn_same:
  assumes "breakpoints st = None"
  shows "map_option (\<lambda>(r, i', st'). (r \<noteq> Some 0, i', st_vm st')) (step_turn g c i st) = os_turn g i (st_vm st)"
proof (cases "os_turn g i (st_vm st)")
  case None
  have "step_turn g c i st = None"
  proof (rule ccontr)
    assume "step_turn g c i st \<noteq> None"
    then obtain r i' st' where "step_turn g c i st = Some (r, i', st')" by (metis option.exhaust prod_cases3)
    from step_turn_sound [OF assms this] None show False by simp
  qed
  with None show ?thesis by simp
next
  case (Some t)
  obtain go i' vm' where "t = (go, i', vm')" by (cases t)
  with step_turn_complete [OF assms, of g i go i' vm' c] Some show ?thesis by auto
qed

text \<open>The two loops, one turn at a time.\<close>

lemma run_steps_turn:
  assumes "step_turn g True i st = Some (r, j, st')" "r = None \<or> r = Some 1"
  shows "run_steps g i st = run_steps g j st'"
  using assms(2)
proof
  assume "r = None"
  then have "step_program g True i st = step_program g True j st'"
    using assms(1) by (subst step_program.simps) simp
  then show ?thesis by (subst (1 2) run_steps.simps) simp
next
  assume "r = Some 1"
  then have "step_program g True i st = Some (1, j, st')"
    using assms(1) by (subst step_program.simps) simp
  then show ?thesis by (subst run_steps.simps) simp
qed

lemma run_steps_go:
  assumes "breakpoints st = None" "goes_on (os_turn g) (i, st_vm st) (i', vm')"
  shows "run_steps g i st = run_steps g i' (set_vm vm' st)"
proof -
  from assms obtain r where "step_turn g True i st = Some (r, i', set_vm vm' st)" "r = None \<or> r = Some 1"
    using step_turn_complete [of st g i True i' vm' True] by (auto simp: goes_on_def)
  then show ?thesis by (rule run_steps_turn)
qed

lemma run_steps_stop:
  assumes "breakpoints st = None" "os_turn g i (st_vm st) = Some (False, i', vm')"
  shows "run_steps g i st = Some (0, i', set_vm vm' st)"
proof -
  have "step_turn g True i st = Some (Some 0, i', set_vm vm' st)"
    using step_turn_complete [OF assms, of True] by auto
  then have "step_program g True i st = Some (0, i', set_vm vm' st)" by (subst step_program.simps) simp
  then show ?thesis by (subst run_steps.simps) simp
qed

lemma run_steps_through:
  "(goes_on (os_turn g))\<^sup>*\<^sup>* (i, st_vm st) b \<Longrightarrow> breakpoints st = None \<Longrightarrow>
     run_steps g i st = run_steps g (fst b) (set_vm (snd b) st)"
proof (induction "(i, st_vm st)" arbitrary: i st rule: converse_rtranclp_induct)
  case base
  then show ?case by simp
next
  case (step z)
  obtain j vm where z: "z = (j, vm)" by fastforce
  have "run_steps g i st = run_steps g j (set_vm vm st)"
    using run_steps_go [OF step.prems] step.hyps(1) z by blast
  also have "\<dots> = run_steps g (fst b) (set_vm (snd b) st)"
    using step.hyps(3) [of j "set_vm vm st"] z step.prems by simp
  finally show ?case .
qed

lemma run_steps_complete:
  assumes "breakpoints st = None" "run_loop (os_turn g) i (st_vm st) = Some (i', vm')"
  shows "run_steps g i st = Some (0, i', set_vm vm' st)"
proof -
  from run_loop_sound [OF assms(2)] obtain b where
    b: "(goes_on (os_turn g))\<^sup>*\<^sup>* (i, st_vm st) b" "os_turn g (fst b) (snd b) = Some (False, i', vm')" by auto
  have "run_steps g (fst b) (set_vm (snd b) st) = Some (0, i', set_vm vm' st)"
    using run_steps_stop [of "set_vm (snd b) st" g "fst b" i' vm'] assms(1) b(2) by simp
  with run_steps_through [OF b(1) assms(1)] show ?thesis by simp
qed

lemma step_program_sound:
  "step_program g c i st = Some r \<Longrightarrow> breakpoints st = None \<Longrightarrow>
     \<exists>b. (goes_on (os_turn g))\<^sup>*\<^sup>* (i, st_vm st) b \<and>
       step_turn g c (fst b) (set_vm (snd b) st) = Some (Some (fst r), snd r)"
proof (erule step_program.raw_induct [rotated, where P = "\<lambda>g c i st r. breakpoints st = None \<longrightarrow>
     (\<exists>b. (goes_on (os_turn g))\<^sup>*\<^sup>* (i, st_vm st) b \<and>
       step_turn g c (fst b) (set_vm (snd b) st) = Some (Some (fst r), snd r))", THEN mp])
  fix loop and g :: "'w dbg_env" and c i st r
  assume IH: "\<And>g c i st r. loop g c i st = Some r \<Longrightarrow> breakpoints st = None \<longrightarrow>
     (\<exists>b. (goes_on (os_turn g))\<^sup>*\<^sup>* (i, st_vm st) b \<and>
       step_turn g c (fst b) (set_vm (snd b) st) = Some (Some (fst r), snd r))"
    and l: "do { (r, i, st) \<leftarrow> step_turn g c i st;
        case r of None \<Rightarrow> loop g c i st | Some r \<Rightarrow> Some (r, i, st) } = Some r"
  show "breakpoints st = None \<longrightarrow> (\<exists>b. (goes_on (os_turn g))\<^sup>*\<^sup>* (i, st_vm st) b \<and>
       step_turn g c (fst b) (set_vm (snd b) st) = Some (Some (fst r), snd r))"
  proof
    assume b: "breakpoints st = None"
    obtain r1 i1 st1 where t: "step_turn g c i st = Some (r1, i1, st1)"
      and l1: "(case r1 of None \<Rightarrow> loop g c i1 st1 | Some r \<Rightarrow> Some (r, i1, st1)) = Some r" using l by auto
    note s = step_turn_sound [OF b t]
    show "\<exists>b. (goes_on (os_turn g))\<^sup>*\<^sup>* (i, st_vm st) b \<and>
       step_turn g c (fst b) (set_vm (snd b) st) = Some (Some (fst r), snd r)"
    proof (cases r1)
      case None
      then have "loop g c i1 st1 = Some r" using l1 by simp
      from IH [OF this] s b obtain d where d: "(goes_on (os_turn g))\<^sup>*\<^sup>* (i1, st_vm st1) d"
          "step_turn g c (fst d) (set_vm (snd d) st1) = Some (Some (fst r), snd r)"
        by (metis set_vm_simps(4))
      have "goes_on (os_turn g) (i, st_vm st) (i1, st_vm st1)" using s None by (simp add: goes_on_def)
      moreover have "set_vm (snd d) st1 = set_vm (snd d) st" using s by (metis set_vm_simps(2))
      ultimately show ?thesis using d by (metis converse_rtranclp_into_rtranclp)
    next
      case (Some q)
      then show ?thesis using l1 t by (intro exI [of _ "(i, st_vm st)"]) auto
    qed
  qed
qed

lemma step_program_result:
  assumes "step_program g c i st = Some (r, i', st')" "breakpoints st = None"
  shows "\<exists>b. (goes_on (os_turn g))\<^sup>*\<^sup>* (i, st_vm st) b \<and> os_turn g (fst b) (snd b) = Some (r \<noteq> 0, i', st_vm st') \<and>
    st' = set_vm (st_vm st') st \<and> (r = 0 \<or> r = 1)"
proof -
  from step_program_sound [OF assms] obtain b where b: "(goes_on (os_turn g))\<^sup>*\<^sup>* (i, st_vm st) b"
      "step_turn g c (fst b) (set_vm (snd b) st) = Some (Some r, i', st')" by auto
  from step_turn_sound [OF _ b(2)] assms(2) have t:
    "os_turn g (fst b) (snd b) = Some (r \<noteq> 0, i', st_vm st')" "st' = set_vm (st_vm st') (set_vm (snd b) st)" "r = 0 \<or> r = 1"
    by auto
  from t(2) have "st' = set_vm (st_vm st') st" by (metis set_vm_simps(2))
  with b(1) t(1,3) show ?thesis by blast
qed

lemma run_steps_sound:
  "run_steps g i st = Some r \<Longrightarrow> breakpoints st = None \<Longrightarrow>
     \<exists>b. (goes_on (os_turn g))\<^sup>*\<^sup>* (i, st_vm st) b \<and>
       os_turn g (fst b) (snd b) = Some (False, fst (snd r), st_vm (snd (snd r))) \<and>
       fst r = 0 \<and> snd (snd r) = set_vm (st_vm (snd (snd r))) st"
proof (erule run_steps.raw_induct [rotated, where P = "\<lambda>g i st r. breakpoints st = None \<longrightarrow>
     (\<exists>b. (goes_on (os_turn g))\<^sup>*\<^sup>* (i, st_vm st) b \<and>
       os_turn g (fst b) (snd b) = Some (False, fst (snd r), st_vm (snd (snd r))) \<and>
       fst r = 0 \<and> snd (snd r) = set_vm (st_vm (snd (snd r))) st)", THEN mp])
  fix loop and g :: "'w dbg_env" and i st r
  assume IH: "\<And>g i st r. loop g i st = Some r \<Longrightarrow> breakpoints st = None \<longrightarrow>
     (\<exists>b. (goes_on (os_turn g))\<^sup>*\<^sup>* (i, st_vm st) b \<and>
       os_turn g (fst b) (snd b) = Some (False, fst (snd r), st_vm (snd (snd r))) \<and>
       fst r = 0 \<and> snd (snd r) = set_vm (st_vm (snd (snd r))) st)"
    and l: "do { (r, i, st) \<leftarrow> step_program g True i st;
        if r = 0 \<or> r = 2 then Some (r, i, st) else loop g i st } = Some r"
  show "breakpoints st = None \<longrightarrow> (\<exists>b. (goes_on (os_turn g))\<^sup>*\<^sup>* (i, st_vm st) b \<and>
       os_turn g (fst b) (snd b) = Some (False, fst (snd r), st_vm (snd (snd r))) \<and>
       fst r = 0 \<and> snd (snd r) = set_vm (st_vm (snd (snd r))) st)"
  proof
    assume n: "breakpoints st = None"
    obtain r1 i1 st1 where t: "step_program g True i st = Some (r1, i1, st1)"
      and l1: "(if r1 = 0 \<or> r1 = 2 then Some (r1, i1, st1) else loop g i1 st1) = Some r" using l by auto
    from step_program_result [OF t n] obtain b where b: "(goes_on (os_turn g))\<^sup>*\<^sup>* (i, st_vm st) b"
        "os_turn g (fst b) (snd b) = Some (r1 \<noteq> 0, i1, st_vm st1)" "st1 = set_vm (st_vm st1) st" "r1 = 0 \<or> r1 = 1" by blast
    show "\<exists>b. (goes_on (os_turn g))\<^sup>*\<^sup>* (i, st_vm st) b \<and>
       os_turn g (fst b) (snd b) = Some (False, fst (snd r), st_vm (snd (snd r))) \<and>
       fst r = 0 \<and> snd (snd r) = set_vm (st_vm (snd (snd r))) st"
      using b(4)
    proof
      assume "r1 = 0"
      with l1 b show ?thesis by (intro exI [of _ b]) auto
    next
      assume r1: "r1 = 1"
      then have "loop g i1 st1 = Some r" using l1 by simp
      moreover have "breakpoints st1 = None" using b(3) n by (metis set_vm_simps(4))
      ultimately obtain d where d: "(goes_on (os_turn g))\<^sup>*\<^sup>* (i1, st_vm st1) d"
          "os_turn g (fst d) (snd d) = Some (False, fst (snd r), st_vm (snd (snd r)))"
          "fst r = 0" "snd (snd r) = set_vm (st_vm (snd (snd r))) st1"
        using IH by blast
      have "goes_on (os_turn g) b (i1, st_vm st1)" using b(2) r1 by (simp add: goes_on_def)
      then have "(goes_on (os_turn g))\<^sup>*\<^sup>* (i, st_vm st) d" using b(1) d(1) by auto
      moreover have "snd (snd r) = set_vm (st_vm (snd (snd r))) st" using d(4) b(3) by (metis set_vm_simps(2))
      ultimately show ?thesis using d(2,3) by blast
    qed
  qed
qed

lemma run_steps_run_loop:
  assumes "breakpoints st = None"
  shows "run_steps g i st = map_option (\<lambda>(i', vm'). (0, i', set_vm vm' st)) (run_loop (os_turn g) i (st_vm st))"
proof (cases "run_loop (os_turn g) i (st_vm st)")
  case (Some r)
  then show ?thesis using run_steps_complete [OF assms, of g i "fst r" "snd r"] by (cases r) simp
next
  case None
  have "run_steps g i st = None"
  proof (rule ccontr)
    assume "run_steps g i st \<noteq> None"
    then obtain r where r: "run_steps g i st = Some r" by blast
    from run_steps_sound [OF r assms] obtain b where b: "(goes_on (os_turn g))\<^sup>*\<^sup>* (i, st_vm st) b"
        "os_turn g (fst b) (snd b) = Some (False, fst (snd r), st_vm (snd (snd r)))" by blast
    from run_loop_complete [OF b] None show False by simp
  qed
  with None show ?thesis by simp
qed

lemma dbg_run_exits:
  assumes "breakpoints st = None"
  shows "dbg_run g argv st = map_option (\<lambda>(i', vm'). (0, say (''program exited'' @ newline) (st\<lparr>st_vm := vm', st_flags := 0\<rparr>)))
    (run_loop (os_turn g) (g_junk g) (st_vm st))"
proof -
  have "breakpoints (st\<lparr>st_flags := F_RUNNING\<rparr>) = None" using assms by simp
  from run_steps_run_loop [OF this] show ?thesis
    by (cases "run_loop (os_turn g) (g_junk g) (st_vm st)") (auto simp: dbg_run_def set_vm_def F_RUNNING_def)
qed

section \<open>Properties\<close>

text \<open>
  C13. The linked list of breakpoints is a list, newest first: setting one puts it in front with
  the next number, deleting one takes the first of that number away, and what is hit is the first
  that applies.
\<close>

lemma breakpoints_refine:
  assumes "breaks_are st bs" "g_malloc g (st_nodes st) \<notin> dom (st_nodes st)" "parse_uint arg 10 = n" "n \<noteq> - 1"
  shows "(\<exists>st'. create_and_attach_breakpoint g pt st = Some st' \<and>
      breaks_are st' (\<lparr>brk_id = brk_id_pool st, brk_point = pt\<rparr> # bs) \<and> brk_id_pool st' = brk_id_pool st + 1) \<and>
    (\<exists>st'. dbg_break_delete [cmd, arg] st = Some (0, st') \<and> breaks_are st' (remove_brk n bs)) \<and>
    has_hit_breakpoint defs instn st = first_hit (brk_hit defs instn (st_vm st)) bs"
proof -
  obtain p h where a: "create_and_attach_breakpoint g pt st =
      Some (st\<lparr>brk_id_pool := brk_id_pool st + 1, st_nodes := h, breakpoints := p\<rparr>)"
      "queue_is (p, h) (\<lparr>brk_id = brk_id_pool st, brk_point = pt\<rparr> # bs)"
    using attach_ok [OF assms(1,2)] by blast
  then have "\<exists>st'. create_and_attach_breakpoint g pt st = Some st' \<and>
      breaks_are st' (\<lparr>brk_id = brk_id_pool st, brk_point = pt\<rparr> # bs) \<and> brk_id_pool st' = brk_id_pool st + 1"
    by (simp add: breaks_are_def)
  moreover have "\<exists>st'. dbg_break_delete [cmd, arg] st = Some (0, st') \<and> breaks_are st' (remove_brk n bs)"
    using delete_ok [OF assms(1,3,4)] by blast
  ultimately show ?thesis using hit_ok [OF assms(1)] by blast
qed

definition demo_env :: "unit dbg_env" where
  "demo_env = \<lparr>g_os = demo_os, g_fuel = 0, g_defs = std_defs, g_calloc = (\<lambda>_. True), g_malloc = (\<lambda>_. 7),
     g_strerror = (\<lambda>_. []), g_junk = no_instn\<rparr>"

definition demo_state :: "unit dbg_state_t" where
  "demo_state = \<lparr>st_vm = ret_vm, st_data = None, st_flags = 0, st_labels = None, breakpoints = None,
     st_nodes = Map.empty, brk_id_pool = 0, help_format_string = None, st_out = []\<rparr>"

lemma demo_breaks: "breaks_are demo_state []"
  by (auto simp: breaks_are_def queue_is_def chain_def demo_state_def at_def intro!: exI [of _ "[]"])

lemma breakpoints_refine_witness:
  "(\<exists>st'. create_and_attach_breakpoint demo_env (BRK_Address 0) demo_state = Some st' \<and>
      breaks_are st' [\<lparr>brk_id = 0, brk_point = BRK_Address 0\<rparr>]) \<and>
    (\<exists>st'. dbg_break_delete [''brkd'', ''5''] demo_state = Some (0, st') \<and> breaks_are st' [])"
proof -
  have n: "parse_uint ''5'' 10 = 5" 
    by (simp add: parse_uint_def strtoull_def isspace_def base_prefix_def chr_def digits_of_def digit_val_def
        number_of_def NUL_def)
  have m: "g_malloc demo_env (st_nodes demo_state) \<notin> dom (st_nodes demo_state)" by (simp add: demo_state_def)
  have five: "(5 :: u32) \<noteq> - 1" by simp
  have pool: "brk_id_pool demo_state = 0" by (simp add: demo_state_def)
  show ?thesis
    using breakpoints_refine [OF demo_breaks m n five, of "BRK_Address 0" "''brkd''"]
    unfolding pool remove_brk.simps by blast
qed

end
