(* ===== verification/DebugSession.thy ===== *)
theory DebugSession
  imports DebugShell DebugBreak DebugCorrect
begin

text \<open>
  Sessions of the debugger: which command a line runs and with which arguments, that \<open>run\<close>
  alone does what the machine does without the debugger, and that the symbols of an assembled
  program lead to its instructions and its memory.
\<close>

section \<open>The dispatch\<close>

definition command_table :: "(string \<times> dbg_cmd) list" where
  "command_table = map (\<lambda>c. (c_name c, c_handler c)) Commands"

lemma command_names_distinct: "distinct (map fst command_table)"
  by code_simp

lemma find_command_names: "\<forall>(s, h) \<in> set command_table. find_command s = Some h"
  by code_simp

lemma find_command_table: "find_command s = map_of command_table s"
proof (cases "find_command s")
  case (Some h)
  then obtain i where i: "bsearch_loop (\<lambda>i. strcmp s (c_name (setup_commands ! i))) 0 (length setup_commands) = Some i"
      "h = c_handler (setup_commands ! i)"
    by (auto simp: find_command_def)
  from bsearch_loop_Some [OF i(1)] have "i < length setup_commands" "c_name (setup_commands ! i) = s" by auto
  then have "setup_commands ! i \<in> set Commands" by (metis nth_mem set_sort setup_commands_def)
  then have "(s, h) \<in> set command_table" using i(2) \<open>c_name _ = s\<close> by (force simp: command_table_def)
  with Some command_names_distinct show ?thesis by simp
next
  case None
  then have "s \<notin> fst ` set command_table" using find_command_names by force
  then have "map_of command_table s = None" by (simp add: map_of_eq_None_iff)
  with None show ?thesis by simp
qed

text \<open>
  C17. A line runs the command whose name is its first word, and nothing else: the binary search
  in the sorted table is the table.
\<close>

lemma exec_command_dispatches:
  "exec_command g argv st =
    (case map_of command_table (argv ! 0) of
       None \<Rightarrow> Some (0, say (''Unknown command: ['' @ argv ! 0 @ '']'' @ newline) st)
     | Some h \<Rightarrow> run_command g h argv st)"
  by (simp add: exec_command_def find_command_table)

section \<open>Words\<close>

definition line_word :: "string \<Rightarrow> bool" where
  "line_word x \<longleftrightarrow> x \<noteq> [] \<and> (\<forall>c \<in> set x. c \<noteq> NUL \<and> \<not> isspace c)"

definition blanks :: "string \<Rightarrow> bool" where
  "blanks s \<longleftrightarrow> s \<noteq> [] \<and> (\<forall>c \<in> set s. isspace c)"

lemma isspace_NUL: "\<not> isspace NUL"
  by (simp add: isspace_def NUL_def)

lemma split_over_word:
  assumes "\<forall>c \<in> set x. c \<noteq> NUL \<and> \<not> isspace c"
  shows "split_words (length x + k) (length pre) (pre @ x @ post) False argv =
    split_words k (length (pre @ x)) (pre @ x @ post) False argv"
  using assms
proof (induction x arbitrary: pre)
  case Nil
  then show ?case by simp
next
  case (Cons c x)
  have "split_words (length (c # x) + k) (length pre) (pre @ (c # x) @ post) False argv =
      split_words (length x + k) (length (pre @ [c])) ((pre @ [c]) @ x @ post) False argv"
    using Cons.prems by simp
  with Cons.IH [of "pre @ [c]"] Cons.prems show ?case by simp
qed

lemma split_over_blanks:
  assumes "\<forall>c \<in> set s. isspace c"
  shows "split_words (length s + k) (length pre) (pre @ s @ post) r argv =
    split_words k (length (pre @ s)) (pre @ replicate (length s) NUL @ post) (r \<or> s \<noteq> []) argv"
  using assms
proof (induction s arbitrary: pre r)
  case Nil
  then show ?case by simp
next
  case (Cons c s)
  have "c \<noteq> NUL" using Cons.prems isspace_NUL by auto
  then have "split_words (length (c # s) + k) (length pre) (pre @ (c # s) @ post) r argv =
      split_words (length s + k) (length (pre @ [NUL])) ((pre @ [NUL]) @ s @ post) True argv"
    using Cons.prems by simp
  with Cons.IH [of "pre @ [NUL]" True] Cons.prems show ?case by simp
qed

lemma split_at_word:
  assumes "line_word x"
  shows "split_words (length x + k) (length pre) (pre @ x @ post) True argv =
    split_words k (length (pre @ x)) (pre @ x @ post) False (argv @ [length pre])"
proof -
  obtain c y where x: "x = c # y" "c \<noteq> NUL" "\<not> isspace c" "\<forall>c \<in> set y. c \<noteq> NUL \<and> \<not> isspace c"
    using assms by (cases x) (auto simp: line_word_def)
  have "split_words (length x + k) (length pre) (pre @ x @ post) True argv =
      split_words (length y + k) (length (pre @ [c])) ((pre @ [c]) @ y @ post) False (argv @ [length pre])"
    using x(1-3) by simp
  with split_over_word [OF x(4), of k "pre @ [c]" post "argv @ [length pre]"] x(1) show ?thesis by simp
qed

text \<open>Words with the white space before them; the line after the loop, and where they start.\<close>

definition join :: "(string \<times> string) list \<Rightarrow> string" where
  "join ps = concat (map (\<lambda>(s, x). s @ x) ps)"

definition cut_join :: "(string \<times> string) list \<Rightarrow> string" where
  "cut_join ps = concat (map (\<lambda>(s, x). replicate (length s) NUL @ x) ps)"

lemma join_Nil [simp]: "join [] = []" "cut_join [] = []"
  by (simp_all add: join_def cut_join_def)

lemma join_Cons [simp]: "join ((s, x) # ps) = s @ x @ join ps" by (simp add: join_def)

lemma cut_join_Cons [simp]: "cut_join ((s, x) # ps) = replicate (length s) NUL @ x @ cut_join ps"
  by (simp add: cut_join_def)

fun starts :: "nat \<Rightarrow> (string \<times> string) list \<Rightarrow> nat list" where
  "starts c [] = []"
| "starts c ((s, x) # ps) = (c + length s) # starts (c + (length s + length x)) ps"

lemma split_join:
  assumes "\<forall>(s, x) \<in> set ps. blanks s \<and> line_word x"
  shows "split_words (length (join ps)) (length pre) (pre @ join ps) False argv =
    (pre @ cut_join ps, argv @ starts (length pre) ps)"
  using assms
proof (induction ps arbitrary: pre argv)
  case Nil
  then show ?case by (simp add: join_def cut_def)
next
  case (Cons p ps)
  obtain s x where p: "p = (s, x)" by fastforce
  with Cons.prems have s: "\<forall>c \<in> set s. isspace c" "s \<noteq> []" and x: "line_word x" by (auto simp: blanks_def)
  let ?pre = "pre @ replicate (length s) NUL" and ?k = "length (join ps)"
  have "split_words (length (join (p # ps))) (length pre) (pre @ join (p # ps)) False argv =
      split_words (length s + (length x + ?k)) (length pre) (pre @ s @ (x @ join ps)) False argv" by (simp add: p)
  also have "\<dots> = split_words (length x + ?k) (length ?pre) (?pre @ x @ join ps) True argv"
    using split_over_blanks [OF s(1), of "length x + ?k" pre "x @ join ps" False argv] s(2) by simp
  also have "\<dots> = split_words ?k (length (?pre @ x)) ((?pre @ x) @ join ps) False (argv @ [length ?pre])"
    using split_at_word [OF x, of ?k ?pre "join ps" argv] by simp
  also have "\<dots> = ((?pre @ x) @ cut_join ps, (argv @ [length ?pre]) @ starts (length (?pre @ x)) ps)"
    by (rule Cons.IH) (use Cons.prems in simp)
  finally show ?case by (simp add: cut_def p)
qed

lemma cstr_line_word:
  assumes "line_word x" "\<forall>(s, x) \<in> set ps. blanks s \<and> line_word x"
  shows "cstr (pre @ x @ cut_join ps) (length pre) = x"
proof -
  have "takeWhile (\<lambda>c. c \<noteq> NUL) (cut_join ps) = []"
    using assms(2) by (cases ps) (auto simp: cut_def blanks_def neq_Nil_conv split: prod.splits)
  moreover have "takeWhile (\<lambda>c. c \<noteq> NUL) (x @ cut_join ps) = x @ takeWhile (\<lambda>c. c \<noteq> NUL) (cut_join ps)"
    using assms(1) by (intro takeWhile_append2) (auto simp: line_word_def)
  ultimately show ?thesis by (simp add: cstr_def)
qed

lemma cstr_starts:
  assumes "\<forall>(s, x) \<in> set ps. blanks s \<and> line_word x"
  shows "map (cstr (pre @ cut_join ps)) (starts (length pre) ps) = map snd ps"
  using assms
proof (induction ps arbitrary: pre)
  case Nil
  then show ?case by simp
next
  case (Cons p ps)
  obtain s x where p: "p = (s, x)" by fastforce
  let ?pre = "pre @ replicate (length s) NUL"
  have c: "cut_join (p # ps) = replicate (length s) NUL @ x @ cut_join ps" by (simp add: cut_def p)
  have "cstr (?pre @ x @ cut_join ps) (length ?pre) = x" using Cons.prems p by (intro cstr_line_word) auto
  moreover have "map (cstr ((?pre @ x) @ cut_join ps)) (starts (length (?pre @ x)) ps) = map snd ps"
    using Cons.prems by (intro Cons.IH) simp
  ultimately show ?case by (simp add: p add.assoc)
qed

lemma split_cmdline_ok:
  assumes "line_word x" "\<forall>(s, x) \<in> set ps. blanks s \<and> line_word x"
  shows "split_cmdline (x @ join ps) = x # map snd ps"
proof -
  have "split_words (length (x @ join ps)) 0 (x @ join ps) False [0] =
      split_words (length (join ps)) (length x) (x @ join ps) False [0]"
    using split_over_word [of x "length (join ps)" "[]" "join ps" "[0]"] assms(1) by (simp add: line_word_def)
  also have "\<dots> = (x @ cut_join ps, [0] @ starts (length x) ps)" by (rule split_join [OF assms(2)])
  finally show ?thesis
    using cstr_line_word [OF assms, of "[]"] cstr_starts [OF assms(2), of x] by (simp add: split_cmdline_def)
qed

text \<open>
  C18. A command line made of words with white space between them is split into these words.
\<close>

lemma split_cmdline_words:
  assumes "line_word x" "\<forall>(s, x) \<in> set ps. blanks s \<and> line_word x"
  shows "split_cmdline (x @ concat (map (\<lambda>(s, x). s @ x) ps)) = x # map snd ps"
  using split_cmdline_ok [OF assms] by (simp add: join_def)

lemma split_cmdline_words_witness: "split_cmdline ''disasm  loop 4'' = [''disasm'', ''loop'', ''4'']"
proof -
  have "line_word ''disasm''" "line_word ''loop''" "line_word ''4''" "blanks ''  ''" "blanks '' ''" by code_simp+
  then show ?thesis
    using split_cmdline_words [of "''disasm''" "[(''  '', ''loop''), ('' '', ''4'')]"] by simp
qed

section \<open>Running a program\<close>

lemma setup_state_fields:
  assumes "setup_state g vm data = Some st"
  shows "st_vm st = vm" "breakpoints st = None" "st_nodes st = Map.empty" "st_data st = data"
  using assms by (auto simp: setup_state_def Let_def split: option.splits)

lemma session_run:
  assumes "breakpoints st = None"
  shows "session g [''run''] st = map_option
    (\<lambda>(i', vm'). say (''program exited'' @ newline) (st\<lparr>st_vm := vm', st_flags := 0\<rparr>)) (run_loop (os_turn g) (g_junk g) (st_vm st))"
proof -
  have f: "find_command ''run'' = Some C_run" "split_cmdline ''run'' = [''run'']" "trim ''run'' = ''run''"
    by code_simp+
  have "session g [''run''] st = map_option snd (dbg_run g [''run''] st)"
  proof (cases "dbg_run g [''run''] st")
    case None
    then show ?thesis by (subst session.simps) (simp add: f exec_command_def)
  next
    case (Some r)
    then have "fst r = 0" using dbg_run_exits [OF assms, of g "[''run'']"] by auto
    with Some show ?thesis by (subst session.simps) (simp add: f exec_command_def session.simps split: prod.split)
  qed
  then show ?thesis
    unfolding dbg_run_exits [OF assms] option.map_comp by (simp add: comp_def split_def)
qed

lemma cleanup_state_bare:
  assumes "breakpoints st = None" "st_nodes st = Map.empty"
  shows "map_option st_vm (cleanup_state g st) = cleanup_vm (g_os g) (g_fuel g) (st_vm st)"
  using assms by (cases "cleanup_vm (g_os g) (g_fuel g) (st_vm st)")
    (simp_all add: cleanup_state_def list_destroy_def list_destroy_loop.simps)

text \<open>
  C12. Without breakpoints a turn of the debugger is a turn of the execution loop, and its \<open>run\<close>
  goes through every state the execution loop goes through, from the same first one on, ends
  with the last of them, and does not return when execution does not. A session that is \<open>run\<close>, with
  debug data or without, leaves the machine that execution without the debugger leaves.
\<close>

lemma debug_run_same:
  assumes "breakpoints st = None" "setup_state g vm data = Some st0"
  shows "(\<forall>c i. map_option (\<lambda>(r, i', st'). (r \<noteq> Some 0, i', st_vm st')) (step_turn g c i st) =
      exec_turn (g_os g) (g_fuel g) (g_defs g) i (st_vm st)) \<and>
    (\<forall>i b. (exec_step (g_os g) (g_fuel g) (g_defs g))\<^sup>*\<^sup>* (i, st_vm st) b \<longrightarrow>
      run_steps g i st = run_steps g (fst b) (set_vm (snd b) st)) \<and>
    dbg_run g argv st = map_option (\<lambda>(i', vm'). (0, say (''program exited'' @ newline) (st\<lparr>st_vm := vm', st_flags := 0\<rparr>)))
      (run_loop (exec_turn (g_os g) (g_fuel g) (g_defs g)) (g_junk g) (st_vm st)) \<and>
    map_option st_vm (debug_vm g [''run''] vm data) = execute_vm (g_os g) (g_fuel g) (g_defs g) (g_junk g) vm"
proof -
  have eq: "exec_step (g_os g) (g_fuel g) (g_defs g) = goes_on (os_turn g)"
    unfolding os_turn_def by (intro ext) (rule exec_step_turn)
  let ?st = "print_init_message st0" and ?run = "run_loop (os_turn g) (g_junk g) vm"
  have st: "breakpoints ?st = None" "st_nodes ?st = Map.empty" "st_vm ?st = vm"
    using setup_state_fields [OF assms(2)] by (simp_all add: print_init_message_def say_def)
  have d: "map_option st_vm (debug_vm g [''run''] vm data) =
      Option.bind (session g [''run''] ?st) (\<lambda>s. map_option st_vm (cleanup_state g s))"
    using assms(2) by (cases "session g [''run''] ?st") (simp_all add: debug_vm_def)
  have e: "execute_vm (g_os g) (g_fuel g) (g_defs g) (g_junk g) vm =
      Option.bind ?run (\<lambda>(i', vm'). cleanup_vm (g_os g) (g_fuel g) vm')"
    by (simp add: execute_vm_def os_turn_def)
  have "map_option st_vm (debug_vm g [''run''] vm data) = execute_vm (g_os g) (g_fuel g) (g_defs g) (g_junk g) vm"
  proof (cases ?run)
    case None
    then show ?thesis unfolding d e session_run [OF st(1)] st(3) by simp
  next
    case (Some r)
    obtain i' vm' where "r = (i', vm')" by fastforce
    with Some st show ?thesis
      unfolding d e session_run [OF st(1)] st(3) by (simp add: cleanup_state_bare say_def)
  qed
  with dbg_run_exits [OF assms(1), of g argv] step_turn_same [OF assms(1)] run_steps_through [OF _ assms(1)] show ?thesis
    unfolding eq by (simp add: os_turn_def)
qed

lemma debug_run_same_witness:
  "\<exists>vm'. map_option st_vm (debug_vm demo_env [''run''] ret_vm None) = Some vm' \<and>
     execute_vm demo_os 0 std_defs no_instn ret_vm = Some vm'"
proof -
  have b: "breakpoints demo_state = None" by (simp add: demo_state_def)
  have s: "setup_state demo_env ret_vm None = Some demo_state" by (simp add: setup_state_def demo_state_def)
  show ?thesis
    using debug_run_same [OF b s, of "[]"] ret_runs by (simp add: demo_env_def)
qed

section \<open>Symbols\<close>

text \<open>When every allocation succeeds, every insertion does that returns.\<close>

lemma reinsert_all_ok:
  assumes "\<And>m k v st m'. put m k v = Some (st, m') \<Longrightarrow> st = MAP_OK"
  shows "reinsert put es m = Some (st, m') \<Longrightarrow> st = MAP_OK"
  by (induction es arbitrary: m) (auto split: if_splits option.splits dest: assms)

lemma hmap_put_f_all_ok:
  assumes "\<And>n. calloc n"
  shows "hmap_put_f f calloc (m :: 'v hashmap_map) k v = Some (st, m') \<Longrightarrow> st = MAP_OK"
proof (induction f arbitrary: m k v st m')
  case 0
  then show ?case by auto
next
  case (Suc f)
  have "reinsert (hmap_put_f f calloc) es m1 = Some (st1, m2) \<Longrightarrow> st1 = MAP_OK" for es st1 and m1 m2 :: "'v hashmap_map"
    by (erule reinsert_all_ok [rotated]) (erule Suc.IH)
  then have "hashmap_rehash calloc (hmap_put_f f calloc) m = Some (st1, m2) \<Longrightarrow> st1 = MAP_OK" for st1 and m2 :: "'v hashmap_map"
    using assms by (auto simp: hashmap_rehash_def)
  with Suc.prems show ?case by (auto split: option.splits if_splits dest: Suc.IH)
qed

lemma hmap_put_all_ok:
  assumes "\<And>n. calloc n"
  shows "hmap_put calloc m k v = Some (st, m') \<longleftrightarrow> st = MAP_OK \<and> hm_insert calloc m k v = Some m'"
  using hmap_put_f_all_ok [where calloc = calloc and f = 32 and m = m and k = k and v = v and st = st and m' = m', OF assms] by (auto simp: hm_insert_Some hmap_put_def)

definition symbol_entry :: "debug_t \<Rightarrow> bool \<Rightarrow> dbg_line_assoc_t \<Rightarrow> string \<times> dbg_label_t option" where
  "symbol_entry d is_mem ln =
     (the (line_label d ln), Some \<lparr>b_label = the (line_label d ln), b_is_mem_ref = is_mem, b_address = ln_address ln\<rparr>)"

lemma line_label_loaded:
  assumes "debug_fits d" "line_label d ln = Some l"
  shows "DBG_LABEL (loaded_debug d) (ln_label_ref ln) = Some l"
proof -
  have "unat (ln_label_ref ln) < length (d_labels d)"
    using assms(2) by (auto simp: line_label_def split: if_splits)
  from label_loaded [OF assms(1) this] assms(2) show ?thesis
    by (auto simp: line_label_def split: if_splits)
qed

lemma put_symbol_ok:
  assumes "debug_fits d" "\<And>n. g_calloc g n" "line_label d ln = Some l"
  shows "put_symbol g is_mem (loaded_debug d) ln (Some m) =
    map_option Some (Option.bind (Some (symbol_entry d is_mem ln)) (\<lambda>(k, v). hm_insert (g_calloc g) m k v))"
proof (cases "hmap_put (g_calloc g) m l (Some \<lparr>b_label = l, b_is_mem_ref = is_mem, b_address = ln_address ln\<rparr>)")
  case None
  then show ?thesis using line_label_loaded [OF assms(1,3)]
    by (simp add: put_symbol_def symbol_entry_def assms(3) hm_insert_def)
next
  case (Some r)
  obtain st m' where r: "r = (st, m')" by fastforce
  with Some hmap_put_all_ok [where calloc = "g_calloc g", OF assms(2)] have "st = MAP_OK" by blast
  with Some r show ?thesis using line_label_loaded [OF assms(1,3)]
    by (simp add: put_symbol_def symbol_entry_def assms(3) hm_insert_def)
qed

lemma put_mem_symbols_ok:
  assumes f: "debug_fits d" "\<And>n. g_calloc g n"
  shows "\<forall>j < length lns. DBG_MEM_LINE (loaded_debug d) (of_nat (i + j)) = Some (lns ! j) \<and> line_label d (lns ! j) \<noteq> None \<Longrightarrow>
    put_mem_symbols g (loaded_debug d) (length lns) (of_nat i) (Some m) =
      map_option Some (insert_all (hm_insert (g_calloc g)) m (map (symbol_entry d True) lns))"
proof (induction lns arbitrary: i m)
  case Nil
  then show ?case by simp
next
  case (Cons ln lns)
  have h: "DBG_MEM_LINE (loaded_debug d) (of_nat i) = Some ln" using Cons.prems by force
  obtain l where l: "line_label d ln = Some l" using Cons.prems by force
  obtain k v where e: "symbol_entry d True ln = (k, v)" by fastforce
  have "\<forall>j < length lns. DBG_MEM_LINE (loaded_debug d) (of_nat ((i + 1) + j)) = Some (lns ! j) \<and> line_label d (lns ! j) \<noteq> None"
    using Cons.prems by (metis Suc_eq_plus1 Suc_less_eq add.assoc add.commute length_Cons nth_Cons_Suc plus_1_eq_Suc)
  note IH = Cons.IH [OF this]
  show ?case
    using put_symbol_ok [where is_mem = True and ln = ln and m = m, OF f l] h e IH
    by (cases "hm_insert (g_calloc g) m k v") (simp_all add: add.commute)
qed

lemma put_code_symbols_ok:
  assumes f: "debug_fits d" "\<And>n. g_calloc g n"
  shows "\<forall>j < length lns. DBG_CODE_LINE (loaded_debug d) (of_nat (i + j)) = Some (lns ! j) \<and>
      (0 \<le> sint (ln_label_ref (lns ! j)) \<longrightarrow> line_label d (lns ! j) \<noteq> None) \<Longrightarrow>
    put_code_symbols g (loaded_debug d) (length lns) (of_nat i) (Some m) =
      map_option Some (insert_all (hm_insert (g_calloc g)) m
        (map (symbol_entry d False) (filter (\<lambda>ln. 0 \<le> sint (ln_label_ref ln)) lns)))"
proof (induction lns arbitrary: i m)
  case Nil
  then show ?case by simp
next
  case (Cons ln lns)
  have h: "DBG_CODE_LINE (loaded_debug d) (of_nat i) = Some ln" using Cons.prems by force
  obtain k v where e: "symbol_entry d False ln = (k, v)" by fastforce
  have "\<forall>j < length lns. DBG_CODE_LINE (loaded_debug d) (of_nat ((i + 1) + j)) = Some (lns ! j) \<and>
      (0 \<le> sint (ln_label_ref (lns ! j)) \<longrightarrow> line_label d (lns ! j) \<noteq> None)"
    using Cons.prems by (metis Suc_eq_plus1 Suc_less_eq add.assoc add.commute length_Cons nth_Cons_Suc plus_1_eq_Suc)
  note IH = Cons.IH [OF this]
  show ?case
  proof (cases "0 \<le> sint (ln_label_ref ln)")
    case True
    then obtain l where l: "line_label d ln = Some l" using Cons.prems by force
    show ?thesis
      using put_symbol_ok [where is_mem = False and ln = ln and m = m, OF f l] h e IH True
      by (cases "hm_insert (g_calloc g) m k v") (simp_all add: add.commute)
  next
    case False
    then show ?thesis using h IH by (simp add: add.commute)
  qed
qed

text \<open>What the table of the debugger holds of a label.\<close>

definition symbol_of :: "prs_result_t \<Rightarrow> string \<Rightarrow> label_t \<Rightarrow> dbg_label_t" where
  "symbol_of parse l lbl = \<lparr>b_label = l, b_is_mem_ref = is_mem_ref lbl,
     b_address = (if is_mem_ref lbl then l_offset lbl else mem_offset (pr_instns parse ! unat (l_offset lbl)))\<rparr>"

definition symbol_entries :: "debug_t \<Rightarrow> (string \<times> dbg_label_t option) list" where
  "symbol_entries d = map (symbol_entry d True) (d_mem_lines d) @
     map (symbol_entry d False) (filter (\<lambda>ln. 0 \<le> sint (ln_label_ref ln)) (d_code_lines d))"

lemma code_lines_ok:
  assumes mk: "mk_debug_data names qsort parse = Some d" "permutes qsort" "debug_input names parse" and ln: "ln \<in> set (d_code_lines d)"
  shows "\<exists>i < length (pr_instns parse). code_line_ok names parse d i ln"
proof -
  obtain lns where lns: "mset lns = mset (d_code_lines d)" "length lns = length (pr_instns parse)"
      "\<forall>i < length lns. code_line_ok names parse d i (lns ! i)"
    using mk_debug_data_ok(1) [OF mk] by blast
  from lns(1) ln have "ln \<in> set lns" by (metis set_mset_mset)
  with lns(2,3) show ?thesis by (auto simp: in_set_conv_nth)
qed

lemma code_label_line:
  assumes mk: "mk_debug_data names qsort parse = Some d" "permutes qsort" "debug_input names parse" and lab: "i < length (pr_instns parse)"
  shows "\<exists>ln \<in> set (d_code_lines d). code_line_ok names parse d i ln"
proof -
  obtain lns where lns: "mset lns = mset (d_code_lines d)" "length lns = length (pr_instns parse)"
      "\<forall>i < length lns. code_line_ok names parse d i (lns ! i)"
    using mk_debug_data_ok(1) [OF mk] by blast
  then have "lns ! i \<in> set (d_code_lines d)" using lab by (metis nth_mem set_mset_mset)
  with lns lab show ?thesis by auto
qed

lemma code_line_labelled:
  assumes mk: "mk_debug_data names qsort parse = Some d" "permutes qsort" "debug_input names parse" and lab: "ln \<in> set (d_code_lines d)" "0 \<le> sint (ln_label_ref ln)"
  shows "\<exists>l lbl. line_label d ln = Some l \<and> find_label parse l = Some lbl \<and> \<not> is_mem_ref lbl \<and>
    last_label (hm_entries (labels parse)) (unat (l_offset lbl)) = Some l \<and> symbol_entry d False ln = (l, Some (symbol_of parse l lbl))"
proof -
  obtain i where i: "code_line_ok names parse d i ln" using code_lines_ok [OF mk lab(1)] by blast
  have inv: "hm_inv (labels parse)" using mk(3) by (simp add: debug_input_def)
  show ?thesis
  proof (cases "line_label d ln")
    case None
    then have "ln_label_ref ln = - 1" using i by (simp add: code_line_ok_def)
    then show ?thesis using lab(2) by simp
  next
    case (Some l)
    then have l: "last_label (hm_entries (labels parse)) i = Some l" using i by (simp add: code_line_ok_def)
    from last_label_find [OF inv l] obtain lbl where lbl: "find_label parse l = Some lbl" "\<not> is_mem_ref lbl" "unat (l_offset lbl) = i"
      by blast
    with Some l i show ?thesis by (auto simp: code_line_ok_def symbol_entry_def symbol_of_def)
  qed
qed

lemma mem_line_labelled:
  assumes mk: "mk_debug_data names qsort parse = Some d" "permutes qsort" "debug_input names parse" and lab: "ln \<in> set (d_mem_lines d)"
  shows "\<exists>l lbl. line_label d ln = Some l \<and> find_label parse l = Some lbl \<and> is_mem_ref lbl \<and>
    symbol_entry d True ln = (l, Some (symbol_of parse l lbl))"
proof -
  obtain l lbl where "find_label parse l = Some lbl" "mem_line_ok names parse d l lbl ln"
    using mk_debug_data_ok(2) [OF mk] lab by blast
  then show ?thesis by (auto simp: symbol_entry_def symbol_of_def mem_line_ok_def)
qed

lemma entries_sound:
  assumes mk: "mk_debug_data names qsort parse = Some d" "permutes qsort" "debug_input names parse" and "(l, v) \<in> set (symbol_entries d)"
  shows "\<exists>lbl. find_label parse l = Some lbl \<and> v = Some (symbol_of parse l lbl) \<and>
    (\<not> is_mem_ref lbl \<longrightarrow> last_label (hm_entries (labels parse)) (unat (l_offset lbl)) = Some l)"
proof -
  have "(\<exists>ln \<in> set (d_mem_lines d). (l, v) = symbol_entry d True ln) \<or>
      (\<exists>ln \<in> set (d_code_lines d). 0 \<le> sint (ln_label_ref ln) \<and> (l, v) = symbol_entry d False ln)"
    using assms(4) unfolding symbol_entries_def by auto
  then show ?thesis
  proof (elim disjE bexE conjE)
    fix ln assume "ln \<in> set (d_mem_lines d)" "(l, v) = symbol_entry d True ln"
    with mem_line_labelled [OF mk] show ?thesis by fastforce
  next
    fix ln assume "ln \<in> set (d_code_lines d)" "0 \<le> sint (ln_label_ref ln)" "(l, v) = symbol_entry d False ln"
    with code_line_labelled [OF mk] show ?thesis by fastforce
  qed
qed

lemma entries_mem:
  assumes mk: "mk_debug_data names qsort parse = Some d" "permutes qsort" "debug_input names parse" and lab: "find_label parse l = Some lbl" "is_mem_ref lbl"
  shows "(l, Some (symbol_of parse l lbl)) \<in> set (symbol_entries d)"
proof -
  obtain ln where ln: "ln \<in> set (d_mem_lines d)" "mem_line_ok names parse d l lbl ln"
    using mk_debug_data_ok(3) [OF mk] lab by blast
  then have "symbol_entry d True ln = (l, Some (symbol_of parse l lbl))"
    using lab(2) by (simp add: symbol_entry_def symbol_of_def mem_line_ok_def)
  with ln(1) show ?thesis unfolding symbol_entries_def by force
qed

lemma entries_code:
  assumes mk: "mk_debug_data names qsort parse = Some d" "permutes qsort" "debug_input names parse"
    and lab: "find_label parse l = Some lbl" "\<not> is_mem_ref lbl" "last_label (hm_entries (labels parse)) (unat (l_offset lbl)) = Some l"
  shows "(l, Some (symbol_of parse l lbl)) \<in> set (symbol_entries d)"
proof -
  have "unat (l_offset lbl) < length (pr_instns parse)" using mk_debug_data_ok(4) [OF mk] lab by blast
  from code_label_line [OF mk this] obtain ln where
    ln: "ln \<in> set (d_code_lines d)" "code_line_ok names parse d (unat (l_offset lbl)) ln" by blast
  then have l: "line_label d ln = Some l" using lab(3) by (simp add: code_line_ok_def)
  then have "0 \<le> sint (ln_label_ref ln)" by (auto simp: line_label_def split: if_splits)
  then have "symbol_entry d False ln \<in> set (symbol_entries d)" using ln(1) by (auto simp: symbol_entries_def)
  moreover have "symbol_entry d False ln = (l, Some (symbol_of parse l lbl))"
    using ln(2) l lab(2,3) by (simp add: symbol_entry_def symbol_of_def code_line_ok_def)
  ultimately show ?thesis by simp
qed

lemma setup_state_table:
  assumes mk: "mk_debug_data names qsort parse = Some d" "permutes qsort" "debug_input names parse"
    and f: "debug_fits d" "\<And>n. g_calloc g n" and st: "setup_state g vm (Some (loaded_debug d)) = Some st"
  shows "\<exists>m. st_labels st = Some m \<and> hm_abs m = map_of (rev (symbol_entries d)) \<and> hm_inv m"
proof -
  let ?dbg = "loaded_debug d" and ?ins = "hm_insert (g_calloc g)"
  have n: "unat (n_mem_lines ?dbg) = length (d_mem_lines d)" "unat (n_code_lines ?dbg) = length (d_code_lines d)"
    using fits_counts [OF f(1)] by (simp_all add: loaded_debug_def)
  have "\<forall>j < length (d_mem_lines d). DBG_MEM_LINE ?dbg (of_nat (0 + j)) = Some (d_mem_lines d ! j) \<and> line_label d (d_mem_lines d ! j) \<noteq> None"
    using mem_line_loaded [OF f(1)] mem_line_labelled [OF mk] by (metis add_0 nth_mem option.distinct(1))
  note pm = put_mem_symbols_ok [OF f this]
  have "\<forall>j < length (d_code_lines d). DBG_CODE_LINE ?dbg (of_nat (0 + j)) = Some (d_code_lines d ! j) \<and>
      (0 \<le> sint (ln_label_ref (d_code_lines d ! j)) \<longrightarrow> line_label d (d_code_lines d ! j) \<noteq> None)"
    using code_line_loaded [OF f(1)] code_line_labelled [OF mk] by (metis add_0 nth_mem option.distinct(1))
  note pc = put_code_symbols_ok [OF f this]
  have c: "hmap_create (g_calloc g) = Some hm_new" using f(2) by (simp add: hmap_create_new)
  from st obtain t1 t2 where t: "put_mem_symbols g ?dbg (length (d_mem_lines d)) 0 (Some hm_new) = Some t1"
      "put_code_symbols g ?dbg (length (d_code_lines d)) 0 t1 = Some t2" "st_labels st = t2"
    by (auto simp: setup_state_def c n)
  from t(1) pm [of hm_new] obtain m1 where m1: "t1 = Some m1"
      "insert_all ?ins hm_new (map (symbol_entry d True) (d_mem_lines d)) = Some m1" by (auto simp: map_option_case split: option.splits)
  from t(2) pc [of m1] m1(1) obtain m2 where m2: "t2 = Some m2"
      "insert_all ?ins m1 (map (symbol_entry d False) (filter (\<lambda>ln. 0 \<le> sint (ln_label_ref ln)) (d_code_lines d))) = Some m2"
    by (auto simp: map_option_case split: option.splits)
  have all: "insert_all ?ins hm_new (symbol_entries d) = Some m2"
    by (simp add: symbol_entries_def insert_all_append m1(2) m2(2))
  have "hm_abs m2 = map_of (rev (symbol_entries d))"
    using hm.look_built [OF all] by (simp add: fun_eq_iff)
  moreover have "hm_inv m2" by (rule hm.inv_insert_all [OF hm.inv_new all])
  ultimately show ?thesis using t(3) m2(1) by blast
qed

lemma symbols_looked_up:
  assumes mk: "mk_debug_data names qsort parse = Some d" "permutes qsort" "debug_input names parse"
    and m: "hm_abs m = map_of (rev (symbol_entries d))" and e: "(l, Some (symbol_of parse l lbl)) \<in> set (symbol_entries d)"
    and l: "find_label parse l = Some lbl"
  shows "hmap_get m l = (MAP_OK, Some (symbol_of parse l lbl))"
proof -
  have "l \<in> fst ` set (rev (symbol_entries d))" using e by force
  then obtain v where v: "map_of (rev (symbol_entries d)) l = Some v"
    by (metis map_of_eq_None_iff not_None_eq)
  then have "(l, v) \<in> set (symbol_entries d)" using map_of_SomeD by fastforce
  from entries_sound [OF mk this] l have "v = Some (symbol_of parse l lbl)" by simp
  with v m show ?thesis by (simp add: hmap_get_hm_abs)
qed

lemma symbols_missing:
  assumes mk: "mk_debug_data names qsort parse = Some d" "permutes qsort" "debug_input names parse"
    and m: "hm_abs m = map_of (rev (symbol_entries d))"
    and l: "find_label parse l = Some lbl" "\<not> is_mem_ref lbl" "last_label (hm_entries (labels parse)) (unat (l_offset lbl)) \<noteq> Some l"
  shows "fst (hmap_get m l) \<noteq> MAP_OK"
proof -
  have "\<forall>v. (l, v) \<notin> set (symbol_entries d)" using entries_sound [OF mk, of l] l by fastforce
  then have "map_of (rev (symbol_entries d)) l = None" by (auto simp: map_of_eq_None_iff)
  with m show ?thesis by (simp add: hmap_get_hm_abs)
qed

text \<open>The number an argument of a command is taken for when it is not a symbol.\<close>

definition typed_number :: "string \<Rightarrow> u32" where
  "typed_number s = parse_uint s (if chr s 0 = CHR ''0'' \<and> chr s 1 = CHR ''x'' then 16 else 10)"

text \<open>
  C16. How the labels of an assembled program resolve in the debugger. A label of the memory leads
  to its offset. Of the labels of one instruction the last one in the order of the table leads to
  the offset of the instruction; the others are not known to the debugger and are taken for
  numbers, as any other word is.
\<close>

lemma symbols_resolve:
  assumes mk: "mk_debug_data names qsort parse = Some d" "permutes qsort" "debug_input names parse"
    and f: "debug_fits d" "\<And>n. g_calloc g n" and st: "setup_state g vm (Some (loaded_debug d)) = Some st"
    and l: "find_label parse l = Some lbl"
  shows "if is_mem_ref lbl then resolve_mem_address l st = Some (l_offset lbl)
    else if last_label (hm_entries (labels parse)) (unat (l_offset lbl)) = Some l
    then resolve_code_address l st = Some (mem_offset (pr_instns parse ! unat (l_offset lbl)))
    else resolve_code_address l st = Some (typed_number l)"
proof -
  obtain m where m: "st_labels st = Some m" "hm_abs m = map_of (rev (symbol_entries d))"
    using setup_state_table [OF mk f st] by blast
  consider "is_mem_ref lbl" | "\<not> is_mem_ref lbl" "last_label (hm_entries (labels parse)) (unat (l_offset lbl)) = Some l"
    | "\<not> is_mem_ref lbl" "last_label (hm_entries (labels parse)) (unat (l_offset lbl)) \<noteq> Some l" by blast
  then show ?thesis
  proof cases
    case 1
    have "hmap_get m l = (MAP_OK, Some (symbol_of parse l lbl))"
      by (rule symbols_looked_up [OF mk m(2) entries_mem [OF mk l 1] l])
    with 1 m(1) show ?thesis by (simp add: resolve_mem_address_def resolve_address_def symbol_of_def)
  next
    case 2
    have "hmap_get m l = (MAP_OK, Some (symbol_of parse l lbl))"
      by (rule symbols_looked_up [OF mk m(2) entries_code [OF mk l 2] l])
    with 2 m(1) show ?thesis by (simp add: resolve_code_address_def resolve_address_def symbol_of_def)
  next
    case 3
    obtain e v where "hmap_get m l = (e, v)" "e \<noteq> MAP_OK"
      using symbols_missing [OF mk m(2) l 3] by (cases "hmap_get m l") auto
    with 3 m(1) show ?thesis
      by (cases e) (simp_all add: resolve_code_address_def resolve_address_def typed_number_def Let_def)
  qed
qed

lemma demo_setup:
  assumes refs: "map ln_label_ref (d_code_lines d) = [- 1, 0, - 1]"
    and d: "d_mem_lines d = []" "d_labels d = [2]" "d_string_table d = [97, 0, 101, 110, 100, 0]" and fits: "debug_fits d"
  shows "\<exists>st. setup_state demo_env vm (Some (loaded_debug d)) = Some st"
proof -
  obtain l0 l1 l2 where l: "d_code_lines d = [l0, l1, l2]" "ln_label_ref l0 = - 1" "ln_label_ref l1 = 0" "ln_label_ref l2 = - 1"
    using refs by (auto simp: map_eq_Cons_conv)
  have c: "\<And>n. g_calloc demo_env n" by (simp add: demo_env_def)
  have "map char_of [unat (101 :: u8), unat (110 :: u8), unat (100 :: u8)] = ''end''" by code_simp
  then have ll: "line_label d l1 = Some ''end''" by (simp add: line_label_def d l str_at_def)
  have n: "n_mem_lines (loaded_debug d) = 0" "unat (n_code_lines (loaded_debug d)) = 3"
    by (simp_all add: loaded_debug_def d l n_of_def)
  have "\<forall>j < length (d_code_lines d). DBG_CODE_LINE (loaded_debug d) (of_nat (0 + j)) = Some (d_code_lines d ! j) \<and>
      (0 \<le> sint (ln_label_ref (d_code_lines d ! j)) \<longrightarrow> line_label d (d_code_lines d ! j) \<noteq> None)"
    using code_line_loaded [OF fits] ll l by (auto simp: less_Suc_eq numeral_3_eq_3)
  note pc = put_code_symbols_ok [where m = hm_new, OF fits c this]
  have ls: "length (d_code_lines d) = 3" "filter (\<lambda>ln. 0 \<le> sint (ln_label_ref ln)) (d_code_lines d) = [l1]"
    by (simp_all add: l)
  have e: "symbol_entry d False l1 = (''end'', snd (symbol_entry d False l1))"
    using ll by (simp add: symbol_entry_def)
  have "insert_all (hm_insert (\<lambda>_. True)) hm_new [symbol_entry d False l1] =
      hm_insert (\<lambda>_. True) hm_new ''end'' (snd (symbol_entry d False l1))"
    by (subst e) simp
  moreover have "g_calloc demo_env = (\<lambda>_. True)" by (simp add: demo_env_def)
  ultimately have
    "put_code_symbols demo_env (loaded_debug d) 3 0 (Some hm_new) =
      map_option Some (hm_insert (\<lambda>_. True) hm_new ''end'' (snd (symbol_entry d False l1)))"
    using pc unfolding ls by simp
  then show ?thesis
    by (simp add: setup_state_def n hmap_create_new c hm_insert_def hmap_put_blank)
qed

lemma demo_symbols: "\<exists>st. setup_state demo_env vm (Some (loaded_debug demo_debug)) = Some st"
  by (rule demo_setup) (use demo_debug_input(3) in \<open>simp_all add: demo_debug_def\<close>)

lemma symbols_resolve_witness:
  "\<exists>st. setup_state demo_env ret_vm (Some (loaded_debug demo_debug)) = Some st \<and>
     resolve_code_address ''end'' st = Some (mem_offset (pr_instns demo_parse ! 1))"
proof -
  obtain st where st: "setup_state demo_env ret_vm (Some (loaded_debug demo_debug)) = Some st"
    using demo_symbols by blast
  have c: "\<And>n. g_calloc demo_env n" by (simp add: demo_env_def)
  have "last_label (hm_entries (labels demo_parse)) (unat (l_offset demo_label)) = Some ''end''"
    by (simp add: demo_entries last_label_def demo_label_def)
  with symbols_resolve [OF demo_mk demo_debug_input(2,1,3) c st demo_find] show ?thesis
    using st by (auto simp: demo_label_def)
qed

end
