(* ===== verification/DebugKeeps.thy ===== *)
theory DebugKeeps
  imports DebugShell DebugBreak
begin

text \<open>
  What the commands of the debugger leave alone: those that show something only print; all of
  them keep the code and the well-formedness of the machine, and so does a session.
\<close>

section \<open>Commands that only print\<close>

lemma say_say [simp]: "say b (say a st) = say (a @ b) st"
  by (simp add: say_def)

lemma say_nothing: "st = say [] st"
  by (simp add: say_def)

lemma says_refl [simp]: "\<exists>s. st = say s st"
  using say_nothing by blast

lemma says_again [simp]: "\<exists>s. say x st = say s st"
  by blast

lemma say_fields [simp]:
  "st_vm (say s st) = st_vm st" "st_data (say s st) = st_data st" "st_labels (say s st) = st_labels st"
  "st_flags (say s st) = st_flags st" "breakpoints (say s st) = breakpoints st" "st_nodes (say s st) = st_nodes st"
  by (simp_all add: say_def)

lemma print_mem_address_says: "print_mem_address a st = Some (r, st') \<Longrightarrow> \<exists>s. st' = say s st"
  by (auto simp: print_mem_address_def split: option.splits)

lemma print_code_address_says: "print_code_address a st k = Some (r, st') \<Longrightarrow> \<exists>s. st' = say s st"
  by (auto simp: print_code_address_def Let_def split: option.splits)

lemma print_args_says: "print_args d instn n i st = Some st' \<Longrightarrow> \<exists>s. st' = say s st"
  by (induction n arbitrary: i st) fastforce+

lemma print_instn_says: "print_instn defs instn st = Some st' \<Longrightarrow> \<exists>s. st' = say s st"
  by (auto simp: print_instn_def Let_def split: if_splits dest!: print_args_says)

lemma print_mem_symbols_says: "print_mem_symbols dbg k m st = Some st' \<Longrightarrow> \<exists>s. st' = say s st"
  by (induction k arbitrary: m st) fastforce+

lemma print_code_symbols_says: "print_code_symbols dbg k m st = Some st' \<Longrightarrow> \<exists>s. st' = say s st"
proof (induction k arbitrary: m st)
  case (Suc k)
  from Suc.prems show ?case by (auto split: if_splits dest!: Suc.IH)
qed simp

lemma print_fds_says: "print_fds k i n st = Some st' \<Longrightarrow> \<exists>s. st' = say s st"
proof (induction k arbitrary: i n st)
  case (Suc k)
  from Suc.prems show ?case by (auto split: if_splits dest!: Suc.IH)
qed simp

lemma print_children_says: "print_children k i n st = Some st' \<Longrightarrow> \<exists>s. st' = say s st"
proof (induction k arbitrary: i n st)
  case (Suc k)
  from Suc.prems show ?case by (auto split: if_splits dest!: Suc.IH)
qed simp

lemma print_procs_says: "print_procs ps n st = Some st' \<Longrightarrow> \<exists>s. st' = say s st"
proof (induction ps arbitrary: n st)
  case (Cons p ps)
  from Cons.prems show ?case by (auto dest!: print_code_address_says Cons.IH)
qed simp

lemma print_frames_says: "print_frames p k n st = Some st' \<Longrightarrow> \<exists>s. st' = say s st"
proof (induction k arbitrary: n st)
  case (Suc k)
  from Suc.prems show ?case by (auto dest!: print_code_address_says print_mem_address_says Suc.IH)
qed simp

lemma print_breakpoint_says: "print_breakpoint b st = Some st' \<Longrightarrow> \<exists>s. st' = say s st"
  by (auto simp: print_breakpoint_def Let_def split: brk_point.splits dest!: print_code_address_says)

lemma print_breakpoints_says:
  assumes "print_breakpoints n st = Some st'"
  shows "\<exists>s. st' = say s st"
proof (rule print_breakpoints.raw_induct [of "\<lambda>n st st'. \<exists>s. st' = say s st", OF _ assms])
  fix f n and st st' :: "'a dbg_state_t"
  assume f: "\<And>n st st'. f n st = Some st' \<Longrightarrow> \<exists>s. st' = say s st"
    and "(case n of None \<Rightarrow> Some st | Some a \<Rightarrow> do {
       nd \<leftarrow> st_nodes st a; st \<leftarrow> print_breakpoint (nd_data nd) st; f (nd_next nd) (say newline st) }) = Some st'"
  then show "\<exists>s. st' = say s st"
    by (auto split: option.splits dest!: print_breakpoint_says f)
qed

lemma dump_prefix_says: "dump_cmd_prefix argv st n = Some (a, st') \<Longrightarrow> \<exists>s. st' = say s st"
  by (auto simp: dump_cmd_prefix_def Let_def split: if_splits)

lemma dump_value_says: "dump_value n f argv st = Some (r, st') \<Longrightarrow> \<exists>s. st' = say s st"
  by (auto simp: dump_value_def split: if_splits dest!: dump_prefix_says)

lemmas says = print_args_says print_instn_says print_mem_symbols_says print_code_symbols_says print_fds_says
  print_children_says print_procs_says print_frames_says print_breakpoints_says dump_value_says
  print_code_address_says

definition shows_only :: "dbg_cmd set" where
  "shows_only = {C_quit, C_sym, C_vm, C_db, C_dw, C_dd, C_dq, C_ds, C_brks, C_proc, C_bt, C_io, C_ch}"

lemma showing_says:
  assumes "run_command g c argv st = Some (r, st')" "c \<in> shows_only"
  shows "\<exists>s. st' = say s st"
  using assms
  by (auto simp: shows_only_def dbg_quit_def Let_def dbg_show_symbols_def dbg_show_vm_def dbg_dump_byte_def
      dbg_dump_word_def dbg_dump_dword_def dbg_dump_qword_def dbg_dump_str_def dbg_show_breakpts_def dbg_procs_def
      dbg_stack_def dbg_io_def dbg_children_def if_running_def split: if_splits option.splits list.splits dest!: says)

lemma idle_says:
  assumes "run_command g c argv st = Some (r, st')" "st_flags st AND F_RUNNING = 0" "c \<in> {C_n, C_cleanup, C_firev, C_yield}"
  shows "\<exists>s. st' = say s st"
  using assms by (auto simp: dbg_step_def dbg_cleanup_def dbg_fire_events_def dbg_yield_def if_running_def)

text \<open>A listing ends at the end, or where an instruction cannot be decoded.\<close>

definition listed :: "instn_def_t list \<Rightarrow> 'w dbg_state_t \<Rightarrow> 'w dbg_state_t \<Rightarrow> bool" where
  "listed defs st st' \<longleftrightarrow> (\<exists>s. st' = say s st) \<or>
     (\<exists>s a i r i' vm. decode_instn defs a i (st_vm st) = Some (r, i', vm) \<and> r < 0 \<and>
        st' = say s (set_vm ((st_vm st)\<lparr>exceptions := exceptions vm AND NOT (exceptions (st_vm st))\<rparr>) st))"

lemma listed_say: "listed defs (say s st) st' \<Longrightarrow> listed defs st st'"
  unfolding listed_def by (auto simp: say_def set_vm_def) (metis append_assoc)+

lemma listed_disasm_loop:
  assumes s: "disasm_loop defs ends addr i st = Some st'"
  shows "listed defs st st'"
proof (rule disasm_loop.raw_induct [of "\<lambda>defs ends addr i st st'. listed defs st st'", OF _ s])
  fix f defs ends addr i and st st' :: "'a dbg_state_t"
  assume ih: "\<And>defs ends addr i st st'. f defs ends addr i st = Some st' \<Longrightarrow> listed defs st st'"
    and y: "(if addr < ends then do {
        let old = exceptions (st_vm st);
        (offt, instn, vm) \<leftarrow> decode_instn defs (unat addr) i (st_vm st);
        if offt < 0 then do {
          let x = exceptions vm AND NOT old;
          Some (say (''decode failed at: 0x'' @ fmt_x 8 (unat addr) @ newline @ print_exception ''  '' x)
            (set_vm (vm\<lparr>exceptions := x\<rparr>) st))
        } else do {
          (r, st) \<leftarrow> print_code_address addr (set_vm vm st) False;
          st \<leftarrow> (if r \<noteq> 0 then do {
                    (_, st) \<leftarrow> print_code_address addr (say ('':'' @ newline) st) True;
                    Some st
                  } else Some st);
          st \<leftarrow> print_instn defs instn (say '':  '' st);
          f defs ends (addr + of_int offt) instn (say newline st)
        }
      } else Some st) = Some st'"
  show "listed defs st st'"
  proof (cases "addr < ends")
    case False
    then show ?thesis using y by (simp add: listed_def)
  next
    case True
    with y obtain offt i1 vm where d: "decode_instn defs (unat addr) i (st_vm st) = Some (offt, i1, vm)" by auto
    from decode_instn_same [OF d] obtain e where e: "vm = (st_vm st)\<lparr>exceptions := e\<rparr>" "0 \<le> offt \<Longrightarrow> vm = st_vm st"
      by (auto simp: same_but_exceptions_def)
    show ?thesis
    proof (cases "offt < 0")
      case neg: True
      then have "st' = say (''decode failed at: 0x'' @ fmt_x 8 (unat addr) @ newline @ print_exception ''  '' (exceptions vm AND NOT (exceptions (st_vm st))))
          (set_vm ((st_vm st)\<lparr>exceptions := exceptions vm AND NOT (exceptions (st_vm st))\<rparr>) st)"
        using y True d e(1) by (simp add: Let_def)
      with d neg show ?thesis unfolding listed_def by blast
    next
      case False
      then have "set_vm vm st = st" using e(2) by (simp add: set_vm_def)
      then obtain s i2 where "f defs ends (addr + of_int offt) i2 (say s st) = Some st'"
        using y True d False by (auto simp: Let_def split: if_splits dest!: print_code_address_says print_instn_says)
      then show ?thesis using ih listed_say by blast
    qed
  qed
qed

lemma listed_disasm: "dbg_disasm g argv st = Some (r, st') \<Longrightarrow> listed (g_defs g) st st'"
  by (auto simp: dbg_disasm_def Let_def split: if_splits intro: listed_disasm_loop) (auto simp: listed_def)

text \<open>
  C24. What the commands that show something change: nothing but the output, except that \<open>help\<close>
  keeps the width of its format, and that \<open>disasm\<close>, when it comes to an instruction that cannot be
  decoded, leaves the exceptions this raised anew in the machine in place of those it had. The
  commands that find no running program change nothing but the output either.
\<close>

lemma showing_only_prints:
  assumes "run_command g c argv st = Some (r, st')"
    and "c \<in> {C_quit, C_help, C_sym, C_vm, C_db, C_dw, C_dd, C_dq, C_ds, C_brks, C_proc, C_bt, C_io, C_ch, C_disasm} \<or>
      st_flags st AND F_RUNNING = 0 \<and> c \<in> {C_n, C_cleanup, C_firev, C_yield}"
  shows "case c of
      C_help \<Rightarrow> \<exists>s n. st' = say s (st\<lparr>help_format_string := Some n\<rparr>) \<and> help_format_string st \<in> {None, Some n}
    | C_disasm \<Rightarrow> (\<exists>s. st' = say s st) \<or>
        (\<exists>s a i d i' vm. decode_instn (g_defs g) a i (st_vm st) = Some (d, i', vm) \<and> d < 0 \<and>
           st' = say s (set_vm ((st_vm st)\<lparr>exceptions := exceptions vm AND NOT (exceptions (st_vm st))\<rparr>) st))
    | _ \<Rightarrow> \<exists>s. st' = say s st"
proof -
  consider "c = C_help" | "c = C_disasm" | "c \<in> shows_only"
    | "st_flags st AND F_RUNNING = 0" "c \<in> {C_n, C_cleanup, C_firev, C_yield}"
    using assms(2) by (auto simp: shows_only_def)
  then show ?thesis
  proof cases
    case 1
    show ?thesis
    proof (cases "help_format_string st")
      case None
      then show ?thesis using 1 assms(1) by (auto simp: dbg_help_def Let_def)
    next
      case (Some n)
      then have "st\<lparr>help_format_string := Some n\<rparr> = st" by (cases st) simp
      moreover obtain s where "st' = say s st" using 1 assms(1) Some by (auto simp: dbg_help_def Let_def)
      ultimately have "st' = say s (st\<lparr>help_format_string := Some n\<rparr>)" by simp
      with 1 Some show ?thesis by auto
    qed
  next
    case 2
    then have "listed (g_defs g) st st'" using listed_disasm assms(1) by simp
    with 2 show ?thesis by (simp add: listed_def)
  next
    case 3
    then show ?thesis using showing_says [OF assms(1)] by (auto simp: shows_only_def)
  next
    case 4
    then show ?thesis using idle_says [OF assms(1)] by auto
  qed
qed

section \<open>What a session keeps\<close>

text \<open>
  A relation between the states before and after: when it allows for output and every command is
  in it, a line and a whole session are.
\<close>

locale command_contract =
  fixes R :: "'w dbg_state_t \<Rightarrow> 'w dbg_state_t \<Rightarrow> bool" and g :: "'w dbg_env"
  assumes R_trans: "R a b \<Longrightarrow> R b c \<Longrightarrow> R a c"
    and R_say: "R st (say s st)"
    and R_command: "run_command g cmd argv st = Some (r, st') \<Longrightarrow> R st st'"
begin

lemma R_line: "exec_command g argv st = Some (r, st') \<Longrightarrow> R st st'"
  by (auto simp: exec_command_def R_say split: option.splits intro: R_command)

lemma R_session: "session g lines st = Some st' \<Longrightarrow> R st st'"
proof (induction lines arbitrary: st rule: length_induct)
  case (1 lines)
  have refl: "R st st" using R_say [of st "[]"] by (simp add: say_def)
  show ?case
  proof (cases "read_command lines")
    case None
    with 1 refl show ?thesis by (simp add: session.simps)
  next
    case (Some p)
    then obtain c rest where p: "read_command lines = Some (c, rest)" by (cases p) auto
    with 1 obtain r st1 where e: "exec_command g (split_cmdline c) st = Some (r, st1)"
        "st' = st1 \<or> session g rest st1 = Some st'"
      by (auto simp: session.simps [of g lines] split: option.splits if_splits)
    have "R st1 st'" using e(2) 1 read_command_shorter [OF p] R_say [of st1 "[]"] by (auto simp: say_def)
    with R_line [OF e(1)] show ?thesis by (rule R_trans)
  qed
qed

end

text \<open>The machine and the symbols: code and well-formedness are kept, the symbols stay the same.\<close>

definition kept :: "'w dbg_state_t \<Rightarrow> 'w dbg_state_t \<Rightarrow> bool" where
  "kept st st' \<longleftrightarrow> keeps (st_vm st) (st_vm st') \<and> st_data st' = st_data st \<and> st_labels st' = st_labels st"

lemma kept_say [simp]: "kept (say s a) b = kept a b" "kept a (say s b) = kept a b" "kept a a"
  by (simp_all add: kept_def)

lemma kept_trans: "kept a b \<Longrightarrow> kept b c \<Longrightarrow> kept a c"
  by (auto simp: kept_def intro: keeps_trans)

lemma kept_set_vm: "keeps (st_vm st) vm \<Longrightarrow> kept st (set_vm vm st)"
  by (simp add: kept_def set_vm_def)

lemma kept_says: "\<exists>s. st' = say s st \<Longrightarrow> kept st st'"
  by auto

lemma kept_attach: "create_and_attach_breakpoint g pt st = Some st' \<Longrightarrow> kept st st'"
  by (auto simp: create_and_attach_breakpoint_def Let_def kept_def split: prod.splits)

lemma kept_break_at_name: "break_at_name g arg st = Some (r, st') \<Longrightarrow> kept st st'"
  by (auto simp: break_at_name_def Let_def split: option.splits if_splits prod.splits map_status.splits intro: kept_attach)

lemma kept_break: "dbg_break g argv st = Some (r, st') \<Longrightarrow> kept st st'"
  by (auto simp: dbg_break_def Let_def split: option.splits if_splits intro: kept_attach kept_break_at_name)

lemma kept_break_delete: "dbg_break_delete argv st = Some (r, st') \<Longrightarrow> kept st st'"
  by (auto simp: dbg_break_delete_def Let_def kept_def split: option.splits if_splits)

lemma kept_step_decoded:
  assumes "realloc_ok (g_os g)" "step_decoded g chk i st = Some (r, i', st')"
  shows "kept st st'"
proof -
  obtain hit where h: "(if chk then has_hit_breakpoint (g_defs g) i st else Some None) = Some hit"
    using assms(2) by (auto simp: step_decoded_def)
  show ?thesis
  proof (cases hit)
    case (Some brk)
    then obtain st1 where "print_breakpoint brk (say ''Reached breakpoint '' st) = Some st1" "st' = say newline st1"
      using assms(2) h by (auto simp: step_decoded_def)
    then show ?thesis using kept_says by (auto dest!: print_breakpoint_says)
  next
    case None
    then obtain x vm where x: "vm_exec_instn (g_os g) (g_fuel g) (g_defs g) i (st_vm st) = Some (x, vm)"
        "st' = set_vm vm st \<or> (\<exists>vm1. after_instn (g_os g) (g_fuel g) vm = Some vm1 \<and> st' = set_vm vm1 st)"
      using assms(2) h by (auto simp: step_decoded_def split: if_splits)
    have "keeps (st_vm st) vm" using keeps_viaD [OF keeps_vm_exec [OF assms(1)] x(1)] by simp
    then show ?thesis
      using x(2) keeps_optD [OF keeps_after_instn] by (metis kept_set_vm keeps_trans)
  qed
qed

lemma kept_step_turn:
  assumes "realloc_ok (g_os g)" "step_turn g chk i st = Some (r, i', st')"
  shows "kept st st'"
proof -
  obtain n vm where e: "(if procedures (st_vm st) = [] then vm_fire_events (g_os g) (g_fuel g) (st_vm st) else Some (1, st_vm st)) = Some (n, vm)"
    using assms(2) by (auto simp: step_turn_def)
  then have k: "keeps (st_vm st) vm"
    using keeps_viaD [OF keeps_vm_fire_events] by (fastforce split: if_splits)
  show ?thesis
  proof (cases "0 < n")
    case False
    then show ?thesis using assms(2) e k by (auto simp: step_turn_def split: if_splits intro: kept_set_vm)
  next
    case True
    with assms(2) e obtain p vm1 where c: "vm_current_procedure vm = Some (p, vm1)" by (auto simp: step_turn_def)
    have k1: "keeps (st_vm st) vm1" using keeps_trans [OF k] keeps_viaD [OF keeps_current c] by simp
    show ?thesis
    proof (cases p)
      case None
      then show ?thesis using assms(2) e c True k1 by (auto simp: step_turn_def intro: kept_set_vm)
    next
      case (Some q)
      with assms(2) e c True obtain d i1 vm2 where d: "vm_decode_instn (g_defs g) q i vm1 = Some (d, i1, vm2)"
          "st' = set_vm vm2 st \<or> (\<exists>r. step_decoded g chk i1 (set_vm vm2 st) = Some (r, i', st'))"
        by (auto simp: step_turn_def split: if_splits)
      have "keeps (st_vm st) vm2" using keeps_trans [OF k1] keeps_viaD [OF keeps_vm_decode d(1)] by simp
      then have "kept st (set_vm vm2 st)" by (rule kept_set_vm)
      then show ?thesis using d(2) kept_step_decoded [OF assms(1)] by (auto intro: kept_trans)
    qed
  qed
qed

lemma kept_step_program:
  assumes os: "realloc_ok (g_os g)" and s: "step_program g chk i st = Some (r, i', st')"
  shows "kept st st'"
proof -
  have "realloc_ok (g_os g) \<longrightarrow> kept st (snd (snd (r, i', st')))"
  proof (rule step_program.raw_induct [of "\<lambda>g chk i st x. realloc_ok (g_os g) \<longrightarrow> kept st (snd (snd x))", OF _ s], rule impI)
    fix f and g :: "'a dbg_env" and chk i and st :: "'a dbg_state_t" and y
    assume ih: "\<And>g chk i st y. f g chk i st = Some y \<Longrightarrow> realloc_ok (g_os g) \<longrightarrow> kept st (snd (snd y))"
      and os: "realloc_ok (g_os g)"
      and y: "do { (r, i, st) \<leftarrow> step_turn g chk i st;
        (case r of None \<Rightarrow> f g chk i st | Some r \<Rightarrow> Some (r, i, st)) } = Some y"
    obtain r i1 st1 where t: "step_turn g chk i st = Some (r, i1, st1)" "(case r of None \<Rightarrow> f g chk i1 st1 | Some r \<Rightarrow> Some (r, i1, st1)) = Some y"
      using y by auto
    have rec: "f g chk i1 st1 = Some y \<Longrightarrow> kept st1 (snd (snd y))" using ih os by blast
    show "kept st (snd (snd y))"
      using kept_step_turn [OF os t(1)] t(2) rec by (auto split: option.splits intro: kept_trans)
  qed
  then show ?thesis using os by simp
qed

lemma kept_run_steps:
  assumes os: "realloc_ok (g_os g)" and s: "run_steps g i st = Some (r, i', st')"
  shows "kept st st'"
proof -
  have "realloc_ok (g_os g) \<longrightarrow> kept st (snd (snd (r, i', st')))"
  proof (rule run_steps.raw_induct [of "\<lambda>g i st x. realloc_ok (g_os g) \<longrightarrow> kept st (snd (snd x))", OF _ s], rule impI)
    fix f and g :: "'a dbg_env" and i and st :: "'a dbg_state_t" and y
    assume ih: "\<And>g i st y. f g i st = Some y \<Longrightarrow> realloc_ok (g_os g) \<longrightarrow> kept st (snd (snd y))"
      and os: "realloc_ok (g_os g)"
      and y: "do { (r, i, st) \<leftarrow> step_program g True i st;
        if r = 0 \<or> r = 2 then Some (r, i, st) else f g i st } = Some y"
    obtain r i1 st1 where t: "step_program g True i st = Some (r, i1, st1)" "(if r = 0 \<or> r = 2 then Some (r, i1, st1) else f g i1 st1) = Some y"
      using y by auto
    have rec: "f g i1 st1 = Some y \<Longrightarrow> kept st1 (snd (snd y))" using ih os by blast
    show "kept st (snd (snd y))"
      using kept_step_program [OF os t(1)] t(2) rec by (auto split: if_splits intro: kept_trans)
  qed
  then show ?thesis using os by simp
qed

lemma print_current_says: "print_current g i st = Some st' \<Longrightarrow> \<exists>s. st' = say s st"
  by (auto simp: print_current_def dest!: print_code_address_says print_instn_says)

lemma kept_run: "realloc_ok (g_os g) \<Longrightarrow> dbg_run g argv st = Some (r, st') \<Longrightarrow> kept st st'"
  by (auto simp: dbg_run_def kept_def split: if_splits dest!: kept_run_steps print_current_says)

lemma kept_step: "realloc_ok (g_os g) \<Longrightarrow> dbg_step g argv st = Some (r, st') \<Longrightarrow> kept st st'"
  by (auto simp: dbg_step_def if_running_def kept_def split: if_splits dest!: kept_step_program print_current_says)

lemma kept_listed: "listed defs st st' \<Longrightarrow> kept st st'"
  by (auto simp: listed_def intro!: kept_set_vm keeps_same)

lemma kept_disasm: "dbg_disasm g argv st = Some (r, st') \<Longrightarrow> kept st st'"
  by (rule kept_listed [OF listed_disasm])

lemma kept_help: "dbg_help argv st = Some (r, st') \<Longrightarrow> kept st st'"
  by (auto simp: dbg_help_def Let_def kept_def split: option.splits)

lemma kept_events:
  assumes "dbg_cleanup g argv st = Some (r, st') \<or> dbg_fire_events g argv st = Some (r, st') \<or> dbg_yield argv st = Some (r, st')"
  shows "kept st st'"
proof -
  have c: "kept st (set_vm vm st)" if "cleanup_vm os fuel (st_vm st) = Some vm" for os fuel vm
    using keeps_optD [OF keeps_cleanup_vm that] by (rule kept_set_vm)
  have f: "kept st (set_vm vm st)" if "vm_fire_events os fuel (st_vm st) = Some (n, vm)" for os fuel n vm
    using keeps_viaD [OF keeps_vm_fire_events that] by (auto intro: kept_set_vm)
  have y: "kept st (set_vm vm st)" if "sys_yield 0 0 (st_vm st) = Some vm" for vm
    using keeps_optD [OF keeps_opt_sys_yield that] by (rule kept_set_vm)
  show ?thesis
    using assms by (auto simp: dbg_cleanup_def dbg_fire_events_def dbg_yield_def if_running_def
      split: if_splits dest!: c f y)
qed

lemma kept_command:
  assumes "realloc_ok (g_os g)" "run_command g c argv st = Some (r, st')"
  shows "kept st st'"
proof (cases "c \<in> shows_only")
  case True
  then show ?thesis using showing_says [OF assms(2)] kept_says by blast
next
  case False
  then have "c \<in> {C_help, C_brk, C_brkd, C_run, C_n, C_cleanup, C_firev, C_yield, C_disasm}"
    by (cases c) (simp_all add: shows_only_def)
  then show ?thesis
    using assms by (auto dest: kept_help kept_break kept_break_delete kept_run kept_step kept_disasm intro: kept_events)
qed

interpretation commands: command_contract "\<lambda>st st'. realloc_ok (g_os g) \<longrightarrow> kept st st'" g for g :: "'w dbg_env"
  by unfold_locales (auto intro: kept_trans kept_command)

text \<open>
  C23. A session keeps the program: whatever is typed, the machine that is left has the code it
  came with, and its memory is well-formed if it was.
\<close>

lemma session_keeps_program:
  assumes "realloc_ok (g_os g)" "debug_vm g typed vm data = Some st"
  shows "code (st_vm st) = code vm \<and> codesz (st_vm st) = codesz vm \<and> (vm_wf vm \<longrightarrow> vm_wf (st_vm st))"
proof -
  obtain s0 s1 where s: "setup_state g vm data = Some s0" "session g typed (print_init_message s0) = Some s1"
      "cleanup_state g s1 = Some st"
    using assms(2) by (auto simp: debug_vm_def)
  have "st_vm s0 = vm" using s(1) by (auto simp: setup_state_def Let_def split: option.splits)
  moreover have "kept (print_init_message s0) s1" using commands.R_session [OF s(2)] assms(1) by simp
  then have "keeps (st_vm s0) (st_vm s1)" by (simp add: kept_def print_init_message_def)
  moreover have "keeps (st_vm s1) (st_vm st)"
    using s(3) keeps_optD [OF keeps_cleanup_vm] by (auto simp: cleanup_state_def)
  ultimately have "keeps vm (st_vm st)" by (auto intro: keeps_trans)
  then show ?thesis by (simp add: keeps_def)
qed

lemma showing_only_prints_witness:
  "\<exists>s. run_command demo_env C_vm [''vm''] demo_state = Some (0, say s demo_state)"
proof -
  have "run_command demo_env C_vm [''vm''] demo_state = dbg_show_vm demo_env [''vm''] demo_state" by simp
  then obtain st' where r: "run_command demo_env C_vm [''vm''] demo_state = Some (0, st')"
    by (simp add: dbg_show_vm_def Let_def)
  with showing_only_prints [OF r] show ?thesis by auto
qed

lemma session_keeps_program_witness:
  "\<exists>st. debug_vm demo_env ['' vm ''] ret_vm None = Some st \<and> code (st_vm st) = [72, 1] \<and> vm_wf (st_vm st)"
proof -
  have e: "trim '' vm '' = ''vm''" "split_cmdline ''vm'' = [''vm'']" "find_command ''vm'' = Some C_vm" by code_simp+
  have "cleanup_vm demo_os 0 ret_vm = Some ret_vm"
    by (simp add: cleanup_vm_def cleanup_child_proc_def fire_proc_events_def small_vm_simps)
  then obtain st where st: "debug_vm demo_env ['' vm ''] ret_vm None = Some st"
    using e by (simp add: debug_vm_def setup_state_def session.simps exec_command_def dbg_show_vm_def Let_def demo_env_def
        print_init_message_def cleanup_state_def say_def list_destroy_def list_destroy_loop.simps)
  have "realloc_ok (g_os demo_env)" by (simp add: demo_env_def demo_os_ok)
  from session_keeps_program [OF this st] st small_vm_wf(1) show ?thesis
    by (simp add: small_vm_simps)
qed

end
