(* ===== verification/DebugStops.thy ===== *)
theory DebugStops
  imports DebugKeeps
begin

text \<open>
  Where a program stops under the debugger, and how it goes on: a breakpoint is looked at after
  the instruction was decoded.
\<close>

section \<open>Stopping at a breakpoint\<close>

text \<open>
  The machine \<open>vm\<close> is about to carry out the instruction \<open>i'\<close> of the procedure \<open>p\<close>; and the
  machine when this has been decoded, which is all that has happened to it.
\<close>

definition decodes_next ::
  "instn_def_t list \<Rightarrow> instn_t \<Rightarrow> 'w vm_t \<Rightarrow> proc_t \<Rightarrow> proc_t list \<Rightarrow> int \<Rightarrow> instn_t \<Rightarrow> bool" where
  "decodes_next defs i vm p ps offt i' \<longleftrightarrow> procedures vm = p # ps \<and> p_iptr p < codesz vm \<and> 0 \<le> offt \<and>
     (\<exists>vm'. decode_instn defs (unat (p_iptr p)) i (vm\<lparr>iptr := p_iptr p\<rparr>) = Some (offt, i', vm'))"

definition moved_past :: "proc_t \<Rightarrow> int \<Rightarrow> proc_t" where
  "moved_past p offt = p\<lparr>p_iptr := p_iptr p + of_int offt\<rparr>"

definition decoded_only :: "proc_t \<Rightarrow> proc_t list \<Rightarrow> int \<Rightarrow> 'w vm_t \<Rightarrow> 'w vm_t" where
  "decoded_only p ps offt vm = vm\<lparr>iptr := p_iptr p, procedures := moved_past p offt # ps\<rparr>"

lemma step_turn_decodes:
  assumes "ready (g_os g) (g_fuel g) (st_vm st) vm" "decodes_next (g_defs g) i vm p ps offt i'"
  shows "step_turn g c i st =
    map_option (\<lambda>(r, j, st). (Some r, j, st)) (step_decoded g c i' (set_vm (decoded_only p ps offt vm) st))"
proof -
  have p: "procedures vm = p # ps" "p_iptr p < codesz vm" using assms(2) by (auto simp: decodes_next_def)
  have d: "decode_instn (g_defs g) (unat (p_iptr p)) i (vm\<lparr>iptr := p_iptr p\<rparr>) = Some (offt, i', vm\<lparr>iptr := p_iptr p\<rparr>)" "0 \<le> offt"
    using assms(2) decode_instn_same by (fastforce simp: decodes_next_def)+
  have "vm_current_procedure vm = Some (Some p, vm)" using p by (simp add: vm_current_procedure_def)
  moreover have "vm_decode_instn (g_defs g) p i vm = Some (0, i', decoded_only p ps offt vm)"
    using d p by (simp add: vm_decode_instn_def decoded_only_def moved_past_def set_this_proc_def)
  moreover obtain n where "(if procedures (st_vm st) = [] then vm_fire_events (g_os g) (g_fuel g) (st_vm st)
      else Some (1, st_vm st)) = Some (n, vm)" "0 < n"
    using assms(1) by (auto simp: ready_iff)
  ultimately show ?thesis
    by (cases "step_decoded g c i' (set_vm (decoded_only p ps offt vm) st)") (auto simp: step_turn_def)
qed

lemma step_program_decodes:
  assumes "ready (g_os g) (g_fuel g) (st_vm st) vm" "decodes_next (g_defs g) i vm p ps offt i'"
  shows "step_program g c i st = step_decoded g c i' (set_vm (decoded_only p ps offt vm) st)"
  by (subst step_program.simps, simp only: step_turn_decodes [OF assms])
    (cases "step_decoded g c i' (set_vm (decoded_only p ps offt vm) st)", auto)

text \<open>
  The turns of \<open>run\<close> that lead from one state of the debugger to another: those that carry out an
  instruction, those that wait for events and those that end a procedure.
\<close>

definition turns_to :: "'w dbg_env \<Rightarrow> instn_t \<times> 'w dbg_state_t \<Rightarrow> instn_t \<times> 'w dbg_state_t \<Rightarrow> bool" where
  "turns_to g = (\<lambda>a b. \<exists>r \<in> {None, Some 1}. step_turn g True (fst a) (snd a) = Some (r, fst b, snd b))\<^sup>*\<^sup>*"

lemma run_steps_turns:
  assumes "turns_to g a b"
  shows "run_steps g (fst a) (snd a) = run_steps g (fst b) (snd b)"
  using assms unfolding turns_to_def
  by (induction rule: converse_rtranclp_induct) (auto dest: run_steps_turn)

lemma step_decoded_state:
  assumes "step_decoded g c i st = Some (r, i', st')" "r \<noteq> 2"
  shows "st' = set_vm (st_vm st') st"
proof -
  obtain hit where h: "(if c then has_hit_breakpoint (g_defs g) i st else Some None) = Some hit"
    using assms(1) by (auto simp: step_decoded_def)
  have "hit = None" using assms h by (cases hit) (auto simp: step_decoded_def)
  then show ?thesis using assms(1) h by (auto simp: step_decoded_def split: if_splits)
qed

lemma step_turn_state:
  "step_turn g c i st = Some (r, i', st') \<Longrightarrow> r \<noteq> Some 2 \<Longrightarrow> st' = set_vm (st_vm st') st"
  by (auto simp: step_turn_def bind_eq_Some_conv split: if_splits option.splits dest!: step_decoded_state)

lemma turns_to_state:
  assumes "turns_to g a b"
  shows "snd b = set_vm (st_vm (snd b)) (snd a)"
  using assms unfolding turns_to_def
proof (induction rule: rtranclp_induct)
  case (step y z)
  then have "snd z = set_vm (st_vm (snd z)) (snd y)" using step_turn_state [of g True "fst y" "snd y" _ "fst z" "snd z"] by auto
  with step.IH show ?case by (metis set_vm_simps(2))
qed simp

text \<open>
  C25. \<open>run\<close> stops at the first instruction it comes to to which a breakpoint applies, one of any
  kind. By then the instruction has been decoded: the machine stands at its address, and it
  differs from the one before only in this and in the procedure, which is already behind the
  instruction. So going on, by \<open>run\<close> or by \<open>n\<close>, decodes the instruction behind it, and the one at
  the breakpoint is never executed.
\<close>

lemma breakpoint_skips:
  assumes run: "turns_to g (g_junk g, st\<lparr>st_flags := F_RUNNING\<rparr>) (i, st0)"
    and d: "ready (g_os g) (g_fuel g) (st_vm st0) vm" "decodes_next (g_defs g) i vm p ps offt i'"
    and b: "breaks_are st bs" "first_hit (brk_hit (g_defs g) i' (decoded_only p ps offt vm)) bs = Some (Some brk)"
  shows "dbg_run g argv st = do {
      st1 \<leftarrow> print_breakpoint brk (say ''Reached breakpoint '' (set_vm (decoded_only p ps offt vm) st0));
      st2 \<leftarrow> print_current g i' (say newline st1);
      Some (0, st2)
    } \<and>
    (\<forall>r st'. dbg_run g argv st = Some (r, st') \<longrightarrow>
      st_vm st' = vm\<lparr>iptr := p_iptr p, procedures := p\<lparr>p_iptr := p_iptr p + of_int offt\<rparr> # ps\<rparr> \<and>
      st_flags st' = F_RUNNING \<and>
      (\<forall>c j offt2 j'. decodes_next (g_defs g) j (st_vm st') (moved_past p offt) ps offt2 j' \<longrightarrow>
         step_program g c j st' = step_decoded g c j' (set_vm (decoded_only (moved_past p offt) ps offt2 (st_vm st')) st')))"
proof -
  let ?vm = "decoded_only p ps offt vm"
  let ?stop = "do {
      st1 \<leftarrow> print_breakpoint brk (say ''Reached breakpoint '' (set_vm ?vm st0));
      st2 \<leftarrow> print_current g i' (say newline st1);
      Some (0 :: int, st2)
    }"
  obtain v where v: "st0 = set_vm v (st\<lparr>st_flags := F_RUNNING\<rparr>)" using turns_to_state [OF run] by simp
  have "breaks_are (set_vm ?vm st0) bs" using b(1) by (simp add: v breaks_are_def set_vm_def)
  from hit_ok [OF this, of "g_defs g" i'] have hit: "has_hit_breakpoint (g_defs g) i' (set_vm ?vm st0) = Some (Some brk)"
    using b(2) by simp
  have "step_program g True i st0 = map_option (\<lambda>st'. (2, i', say newline st'))
      (print_breakpoint brk (say ''Reached breakpoint '' (set_vm ?vm st0)))"
    using step_program_decodes [OF d, of True] hit
    by (cases "print_breakpoint brk (say ''Reached breakpoint '' (set_vm ?vm st0))") (simp_all add: step_decoded_def)
  then have "run_steps g i st0 = map_option (\<lambda>st'. (2, i', say newline st'))
      (print_breakpoint brk (say ''Reached breakpoint '' (set_vm ?vm st0)))"
    by (subst run_steps.simps) (cases "print_breakpoint brk (say ''Reached breakpoint '' (set_vm ?vm st0))", auto)
  then have "run_steps g (g_junk g) (st\<lparr>st_flags := F_RUNNING\<rparr>) = map_option (\<lambda>st'. (2, i', say newline st'))
      (print_breakpoint brk (say ''Reached breakpoint '' (set_vm ?vm st0)))"
    using run_steps_turns [OF run] by simp
  then have run_eq: "dbg_run g argv st = ?stop"
    by (cases "print_breakpoint brk (say ''Reached breakpoint '' (set_vm ?vm st0))") (simp_all add: dbg_run_def)
  have after: "st_vm st' = ?vm \<and> st_flags st' = F_RUNNING" if stop: "?stop = Some (r, st')" for r st'
  proof -
    obtain st1 where 1: "print_breakpoint brk (say ''Reached breakpoint '' (set_vm ?vm st0)) = Some st1"
        "print_current g i' (say newline st1) = Some st'"
      using stop by (auto simp: bind_eq_Some_conv)
    obtain x where "st1 = say x (say ''Reached breakpoint '' (set_vm ?vm st0))" using print_breakpoint_says [OF 1(1)] by blast
    moreover obtain y where "st' = say y (say newline st1)" using print_current_says [OF 1(2)] by blast
    ultimately obtain s where "st' = say s (set_vm ?vm st0)" by auto
    then show ?thesis by (simp add: v) (simp add: set_vm_def)
  qed
  have next_step: "step_program g c j st' = step_decoded g c j' (set_vm (decoded_only (moved_past p offt) ps offt2 (st_vm st')) st')"
    if "decodes_next (g_defs g) j (st_vm st') (moved_past p offt) ps offt2 j'" for c j offt2 j' st'
    using that by (intro step_program_decodes) (auto simp: ready_iff decodes_next_def)
  show ?thesis using run_eq after next_step by (auto simp: decoded_only_def moved_past_def)
qed

lemma breakpoint_skips_witness:
  "\<exists>st st'. breaks_are st [\<lparr>brk_id = 0, brk_point = BRK_InstnName ''ret''\<rparr>] \<and> st_vm st = ret_vm \<and>
     dbg_run demo_env [''run''] st = Some (0, st') \<and> instns (st_vm st') = 0 \<and>
     map p_iptr (procedures (st_vm st')) = [2]"
proof -
  let ?brk = "\<lparr>brk_id = 0, brk_point = BRK_InstnName ''ret''\<rparr>" and ?i = "no_instn\<lparr>icode := 328\<rparr>"
  have "g_malloc demo_env (st_nodes demo_state) \<notin> dom (st_nodes demo_state)" by (simp add: demo_state_def)
  from attach_ok [OF demo_breaks this, of "BRK_InstnName ''ret''"] obtain q h where b: "queue_is (q, h) [?brk]"
    by (auto simp: demo_state_def)
  let ?st = "demo_state\<lparr>st_nodes := h, breakpoints := q\<rparr>"
  have st: "breaks_are ?st [?brk]" using b by (simp add: breaks_are_def)
  obtain p where p: "procedures ret_vm = [p]" "p_iptr p = 0" by (simp add: small_vm_simps)
  have ret: "name (std_defs ! 41) = ''ret''" by code_simp
  have "decode_instn std_defs (unat (p_iptr p)) no_instn (ret_vm\<lparr>iptr := p_iptr p\<rparr>) = Some (2, ?i, ret_vm\<lparr>iptr := 0\<rparr>)"
    by (simp add: p decode_instn_def past_bound_def nInstnDefs_std arg_count_at_def std_ret load_2 no_instn_def small_vm_simps)
  then have d: "decodes_next (g_defs demo_env) no_instn ret_vm p [] 2 ?i"
    using p by (simp add: decodes_next_def demo_env_def) (simp add: small_vm_simps)
  have hit: "first_hit (brk_hit (g_defs demo_env) ?i (decoded_only p [] 2 ret_vm)) [?brk] = Some (Some ?brk)"
    by (simp add: brk_hit_def demo_env_def nInstnDefs_std ret)
  have s: "turns_to demo_env (g_junk demo_env, ?st\<lparr>st_flags := F_RUNNING\<rparr>) (no_instn, ?st\<lparr>st_flags := F_RUNNING\<rparr>)"
    by (simp add: turns_to_def demo_env_def)
  have "ready (g_os demo_env) (g_fuel demo_env) (st_vm (?st\<lparr>st_flags := F_RUNNING\<rparr>)) ret_vm"
    using p by (simp add: ready_iff demo_state_def)
  note skips = breakpoint_skips [OF s this d st hit, of "[''run'']"]
  have "\<exists>st'. dbg_run demo_env [''run''] ?st = Some (0, st')"
    unfolding conjunct1 [OF skips]
    by (simp add: print_breakpoint_def print_current_def print_code_address_def address_label_def set_vm_def say_def
        demo_state_def print_instn_def demo_env_def nInstnDefs_std std_ret Let_def)
  then obtain st' where run: "dbg_run demo_env [''run''] ?st = Some (0, st')" by blast
  with skips have "st_vm st' = ret_vm\<lparr>iptr := p_iptr p, procedures := p\<lparr>p_iptr := p_iptr p + of_int 2\<rparr> # []\<rparr>" by blast
  then have "instns (st_vm st') = 0" "map p_iptr (procedures (st_vm st')) = [2]"
    using p(2) by (simp_all add: small_vm_simps)
  with st run show ?thesis by (intro exI [of _ ?st] exI [of _ st']) (simp add: demo_state_def)
qed

end
