(* ===== verification/Listing.thy ===== *)
theory Listing
  imports DebugKeeps DebugSession CodeRoundtrip
begin

text \<open>
  The disassembler of the debugger on generated code: it prints the instructions of the source,
  each with the label and the line it has in the debug data, its address and its operands, and
  comes to the end of the code.
\<close>

section \<open>What a listing looks like\<close>

text \<open>
  \<open>symb\<close> is the label printed for an address of the memory or of the code. An immediate operand of
  four or eight bytes that is the address of a label is printed as this label.
\<close>

definition shown_arg :: "(bool \<Rightarrow> u32 \<Rightarrow> string option) \<Rightarrow> (string \<Rightarrow> u32) \<Rightarrow> bool \<Rightarrow> prs_arg_t \<Rightarrow> string" where
  "shown_arg symb res is_mem a =
     (if imm_type (a_type a) then
        (let v = take_bit (8 * unat (n_bytes a)) (arg_val res a) in
         case if 4 \<le> n_bytes a \<and> unat v < 2 ^ 32 then symb is_mem (ucast v) else None of
           Some l \<Rightarrow> CHR ''&'' # l
         | None \<Rightarrow> ''0x'' @ fmt_X (2 * unat (n_bytes a)) (unat v))
      else
        (case symb True (ucast (arg_val res a)) of
           Some l \<Rightarrow> l
         | None \<Rightarrow> ''*0x'' @ fmt_X 8 (unat (ucast (arg_val res a) :: u32))))"

text \<open>The first operand of a jump or a call is an address of the code.\<close>

definition arg_is_mem :: "instn_def_t \<Rightarrow> nat \<Rightarrow> bool" where
  "arg_is_mem d j \<longleftrightarrow> \<not> (j = 0 \<and> flags d AND F_1st_Arg_Code_Ref \<noteq> 0)"

definition shown_instn :: "(bool \<Rightarrow> u32 \<Rightarrow> string option) \<Rightarrow> (string \<Rightarrow> u32) \<Rightarrow> prs_instn_t \<Rightarrow> string" where
  "shown_instn symb res x = pad (CHR 0x20) 8 (name (i_def x)) @ ''/'' @ fmt_u 0 (length (i_args x)) @ tab @
     concat (map (\<lambda>j. ''  '' @ shown_arg symb res (arg_is_mem (i_def x) j) (i_args x ! j)) [0..<length (i_args x)])"

text \<open>An address of the code, with its label on a line before it and its line number, \<open>n\<close>, if it has one.\<close>

definition shown_address :: "(bool \<Rightarrow> u32 \<Rightarrow> string option) \<Rightarrow> i32 \<Rightarrow> u32 \<Rightarrow> string" where
  "shown_address symb n a = (case symb False a of Some l \<Rightarrow> l @ '':'' @ newline | None \<Rightarrow> []) @
     ''0x'' @ fmt_x 8 (unat a) @ (if 0 \<le> sint n then '' ['' @ fmt_d 4 (sint n) @ '']'' else [])"

definition shown_line :: "(bool \<Rightarrow> u32 \<Rightarrow> string option) \<Rightarrow> bool \<Rightarrow> bool \<Rightarrow> prs_result_t \<Rightarrow> nat \<Rightarrow> string" where
  "shown_line symb lined dbg r j =
     shown_address symb (if lined then i_lineno (pr_instns r ! j) else - 1) (of_nat (code_off dbg (pr_instns r) j)) @ '':  '' @
     shown_instn symb (resolve dbg r) (pr_instns r ! j) @ newline"

definition listing :: "(bool \<Rightarrow> u32 \<Rightarrow> string option) \<Rightarrow> bool \<Rightarrow> bool \<Rightarrow> prs_result_t \<Rightarrow> nat \<Rightarrow> string" where
  "listing symb lined dbg r i = concat (map (shown_line symb lined dbg r)
     (filter (\<lambda>j. \<not> left_out dbg (pr_instns r ! j)) [i..<length (pr_instns r)]))"

section \<open>What the debugger knows\<close>

text \<open>The labels the debugger finds are those of \<open>symb\<close>, and they can be printed.\<close>

definition knows :: "(bool \<Rightarrow> u32 \<Rightarrow> string option) \<Rightarrow> 'w dbg_state_t \<Rightarrow> bool" where
  "knows symb st \<longleftrightarrow> (\<forall>a m. address_label a st m = symb m a) \<and> (\<forall>m a l. symb m a = Some l \<longrightarrow> CHR ''%'' \<notin> set l)"

definition line_at :: "'w dbg_state_t \<Rightarrow> u32 \<Rightarrow> i32 option" where
  "line_at st a = (case st_data st of None \<Rightarrow> Some (- 1) | Some dbg \<Rightarrow> line_number dbg a (unat (n_code_lines dbg)) 0)"

lemma say_nil [simp]: "say [] st = st"
  by (simp add: say_def)

lemma knows_say [simp]: "knows symb (say s st) = knows symb st"
  by (simp add: knows_def address_label_def)

lemma line_at_say [simp]: "line_at (say s st) = line_at st"
  by (simp add: line_at_def fun_eq_iff)

lemma fits_32: "FITS_IN_32Bit v \<longleftrightarrow> unat v < 2 ^ 32"
proof -
  have "take_bit 64 (unat v) = unat v" using unsigned_less [where 'a = nat and w = v] by (intro take_bit_nat_eq_self) simp
  then have "unat (drop_bit 32 v) = drop_bit 32 (unat v)" by (simp add: unsigned_drop_bit_eq)
  then have "unat (drop_bit 32 v) = unat v div 2 ^ 32" by (simp only: drop_bit_eq_div)
  then show ?thesis by (simp add: FITS_IN_32Bit_def unat_eq_zero [symmetric] div_eq_0_iff)
qed

lemma printf_of_plain: "CHR ''%'' \<notin> set l \<Longrightarrow> printf_of l = Some l"
  by (induction l rule: printf_of.induct) auto

lemma printf_of_known: "knows symb st \<Longrightarrow> symb m a = Some l \<Longrightarrow> printf_of l = Some l"
  by (simp add: knows_def printf_of_plain)

text \<open>The two calls of \<open>disasm\<close> that print an address.\<close>

lemma print_address:
  assumes "knows symb st" "line_at st a = Some n"
  shows "do {
      (r, st) \<leftarrow> print_code_address a st False;
      if r \<noteq> 0 then do {
          (_, st) \<leftarrow> print_code_address a (say ('':'' @ newline) st) True;
          Some st
        } else Some st
    } = Some (say (shown_address symb n a) st)"
proof -
  have l: "address_label a s False = symb False a" if "knows symb s" for s :: "'a dbg_state_t"
    using that by (simp add: knows_def)
  have num: "print_code_address a s k = Some (0, say (''0x'' @ fmt_x 8 (unat a) @
      (if 0 \<le> sint n then '' ['' @ fmt_d 4 (sint n) @ '']'' else [])) s)"
    if "k \<or> symb False a = None" "knows symb s" "line_at s a = Some n" for k and s :: "'a dbg_state_t"
    using that l by (auto simp: print_code_address_def line_at_def)
  show ?thesis
  proof (cases "symb False a")
    case None
    with num [of False st] assms show ?thesis by (simp add: shown_address_def)
  next
    case (Some lb)
    then have "print_code_address a st False = Some (1, say lb st)"
      using l [OF assms(1)] printf_of_known [OF assms(1)] by (simp add: print_code_address_def)
    with Some num [of True "say (lb @ '':'' @ newline) st"] assms show ?thesis
      by (simp add: shown_address_def)
  qed
qed

section \<open>Instructions\<close>

lemma unat_ucast_take_bit:
  "unat (ucast (take_bit 8 v) :: u8) = unat (take_bit 8 (v :: u64))"
  "unat (ucast (take_bit 16 v) :: u16) = unat (take_bit 16 v)"
  "unat (ucast (take_bit 32 v) :: u32) = unat (take_bit 32 v)"
  by (simp_all add: unsigned_ucast_eq unsigned_take_bit_eq)

lemma print_arg_decoded:
  assumes d: "decoded_as res x instn" and x: "j < length (i_args x)" "length (i_args x) \<le> 3"
    and ok: "n_bytes_ok (i_args x ! j)" and b: "knows symb st"
  shows "print_arg def instn j st = Some (shown_arg symb res (arg_is_mem def j) (i_args x ! j))"
proof -
  let ?a = "i_args x ! j" and ?m = "arg_is_mem def j"
  have imm: "is_imm instn j \<longleftrightarrow> imm_type (a_type ?a)"
    using d op_ir_is_imm [OF x] by (simp add: is_imm_def decoded_as_def)
  have arg: "iargs instn ! j = dec_arg res ?a" using d x(1) by (simp add: decoded_as_def)
  have l: "label_or f s a st m = (case symb m a of Some l \<Rightarrow> f l | None \<Rightarrow> Some s)" for f s a m
    using b by (simp add: label_or_def knows_def)
  show ?thesis
  proof (cases "imm_type (a_type ?a)")
    case True
    then have "op_ir x AND 7 \<noteq> 0" using op_ir_no_imm [OF _ x] by blast
    then have n: "imm_bytes instn j = unat (n_bytes ?a)"
      using d i_sz_bytes [OF x True ok] by (simp add: imm_bytes_def decoded_as_def)
    have w: "iargs instn ! j = Imm (take_bit (8 * unat (n_bytes ?a)) (arg_val res ?a))"
      using arg True by (simp add: dec_arg_def)
    consider "n_bytes ?a = 1" | "n_bytes ?a = 2" | "n_bytes ?a = 4" | "n_bytes ?a = 8"
      using ok by (auto simp: n_bytes_ok_def)
    then show ?thesis
    proof cases
      case 3
      have "unat (take_bit 32 (arg_val res ?a)) < 2 ^ 32" 
        unfolding unsigned_take_bit_eq by (rule take_bit_nat_less_exp)
      then show ?thesis using True imm n w l 3 unat_ucast_take_bit [of "arg_val res ?a"]
        by (simp add: print_arg_def shown_arg_def arg_is_mem_def Let_def split: option.split)
    next
      case 4
      then show ?thesis using True imm n w l
        by (simp add: print_arg_def shown_arg_def arg_is_mem_def Let_def fits_32 split: option.split)
    next
      case 1
      then show ?thesis using True imm n w unat_ucast_take_bit(1) [of "arg_val res ?a"]
        by (simp add: print_arg_def shown_arg_def word_le_nat_alt)
    next
      case 2
      then show ?thesis using True imm n w unat_ucast_take_bit(2) [of "arg_val res ?a"]
        by (simp add: print_arg_def shown_arg_def word_le_nat_alt)
    qed
  next
    case False
    then show ?thesis using imm arg l printf_of_known [OF b]
      by (simp add: print_arg_def arg_ptr_def dec_arg_def shown_arg_def split: option.split)
  qed
qed

text \<open>All the operands, and the name of the instruction before them.\<close>

lemma print_args_decoded:
  assumes d: "decoded_as res x instn" and x: "length (i_args x) \<le> 3" "\<forall>a \<in> set (i_args x). n_bytes_ok a"
  shows "knows symb st \<Longrightarrow> j + n = length (i_args x) \<Longrightarrow> print_args def instn n j st =
    Some (say (concat (map (\<lambda>j. ''  '' @ shown_arg symb res (arg_is_mem def j) (i_args x ! j)) [j..<length (i_args x)])) st)"
proof (induction n arbitrary: j st)
  case (Suc n)
  then have j: "j < length (i_args x)" by simp
  with Suc print_arg_decoded [OF d j x(1) _ Suc.prems(1)] x(2) show ?case by (simp add: upt_conv_Cons)
qed simp

lemma print_instn_decoded:
  assumes "decoded_as res x instn" "instn_wf parse x" "knows symb st"
    and "unat (opcode (i_def x)) < nInstnDefs defs" "i_def x = defs ! unat (opcode (i_def x))"
  shows "print_instn defs instn st = Some (say (shown_instn symb res x) st)"
proof -
  have "drop_bit 3 (icode instn) = opcode (i_def x)"
    using assms(1,2) op_ir_opcode by (simp add: decoded_as_def instn_wf_def)
  moreover have "\<forall>a \<in> set (i_args x). n_bytes_ok a" using assms(2) arg_wf_bytes by (auto simp: instn_wf_def)
  ultimately show ?thesis
    using assms print_args_decoded [OF assms(1), where j = 0 and n = "length (i_args x)" and def = "i_def x" and
      st = "say (pad (CHR 0x20) 8 (name (i_def x)) @ ''/'' @ fmt_u 0 (length (i_args x)) @ tab) st"]
    by (simp add: print_instn_def shown_instn_def instn_wf_def Let_def)
qed

section \<open>The listing\<close>

lemma listing_step:
  "i < length (pr_instns r) \<Longrightarrow> listing symb lined dbg r i =
     (if left_out dbg (pr_instns r ! i) then [] else shown_line symb lined dbg r i) @ listing symb lined dbg r (Suc i)"
  by (simp add: listing_def upt_conv_Cons)

lemma listing_end: "listing symb lined dbg r (length (pr_instns r)) = []"
  by (simp add: listing_def)

text \<open>
  What the machine of the debugger must hold: the generated code, and a memory that has the places
  the instructions refer to.
\<close>

definition holds_code :: "bool \<Rightarrow> prs_result_t \<Rightarrow> 'w vm_t \<Rightarrow> bool" where
  "holds_code dbg r vm \<longleftrightarrow> code vm = full_code dbg r \<and> codesz vm = of_nat (length (full_code dbg r)) \<and>
     (\<forall>x \<in> set (pr_instns r). \<not> left_out dbg x \<longrightarrow> (\<forall>a \<in> set (i_args x). in_memory (resolve dbg r) vm a))"

text \<open>The line numbers the debugger finds are those of the instructions, or there are none.\<close>

definition finds_lines :: "bool \<Rightarrow> bool \<Rightarrow> prs_result_t \<Rightarrow> 'w dbg_state_t \<Rightarrow> bool" where
  "finds_lines lined dbg r st \<longleftrightarrow> (\<forall>j < length (pr_instns r). \<not> left_out dbg (pr_instns r ! j) \<longrightarrow>
     line_at st (of_nat (code_off dbg (pr_instns r) j)) = Some (if lined then i_lineno (pr_instns r ! j) else - 1))"

lemma finds_lines_say [simp]: "finds_lines lined dbg r (say s st) = finds_lines lined dbg r st"
  by (simp add: finds_lines_def)

lemma disasm_turn:
  assumes "instn_table defs" "parse_wf dbg r" "\<forall>x \<in> set (pr_instns r). i_def x \<in> set defs"
    and "holds_code dbg r (st_vm st)" "knows symb st" "finds_lines lined dbg r st" "length (iargs instn) = 3"
    and i: "i < length (pr_instns r)" "\<not> left_out dbg (pr_instns r ! i)"
  shows "\<exists>instn'. length (iargs instn') = 3 \<and>
    disasm_loop defs (codesz (st_vm st)) (of_nat (code_off dbg (pr_instns r) i)) instn st =
    disasm_loop defs (codesz (st_vm st)) (of_nat (code_off dbg (pr_instns r) (Suc i))) instn'
      (say (shown_line symb lined dbg r i) st)"
proof -
  let ?x = "pr_instns r ! i" and ?at = "code_off dbg (pr_instns r) i" and ?n = "length (full_code dbg r)"
  let ?head = "shown_address symb (if lined then i_lineno ?x else - 1) (of_nat ?at)"
  have x: "?x \<in> set (pr_instns r)" "instn_wf r ?x" "i_def ?x \<in> set defs" using assms(2,3) i(1) by (simp_all add: parse_wf_def)
  have le: "?at + isize ?x \<le> ?n" "?n \<le> 2 ^ 32 - 256" "2 \<le> isize ?x"
    using code_off_mono [of "Suc i" "length (pr_instns r)" dbg "pr_instns r"] assms(2) i
    by (simp_all add: code_off_Suc length_full_code parse_wf_def isize_def)
  obtain instn' where d: "decode_instn defs ?at instn (st_vm st) = Some (int (isize ?x), instn', st_vm st)"
      "decoded_as (resolve dbg r) ?x instn'"
    using code_decodes_at [OF assms(1,2) i x(3) _ _ _ assms(7)] assms(4) x(1) i(2) unfolding holds_code_def by blast
  obtain k where k: "k < length defs" "i_def ?x = defs ! k" using x(3) by (metis in_set_conv_nth)
  then have k': "unat (opcode (i_def ?x)) = k" "k < nInstnDefs defs"
    using table_opcode [OF assms(1) k(1)] table_length [OF assms(1)] by (simp_all add: nInstnDefs_def)
  have p: "print_instn defs instn' s = Some (say (shown_instn symb (resolve dbg r) ?x) s)" if "knows symb s" for s :: "'a dbg_state_t"
    using print_instn_decoded [OF d(2) x(2) that] k k' by simp
  have "line_at st (of_nat ?at) = Some (if lined then i_lineno ?x else - 1)"
    using assms(6) i by (simp add: finds_lines_def)
  note h = print_address [OF assms(5) this]
  have a: "unat (of_nat ?at :: u32) = ?at" "(of_nat ?at :: u32) < codesz (st_vm st)"
    using le assms(4) by (simp_all add: holds_code_def word_less_nat_alt)
  have s: "(of_nat ?at :: u32) + of_int (int (isize ?x)) = of_nat (code_off dbg (pr_instns r) (Suc i))"
    using i by (simp add: code_off_Suc)
  have v: "set_vm (st_vm st) st = st" by (simp add: set_vm_def)
  let ?ends = "codesz (st_vm st)"
  have "disasm_loop defs ?ends (of_nat ?at) instn st =
      do {
        st \<leftarrow> do {
          (r, st) \<leftarrow> print_code_address (of_nat ?at) st False;
          if r \<noteq> 0 then do {
              (_, st) \<leftarrow> print_code_address (of_nat ?at) (say ('':'' @ newline) st) True;
              Some st
            } else Some st
        };
        s \<leftarrow> print_instn defs instn' (say '':  '' st);
        disasm_loop defs ?ends (of_nat ?at + of_int (int (isize ?x))) instn' (say newline s)
      }"
    by (subst disasm_loop.simps)
      (use a d(1) in \<open>simp add: v Let_def Option.bind_assoc case_prod_unfold\<close>)
  with s d(2) p [of "say '':  '' (say ?head st)"] assms(5) show ?thesis by (auto simp: decoded_as_def h shown_line_def)
qed

lemma disasm_loop_lists:
  assumes t: "instn_table defs" "parse_wf dbg r" "\<forall>x \<in> set (pr_instns r). i_def x \<in> set defs"
  shows "i \<le> length (pr_instns r) \<Longrightarrow> holds_code dbg r (st_vm st) \<Longrightarrow> knows symb st \<Longrightarrow> finds_lines lined dbg r st \<Longrightarrow>
    length (iargs instn) = 3 \<Longrightarrow>
    disasm_loop defs (codesz (st_vm st)) (of_nat (code_off dbg (pr_instns r) i)) instn st =
      Some (say (listing symb lined dbg r i) st)"
proof (induction i arbitrary: instn st rule: inc_induct)
  case base
  then have "codesz (st_vm st) = of_nat (code_off dbg (pr_instns r) (length (pr_instns r)))"
    by (simp add: holds_code_def length_full_code)
  then show ?case by (subst disasm_loop.simps) (simp add: listing_end)
next
  case (step i)
  show ?case
  proof (cases "left_out dbg (pr_instns r ! i)")
    case True
    then show ?thesis using step by (simp add: listing_step code_off_Suc)
  next
    case False
    obtain instn' where "length (iargs instn') = 3"
        "disasm_loop defs (codesz (st_vm st)) (of_nat (code_off dbg (pr_instns r) i)) instn st =
         disasm_loop defs (codesz (st_vm st)) (of_nat (code_off dbg (pr_instns r) (Suc i))) instn'
          (say (shown_line symb lined dbg r i) st)"
      using disasm_turn [OF t step.prems step.hyps(2) False] by blast
    with step.IH [where instn = instn' and st = "say (shown_line symb lined dbg r i) st"] step.prems step.hyps(2) False
    show ?thesis by (simp add: listing_step)
  qed
qed

section \<open>Symbols and lines from the debug data\<close>

lemma label_found:
  fixes a m
  defines "look \<equiv> \<lambda>es. fold (\<lambda>(k, x) s. find_label_visitor a m s k x) es None"
  shows "look es = Some l \<Longrightarrow> \<exists>b. (l, Some b) \<in> set es \<and> b_is_mem_ref b = m \<and> b_address b = a"
    and "look es = None \<Longrightarrow> (l, Some b) \<in> set es \<Longrightarrow> b_is_mem_ref b = m \<Longrightarrow> b_address b \<noteq> a"
proof (induction es rule: rev_induct)
  case (snoc e es)
  {
    case 1
    with snoc(1) show ?case
      by (cases e) (auto simp: look_def find_label_visitor_def split: option.splits if_splits)
  next
    case 2
    with snoc(2) show ?case
      by (cases e) (auto simp: look_def find_label_visitor_def split: option.splits if_splits)
  }
qed (simp_all add: look_def)

lemma code_off_less:
  assumes "i < j" "j \<le> length xs"
  shows "code_off True xs i < code_off True xs j"
proof -
  have "2 \<le> isize (xs ! i)" by (simp add: isize_def)
  then have "code_off True xs i < code_off True xs (Suc i)" using assms by (simp add: code_off_Suc left_out_def)
  also have "\<dots> \<le> code_off True xs j" using assms(1) by (intro code_off_mono) simp
  finally show ?thesis .
qed

lemma code_off_inj:
  assumes "parse_wf True r" "i < length (pr_instns r)" "j < length (pr_instns r)"
    and "(of_nat (code_off True (pr_instns r) i) :: u32) = of_nat (code_off True (pr_instns r) j)"
  shows "i = j"
proof -
  let ?o = "code_off True (pr_instns r)"
  have b: "?o k < 2 ^ 32" if "k < length (pr_instns r)" for k
    using assms(1) code_off_mono [of k "length (pr_instns r)" True "pr_instns r"] that by (simp add: parse_wf_def)
  have "?o i = ?o j"
    using arg_cong [OF assms(4), of unat] b [OF assms(2)] b [OF assms(3)] by simp
  then show ?thesis
    using code_off_less [of i j "pr_instns r"] code_off_less [of j i "pr_instns r"] assms(2,3)
    by (metis less_irrefl less_imp_le nat_neq_iff)
qed

lemma line_number_loaded:
  assumes "debug_fits d"
  shows "i + k = length (d_code_lines d) \<Longrightarrow> line_number (loaded_debug d) a k (of_nat i) =
    Some (case find (\<lambda>ln. ln_address ln = a) (drop i (d_code_lines d)) of None \<Rightarrow> - 1 | Some ln \<Rightarrow> ln_lineno ln)"
proof (induction k arbitrary: i)
  case (Suc k)
  then have i: "i < length (d_code_lines d)" by simp
  have "(of_nat i :: u32) + 1 = of_nat (Suc i)" by simp
  with Suc.IH [of "Suc i"] Suc.prems i show ?case
    by (simp add: code_line_loaded [OF assms i] Cons_nth_drop_Suc [OF i, symmetric] del: of_nat_Suc)
qed simp

text \<open>
  The labels of a program by their address: of the labels of one instruction the last in the order
  of the table, and for an address of the memory one of its labels if it has any.
\<close>

definition symbols_of :: "prs_result_t \<Rightarrow> (bool \<Rightarrow> u32 \<Rightarrow> string option) \<Rightarrow> bool" where
  "symbols_of r symb \<longleftrightarrow>
     (\<forall>j < length (pr_instns r).
        symb False (of_nat (code_off True (pr_instns r) j)) = last_label (hm_entries (labels r)) j) \<and>
     (\<forall>a. a \<notin> (\<lambda>j. of_nat (code_off True (pr_instns r) j)) ` {..<length (pr_instns r)} \<longrightarrow> symb False a = None) \<and>
     (\<forall>a. case symb True a of
        Some l \<Rightarrow> \<exists>lbl. find_label r l = Some lbl \<and> is_mem_ref lbl \<and> l_offset lbl = a
      | None \<Rightarrow> \<nexists>l lbl. find_label r l = Some lbl \<and> is_mem_ref lbl \<and> l_offset lbl = a)"

text \<open>The parse the debug data is made of: that of the generator, with the offsets noted.\<close>

definition with_offsets :: "prs_result_t \<Rightarrow> prs_result_t \<Rightarrow> bool" where
  "with_offsets r p \<longleftrightarrow> labels p = labels r \<and> map_option fst (parse_to_bytecode r True) = Some (pr_instns p)"

lemma noted_instns:
  assumes "with_offsets r p" "parse_wf True r"
  shows "length (pr_instns p) = length (pr_instns r)"
    and "j < length (pr_instns r) \<Longrightarrow>
      pr_instns p ! j = (pr_instns r ! j)\<lparr>mem_offset := of_nat (code_off True (pr_instns r) j)\<rparr>"
proof -
  obtain ys b n where y: "parse_to_bytecode r True = Some (ys, b, n)" "length ys = length (pr_instns r)"
      "\<forall>j < length ys. ys ! j = (pr_instns r ! j)\<lparr>mem_offset := final_off True (pr_instns r) j\<rparr>"
    using parse_to_bytecode_ok [OF assms(2)] by blast
  have "final_off True (pr_instns r) j = of_nat (code_off True (pr_instns r) j)" if "j < length (pr_instns r)" for j
    using that by (auto simp: final_off_def off_before_def left_out_def)
  with y assms(1) show "length (pr_instns p) = length (pr_instns r)" "j < length (pr_instns r) \<Longrightarrow>
      pr_instns p ! j = (pr_instns r ! j)\<lparr>mem_offset := of_nat (code_off True (pr_instns r) j)\<rparr>"
    by (auto simp: with_offsets_def)
qed

lemma noted_find: "with_offsets r p \<Longrightarrow> find_label p l = find_label r l"
  by (simp add: with_offsets_def find_label_def)

text \<open>What the table of the debugger holds.\<close>

lemma symbol_table:
  assumes mk: "mk_debug_data names qsort p = Some d" "permutes qsort" "debug_input names p"
    and f: "debug_fits d" "\<And>n. g_calloc g n" and st: "setup_state g vm (Some (loaded_debug d)) = Some st"
    and n: "with_offsets r p"
  obtains t where
    "\<And>a m. address_label a st m = fold (\<lambda>(k, x) s. find_label_visitor a m s k x) (hm_entries t) None"
    "\<And>l b. (l, Some b) \<in> set (hm_entries t) \<longleftrightarrow> (\<exists>lbl. find_label r l = Some lbl \<and> b = symbol_of p l lbl \<and>
      (\<not> is_mem_ref lbl \<longrightarrow> last_label (hm_entries (labels r)) (unat (l_offset lbl)) = Some l))"
proof -
  obtain t where t: "st_labels st = Some t" "hm_abs t = map_of (rev (symbol_entries d))" "hm_inv t"
    using setup_state_table [OF mk f st] by blast
  have r: "labels p = labels r" "find_label p = find_label r" using n by (simp_all add: with_offsets_def find_label_def fun_eq_iff)
  have "(l, Some b) \<in> set (hm_entries t) \<longleftrightarrow> (\<exists>lbl. find_label r l = Some lbl \<and> b = symbol_of p l lbl \<and>
      (\<not> is_mem_ref lbl \<longrightarrow> last_label (hm_entries (labels r)) (unat (l_offset lbl)) = Some l))" for l b
  proof
    assume "(l, Some b) \<in> set (hm_entries t)"
    then have "(l, Some b) \<in> set (symbol_entries d)" using t(2) hm_entries_abs [OF t(3)] map_of_SomeD by fastforce
    from entries_sound [OF mk this] r show "\<exists>lbl. find_label r l = Some lbl \<and> b = symbol_of p l lbl \<and>
      (\<not> is_mem_ref lbl \<longrightarrow> last_label (hm_entries (labels r)) (unat (l_offset lbl)) = Some l)" by simp
  next
    assume "\<exists>lbl. find_label r l = Some lbl \<and> b = symbol_of p l lbl \<and>
      (\<not> is_mem_ref lbl \<longrightarrow> last_label (hm_entries (labels r)) (unat (l_offset lbl)) = Some l)"
    then obtain lbl where l: "find_label p l = Some lbl" "b = symbol_of p l lbl"
        "\<not> is_mem_ref lbl \<longrightarrow> last_label (hm_entries (labels p)) (unat (l_offset lbl)) = Some l" using r by auto
    then have "(l, Some (symbol_of p l lbl)) \<in> set (symbol_entries d)"
      using entries_mem [OF mk l(1)] entries_code [OF mk l(1)] by blast
    from symbols_looked_up [OF mk t(2) this l(1)] l(2) show "(l, Some b) \<in> set (hm_entries t)"
      by (auto simp: hm_entries_abs [OF t(3)] hmap_get_hm_abs split: option.splits)
  qed
  moreover have "address_label a st m = fold (\<lambda>(k, x) s. find_label_visitor a m s k x) (hm_entries t) None" for a m
    using t(1) by (simp add: address_label_def hmap_iterate_fold [OF t(3)])
  ultimately show ?thesis using that by blast
qed

lemma symbol_address:
  assumes "with_offsets r p" "parse_wf True r" "is_mem_ref lbl \<or> unat (l_offset lbl) < length (pr_instns r)"
  shows "b_address (symbol_of p l lbl) =
    (if is_mem_ref lbl then l_offset lbl else of_nat (code_off True (pr_instns r) (unat (l_offset lbl))))"
  using assms noted_instns(2) [OF assms(1,2)] by (auto simp: symbol_of_def)

lemma symbols_known:
  assumes mk: "mk_debug_data names qsort p = Some d" "permutes qsort" "debug_input names p"
    and f: "debug_fits d" "\<And>n. g_calloc g n" and st: "setup_state g vm (Some (loaded_debug d)) = Some st"
    and n: "with_offsets r p" "parse_wf True r"
  shows "symbols_of r (\<lambda>m a. address_label a st m)"
    and "address_label a st m = Some l \<Longrightarrow> find_label r l \<noteq> None"
proof -
  let ?o = "\<lambda>j. of_nat (code_off True (pr_instns r) j) :: u32"
  obtain t where look: "\<And>a m. address_label a st m = fold (\<lambda>(k, x) s. find_label_visitor a m s k x) (hm_entries t) None"
    and es: "\<And>l b. (l, Some b) \<in> set (hm_entries t) \<longleftrightarrow> (\<exists>lbl. find_label r l = Some lbl \<and> b = symbol_of p l lbl \<and>
      (\<not> is_mem_ref lbl \<longrightarrow> last_label (hm_entries (labels r)) (unat (l_offset lbl)) = Some l))"
    by (rule symbol_table [OF mk f st n(1)]) blast
  have inv: "hm_inv (labels r)" using mk(3) n(1) by (simp add: debug_input_def with_offsets_def)
  have inside: "is_mem_ref lbl \<or> unat (l_offset lbl) < length (pr_instns r)" if "find_label r l = Some lbl" for l lbl
    using mk_debug_data_ok(4) [OF mk] that noted_find [OF n(1)] noted_instns(1) [OF n] by auto
  have found: "\<exists>lbl. find_label r l = Some lbl \<and> is_mem_ref lbl = m \<and>
      (if m then l_offset lbl = a else unat (l_offset lbl) < length (pr_instns r) \<and> a = ?o (unat (l_offset lbl)) \<and>
         last_label (hm_entries (labels r)) (unat (l_offset lbl)) = Some l)"
    if al: "address_label a st m = Some l" for a m l
  proof -
    obtain b where b: "(l, Some b) \<in> set (hm_entries t)" "b_is_mem_ref b = m" "b_address b = a"
      using label_found(1) [of a m] al look by metis
    then obtain lbl where l: "find_label r l = Some lbl" "b = symbol_of p l lbl"
        "\<not> is_mem_ref lbl \<longrightarrow> last_label (hm_entries (labels r)) (unat (l_offset lbl)) = Some l" using es by blast
    with b inside [OF l(1)] symbol_address [OF n inside [OF l(1)]] show ?thesis by (auto simp: symbol_of_def)
  qed
  have missed: "is_mem_ref lbl \<noteq> m \<or> (if m then l_offset lbl \<noteq> a else a \<noteq> ?o (unat (l_offset lbl)))"
    if "address_label a st m = None" "find_label r l = Some lbl"
      "\<not> is_mem_ref lbl \<longrightarrow> last_label (hm_entries (labels r)) (unat (l_offset lbl)) = Some l" for a m l lbl
  proof -
    have "(l, Some (symbol_of p l lbl)) \<in> set (hm_entries t)" using that es by blast
    then have "b_is_mem_ref (symbol_of p l lbl) = m \<longrightarrow> b_address (symbol_of p l lbl) \<noteq> a"
      using label_found(2) [of a m] that(1) look by metis
    with symbol_address [OF n inside [OF that(2)]] show ?thesis by (auto simp: symbol_of_def)
  qed
  show "find_label r l \<noteq> None" if "address_label a st m = Some l" for a m l using found [OF that] by auto
  show "symbols_of r (\<lambda>m a. address_label a st m)"
    unfolding symbols_of_def
  proof (intro conjI allI impI)
    fix j assume j: "j < length (pr_instns r)"
    show "address_label (?o j) st False = last_label (hm_entries (labels r)) j"
    proof (cases "address_label (?o j) st False")
      case None
      have "last_label (hm_entries (labels r)) j \<noteq> Some l" for l
        using missed [OF None, of l] last_label_find [OF inv, of j l] by auto
      with None show ?thesis by (metis option.exhaust)
    next
      case (Some l)
      from found [OF Some] code_off_inj [OF n(2) j] Some show ?thesis by auto
    qed
  next
    fix a :: u32
    assume "a \<notin> ?o ` {..<length (pr_instns r)}"
    with found [of a False] show "address_label a st False = None" by (cases "address_label a st False") auto
  next
    fix a :: u32
    show "case address_label a st True of
        Some l \<Rightarrow> \<exists>lbl. find_label r l = Some lbl \<and> is_mem_ref lbl \<and> l_offset lbl = a
      | None \<Rightarrow> \<nexists>l lbl. find_label r l = Some lbl \<and> is_mem_ref lbl \<and> l_offset lbl = a"
      using found [of a True] missed [of a True] by (auto split: option.split)
  qed
qed

lemma lines_known:
  assumes mk: "mk_debug_data names qsort p = Some d" "permutes qsort" "debug_input names p" and f: "debug_fits d"
    and n: "with_offsets r p" "parse_wf True r" and st: "st_data st = Some (loaded_debug d)"
  shows "finds_lines True True r st"
  unfolding finds_lines_def
proof (intro allI impI)
  fix j assume j: "j < length (pr_instns r)"
  let ?a = "of_nat (code_off True (pr_instns r) j) :: u32" and ?ln = "\<lambda>ln. ln_address ln = of_nat (code_off True (pr_instns r) j)"
  note c = fits_counts(1) [OF f]
  have l: "line_at st ?a = Some (case find ?ln (d_code_lines d) of None \<Rightarrow> - 1 | Some ln \<Rightarrow> ln_lineno ln)"
    using line_number_loaded [OF f, of 0 "length (d_code_lines d)" ?a] st c by (simp add: line_at_def loaded_debug_def)
  obtain ln where ln: "ln \<in> set (d_code_lines d)" "code_line_ok names p d j ln"
    using code_label_line [OF mk] j noted_instns(1) [OF n] by metis
  then have "find ?ln (d_code_lines d) \<noteq> None"
    using noted_instns(2) [OF n j] by (auto simp: find_None_iff code_line_ok_def)
  then obtain ln' where ln': "find ?ln (d_code_lines d) = Some ln'" by blast
  then have "ln' \<in> set (d_code_lines d)" "ln_address ln' = ?a" by (auto simp: find_Some_iff)
  then obtain i where i: "i < length (pr_instns r)" "code_line_ok names p d i ln'"
    using code_lines_ok [OF mk] noted_instns(1) [OF n] by metis
  then have "i = j"
    using \<open>ln_address ln' = ?a\<close> noted_instns(2) [OF n i(1)] code_off_inj [OF n(2) i(1) j] by (simp add: code_line_ok_def)
  then have "ln_lineno ln' = i_lineno (pr_instns r ! j)"
    using i(2) noted_instns(2) [OF n j] by (simp add: code_line_ok_def)
  with l ln' show "line_at st ?a = Some (if True then i_lineno (pr_instns r ! j) else - 1)" by simp
qed

section \<open>The property\<close>

text \<open>
  What the debugger is given: no debug data, or that of the program, made when its code was
  generated with the debugging instructions and read back from the image.
\<close>

definition listing_data :: "(nat \<Rightarrow> string option) \<Rightarrow> line_sort \<Rightarrow> bool \<Rightarrow> prs_result_t \<Rightarrow> vm_debug_data_t option \<Rightarrow> bool" where
  "listing_data names qsort dbg r data \<longleftrightarrow> (case data of
     None \<Rightarrow> True
   | Some v \<Rightarrow> dbg \<and> (\<exists>p d. with_offsets r p \<and> debug_input names p \<and> mk_debug_data names qsort p = Some d \<and>
       debug_fits d \<and> v = loaded_debug d))"

text \<open>
  C26. On generated code \<open>disasm\<close> without arguments prints every instruction of the source that
  was not left out, in order: on a line of its own the label of the instruction, the last in the
  order of the table, if it has one, then its address, its line number, its name, its number of
  operands, and the operands, resolved, as labels where there is one at the address. Without debug data
  there are no labels and no line numbers. It comes to the end of the code and changes nothing but the output.
\<close>

lemma disasm_lists:
  assumes t: "instn_table (g_defs g)" "parse_wf dbg r" "\<forall>x \<in> set (pr_instns r). i_def x \<in> set (g_defs g)"
    and h: "holds_code dbg r (st_vm st)" "length (iargs (g_junk g)) = 3"
    and s: "setup_state g vm data = Some st0" "st_labels st = st_labels st0" "st_data st = st_data st0"
    and d: "listing_data names qsort dbg r data" "permutes qsort" "\<And>n. g_calloc g n"
      "\<And>l. find_label r l \<noteq> None \<Longrightarrow> CHR ''%'' \<notin> set l"
  shows "\<exists>symb. (if data = None then symb = (\<lambda>_ _. None) else symbols_of r symb) \<and>
    dbg_disasm g [cmd] st = Some (0, say (listing symb (data \<noteq> None) dbg r 0) st)"
proof -
  let ?symb = "\<lambda>m a. address_label a st0 m"
  have al: "address_label a st m = address_label a st0 m" for a m using s(2) by (simp add: address_label_def)
  have st0: "st_data st0 = data" using setup_state_fields [OF s(1)] by simp
  have "(if data = None then ?symb = (\<lambda>_ _. None) else symbols_of r ?symb) \<and> knows ?symb st \<and> finds_lines (data \<noteq> None) dbg r st"
  proof (cases data)
    case None
    have "st_labels st0 = None" using s(1) None by (auto simp: setup_state_def)
    then show ?thesis using None st0 s(3) by (simp add: knows_def al address_label_def finds_lines_def line_at_def s(2) fun_eq_iff)
  next
    case (Some v)
    then obtain p dd where p: "dbg" "with_offsets r p" "debug_input names p" "mk_debug_data names qsort p = Some dd"
        "debug_fits dd" "v = loaded_debug dd" using d(1) by (auto simp: listing_data_def)
    have w: "parse_wf True r" using t(2) p(1) by simp
    have st: "setup_state g vm (Some (loaded_debug dd)) = Some st0" using s(1) Some p(6) by simp
    note k = symbols_known [OF p(4) d(2) p(3,5) d(3) st p(2) w]
    have "knows ?symb st" using k(2) d(4) by (simp add: knows_def al)
    moreover have "finds_lines True True r st"
      by (rule lines_known [OF p(4) d(2) p(3,5,2) w]) (use st0 s(3) Some p(6) in simp)
    ultimately show ?thesis using k(1) Some p(1) by simp
  qed
  moreover have "code_off dbg (pr_instns r) 0 = 0" by (simp add: code_off_def)
  ultimately show ?thesis
    using disasm_loop_lists [OF t le0 h(1) _ _ h(2), of ?symb "data \<noteq> None"]
    by (intro exI [of _ ?symb]) (simp add: dbg_disasm_def Let_def)
qed

section \<open>A small program\<close>

definition demo_lines :: debug_t where
  "demo_lines = \<lparr>d_files = [0], d_labels = [2],
     d_code_lines = [\<lparr>ln_address = 0, ln_fileno = 0, ln_lineno = 1, ln_label_ref = - 1\<rparr>,
       \<lparr>ln_address = 7, ln_fileno = 0, ln_lineno = 2, ln_label_ref = 0\<rparr>,
       \<lparr>ln_address = 17, ln_fileno = 0, ln_lineno = 3, ln_label_ref = - 1\<rparr>],
     d_mem_lines = [], d_string_table = [97, 0, 101, 110, 100, 0]\<rparr>"

definition demo_noted :: prs_result_t where
  "demo_noted = demo_parse\<lparr>pr_instns :=
     [demo_jmp\<lparr>mem_offset := 0\<rparr>, demo_assert\<lparr>mem_offset := 7\<rparr>, demo_ret\<lparr>mem_offset := 17\<rparr>]\<rparr>"

definition listed_state :: "unit vm_t" where
  "listed_state = make_vm (full_code True demo_parse) 19 16 0 ()"

definition demo_listing :: string where
  "demo_listing = ''0x00000000 [   1]:       jmp/1'' @ tab @ ''  &end'' @ newline @
     ''end:'' @ newline @ ''0x00000007 [   2]:    assert/2'' @ tab @ ''  *0x00000000  *0x00000000'' @ newline @
     ''0x00000011 [   3]:       ret/0'' @ tab @ newline"

lemma demo_debug_offsets:
  "code_off True (pr_instns demo_parse) 0 = 0" "code_off True (pr_instns demo_parse) 1 = 7"
  "code_off True (pr_instns demo_parse) 2 = 17" "code_off True (pr_instns demo_parse) 3 = 19"
proof -
  have "op_ir demo_assert = 48"
    by (simp add: op_ir_def demo_assert_def compute_layout_def std_opcodes imm_type_def replicate_2)
  then have "isize demo_assert = 10" by (simp add: isize_def) (simp add: demo_assert_def replicate_2)
  then show "code_off True (pr_instns demo_parse) 0 = 0" "code_off True (pr_instns demo_parse) 1 = 7"
      "code_off True (pr_instns demo_parse) 2 = 17" "code_off True (pr_instns demo_parse) 3 = 19"
    by (simp_all add: code_off_def demo_parse_simps left_out_def demo_isize)
qed

lemma demo_debug_wf: "parse_wf True demo_parse"
  using demo_parse_wf demo_debug_offsets(4) by (simp add: parse_wf_def demo_parse_simps numeral_3_eq_3)

lemma demo_is_noted: "with_offsets demo_parse demo_noted"
proof -
  obtain ys b n where y: "parse_to_bytecode demo_parse True = Some (ys, b, n)" "length ys = length (pr_instns demo_parse)"
      "\<forall>j < length ys. ys ! j = (pr_instns demo_parse ! j)\<lparr>mem_offset := final_off True (pr_instns demo_parse) j\<rparr>"
    using parse_to_bytecode_ok [OF demo_debug_wf] by blast
  have "final_off True (pr_instns demo_parse) j = of_nat (code_off True (pr_instns demo_parse) j)" if "j < 3" for j
    using that by (auto simp: final_off_def off_before_def left_out_def demo_parse_simps)
  from this [of 0] this [of 1] this [of 2] have f: "final_off True (pr_instns demo_parse) 0 = 0"
      "final_off True (pr_instns demo_parse) 1 = 7" "final_off True (pr_instns demo_parse) 2 = 17"
    by (simp_all add: demo_debug_offsets demo_debug_offsets(2) [unfolded One_nat_def])
  obtain y0 y1 y2 where ys: "ys = [y0, y1, y2]"
    using y(2) by (auto simp: demo_parse_simps length_Suc_conv)
  have "y0 = demo_jmp\<lparr>mem_offset := 0\<rparr>" "y1 = demo_assert\<lparr>mem_offset := 7\<rparr>" "y2 = demo_ret\<lparr>mem_offset := 17\<rparr>"
    using y(3) [rule_format, of 0] y(3) [rule_format, of 1] y(3) [rule_format, of 2] f
    by (simp_all add: ys demo_parse_simps)
  then have "ys = pr_instns demo_noted" using ys by (simp add: demo_noted_def)
  then show ?thesis using y(1) by (simp add: with_offsets_def demo_noted_def)
qed

lemma demo_noted_simps: "labels demo_noted = labels demo_parse"
  "pr_instns demo_noted = [demo_jmp\<lparr>mem_offset := 0\<rparr>, demo_assert\<lparr>mem_offset := 7\<rparr>, demo_ret\<lparr>mem_offset := 17\<rparr>]"
  by (simp_all add: demo_noted_def)

lemma demo_listing_data: "listing_data demo_names demo_sort True demo_parse (Some (loaded_debug demo_lines))"
proof -
  have "char_u8 CHR ''a'' = 97" "char_u8 CHR ''e'' = 101" "char_u8 CHR ''n'' = 110" "char_u8 CHR ''d'' = 100"
    by code_simp+
  then have "mk_debug_data demo_names demo_sort demo_noted = Some demo_lines"
    by (simp add: mk_debug_data_def hmap_iterate_fold demo_table demo_entries demo_noted_simps demo_jmp_def demo_assert_def
        demo_ret_def demo_names_def demo_sort_def filename_index_def add_string_def mk_label_debug_data_def add_label_line_def
        demo_label_def demo_lines_def)
  moreover have "debug_input demo_names demo_noted"
    using demo_debug_input(1) by (simp add: debug_input_def demo_noted_simps demo_parse_simps)
  moreover have "debug_fits demo_lines" by (simp add: debug_fits_def length_debug_body demo_lines_def)
  ultimately show ?thesis using demo_is_noted by (auto simp: listing_data_def)
qed

lemma demo_symbols_of:
  assumes "symbols_of demo_parse symb"
  shows "symb False 0 = None" "symb False 7 = Some ''end''" "symb False 17 = None" "symb True a = None"
proof -
  have o: "symb False (of_nat (code_off True (pr_instns demo_parse) j)) = last_label [(''end'', Some demo_label)] j" if "j < 3" for j
    using assms that by (simp add: symbols_of_def demo_entries demo_parse_simps)
  have "last_label [(''end'', Some demo_label)] j = (if j = 1 then Some ''end'' else None)" for j
    by (simp add: last_label_def demo_label_def)
  then show "symb False 0 = None" "symb False 7 = Some ''end''" "symb False 17 = None"
    using o [of 0] o [of 1] o [of 2] demo_debug_offsets by simp_all
  have m: "find_label demo_parse l = Some lbl \<Longrightarrow> \<not> is_mem_ref lbl" for l lbl
    using find_label_entries [OF demo_table(1)] by (simp add: demo_entries demo_label_def)
  have "case symb True a of
      Some l \<Rightarrow> \<exists>lbl. find_label demo_parse l = Some lbl \<and> is_mem_ref lbl \<and> l_offset lbl = a
    | None \<Rightarrow> \<nexists>l lbl. find_label demo_parse l = Some lbl \<and> is_mem_ref lbl \<and> l_offset lbl = a"
    using assms unfolding symbols_of_def by blast
  with m show "symb True a = None" by (auto split: option.splits)
qed

lemma demo_texts:
  "name (std_defs ! 15) = ''jmp''" "name (std_defs ! 6) = ''assert''" "name (std_defs ! 41) = ''ret''"
  "fmt_u 0 0 = ''0''" "fmt_u 0 (Suc 0) = ''1''" "fmt_u 0 (Suc (Suc 0)) = ''2''" "fmt_X 8 0 = ''00000000''"
  "fmt_x 8 0 = ''00000000''" "fmt_x 8 7 = ''00000007''" "fmt_x 8 17 = ''00000011''"
  "fmt_d 4 1 = ''   1''" "fmt_d 4 2 = ''   2''" "fmt_d 4 3 = ''   3''"
  "pad (CHR 0x20) 8 ''jmp'' = ''     jmp''" "pad (CHR 0x20) 8 ''assert'' = ''  assert''" "pad (CHR 0x20) 8 ''ret'' = ''     ret''"
  by code_simp+

lemma demo_lists:
  assumes "symbols_of demo_parse symb"
  shows "listing symb True True demo_parse 0 = demo_listing"
proof -
  note s = demo_symbols_of [OF assms]
  have j: "flags (std_defs ! 15) AND F_1st_Arg_Code_Ref \<noteq> 0" by code_simp
  have u: "[0..<3] = [0, 1, 2 :: nat]" "[0..<2] = [0, 1 :: nat]" by code_simp+
  have "resolve True demo_parse ''end'' = 7"
    using noted_instns(2) [OF demo_is_noted demo_debug_wf, of 1] demo_debug_offsets
    by (auto simp: resolve_def demo_find demo_label_def final_off_def off_before_def left_out_def demo_parse_simps)
  then have "shown_instn symb (resolve True demo_parse) demo_jmp = ''     jmp/1'' @ tab @ ''  &end''"
    using s j by (simp add: shown_instn_def shown_arg_def demo_jmp_def demo_texts imm_type_def arg_val_def arg_is_mem_def)
  moreover have "shown_instn symb (resolve True demo_parse) demo_assert = ''  assert/2'' @ tab @ ''  *0x00000000  *0x00000000''"
    using s by (simp add: shown_instn_def shown_arg_def demo_assert_def demo_texts imm_type_def arg_val_def arg_is_mem_def
        replicate_2 u)
  moreover have "shown_instn symb (resolve True demo_parse) demo_ret = ''     ret/0'' @ tab"
    by (simp add: shown_instn_def demo_ret_def demo_texts)
  moreover have "i_lineno demo_jmp = 1" "i_lineno demo_assert = 2" "i_lineno demo_ret = 3"
    by (simp_all add: demo_jmp_def demo_assert_def demo_ret_def)
  ultimately show ?thesis
    using s by (simp add: listing_def shown_line_def shown_address_def demo_listing_def left_out_def u demo_parse_simps
        demo_debug_offsets [unfolded demo_parse_simps One_nat_def]
        demo_debug_offsets(3) [unfolded demo_parse_simps numeral_2_eq_2] demo_texts)
qed

lemma disasm_lists_witness:
  "\<exists>st. setup_state demo_env listed_state (Some (loaded_debug demo_lines)) = Some st \<and>
     dbg_disasm demo_env [''disasm''] st = Some (0, say demo_listing st)"
proof -
  have "debug_fits demo_lines" by (simp add: debug_fits_def length_debug_body demo_lines_def)
  then obtain st where st: "setup_state demo_env listed_state (Some (loaded_debug demo_lines)) = Some st"
    using demo_setup [of demo_lines listed_state] by (auto simp: demo_lines_def)
  have "length (full_code True demo_parse) = 19"
    using demo_debug_offsets(4) by (simp add: length_full_code demo_parse_simps numeral_3_eq_3)
  then have h: "holds_code True demo_parse (st_vm st)"
    using setup_state_fields [OF st]
    by (simp add: holds_code_def listed_state_def make_vm_def make_procedure_def Let_def demo_parse_simps)
      (simp add: demo_jmp_def demo_assert_def demo_ret_def in_memory_def imm_type_def arg_val_def)
  have e: "g_defs demo_env = std_defs" "length (iargs (g_junk demo_env)) = 3" "\<And>n. g_calloc demo_env n"
    by (simp_all add: demo_env_def no_instn_def)
  have "\<forall>x \<in> set (pr_instns demo_parse). i_def x \<in> set std_defs"
    using table_length [OF std_table] by (simp add: demo_parse_simps demo_jmp_def demo_assert_def demo_ret_def)
  moreover have "CHR ''%'' \<notin> set l" if "find_label demo_parse l \<noteq> None" for l
    using that find_label_entries [OF demo_table(1), of l] by (auto simp: demo_entries)
  ultimately obtain symb where "symbols_of demo_parse symb"
      "dbg_disasm demo_env [''disasm''] st = Some (0, say (listing symb True True demo_parse 0) st)"
    using disasm_lists [of demo_env True demo_parse st, OF _ demo_debug_wf _ h e(2) st refl refl demo_listing_data
      demo_debug_input(2) e(3), of "''disasm''"] e(1) std_table by auto
  with st demo_lists show ?thesis by auto
qed

end
