(* ===== verification/Completion.thy ===== *)
theory Completion
  imports DebugShell "HOL-Library.Multiset"
begin

text \<open>
  The completion of the words of a command line (\<open>cmdline_generator\<close> and
  \<open>cmdline_completion\<close> of \<open>vm_debug.c\<close>): the labels \<open>setup_state\<close> collects for it, the
  generator with its static variables, and the completion that hands it to the line editor. Of
  the line editor, a library, \<open>rl_completion_matches\<close> is a parameter.
\<close>

section \<open>The labels\<close>

fun ac_mem_labels :: "vm_debug_data_t \<Rightarrow> nat \<Rightarrow> u32 \<Rightarrow> string list option" where
  "ac_mem_labels dbg 0 m = Some []"
| "ac_mem_labels dbg (Suc k) m = do {
     ln \<leftarrow> DBG_MEM_LINE dbg m;
     str \<leftarrow> DBG_LABEL dbg (ln_label_ref ln);
     ls \<leftarrow> ac_mem_labels dbg k (m + 1);
     Some (str # ls)
   }"

fun ac_code_labels :: "vm_debug_data_t \<Rightarrow> nat \<Rightarrow> u32 \<Rightarrow> string list option" where
  "ac_code_labels dbg 0 c = Some []"
| "ac_code_labels dbg (Suc k) c = do {
     ln \<leftarrow> DBG_CODE_LINE dbg c;
     if 0 \<le> sint (ln_label_ref ln) then do {
       str \<leftarrow> DBG_LABEL dbg (ln_label_ref ln);
       ls \<leftarrow> ac_code_labels dbg k (c + 1);
       Some (str # ls)
     } else ac_code_labels dbg k (c + 1)
   }"

definition ac_labels :: "vm_debug_data_t option \<Rightarrow> string list option" where
  "ac_labels data =
     (case data of
        None \<Rightarrow> Some []
      | Some dbg \<Rightarrow> do {
          ms \<leftarrow> ac_mem_labels dbg (unat (n_mem_lines dbg)) 0;
          cs \<leftarrow> ac_code_labels dbg (unat (n_code_lines dbg)) 0;
          Some (ms @ cs)
        })"

section \<open>The generator\<close>

text \<open>The loops over the names; \<open>strncmp\<close> of at most \<open>len\<close> characters.\<close>

function next_match :: "string list \<Rightarrow> string \<Rightarrow> nat \<Rightarrow> nat \<Rightarrow> string option \<times> nat" where
  "next_match names text len cmd_index =
     (if cmd_index < length names then
        if take len (names ! cmd_index) = take len text then (Some (names ! cmd_index), cmd_index + 1)
        else next_match names text len (cmd_index + 1)
      else (None, cmd_index))"
  by pat_completeness auto
termination
  by (relation "measure (\<lambda>(names, text, len, cmd_index). length names - cmd_index)") auto

declare next_match.simps [simp del]

text \<open>
  The static variables of the file and of the generator, and the flag of the line editor that the
  completion sets. Without labels \<open>ac_labels\<close> is a null pointer.
\<close>

record completion_state =
  ac_prefer_labels :: bool
  ac_label_names :: "string list"
  cmd_index :: nat
  cmd_len :: nat
  rl_attempted_completion_over :: bool

definition cmdline_generator :: "string \<Rightarrow> int \<Rightarrow> completion_state \<Rightarrow> string option \<times> completion_state" where
  "cmdline_generator text state s =
     (let s = (if state = 0 then s\<lparr>cmd_index := 0, cmd_len := length text\<rparr> else s);
          (r, i) = next_match (if ac_prefer_labels s \<and> ac_label_names s \<noteq> [] then ac_label_names s else map c_name setup_commands)
            text (cmd_len s) (cmd_index s)
      in (r, s\<lparr>cmd_index := i\<rparr>))"

type_synonym generator = "string \<Rightarrow> int \<Rightarrow> completion_state \<Rightarrow> string option \<times> completion_state"

text \<open>
  \<open>rl_completion_matches\<close> of the line editor, given the text and the generator, changes the static
  variables by calling the generator and returns an array of strings or a null pointer. It may
  not return.
\<close>

type_synonym matcher = "string \<Rightarrow> generator \<Rightarrow> completion_state \<Rightarrow> (string list option \<times> completion_state) option"

definition cmdline_completion ::
  "matcher \<Rightarrow> string \<Rightarrow> nat \<Rightarrow> nat \<Rightarrow> completion_state \<Rightarrow> (string list option \<times> completion_state) option" where
  "cmdline_completion rl_completion_matches text start stop s =
     rl_completion_matches text cmdline_generator (s\<lparr>ac_prefer_labels := start > 0, rl_attempted_completion_over := True\<rparr>)"

section \<open>The line editor\<close>

text \<open>
  What the manual says of \<open>rl_completion_matches\<close>: the generator is called with 0 and then with
  numbers other than 0, until it returns a null pointer. The result is a null pointer if there are
  no completions; otherwise its first string is the substitution for the text and the others are
  the completions. A single completion is its own substitution and need not be listed again. This
  is asked of it for generators only that treat all numbers other than 0 alike.
\<close>

inductive generates :: "generator \<Rightarrow> string \<Rightarrow> int \<Rightarrow> completion_state \<Rightarrow> string list \<Rightarrow> completion_state \<Rightarrow> bool"
  for gen :: generator and wd :: string where
  no_more: "gen wd n s = (None, s') \<Longrightarrow> generates gen wd n s [] s'"
| one_more: "gen wd n s = (Some m, s1) \<Longrightarrow> generates gen wd 1 s1 ms s' \<Longrightarrow> generates gen wd n s (m # ms) s'"

definition answers :: "string list \<Rightarrow> string list option \<Rightarrow> bool" where
  "answers ms r \<longleftrightarrow>
     (case ms of
        [] \<Rightarrow> r = None
      | [m] \<Rightarrow> r = Some [m] \<or> r = Some [m, m]
      | _ \<Rightarrow> \<exists>subst rest. r = Some (subst # rest) \<and> mset rest = mset ms)"

definition matcher_ok :: "matcher \<Rightarrow> bool" where
  "matcher_ok rl \<longleftrightarrow> (\<forall>gen wd s ms s'. (\<forall>k t. k \<noteq> 0 \<longrightarrow> gen wd k t = gen wd 1 t) \<longrightarrow> generates gen wd 0 s ms s' \<longrightarrow>
     (\<exists>r. rl wd gen s = Some (r, s') \<and> answers ms r))"

section \<open>What is offered\<close>

definition candidates :: "string list \<Rightarrow> nat \<Rightarrow> string list" where
  "candidates lbls start = (if start > 0 \<and> lbls \<noteq> [] then lbls else map c_name setup_commands)"

abbreviation fits :: "string \<Rightarrow> string \<Rightarrow> bool" where
  "fits text s \<equiv> take (length text) s = text"

lemma next_match_filter:
  "i \<le> length names \<Longrightarrow> (case filter (fits text) (drop i names) of
     [] \<Rightarrow> fst (next_match names text (length text) i) = None
   | m # ms \<Rightarrow> \<exists>j \<le> length names. next_match names text (length text) i = (Some m, j) \<and> filter (fits text) (drop j names) = ms)"
proof (induction "length names - i" arbitrary: i)
  case 0
  then show ?case by (simp add: next_match.simps)
next
  case (Suc k)
  then have i: "i < length names" by simp
  then have d: "drop i names = names ! i # drop (Suc i) names" by (simp add: Cons_nth_drop_Suc)
  show ?case
  proof (cases "fits text (names ! i)")
    case True
    with i d show ?thesis by (auto simp: next_match.simps [of _ _ _ i])
  next
    case False
    with i have "next_match names text (length text) i = next_match names text (length text) (Suc i)"
      by (simp add: next_match.simps [of _ _ _ i])
    with False Suc(1) [of "Suc i"] Suc(2) i d show ?thesis by (auto split: list.splits)
  qed
qed

lemma next_match_end:
  "i \<le> length names \<Longrightarrow> filter (fits text) (drop i names) = [] \<Longrightarrow> next_match names text (length text) i = (None, length names)"
proof (induction "length names - i" arbitrary: i)
  case 0
  then show ?case by (simp add: next_match.simps)
next
  case (Suc k)
  then have "i < length names" by simp
  then have "drop i names = names ! i # drop (Suc i) names" by (simp add: Cons_nth_drop_Suc)
  with Suc show ?case by (subst next_match.simps) (auto split: if_splits)
qed

lemma generates_from:
  assumes "i \<le> length c" "if n = 0 then i = 0 else cmd_index s = i \<and> cmd_len s = length wd"
    and c: "c = candidates (ac_label_names s) start" "ac_prefer_labels s = (start > 0)"
  shows "generates cmdline_generator wd n s (filter (fits wd) (drop i c))
    (s\<lparr>cmd_index := length c, cmd_len := length wd\<rparr>)"
  using assms
proof (induction "filter (fits wd) (drop i c)" arbitrary: i n s)
  case Nil
  have g: "cmdline_generator wd n s = (let (r, j) = next_match c wd (length wd) i in (r, s\<lparr>cmd_index := j, cmd_len := length wd\<rparr>))"
    using Nil.prems by (cases s) (auto simp: cmdline_generator_def candidates_def split: prod.split if_splits)
  obtain j where "next_match c wd (length wd) i = (None, j)" "j = length c"
    using next_match_end [OF Nil.prems(1), of wd] Nil.hyps by auto
  with g Nil.hyps show ?case by (auto intro!: generates.no_more)
next
  case (Cons m ms)
  have g: "cmdline_generator wd n s = (let (r, j) = next_match c wd (length wd) i in (r, s\<lparr>cmd_index := j, cmd_len := length wd\<rparr>))"
    using Cons.prems by (cases s) (auto simp: cmdline_generator_def candidates_def split: prod.split if_splits)
  from Cons.hyps(2) next_match_filter [OF Cons.prems(1), of wd] obtain j where
    j: "j \<le> length c" "next_match c wd (length wd) i = (Some m, j)" "filter (fits wd) (drop j c) = ms"
    by (auto split: list.splits)
  let ?s = "s\<lparr>cmd_index := j, cmd_len := length wd\<rparr>"
  have "generates cmdline_generator wd 1 ?s ms (?s\<lparr>cmd_index := length c, cmd_len := length wd\<rparr>)"
    using Cons.hyps(1) [of j 1 ?s] j Cons.prems by simp
  with g j(2) show ?case unfolding Cons.hyps(2) [symmetric] by (auto intro!: generates.one_more)
qed

text \<open>
  C22. Completion offers the commands for the first word and the labels, if there are any, for the
  others: given a line editor that does what its manual says, the calls of the generator end, a
  null pointer is returned if none of these names starts with the text, and otherwise an array
  whose completions are all those that do. The line editor is told not to try file names.
\<close>

lemma completion_offers:
  assumes "matcher_ok rl"
  shows "\<exists>r s'. cmdline_completion rl wd start stop s = Some (r, s') \<and> rl_attempted_completion_over s' \<and>
    ac_label_names s' = ac_label_names s \<and>
    (case filter (fits wd) (candidates (ac_label_names s) start) of
       [] \<Rightarrow> r = None
     | [m] \<Rightarrow> r = Some [m] \<or> r = Some [m, m]
     | ms \<Rightarrow> \<exists>subst rest. r = Some (subst # rest) \<and> mset rest = mset ms)"
proof -
  let ?s = "s\<lparr>ac_prefer_labels := start > 0, rl_attempted_completion_over := True\<rparr>"
  let ?c = "candidates (ac_label_names s) start"
  have g: "generates cmdline_generator wd 0 ?s (filter (fits wd) (drop 0 ?c)) (?s\<lparr>cmd_index := length ?c, cmd_len := length wd\<rparr>)"
    by (rule generates_from) simp_all
  have u: "cmdline_generator wd k t = cmdline_generator wd 1 t" if "k \<noteq> 0" for k t
    using that by (simp add: cmdline_generator_def)
  obtain r where "rl wd cmdline_generator ?s = Some (r, ?s\<lparr>cmd_index := length ?c, cmd_len := length wd\<rparr>)"
      "answers (filter (fits wd) ?c) r"
    using assms [unfolded matcher_ok_def, rule_format, OF u g] by auto
  then show ?thesis by (auto simp: cmdline_completion_def answers_def split: list.splits)
qed

text \<open>A line editor that does this: it collects what the generator returns.\<close>

partial_function (option) collect ::
  "generator \<Rightarrow> string \<Rightarrow> int \<Rightarrow> completion_state \<Rightarrow> (string list \<times> completion_state) option" where
  "collect gen wd n s =
     (case gen wd n s of
        (None, s') \<Rightarrow> Some ([], s')
      | (Some m, s1) \<Rightarrow> do { (ms, s') \<leftarrow> collect gen wd 1 s1; Some (m # ms, s') })"

definition demo_matcher :: matcher where
  "demo_matcher wd gen s = do {
     (ms, s') \<leftarrow> collect gen wd 0 s;
     Some (case ms of [] \<Rightarrow> None | [m] \<Rightarrow> Some [m] | _ \<Rightarrow> Some (wd # ms), s')
   }"

lemma collect_generates: "generates gen wd n s ms s' \<Longrightarrow> collect gen wd n s = Some (ms, s')"
  by (induction rule: generates.induct) (simp_all add: collect.simps)

lemma demo_matcher_ok: "matcher_ok demo_matcher"
  unfolding matcher_ok_def
proof (intro allI impI)
  fix gen wd s ms s'
  assume "generates gen wd 0 s ms s'"
  then have "demo_matcher wd gen s = Some (case ms of [] \<Rightarrow> None | [m] \<Rightarrow> Some [m] | _ \<Rightarrow> Some (wd # ms), s')"
    by (simp add: demo_matcher_def collect_generates)
  moreover have "answers ms (case ms of [] \<Rightarrow> None | [m] \<Rightarrow> Some [m] | _ \<Rightarrow> Some (wd # ms))"
    by (simp add: answers_def split: list.split)
  ultimately show "\<exists>r. demo_matcher wd gen s = Some (r, s') \<and> answers ms r" by blast
qed

lemma completion_offers_witness:
  "\<exists>r s'. cmdline_completion demo_matcher ''lo'' 4 6 \<lparr>ac_prefer_labels = False, ac_label_names = [''loop'', ''end'', ''low''],
      cmd_index = 0, cmd_len = 0, rl_attempted_completion_over = False\<rparr> = Some (Some r, s') \<and>
    mset (tl r) = {#''loop'', ''low''#}"
  using completion_offers [OF demo_matcher_ok, of "''lo''" 4 6 "\<lparr>ac_prefer_labels = False, ac_label_names = [''loop'', ''end'', ''low''],
      cmd_index = 0, cmd_len = 0, rl_attempted_completion_over = False\<rparr>"]
  by (auto simp: candidates_def)

end
