(* ===== verification/Programs.thy ===== *)
theory Programs
  imports Assemble DebugShell
begin

text \<open>
  The two programs: the assembler \<open>basm\<close> (\<open>basm_app.c\<close>) and the machine \<open>bvgz\<close>
  (\<open>bvgz.c\<close>), from their command lines to what they print, write and return, and \<open>getopt\<close>,
  which both use. What they print is standard output; the messages on standard error are left out.
\<close>

section \<open>The options of a command line\<close>

text \<open>
  The letters of \<open>getopt\<close>: a colon behind a letter says that it takes an argument, which is the
  rest of its word or the next one. Words that are no options are moved behind those that are.
\<close>

fun opt_kind :: "string \<Rightarrow> char \<Rightarrow> bool option" where
  "opt_kind [] c = None"
| "opt_kind (x # xs) c = (if x = c \<and> c \<noteq> CHR '':'' then Some (take 1 xs = '':'') else opt_kind xs c)"

fun getopt_word :: "string \<Rightarrow> string \<Rightarrow> string list \<Rightarrow> (char \<times> string) list \<times> string list" where
  "getopt_word spec [] argv = ([], argv)"
| "getopt_word spec (c # w) argv =
     (case opt_kind spec c of
        Some True \<Rightarrow>
          if w \<noteq> [] then ([(c, w)], argv)
          else (case argv of [] \<Rightarrow> ([(CHR ''?'', [])], []) | a # argv \<Rightarrow> ([(c, a)], argv))
      | k \<Rightarrow> (case getopt_word spec w argv of (opts, argv) \<Rightarrow> ((if k = None then CHR ''?'' else c, []) # opts, argv)))"

lemma getopt_word_shorter: "length (snd (getopt_word spec w argv)) \<le> length argv"
  by (induction spec w argv rule: getopt_word.induct) (auto split: option.splits bool.splits list.splits prod.splits)

function getopt_all :: "string \<Rightarrow> string list \<Rightarrow> (char \<times> string) list \<times> string list" where
  "getopt_all spec [] = ([], [])"
| "getopt_all spec (w # argv) =
     (if w = ''--'' then ([], argv)
      else if length w > 1 \<and> take 1 w = ''-'' then
        (case getopt_all spec (snd (getopt_word spec (drop 1 w) argv)) of
           (opts, rest) \<Rightarrow> (fst (getopt_word spec (drop 1 w) argv) @ opts, rest))
      else (case getopt_all spec argv of (opts, rest) \<Rightarrow> (opts, w # rest)))"
  by pat_completeness auto
termination
  by (relation "measure (\<lambda>(spec, argv). length argv)") (auto simp: less_Suc_eq_le getopt_word_shorter)

section \<open>The assembler\<close>

record basm_args =
  include_paths :: "string list"
  asmfile :: string
  outfile :: "string option"
  entry_pt_label :: "string option"
  b_debug :: bool

text \<open>
  The assembler runs in an environment: that of the parser with the depth of its files and what
  \<open>errno\<close> holds, \<open>qsort\<close>, and the room there is for a file that is written, if it can be opened.
\<close>

record basm_env =
  b_asm :: asm_env
  b_depth :: nat
  b_erange :: bool
  b_qsort :: line_sort
  b_room :: "string \<Rightarrow> nat option"

definition DefaultEntryPointLabel :: string where "DefaultEntryPointLabel = ''_entry''"

text \<open>The test of the dot is the wrong way round: without one the null pointer is written to.\<close>

definition make_output_filename :: "string \<Rightarrow> string option" where
  "make_output_filename f = (if CHR ''.'' \<in> set f then Some (f @ ''.bvg'') else None)"

definition basm_help :: "string \<Rightarrow> string" where
  "basm_help program = ''Usage '' @ program @ '' [-g] [-p] [-I <include>] [-o <output>] [-e <label>] <file>'' @ newline"

definition print_instns :: "instn_def_t list \<Rightarrow> string" where
  "print_instns defs = ''Instructions: '' @ fmt_u 0 (nInstnDefs defs) @ newline @
     concat (map (\<lambda>i. let def = defs ! i in
       '' ['' @ fmt_u 2 i @ ''] '' @ pad (CHR 0x20) 8 (name def) @ '' /'' @ fmt_u 0 (arg_count def) @
       '' :: 0x'' @ fmt_x 4 (unat (opcode def)) @ newline) [0..<nInstnDefs defs])"

text \<open>Leaving the program is the left value: the status and what was printed.\<close>

fun basm_options :: "instn_def_t list \<Rightarrow> string \<Rightarrow> (char \<times> string) list \<Rightarrow> basm_args \<Rightarrow> (int \<times> string) + basm_args" where
  "basm_options defs program [] a = Inr a"
| "basm_options defs program ((opt, optarg) # opts) a =
     (if opt = CHR ''h'' then Inl (0, basm_help program)
      else if opt = CHR ''p'' then Inl (0, print_instns defs)
      else if opt = CHR ''g'' then basm_options defs program opts (a\<lparr>b_debug := True\<rparr>)
      else if opt = CHR ''I'' then basm_options defs program opts (a\<lparr>include_paths := optarg # include_paths a\<rparr>)
      else if opt = CHR ''o'' then basm_options defs program opts (a\<lparr>outfile := Some optarg\<rparr>)
      else if opt = CHR ''e'' then basm_options defs program opts (a\<lparr>entry_pt_label := Some optarg\<rparr>)
      else Inl (1, []))"

definition basm_parse_args :: "instn_def_t list \<Rightarrow> string list \<Rightarrow> ((int \<times> string) + basm_args) option" where
  "basm_parse_args defs argv =
     (let (opts, rest) = getopt_all ''hgpI:o:e:'' (drop 1 argv) in
      case basm_options defs (argv ! 0) opts
          \<lparr>include_paths = [], asmfile = [], outfile = None, entry_pt_label = None, b_debug = False\<rparr> of
        Inl e \<Rightarrow> Some (Inl e)
      | Inr a \<Rightarrow>
          (let a = (if entry_pt_label a = None then a\<lparr>entry_pt_label := Some DefaultEntryPointLabel\<rparr> else a) in
           case rest of
             [] \<Rightarrow> Some (Inl (1, []))
           | f # _ \<Rightarrow>
               if outfile a = None then
                 map_option (\<lambda>o'. Inr (a\<lparr>asmfile := f, outfile := Some o'\<rparr>)) (make_output_filename f)
               else Some (Inr (a\<lparr>asmfile := f\<rparr>))))"

text \<open>
  The names behind the pointers to file names: that of the root file is an argument of the
  program, those of included files were in buffers that are gone. The bytes of the code are read
  from the buffer of the generator; the file that was written is returned with its name.
\<close>

definition file_names :: "string \<Rightarrow> nat \<Rightarrow> string option" where
  "file_names f n = (if n = 0 then Some f else None)"

definition block_bytes :: "u8 block \<Rightarrow> nat \<Rightarrow> u8 list option" where
  "block_bytes b n = those (map (blk_read b) [0..<n])"

definition basm_main :: "basm_env \<Rightarrow> string list \<Rightarrow> (int \<times> string \<times> (string \<times> u8 list) option) option" where
  "basm_main g argv = do {
     args \<leftarrow> basm_parse_args (e_defs (b_asm g)) argv;
     (case args of
        Inl (status, out) \<Rightarrow> Some (status, out, None)
      | Inr a \<Rightarrow> do {
          parsed \<leftarrow> parse_asm (b_depth g) (b_asm g) (asmfile a) (include_paths a) (b_erange g);
          parse \<leftarrow> parsed;
          (xs, b, csz) \<leftarrow> parse_to_bytecode parse (b_debug a);
          (ret, parse) \<leftarrow> resolve_data_label_refs (parse\<lparr>pr_instns := xs\<rparr>);
          if ret < 0 then Some (1, [], None)
          else do {
            entry_label \<leftarrow> entry_pt_label a;
            file \<leftarrow> outfile a;
            let entry_offset = resolve_entry_point entry_label parse;
            if entry_offset = - 1 then Some (1, [], None)
            else (case b_room g file of
              None \<Rightarrow> Some (1, [], None)
            | Some room \<Rightarrow> do {
                cd \<leftarrow> block_bytes b (unat csz);
                (ret, fp) \<leftarrow> write_bvgz_image (file_names (asmfile a)) (b_qsort g) parse cd csz entry_offset
                  (b_debug a) \<lparr>f_written = [], f_room = room\<rparr>;
                Some (if ret < 0 then 1 else 0, [], Some (file, f_written fp))
              })
          }
        })
   }"

section \<open>The machine\<close>

record bvgz_args =
  imgfile :: string
  gen_dir :: "string option"
  v_debug :: bool

record 'w bvgz_env =
  v_dbg :: "'w dbg_env"
  v_files :: "string \<Rightarrow> u8 list option"
  v_junk :: "u8 list"

definition bvgz_help :: "string \<Rightarrow> string" where
  "bvgz_help program = ''Usage '' @ program @ '' [-hd] [-G <temp-dir>] <file>'' @ newline"

fun bvgz_options :: "string \<Rightarrow> (char \<times> string) list \<Rightarrow> bvgz_args \<Rightarrow> (int \<times> string) + bvgz_args" where
  "bvgz_options program [] a = Inr a"
| "bvgz_options program ((opt, optarg) # opts) a =
     (if opt = CHR ''h'' then Inl (0, bvgz_help program)
      else if opt = CHR ''d'' then bvgz_options program opts (a\<lparr>v_debug := True\<rparr>)
      else if opt = CHR ''G'' then bvgz_options program opts (a\<lparr>gen_dir := Some optarg\<rparr>)
      else Inl (1, []))"

definition bvgz_parse_args :: "string list \<Rightarrow> (int \<times> string) + bvgz_args" where
  "bvgz_parse_args argv =
     (let (opts, rest) = getopt_all ''hdG:'' (drop 1 argv) in
      case bvgz_options (argv ! 0) opts \<lparr>imgfile = [], gen_dir = None, v_debug = False\<rparr> of
        Inl e \<Rightarrow> Inl e
      | Inr a \<Rightarrow> (case rest of [] \<Rightarrow> Inl (1, []) | f # _ \<Rightarrow> Inr (a\<lparr>imgfile := f\<rparr>)))"

text \<open>\<open>destroy_vm\<close>: the procedures, the descriptors, which are closed, and the children.\<close>

fun delete_procedures :: "proc_t list \<Rightarrow> 'w vm_t \<Rightarrow> 'w vm_t option" where
  "delete_procedures [] vm = Some vm"
| "delete_procedures (p # ps) vm = do { vm \<leftarrow> delete_current_procedure vm; delete_procedures ps vm }"

definition destroy_vm :: "'w os \<Rightarrow> 'w vm_t \<Rightarrow> 'w option" where
  "destroy_vm os vm = do {
     vm \<leftarrow> delete_procedures (procedures vm) vm;
     vm \<leftarrow> destroy_vm_io os vm;
     Some (world vm)
   }"

text \<open>
  When the image cannot be opened or read, the program jumps over the declaration of \<open>dbg\<close>, which
  is then freed: undefined. What is returned is the value of \<open>main\<close>, what was printed and the
  world that is left; of the value the system keeps eight bits.
\<close>

definition exit_status :: "int \<Rightarrow> int" where
  "exit_status x = x mod 256"

definition bvgz_run ::
  "'w bvgz_env \<Rightarrow> bool \<Rightarrow> string list \<Rightarrow> vm_debug_data_t option \<Rightarrow> 'w vm_t \<Rightarrow> (int \<times> string \<times> 'w) option" where
  "bvgz_run v debug lines dbg vm = do {
     (vm, out) \<leftarrow>
       (if debug then do {
          st \<leftarrow> debug_vm (v_dbg v) lines vm dbg;
          Some (st_vm st, st_out st)
        } else do {
          vm \<leftarrow> execute_vm (g_os (v_dbg v)) (g_fuel (v_dbg v)) (g_defs (v_dbg v)) (g_junk (v_dbg v)) vm;
          Some (vm, print_vm_state (g_strerror (v_dbg v)) vm)
        });
     w \<leftarrow> destroy_vm (g_os (v_dbg v)) vm;
     Some (sint (push_bit 1 (exceptions vm)), out, w)
   }"

definition bvgz_main :: "'w bvgz_env \<Rightarrow> string list \<Rightarrow> string list \<Rightarrow> 'w \<Rightarrow> (int \<times> string \<times> 'w) option" where
  "bvgz_main v argv lines w =
     (case bvgz_parse_args argv of
        Inl (status, out) \<Rightarrow> Some (status, out, w)
      | Inr a \<Rightarrow> do {
          imgfp \<leftarrow> v_files v (imgfile a);
          (vm, imgfp) \<leftarrow> read_bvgz_image (v_junk v) w imgfp;
          bvgz_run v (v_debug a) lines (if v_debug a then read_bvgz_debug_data imgfp else None) vm
        })"

end
