(* ===== verification/RunImages.thy ===== *)
theory RunImages
  imports Programs
begin

text \<open>
  The files of the system call \<open>run\<close> (\<open>syscalls/syscall_proc.c\<close>): the directory of the images,
  their names, and an image written to a new file, which the machine that is started loads.
  \<open>SyscallProc\<close> has this as the operation \<open>os_write_image\<close> of the operating system; here
  only what the library does is a parameter.
\<close>

record tm_t =
  tm_year :: nat
  tm_mon :: nat
  tm_mday :: nat
  tm_hour :: nat
  tm_min :: nat
  tm_sec :: nat

text \<open>
  \<open>stat\<close> and \<open>mkdir\<close> say whether they succeed; \<open>i_gmtime\<close> is the clock, \<open>i_fopen\<close> gives the
  room there is for the file or \<open>errno\<close>, and \<open>i_fclose\<close> puts the bytes in the file and says what
  \<open>errno\<close> is then.
\<close>

record 'w image_env =
  i_stat :: "string \<Rightarrow> 'w \<Rightarrow> bool"
  i_mkdir :: "string \<Rightarrow> 'w \<Rightarrow> bool \<times> 'w"
  i_gmtime :: "'w \<Rightarrow> tm_t"
  i_rand :: "'w \<Rightarrow> nat \<times> 'w"
  i_fopen :: "string \<Rightarrow> 'w \<Rightarrow> (i32 + nat) \<times> 'w"
  i_fclose :: "string \<Rightarrow> u8 list \<Rightarrow> 'w \<Rightarrow> i32 \<times> 'w"

definition IMG_FILE_NAME_SFX_LEN :: nat where "IMG_FILE_NAME_SFX_LEN = 32"

definition HexChars :: string where "HexChars = ''0123456789ABCDEF''"

text \<open>When the directory cannot be made the whole machine exits: the value is then \<open>None\<close>.\<close>

definition setup_image_gen_dir :: "'w image_env \<Rightarrow> string \<Rightarrow> 'w \<Rightarrow> 'w option" where
  "setup_image_gen_dir g dir w =
     (if i_stat g dir w then Some w
      else (case i_mkdir g dir w of (True, w) \<Rightarrow> Some w | (False, w) \<Rightarrow> None))"

fun image_suffix :: "'w image_env \<Rightarrow> nat \<Rightarrow> 'w \<Rightarrow> string \<times> 'w" where
  "image_suffix g 0 w = ([], w)"
| "image_suffix g (Suc n) w =
     (case i_rand g w of (r, w) \<Rightarrow> case image_suffix g n w of (s, w) \<Rightarrow> (HexChars ! (r mod 16) # s, w))"

text \<open>\<open>snprintf\<close> into a buffer of 4096 bytes.\<close>

definition make_image_file_name :: "'w image_env \<Rightarrow> string \<Rightarrow> 'w \<Rightarrow> string \<times> 'w" where
  "make_image_file_name g dir w =
     (let t = i_gmtime g w;
          (suffix, w) = image_suffix g IMG_FILE_NAME_SFX_LEN w;
          d = (\<lambda>k n. pad (CHR ''0'') k (number_text 10 False n))
      in (take 4095 (dir @ ''/img-'' @ d 4 (1900 + tm_year t) @ d 2 (1 + tm_mon t) @ d 2 (tm_mday t) @ ''-'' @
            d 2 (tm_hour t) @ d 2 (tm_min t) @ d 2 (tm_sec t) @ ''-'' @ suffix @ ''.bvgz''), w))"

definition create_image ::
  "'w image_env \<Rightarrow> string \<Rightarrow> u8 list \<Rightarrow> u8 list \<Rightarrow> u32 \<Rightarrow> 'w \<Rightarrow> ((i32 + string) \<times> 'w) option" where
  "create_image g dir cd mem entry w = do {
     w \<leftarrow> setup_image_gen_dir g dir w;
     let (imgname, w) = make_image_file_name g dir w;
     (case i_fopen g imgname w of
        (Inl e, w) \<Rightarrow> Some (Inl e, w)
      | (Inr room, w) \<Rightarrow> do {
          (wret, fp) \<leftarrow> write_bvgz_image_direct cd (of_nat (length cd)) mem (of_nat (length mem)) entry BVGZ_IMG_F_EXEC
            \<lparr>f_written = [], f_room = room\<rparr>;
          let (e, w) = i_fclose g imgname (f_written fp) w;
          Some (if wret < 0 then Inl e else Inr imgname, w)
        })
   }"

lemma image_suffix_hex: "set (fst (image_suffix g n w)) \<subseteq> set HexChars \<and> length (fst (image_suffix g n w)) = n"
proof (induction n arbitrary: w)
  case (Suc n)
  obtain r w1 where r: "i_rand g w = (r, w1)" by fastforce
  obtain s w2 where s: "image_suffix g n w1 = (s, w2)" by fastforce
  have "HexChars ! (r mod 16) \<in> set HexChars" by (rule nth_mem) (simp add: HexChars_def)
  with Suc.IH [of w1] r s show ?case by simp
qed simp

text \<open>A file that was written without failure holds the image.\<close>

lemma or_fail_ok: "or_fail r k = Some (ret, fp) \<Longrightarrow> 0 \<le> ret \<Longrightarrow> fst r \<and> k (snd r) = Some (ret, fp)"
  by (auto simp: or_fail_def split: if_splits)

lemma fwrite_written: "fst (fwrite bs f) \<Longrightarrow> f_written (snd (fwrite bs f)) = f_written f @ bs"
  by (simp add: fwrite_def fput_def)

lemma written_image:
  assumes w: "write_bvgz_image_direct cd (of_nat (length cd)) mem (of_nat (length mem)) entry fl f = Some (ret, fp)" "0 \<le> ret"
    and l: "length cd < 2 ^ 32" "length mem < 2 ^ 32"
  shows "f_written fp = f_written f @ image_bytes fl entry cd mem"
proof -
  let ?msz = "of_nat (length mem) :: u32"
  have u: "unat (of_nat (length cd) :: u32) = length cd" "unat ?msz = length mem"
    using l by (simp_all add: unat_of_nat)
  have m0: "?msz > 0 \<longleftrightarrow> mem \<noteq> []" using u(2) by (auto simp: word_gt_0_no word_less_nat_alt)
  let ?f1 = "snd (fwrite (le_bytes 2 (unat BVGZ_IMG_MAGIC)) f)"
  let ?f2 = "snd (fwrite (le_bytes 2 (unat fl)) ?f1)"
  let ?f3 = "snd (fwrite (le_bytes 4 (unat entry)) ?f2)"
  let ?f4 = "snd (fwrite (le_bytes 4 (length cd)) ?f3)"
  let ?f5 = "snd (fwrite (le_bytes 4 (length mem)) ?f4)"
  let ?f6 = "snd (fwrite cd ?f5)"
  note w = w(1) [unfolded write_bvgz_image_direct_def u]
  note s1 = or_fail_ok [OF w assms(2)]
  note s2 = or_fail_ok [OF conjunct2 [OF s1] assms(2)]
  note s3 = or_fail_ok [OF conjunct2 [OF s2] assms(2)]
  note s4 = or_fail_ok [OF conjunct2 [OF s3] assms(2)]
  note s5 = or_fail_ok [OF conjunct2 [OF s4] assms(2)]
  have "or_fail (fwrite cd ?f5) (\<lambda>fp. if ?msz > 0 then do {
      m \<leftarrow> take_exactly ?msz mem; or_fail (fwrite m fp) (\<lambda>fp. Some (0, fp)) } else Some (0, fp)) = Some (ret, fp)"
    using conjunct2 [OF s5] u by (simp add: take_exactly_def)
  note s6 = or_fail_ok [OF this assms(2)]
  have five: "f_written ?f5 = f_written f @ le_bytes 2 (unat BVGZ_IMG_MAGIC) @ le_bytes 2 (unat fl) @ le_bytes 4 (unat entry) @
      le_bytes 4 (length cd) @ le_bytes 4 (length mem)"
    using fwrite_written [OF conjunct1 [OF s1]] fwrite_written [OF conjunct1 [OF s2]] fwrite_written [OF conjunct1 [OF s3]]
      fwrite_written [OF conjunct1 [OF s4]] fwrite_written [OF conjunct1 [OF s5]] by simp
  show ?thesis
  proof (cases "mem = []")
    case True
    then show ?thesis
      using s6 five m0 fwrite_written [OF conjunct1 [OF s6]] by (simp add: image_bytes_def)
  next
    case False
    then have "or_fail (fwrite mem ?f6) (\<lambda>fp. Some (0, fp)) = Some (ret, fp)"
      using s6 m0 u by (simp add: take_exactly_def)
    note s7 = or_fail_ok [OF this assms(2)]
    then show ?thesis
      using five fwrite_written [OF conjunct1 [OF s6]] fwrite_written [OF conjunct1 [OF s7]] by (simp add: image_bytes_def)
  qed
qed

text \<open>
  A machine that is started on the file that \<open>run\<close> wrote begins with the code, the memory and
  the entry point that were given to the system call, and goes on as \<open>bvgz_run\<close> says.
\<close>

lemma run_image_boots:
  assumes c: "create_image g dir cd mem entry w = Some (Inr img, w')"
    and l: "cd \<noteq> []" "length cd < 2 ^ 32" "length mem < 2 ^ 32"
    and v: "v_files v img = Some (image_bytes BVGZ_IMG_F_EXEC entry cd mem)" "take 1 img \<noteq> ''-''"
  shows "(\<exists>e w1. i_fclose g img (image_bytes BVGZ_IMG_F_EXEC entry cd mem) w1 = (e, w')) \<and>
    bvgz_main v [exe, img] lines u = bvgz_run v False lines None (loaded_vm (v_junk v) u entry cd mem)"
proof -
  obtain w1 where s1: "setup_image_gen_dir g dir w = Some w1" using c by (auto simp: create_image_def)
  obtain n w2 where s2: "make_image_file_name g dir w1 = (n, w2)" by fastforce
  obtain o' w3 where s3: "i_fopen g n w2 = (o', w3)" by fastforce
  obtain room where o: "o' = Inr room" using c s1 s2 s3 by (cases o') (auto simp: create_image_def)
  obtain ret fp where s4: "write_bvgz_image_direct cd (of_nat (length cd)) mem (of_nat (length mem)) entry
        BVGZ_IMG_F_EXEC \<lparr>f_written = [], f_room = room\<rparr> = Some (ret, fp)"
    using c s1 s2 s3 o by (auto simp: create_image_def)
  obtain e w4 where s5: "i_fclose g n (f_written fp) w3 = (e, w4)" by fastforce
  have s: "n = img" "w4 = w'" "\<not> ret < 0"
    using c s1 s2 s3 s4 s5 o by (auto simp: create_image_def split: if_splits)
  have "f_written fp = image_bytes BVGZ_IMG_F_EXEC entry cd mem"
    using written_image [OF s4 _ l(2,3)] s(3) by simp
  with s5 s(1,2) have "\<exists>e w1. i_fclose g img (image_bytes BVGZ_IMG_F_EXEC entry cd mem) w1 = (e, w')" by auto
  moreover have "getopt_all ''hdG:'' [img] = ([], [img])" using v(2) by auto
  then have a: "bvgz_parse_args [exe, img] = Inr \<lparr>imgfile = img, gen_dir = None, v_debug = False\<rparr>"
    by (simp add: bvgz_parse_args_def)
  have "BVGZ_IMG_F_EXEC AND BVGZ_IMG_F_EXEC \<noteq> (0 :: u16)" by code_simp
  from read_image [OF l this, of "v_junk v" u entry "[]"] have "bvgz_main v [exe, img] lines u =
      bvgz_run v False lines None (loaded_vm (v_junk v) u entry cd mem)"
    using v(1) by (simp add: bvgz_main_def a)
  ultimately show ?thesis by blast
qed

end
