(* ===== verification/Toolchain.thy ===== *)
theory Toolchain
  imports Programs ParserRoundtrip DebugCorrect
begin

text \<open>
  The two programs at work: command lines, the references of the data, the file the assembler
  writes and the machine that runs it.
\<close>

section \<open>Command lines\<close>

text \<open>A command line for given arguments: the directories in the order they are searched from last to first.\<close>

definition plain_word :: "string \<Rightarrow> bool" where
  "plain_word w \<longleftrightarrow> take 1 w \<noteq> ''-'' \<or> w = ''-''"

definition basm_words :: "basm_args \<Rightarrow> string \<Rightarrow> string \<Rightarrow> string list" where
  "basm_words a out e =
     (if b_debug a then [''-g''] else []) @ concat (map (\<lambda>p. [''-I'', p]) (rev (include_paths a))) @
     [''-o'', out, ''-e'', e, asmfile a]"

lemma getopt_flag:
  assumes "opt_kind spec c = Some False" "c \<noteq> CHR ''-''"
  shows "getopt_all spec ([CHR ''-'', c] # argv) = (case getopt_all spec argv of (opts, rest) \<Rightarrow> ((c, []) # opts, rest))"
  using assms by (simp split: prod.split)

lemma getopt_value:
  assumes "opt_kind spec c = Some True" "c \<noteq> CHR ''-''"
  shows "getopt_all spec ([CHR ''-'', c] # x # argv) = (case getopt_all spec argv of (opts, rest) \<Rightarrow> ((c, x) # opts, rest))"
  using assms by (simp split: prod.split)

lemma getopt_plain: "plain_word w \<Longrightarrow> getopt_all spec (w # argv) = (case getopt_all spec argv of (opts, rest) \<Rightarrow> (opts, w # rest))"
  by (auto simp: plain_word_def)

lemma getopt_includes:
  "getopt_all ''hgpI:o:e:'' (concat (map (\<lambda>p. [''-I'', p]) ps) @ argv) =
    (case getopt_all ''hgpI:o:e:'' argv of (opts, rest) \<Rightarrow> (map (Pair (CHR ''I'')) ps @ opts, rest))"
proof (induction ps)
  case (Cons p ps)
  then show ?case using getopt_value [of "''hgpI:o:e:''" "CHR ''I''" p] by (simp split: prod.splits del: getopt_all.simps)
qed simp

lemma options_includes:
  "basm_options defs prog (map (Pair (CHR ''I'')) ps @ opts) a =
    basm_options defs prog opts (a\<lparr>include_paths := rev ps @ include_paths a\<rparr>)"
  by (induction ps arbitrary: a) simp_all

text \<open>
  C20. What is written on the command line of the assembler is what it works with: the flag, the
  directories, of which the last one given is searched first, the output, the entry point and the
  source file.
\<close>

lemma basm_args_roundtrip:
  assumes "outfile a = Some out" "entry_pt_label a = Some e" "plain_word (asmfile a)"
  shows "basm_parse_args defs (prog # basm_words a out e) = Some (Inr a)"
proof -
  let ?spec = "''hgpI:o:e:''" and ?o = "[(CHR ''o'', out), (CHR ''e'', e)]"
  have "getopt_all ?spec [''-o'', out, ''-e'', e, asmfile a] = (?o, [asmfile a])"
    using getopt_value [of ?spec "CHR ''o''" out] getopt_value [of ?spec "CHR ''e''" e] getopt_plain [OF assms(3), of ?spec "[]"]
    by (simp del: getopt_all.simps(2))
  then have i: "getopt_all ?spec (concat (map (\<lambda>p. [''-I'', p]) (rev (include_paths a))) @ [''-o'', out, ''-e'', e, asmfile a]) =
      (map (Pair (CHR ''I'')) (rev (include_paths a)) @ ?o, [asmfile a])"
    using getopt_includes by simp
  have "getopt_all ?spec (basm_words a out e) =
      ((if b_debug a then [(CHR ''g'', [])] else []) @ map (Pair (CHR ''I'')) (rev (include_paths a)) @ ?o, [asmfile a])"
    using getopt_flag [of ?spec "CHR ''g''"] i by (simp add: basm_words_def del: getopt_all.simps(2))
  then show ?thesis
    using assms by (cases a) (simp add: basm_parse_args_def options_includes)
qed

lemma basm_args_roundtrip_witness:
  "basm_parse_args std_defs [''basm'', ''-g'', ''-I'', ''lib'', ''-I'', ''.'', ''-o'', ''x'', ''-e'', ''main'', ''f''] =
    Some (Inr \<lparr>include_paths = [''.'', ''lib''], asmfile = ''f'', outfile = Some ''x'', entry_pt_label = Some ''main'', b_debug = True\<rparr>)"
  using basm_args_roundtrip [of "\<lparr>include_paths = [''.'', ''lib''], asmfile = ''f'', outfile = Some ''x'',
    entry_pt_label = Some ''main'', b_debug = True\<rparr>" "''x''" "''main''" std_defs "''basm''"]
  by (simp add: basm_words_def plain_word_def)

section \<open>The references of the data\<close>

text \<open>What a reference stands for, where it is in the memory, and references that do not overlap.\<close>

definition ref_addr :: "prs_result_t \<Rightarrow> label_ref_t \<Rightarrow> u32 option" where
  "ref_addr r ref = do {
     lbl \<leftarrow> find_label r (r_label ref);
     if is_mem_ref lbl then Some (l_offset lbl)
     else if unat (l_offset lbl) < length (pr_instns r) \<and> mem_offset (pr_instns r ! unat (l_offset lbl)) \<noteq> - 1
     then Some (mem_offset (pr_instns r ! unat (l_offset lbl))) else None
   }"

definition ref_width :: "label_ref_t \<Rightarrow> nat" where
  "ref_width ref = (if r_size ref = 4 then 4 else 8)"

definition away :: "label_ref_t \<Rightarrow> nat \<Rightarrow> nat \<Rightarrow> bool" where
  "away ref p n \<longleftrightarrow> p + n \<le> unat (write_offset ref) \<or> unat (write_offset ref) + ref_width ref \<le> p"

definition refs_fit :: "prs_result_t \<Rightarrow> bool" where
  "refs_fit r \<longleftrightarrow> (\<forall>ref \<in> set (label_refs r). ref_addr r ref \<noteq> None \<and>
       unat (write_offset ref) + ref_width ref \<le> length (pr_memory r)) \<and>
     sorted_wrt (\<lambda>a b. away a (unat (write_offset b)) (ref_width b)) (label_refs r)"

lemma ref_addr_memory [simp]: "ref_addr (r\<lparr>pr_memory := m\<rparr>) = ref_addr r"
  by (rule ext) (simp add: ref_addr_def find_label_def cong: if_cong)

lemma resolve_ref_ok:
  assumes "ref_addr r ref = Some v" "unat (write_offset ref) + ref_width ref \<le> length (pr_memory r)"
  shows "\<exists>m. resolve_ref ref r = Some (0, r\<lparr>pr_memory := m\<rparr>) \<and> store (ref_width ref) (pr_memory r) (unat (write_offset ref)) (unat v) = Some m"
proof -
  obtain m where "store (ref_width ref) (pr_memory r) (unat (write_offset ref)) (unat v) = Some m"
    using store_ex [OF assms(2)] by blast
  then show ?thesis
    using assms(1) by (auto simp: resolve_ref_def ref_addr_def ref_width_def Let_def split: if_splits option.splits)
qed

lemma resolve_refs_ok:
  assumes "\<forall>ref \<in> set refs. ref_addr r ref \<noteq> None \<and> unat (write_offset ref) + ref_width ref \<le> length (pr_memory r)"
    and "sorted_wrt (\<lambda>a b. away a (unat (write_offset b)) (ref_width b)) refs"
  shows "\<exists>m. resolve_refs refs r = Some (0, r\<lparr>pr_memory := m\<rparr>) \<and> length m = length (pr_memory r) \<and>
    (\<forall>ref \<in> set refs. load (ref_width ref) m (unat (write_offset ref)) = map_option unat (ref_addr r ref)) \<and>
    (\<forall>n p. (\<forall>ref \<in> set refs. away ref p n) \<longrightarrow> load n m p = load n (pr_memory r) p)"
  using assms
proof (induction refs arbitrary: r)
  case Nil
  then show ?case by (intro exI [of _ "pr_memory r"]) simp
next
  case (Cons ref refs)
  obtain v where v: "ref_addr r ref = Some v" using Cons.prems(1) by auto
  obtain m1 where m1: "resolve_ref ref r = Some (0, r\<lparr>pr_memory := m1\<rparr>)"
      "store (ref_width ref) (pr_memory r) (unat (write_offset ref)) (unat v) = Some m1"
    using resolve_ref_ok [OF v] Cons.prems(1) by auto
  have l: "length m1 = length (pr_memory r)" by (rule store_length [OF m1(2)])
  have "\<exists>m. resolve_refs refs (r\<lparr>pr_memory := m1\<rparr>) = Some (0, r\<lparr>pr_memory := m1\<rparr>\<lparr>pr_memory := m\<rparr>) \<and>
      length m = length (pr_memory (r\<lparr>pr_memory := m1\<rparr>)) \<and>
      (\<forall>ref \<in> set refs. load (ref_width ref) m (unat (write_offset ref)) = map_option unat (ref_addr (r\<lparr>pr_memory := m1\<rparr>) ref)) \<and>
      (\<forall>n p. (\<forall>ref \<in> set refs. away ref p n) \<longrightarrow> load n m p = load n (pr_memory (r\<lparr>pr_memory := m1\<rparr>)) p)"
    by (rule Cons.IH) (use Cons.prems l in auto)
  then obtain m where m: "resolve_refs refs (r\<lparr>pr_memory := m1\<rparr>) = Some (0, r\<lparr>pr_memory := m\<rparr>)" "length m = length m1"
      "\<forall>ref \<in> set refs. load (ref_width ref) m (unat (write_offset ref)) = map_option unat (ref_addr r ref)"
      "\<forall>n p. (\<forall>ref \<in> set refs. away ref p n) \<longrightarrow> load n m p = load n m1 p"
    by auto
  have "load (ref_width ref) m (unat (write_offset ref)) = load (ref_width ref) m1 (unat (write_offset ref))"
    using m(4) Cons.prems(2) by (auto simp: away_def)
  also have "\<dots> = Some (unat v mod 256 ^ ref_width ref)" by (rule load_store_same [OF m1(2)])
  also have "\<dots> = Some (unat v)" using unat_u32_lt [of v] by (simp add: ref_width_def)
  finally have here: "load (ref_width ref) m (unat (write_offset ref)) = map_option unat (ref_addr r ref)" using v by simp
  have "load n m p = load n (pr_memory r) p" if "\<forall>ref' \<in> set (ref # refs). away ref' p n" for n p
    using m(4) load_store_disjoint [OF m1(2)] that by (simp add: away_def)
  then show ?case using m here l m1(1) by (intro exI [of _ m]) simp
qed

text \<open>
  C19. Addresses in the data: with references that lie in the memory and do not overlap, to
  labels that have an address, the pass over the references succeeds, every reference then holds
  the address of its label, and everything else in the memory is as it was.
\<close>

lemma data_refs_resolved:
  assumes "refs_fit r"
  shows "\<exists>m. resolve_data_label_refs r = Some (0, r\<lparr>pr_memory := m\<rparr>) \<and> length m = length (pr_memory r) \<and>
    (\<forall>ref \<in> set (label_refs r). load (ref_width ref) m (unat (write_offset ref)) = map_option unat (ref_addr r ref)) \<and>
    (\<forall>n p. (\<forall>ref \<in> set (label_refs r). away ref p n) \<longrightarrow> load n m p = load n (pr_memory r) p)"
  using resolve_refs_ok [of "label_refs r" r] assms unfolding refs_fit_def resolve_data_label_refs_def by blast

lemma data_refs_resolved_witness:
  "\<exists>m. resolve_data_label_refs (demo_parse\<lparr>pr_instns := [demo_jmp, demo_ret\<lparr>mem_offset := 7\<rparr>], pr_memory := replicate 8 0,
      label_refs := [\<lparr>r_filename = 1, r_lineno = 4, r_label = ''end'', r_size = 4, write_offset = 2\<rparr>]\<rparr>) =
     Some (0, demo_parse\<lparr>pr_instns := [demo_jmp, demo_ret\<lparr>mem_offset := 7\<rparr>], pr_memory := m,
      label_refs := [\<lparr>r_filename = 1, r_lineno = 4, r_label = ''end'', r_size = 4, write_offset = 2\<rparr>]\<rparr>) \<and>
     load 4 m 2 = Some 7 \<and> load 2 m 0 = Some 0"
proof -
  let ?ref = "\<lparr>r_filename = 1, r_lineno = 4, r_label = ''end'', r_size = 4, write_offset = 2\<rparr> :: label_ref_t"
  let ?r = "demo_parse\<lparr>pr_instns := [demo_jmp, demo_ret\<lparr>mem_offset := 7\<rparr>], pr_memory := replicate 8 0, label_refs := [?ref]\<rparr>"
  have "find_label ?r ''end'' = Some demo_label" using demo_find by (simp add: find_label_def)
  then have a: "ref_addr ?r ?ref = Some 7" by (simp add: ref_addr_def demo_label_def)
  then have "refs_fit ?r" by (simp add: refs_fit_def ref_width_def)
  from data_refs_resolved [OF this] obtain m where "resolve_data_label_refs ?r = Some (0, ?r\<lparr>pr_memory := m\<rparr>)"
      "load 4 m 2 = Some 7" "load 2 m 0 = load 2 (replicate 8 0) 0"
    using a by (auto simp: ref_width_def away_def)
  moreover have "load 2 (replicate 8 0) 0 = Some 0" by code_simp
  ultimately show ?thesis by (intro exI [of _ m]) simp
qed

section \<open>Assembled and run\<close>

text \<open>The parsed source with the offsets the code generator gives to the instructions.\<close>

definition laid_out :: "bool \<Rightarrow> prs_result_t \<Rightarrow> prs_result_t" where
  "laid_out dbg r = r\<lparr>pr_instns := map (\<lambda>j. (pr_instns r ! j)\<lparr>mem_offset := final_off dbg (pr_instns r) j\<rparr>)
     [0..<length (pr_instns r)]\<rparr>"

lemma laid_out_simps [simp]:
  "find_label (laid_out dbg r) = find_label r" "pr_memory (laid_out dbg r) = pr_memory r"
  "pr_memsz (laid_out dbg r) = pr_memsz r" "label_refs (laid_out dbg r) = label_refs r"
  by (simp_all add: laid_out_def find_label_def fun_eq_iff)

lemma those_map_Some [simp]: "those (map Some xs) = Some xs"
  by (induction xs) simp_all

lemma generated:
  assumes "parse_wf dbg r"
  shows "\<exists>b. parse_to_bytecode r dbg = Some (pr_instns (laid_out dbg r), b, of_nat (length (full_code dbg r))) \<and>
    block_bytes b (length (full_code dbg r)) = Some (full_code dbg r)"
proof -
  obtain ys b where g: "parse_to_bytecode r dbg = Some (ys, b, of_nat (length (full_code dbg r)))"
      "\<forall>q < length (full_code dbg r). blk_read b q = Some (full_code dbg r ! q)" "length ys = length (pr_instns r)"
      "\<forall>j < length ys. ys ! j = (pr_instns r ! j)\<lparr>mem_offset := final_off dbg (pr_instns r) j\<rparr>"
    using parse_to_bytecode_ok [OF assms] by blast
  have "ys = pr_instns (laid_out dbg r)"
    using g(3,4) by (intro nth_equalityI) (simp_all add: laid_out_def)
  moreover have "map (blk_read b) [0..<length (full_code dbg r)] = map Some (full_code dbg r)"
    using g(2) by (intro nth_equalityI) simp_all
  then have "block_bytes b (length (full_code dbg r)) = Some (full_code dbg r)" by (simp add: block_bytes_def)
  ultimately show ?thesis using g(1) by auto
qed

lemma mk_debug_data_memory [simp]: "mk_debug_data names qs (r\<lparr>pr_memory := m\<rparr>) = mk_debug_data names qs r"
  by (simp add: mk_debug_data_def)

lemma write_image_plain:
  assumes "cd \<noteq> []" "length cd < 2 ^ 32" "take (unat (pr_memsz parse)) (pr_memory parse) = mem" "length mem = unat (pr_memsz parse)"
    and "16 + length cd + length mem \<le> room"
  shows "\<exists>k. write_bvgz_image names qs parse cd (of_nat (length cd)) entry False \<lparr>f_written = [], f_room = room\<rparr> =
    Some (0, \<lparr>f_written = image_bytes BVGZ_IMG_F_EXEC entry cd mem, f_room = k\<rparr>)"
  using write_direct_part [OF assms(3,4)] write_image [OF assms(1,2), of mem BVGZ_IMG_F_EXEC entry "\<lparr>f_written = [], f_room = room\<rparr>"]
    assms(4,5) unat_u32_lt [of "pr_memsz parse"]
  by (simp add: write_bvgz_image_def length_image)

text \<open>What the assembler writes: the image and, when asked for, the debug data.\<close>

definition image_file :: "bool \<Rightarrow> u32 \<Rightarrow> u8 list \<Rightarrow> u8 list \<Rightarrow> debug_t \<Rightarrow> u8 list" where
  "image_file dbg entry cd mem d =
     (if dbg then image_bytes (BVGZ_IMG_F_EXEC OR BVGZ_IMG_F_DEBUG) entry cd mem @ debug_head d @ debug_body d
      else image_bytes BVGZ_IMG_F_EXEC entry cd mem)"

lemma write_image_file:
  assumes "dbg \<longrightarrow> mk_debug_data names qs parse = Some d \<and> debug_fits d"
    and "cd \<noteq> []" "length cd < 2 ^ 32" "take (unat (pr_memsz parse)) (pr_memory parse) = mem" "length mem = unat (pr_memsz parse)"
    and "length (image_file dbg entry cd mem d) \<le> room"
  shows "\<exists>k. write_bvgz_image names qs parse cd (of_nat (length cd)) entry dbg \<lparr>f_written = [], f_room = room\<rparr> =
    Some (0, \<lparr>f_written = image_file dbg entry cd mem d, f_room = k\<rparr>)"
proof (cases dbg)
  case True
  with assms(1,6) show ?thesis
    using write_image_debug [OF _ _ assms(2-5), of names qs d room entry] by (simp add: image_file_def length_image)
next
  case False
  with assms(6) show ?thesis
    using write_image_plain [OF assms(2-5), of room names qs entry] by (simp add: image_file_def length_image)
qed

lemma read_image_file:
  assumes "dbg \<longrightarrow> debug_fits d" "cd \<noteq> []" "length cd < 2 ^ 32" "length mem < 2 ^ 32"
  shows "\<exists>rest. read_bvgz_image junk w (image_file dbg entry cd mem d) = Some (loaded_vm junk w entry cd mem, rest) \<and>
    read_bvgz_debug_data rest = (if dbg then Some (loaded_debug d) else None)"
proof (cases dbg)
  case True
  have "(BVGZ_IMG_F_EXEC OR BVGZ_IMG_F_DEBUG) AND BVGZ_IMG_F_EXEC \<noteq> (0 :: u16)" by code_simp
  from read_image [OF assms(2-4) this, of junk w entry "debug_head d @ debug_body d"] show ?thesis
    using True assms(1) read_debug [of d "[]"] by (simp add: image_file_def)
next
  case False
  have "BVGZ_IMG_F_EXEC AND BVGZ_IMG_F_EXEC \<noteq> (0 :: u16)" by code_simp
  from read_image [OF assms(2-4) this, of junk w entry "[]"] show ?thesis
    using False by (simp add: image_file_def read_bvgz_debug_data_def fread_def)
qed

text \<open>A source that is assembled: parsed without errors, with code, an entry point and addresses for its data.\<close>

definition assembles :: "basm_env \<Rightarrow> basm_args \<Rightarrow> prs_result_t \<Rightarrow> label_t \<Rightarrow> debug_t \<Rightarrow> bool" where
  "assembles g a r lbl d \<longleftrightarrow> env_ok (b_asm g) \<and>
     (\<exists>s. parse_files (b_depth g) (b_asm g) (asmfile a) (include_paths a) (b_erange g) = Some (Some s) \<and>
        errors (result s) = 0 \<and> table_size (seen_refs s) < 2 ^ 32) \<and>
     parse_asm (b_depth g) (b_asm g) (asmfile a) (include_paths a) (b_erange g) = Some (Some r) \<and> errors r = 0 \<and>
     labels_inside r \<and> full_code (b_debug a) r \<noteq> [] \<and> length (full_code (b_debug a) r) \<le> 2 ^ 32 - 256 \<and>
     refs_fit (laid_out (b_debug a) r) \<and>
     (\<exists>e. entry_pt_label a = Some e \<and> find_label r e = Some lbl) \<and> \<not> is_mem_ref lbl \<and> l_offset lbl \<noteq> - 1 \<and>
     (b_debug a \<longrightarrow> mk_debug_data (file_names (asmfile a)) (b_qsort g) (laid_out True r) = Some d \<and> debug_fits d)"

lemma assemblesD:
  assumes "assembles g a r lbl d"
  shows "parse_wf (b_debug a) r" "unat (pr_memsz r) \<le> length (pr_memory r)"
proof -
  obtain s where s: "env_ok (b_asm g)"
      "parse_files (b_depth g) (b_asm g) (asmfile a) (include_paths a) (b_erange g) = Some (Some s)"
      "errors (result s) = 0" "table_size (seen_refs s) < 2 ^ 32"
      "parse_asm (b_depth g) (b_asm g) (asmfile a) (include_paths a) (b_erange g) = Some (Some r)" "errors r = 0"
      "labels_inside r" "length (full_code (b_debug a) r) \<le> 2 ^ 32 - 256"
    using assms unfolding assembles_def by blast
  show "parse_wf (b_debug a) r" by (rule parsed_wf(1) [OF s])
  have "mem_inv r" using parse_asm_delivers_ok [OF s(1-6)] by blast
  then show "unat (pr_memsz r) \<le> length (pr_memory r)" by (simp add: mem_inv_def word_le_nat_alt)
qed

lemma basm_writes:
  assumes ok: "assembles g a r lbl d" and args: "basm_parse_args (e_defs (b_asm g)) argv = Some (Inr a)"
    and out: "outfile a = Some out" "b_room g out = Some room"
    and room: "\<And>mem. length mem = unat (pr_memsz r) \<Longrightarrow>
      length (image_file (b_debug a) (l_offset lbl) (full_code (b_debug a) r) mem d) \<le> room"
    and m: "resolve_data_label_refs (laid_out (b_debug a) r) = Some (0, (laid_out (b_debug a) r)\<lparr>pr_memory := m\<rparr>)"
      "length m = length (pr_memory r)"
  shows "basm_main g argv = Some (0, [], Some (out,
    image_file (b_debug a) (l_offset lbl) (full_code (b_debug a) r) (take (unat (pr_memsz r)) m) d))"
proof -
  let ?dbg = "b_debug a" and ?mem = "take (unat (pr_memsz r)) m" and ?cd = "full_code (b_debug a) r"
  note wf = assemblesD [OF ok]
  obtain b where b: "parse_to_bytecode r ?dbg = Some (pr_instns (laid_out ?dbg r), b, of_nat (length ?cd))"
      "block_bytes b (length ?cd) = Some ?cd"
    using generated [OF wf(1)] by blast
  have l: "r\<lparr>pr_instns := pr_instns (laid_out ?dbg r)\<rparr> = laid_out ?dbg r" by (simp add: laid_out_def)
  let ?r = "(laid_out ?dbg r)\<lparr>pr_memory := m\<rparr>"
  obtain e where e: "entry_pt_label a = Some e" "find_label r e = Some lbl" "\<not> is_mem_ref lbl" "l_offset lbl \<noteq> - 1"
    using ok by (auto simp: assembles_def)
  have "find_label ?r e = Some lbl" using e(2) by (simp add: find_label_def laid_out_def)
  then have entry: "resolve_entry_point e ?r = l_offset lbl" using e(3) by (simp add: resolve_entry_point_def)
  have cd: "?cd \<noteq> []" "length ?cd < 2 ^ 32" "unat (of_nat (length ?cd) :: u32) = length ?cd"
    using ok by (auto simp: assembles_def)
  have mem: "length ?mem = unat (pr_memsz r)" using wf(2) m(2) by simp
  have "\<exists>k. write_bvgz_image (file_names (asmfile a)) (b_qsort g) ?r ?cd (of_nat (length ?cd)) (l_offset lbl) ?dbg
        \<lparr>f_written = [], f_room = room\<rparr> = Some (0, \<lparr>f_written = image_file ?dbg (l_offset lbl) ?cd ?mem d, f_room = k\<rparr>)"
    by (rule write_image_file [OF _ cd(1,2) _ _ room [OF mem]]) (use ok mem in \<open>auto simp: assembles_def\<close>)
  then obtain k where "write_bvgz_image (file_names (asmfile a)) (b_qsort g) ?r ?cd (of_nat (length ?cd)) (l_offset lbl) ?dbg
        \<lparr>f_written = [], f_room = room\<rparr> = Some (0, \<lparr>f_written = image_file ?dbg (l_offset lbl) ?cd ?mem d, f_room = k\<rparr>)" ..
  moreover have "parse_asm (b_depth g) (b_asm g) (asmfile a) (include_paths a) (b_erange g) = Some (Some r)"
    using ok by (simp add: assembles_def)
  ultimately show ?thesis
    using args out m(1) e(1,4) entry b cd(3) l by (simp add: basm_main_def)
qed

text \<open>
  C3. What is assembled is what runs: from a source that assembles, the assembler writes a file, and
  the machine given this file starts with the code generated for the source, the memory of its
  data with every reference to a label replaced by the address, and the entry point; it is
  executed or, with the symbols when they were asked for, debugged.
\<close>

lemma assembled_runs:
  assumes "assembles g a r lbl d" "basm_parse_args (e_defs (b_asm g)) argv = Some (Inr a)"
    and "outfile a = Some out" "b_room g out = Some room"
    and "\<And>mem. length mem = unat (pr_memsz r) \<Longrightarrow>
      length (image_file (b_debug a) (l_offset lbl) (full_code (b_debug a) r) mem d) \<le> room"
    and "bvgz_parse_args argv' = Inr a'" "imgfile a' = out"
  shows "\<exists>file m. basm_main g argv = Some (0, [], Some (out, file)) \<and>
    length m = length (pr_memory r) \<and>
    (\<forall>ref \<in> set (label_refs r). load (ref_width ref) m (unat (write_offset ref)) =
       map_option unat (ref_addr (laid_out (b_debug a) r) ref)) \<and>
    (\<forall>v. v_files v out = Some file \<longrightarrow> bvgz_main v argv' lines w =
       bvgz_run v (v_debug a') lines (if v_debug a' \<and> b_debug a then Some (loaded_debug d) else None)
         (loaded_vm (v_junk v) w (l_offset lbl) (full_code (b_debug a) r) (take (unat (pr_memsz r)) m)))"
proof -
  let ?L = "laid_out (b_debug a) r" and ?cd = "full_code (b_debug a) r"
  have "refs_fit ?L" using assms(1) by (simp add: assembles_def)
  then obtain m where m: "resolve_data_label_refs ?L = Some (0, ?L\<lparr>pr_memory := m\<rparr>)" "length m = length (pr_memory r)"
      "\<forall>ref \<in> set (label_refs r). load (ref_width ref) m (unat (write_offset ref)) = map_option unat (ref_addr ?L ref)"
    using resolve_refs_ok [of "label_refs ?L" ?L] by (auto simp: refs_fit_def resolve_data_label_refs_def)
  let ?mem = "take (unat (pr_memsz r)) m"
  let ?file = "image_file (b_debug a) (l_offset lbl) ?cd ?mem d"
  have "basm_main g argv = Some (0, [], Some (out, ?file))" by (rule basm_writes [OF assms(1-5) m(1,2)])
  moreover have c: "b_debug a \<longrightarrow> debug_fits d" "?cd \<noteq> []" "length ?cd < 2 ^ 32" "length ?mem < 2 ^ 32"
    using assms(1) unat_u32_lt [of "pr_memsz r"] by (auto simp: assembles_def)
  have "bvgz_main v argv' lines w = bvgz_run v (v_debug a') lines (if v_debug a' \<and> b_debug a then Some (loaded_debug d) else None)
      (loaded_vm (v_junk v) w (l_offset lbl) ?cd ?mem)" if "v_files v out = Some ?file" for v
    using read_image_file [OF c, of "v_junk v" w "l_offset lbl"] that assms(6,7)
    by (auto simp: bvgz_main_def simp del: bind_Some_iff)
  ultimately show ?thesis using m(2,3) by blast
qed

section \<open>The status of a run\<close>

lemma sint_mod_256: "sint (x :: u32) mod 256 = uint x mod 256"
proof -
  have "take_bit 8 (sint x) = take_bit 8 (uint x)" by (simp add: sint_uint take_bit_signed_take_bit)
  then show ?thesis by (simp add: take_bit_eq_mod)
qed

lemma shifted_status: "exit_status (sint (push_bit 1 (x :: u32))) = 2 * uint (x AND 0x7F)"
proof -
  have "take_bit 8 (uint (push_bit 1 x)) = take_bit 8 (push_bit 1 (uint x))"
    by (simp only: unsigned_push_bit_eq take_bit_take_bit) simp
  then have "uint (push_bit 1 x) mod 256 = take_bit 8 (push_bit 1 (uint x))"
    by (simp only: take_bit_eq_mod) simp
  also have "\<dots> = push_bit 1 (take_bit 7 (uint x))" by (simp add: push_bit_take_bit)
  also have "take_bit 7 (uint x) = uint (x AND 0x7F)"
    by (simp add: unsigned_and_eq take_bit_eq_mask mask_eq_exp_minus_1)
  finally show ?thesis by (simp add: exit_status_def sint_mod_256 push_bit_eq_mult)
qed

text \<open>
  C21. The status of a run: twice the low seven bits of the exceptions. The eighth bit, that of
  a failed assertion, is shifted out of the status, so that a program that stops at one ends like
  a program that is successful.
\<close>

lemma exit_status_bits:
  assumes "execute_vm (g_os (v_dbg v)) (g_fuel (v_dbg v)) (g_defs (v_dbg v)) (g_junk (v_dbg v)) vm = Some vm'"
    and "destroy_vm (g_os (v_dbg v)) vm' = Some w"
  shows "\<exists>retval. bvgz_run v False lines dbg vm = Some (retval, print_vm_state (g_strerror (v_dbg v)) vm', w) \<and>
    exit_status retval = 2 * uint (exceptions vm' AND 0x7F) \<and>
    (exceptions vm' = VM_E_AssertFailed \<longrightarrow> exit_status retval = 0)"
proof -
  let ?r = "sint (push_bit 1 (exceptions vm'))"
  have "bvgz_run v False lines dbg vm = Some (?r, print_vm_state (g_strerror (v_dbg v)) vm', w)"
    using assms by (simp add: bvgz_run_def)
  moreover have st: "exit_status ?r = 2 * uint (exceptions vm' AND 0x7F)" by (rule shifted_status)
  moreover have "uint (VM_E_AssertFailed AND 0x7F) = 0" by code_simp
  then have "exceptions vm' = VM_E_AssertFailed \<longrightarrow> exit_status ?r = 0" unfolding st by (metis mult_zero_right)
  ultimately show ?thesis by blast
qed

definition assert_vm :: "unit vm_t" where
  "assert_vm = make_vm [51, 0, 0, 5, 1] 5 16 0 ()"

definition assert_stopped :: "unit vm_t" where
  "assert_stopped = assert_vm\<lparr>iptr := 0, assert_id := 5, exceptions := VM_E_AssertFailed,
     procedures := [\<lparr>p_iptr = 5, cstack = Null, cstack_sz = 0, cstack_alloc = 0\<rparr>]\<rparr>"

lemma assert_entry: "arg_count (std_defs ! 6) = 2 \<and> handler (std_defs ! 6) = Misc H_assert_2"
  by code_simp

lemma assert_loads: "load 2 [51, 0, 0, 5, 1 :: u8] 0 = Some 51" "load 1 [51, 0, 0, 5, 1 :: u8] 2 = Some 0"
    "load (Suc 0) [51, 0, 0, 5, 1 :: u8] 3 = Some 5" "load (Suc 0) [51, 0, 0, 5, 1 :: u8] 4 = Some 1"
    "load (Suc 0) [51, 0, 0, 5, 1 :: u8] (Suc (Suc 0)) = Some 0"
  by code_simp+

definition assert_instn :: instn_t where
  "assert_instn = \<lparr>icode = 51, arg_sizes = 0, iargs = [Imm 5, Imm 1, Junk]\<rparr>"

lemma assert_decoded:
  "decode_instn std_defs 0 no_instn (assert_vm\<lparr>iptr := 0\<rparr>) = Some (5, assert_instn, assert_vm\<lparr>iptr := 0\<rparr>)"
proof -
  have "decode_args 0 (Suc (Suc 0)) 0 3 (no_instn\<lparr>icode := 51, arg_sizes := 0\<rparr>) (assert_vm\<lparr>iptr := 0\<rparr>) =
      Some (5, assert_instn, assert_vm\<lparr>iptr := 0\<rparr>)"
    by (simp add: decode_arg_def set_arg_def is_imm_def imm_bytes_def past_bound_def assert_loads assert_instn_def
        no_instn_def assert_vm_def small_vm_simps)
  then have "decode_args 0 2 0 3 (no_instn\<lparr>icode := 51, arg_sizes := 0\<rparr>) (assert_vm\<lparr>iptr := 0\<rparr>) =
      Some (5, assert_instn, assert_vm\<lparr>iptr := 0\<rparr>)"
    by (simp only: numeral_2_eq_2)
  then show ?thesis
    by (simp add: decode_instn_def past_bound_def nInstnDefs_std arg_count_at_def assert_entry assert_loads
        no_instn_def assert_vm_def small_vm_simps)
qed

lemma assert_turn: "exec_turn demo_os 0 std_defs no_instn assert_vm = Some (False, assert_instn, assert_stopped)"
proof -
  let ?p = "\<lparr>p_iptr = 0, cstack = Null, cstack_sz = 0, cstack_alloc = 0\<rparr>"
  have p: "procedures assert_vm = [?p]" "codesz assert_vm = 5"
    by (simp_all add: assert_vm_def small_vm_simps)
  have d: "vm_decode_instn std_defs ?p no_instn assert_vm = Some (0, assert_instn,
      set_this_proc (?p\<lparr>p_iptr := 5\<rparr>) (assert_vm\<lparr>iptr := 0\<rparr>))"
    using assert_decoded by (simp add: vm_decode_instn_def)
  have x: "vm_exec_instn demo_os 0 std_defs assert_instn (set_this_proc (?p\<lparr>p_iptr := 5\<rparr>) (assert_vm\<lparr>iptr := 0\<rparr>)) =
      Some (- 1, assert_stopped)"
    by (simp add: vm_exec_instn_def assert_instn_def assert_entry op_assert_2_def arg_value_def is_imm_def imm_bytes_def
        set_this_proc_def raise_def assert_stopped_def assert_vm_def small_vm_simps nInstnDefs_std)
  show ?thesis
    using p d x by (simp add: exec_turn_def vm_current_procedure_def exec_current_def)
qed

definition demo_bvgz :: "u8 list \<Rightarrow> unit bvgz_env" where
  "demo_bvgz file = \<lparr>v_dbg = \<lparr>g_os = demo_os, g_fuel = 0, g_defs = std_defs, g_calloc = (\<lambda>_. True), g_malloc = (\<lambda>_. 7),
     g_strerror = (\<lambda>_. []), g_junk = no_instn\<rparr>, v_files = (\<lambda>_. Some file), v_junk = []\<rparr>"

lemma demo_bvgz_simps [simp]:
  "g_os (v_dbg (demo_bvgz f)) = demo_os" "g_fuel (v_dbg (demo_bvgz f)) = 0" "g_defs (v_dbg (demo_bvgz f)) = std_defs"
  "g_junk (v_dbg (demo_bvgz f)) = no_instn" "v_files (demo_bvgz f) p = Some f" "v_junk (demo_bvgz f) = []"
  by (simp_all add: demo_bvgz_def)

lemma assert_runs: "execute_vm demo_os 0 std_defs no_instn assert_vm = Some assert_stopped"
proof -
  have "cleanup_vm demo_os 0 assert_stopped = Some assert_stopped"
    by (simp add: cleanup_vm_def cleanup_child_proc_def fire_proc_events_def assert_stopped_def assert_vm_def small_vm_simps)
  moreover have "run_loop (exec_turn demo_os 0 std_defs) no_instn assert_vm = Some (assert_instn, assert_stopped)"
    by (simp add: run_loop.simps [of _ no_instn assert_vm] assert_turn)
  ultimately show ?thesis by (simp add: execute_vm_def)
qed

lemma exit_status_bits_witness:
  "\<exists>retval out. bvgz_run (demo_bvgz []) False [] None assert_vm = Some (retval, out, ()) \<and>
    exceptions assert_stopped = VM_E_AssertFailed \<and> exit_status retval = 0"
proof -
  have "destroy_vm demo_os assert_stopped = Some ()"
    by (simp add: destroy_vm_def destroy_vm_io_def delete_current_procedure_def assert_stopped_def assert_vm_def small_vm_simps)
  moreover have "exceptions assert_stopped = VM_E_AssertFailed" by (simp add: assert_stopped_def)
  ultimately show ?thesis
    using exit_status_bits [of "demo_bvgz []" assert_vm assert_stopped "()" "[]" None] assert_runs by auto
qed

section \<open>A small program\<close>

definition hello_env :: asm_env where
  "hello_env = tiny_env\<lparr>e_files := (\<lambda>p. if p = ''a'' then Some (''_entry:'' @ [CHR 0x0A] @ ''ret'' @ [CHR 0x0A]) else None)\<rparr>"

definition hello_label :: label_t where
  "hello_label = \<lparr>l_filename = 0, l_lineno = 1, l_offset = 0, is_mem_ref = False\<rparr>"

definition hello_instn :: prs_instn_t where
  "hello_instn = \<lparr>i_filename = 0, i_lineno = 2, i_def = std_defs ! 41, i_args = [], mem_offset = - 1\<rparr>"

definition hello_result :: prs_result_t where
  "hello_result = init_parse_result\<lparr>pr_files := 1, pr_instns := [hello_instn],
     labels := put_at (hash_of INITIAL_SIZE ''_entry'') ''_entry'' (Some hello_label) hm_new\<rparr>"

lemma hello_files:
  "parse_files 1 hello_env ''a'' [] False = Some (Some \<lparr>result = hello_result, seen_refs = hm_new, erange = False\<rparr>)"
proof -
  let ?s = "\<lparr>result = init_parse_result, seen_refs = hm_new, erange = False\<rparr> :: asm_t"
  let ?s1 = "?s\<lparr>result := init_parse_result\<lparr>labels := put_at (hash_of INITIAL_SIZE ''_entry'') ''_entry'' (Some hello_label) hm_new\<rparr>\<rparr>"
  have f: "find_instn std_defs ''ret'' 0 = Some (Found 41)"
    using find_instn_entry [OF std_table, of 41] table_length [OF std_table] std_ret_entry by simp
  have w: "word ''_entry''" by code_simp
  have "parse_line hello_env F 0 1 [] ([] @ ''_entry'' @ '':'' @ [CHR 0x0A]) ?s = add_label hello_env 0 1 ''_entry'' (n_instns (result ?s)) False ?s" for F
    by (rule parse_line_label [OF w]) (simp_all add: isspace_def)
  then have l1: "parse_line hello_env F 0 1 [] (''_entry:'' @ [CHR 0x0A]) ?s = Some ?s1" for F
    by (simp add: add_label_def hmap_put_blank init_parse_result_def n_instns_def hello_label_def hello_env_def tiny_env_def)
  have l2: "parse_line hello_env F 0 2 [] (''ret'' @ [CHR 0x0A]) ?s1 =
      Some (?s1\<lparr>result := (result ?s1)\<lparr>pr_instns := [hello_instn]\<rparr>\<rparr>)" for F
    by (simp add: parse_line_def scan_def isspace_def chr_def NUL_def hello_env_def tiny_env_def
        add_instn_def parse_instn_def f cstr_def init_parse_result_def hello_instn_def)
  show ?thesis
    using l1 l2 by (simp add: parse_files_def dir_of_def) (simp add: hello_env_def hello_result_def init_parse_result_def)
qed

lemma hello_parse: "parse_asm 1 hello_env ''a'' [] False = Some (Some hello_result)"
  unfolding parse_asm_def hello_files by (simp add: hmap_iterate_def hmap_size_def hm_new_def)

lemma hello_find: "find_label hello_result ''_entry'' = Some hello_label"
  using hmap_put_correct [OF hm.inv_new hmap_put_blank [of "\<lambda>_. True" "''_entry''" "Some hello_label"]]
  by (simp add: find_label_def hello_result_def hmap_get_hm_abs)

lemma hello_instns: "pr_instns hello_result = [hello_instn]" "i_args hello_instn = []" "pr_memory hello_result = []"
    "label_refs hello_result = []" "errors hello_result = 0" "pr_memsz hello_result = 0"
  by (simp_all add: hello_result_def hello_instn_def init_parse_result_def)

lemma hello_code: "full_code False hello_result = [72, 1]"
  using std_entries
  by (simp add: full_code_def hello_instns left_out_def enc_instn_def op_ir_def compute_layout_def)
    (simp add: hello_instn_def std_opcodes le_bytes_2_4)

definition hello_basm :: basm_env where
  "hello_basm = \<lparr>b_asm = hello_env, b_depth = 1, b_erange = False, b_qsort = demo_sort, b_room = (\<lambda>_. Some 100)\<rparr>"

definition hello_args :: basm_args where
  "hello_args = \<lparr>include_paths = [], asmfile = ''a'', outfile = Some ''x'', entry_pt_label = Some ''_entry'', b_debug = False\<rparr>"

lemma hello_assembles: "assembles hello_basm hello_args hello_result hello_label d"
proof -
  have "env_ok hello_env" by (simp add: env_ok_def hello_env_def tiny_env_def std_table)
  moreover have "labels_inside hello_result" by (simp add: labels_inside_def hello_instns arg_labels_def)
  moreover have "errors (result \<lparr>result = hello_result, seen_refs = hm_new, erange = False\<rparr>) = 0" by (simp add: hello_instns)
  moreover have "table_size (hm_new :: unit hashmap_map) < 2 ^ 32" by (simp add: hm_new_def INITIAL_SIZE_def)
  ultimately show ?thesis
    using hello_files hello_parse hello_find
    by (simp add: assembles_def hello_basm_def hello_args_def hello_code hello_instns refs_fit_def hello_label_def)
qed

definition hello_stopped :: "unit vm_t" where
  "hello_stopped = (loaded_vm [] () 0 [72, 1] [])\<lparr>procedures := [], iptr := 0, instns := 1\<rparr>"

lemma hello_runs: "execute_vm demo_os 0 std_defs no_instn (loaded_vm [] () 0 [72, 1] []) = Some hello_stopped"
proof -
  let ?vm = "loaded_vm [] () 0 [72, 1] []" and ?i = "no_instn\<lparr>icode := 328\<rparr>"
  let ?stop = "hello_stopped\<lparr>instns_since_last_cleanup := 1\<rparr>"
  have "exec_turn demo_os 0 std_defs no_instn ?vm = Some (True, ?i, ?stop)"
    by (simp add: exec_turn_def vm_current_procedure_def exec_current_def vm_decode_instn_def decode_instn_def
        past_bound_def nInstnDefs_std arg_count_at_def std_ret vm_exec_instn_def op_ret_0_def this_proc_def
        set_this_proc_def delete_current_procedure_def after_instn_def count_instn_def VM_CLEANUP_PERIOD_INSTNS_def
        load_2 no_instn_def hello_stopped_def loaded_vm_def small_vm_simps)
  moreover have "exec_turn demo_os 0 std_defs ?i ?stop = Some (False, ?i, ?stop)"
    by (simp add: exec_turn_def vm_fire_events_def has_pending_events_def has_pending_timer_events_def
        has_pending_io_events_def has_pending_proc_events_def hello_stopped_def loaded_vm_def small_vm_simps)
  ultimately have "run_loop (exec_turn demo_os 0 std_defs) no_instn ?vm = Some (?i, ?stop)"
    by (simp add: run_loop.simps [of _ no_instn] run_loop.simps [of _ ?i])
  moreover have "cleanup_vm demo_os 0 ?stop = Some hello_stopped"
    by (simp add: cleanup_vm_def cleanup_child_proc_def fire_proc_events_def hello_stopped_def loaded_vm_def small_vm_simps)
  ultimately show ?thesis by (simp add: execute_vm_def)
qed

text \<open>The program of two lines, assembled with the default entry point, and run.\<close>

lemma assembled_runs_witness:
  "\<exists>file retval out. basm_main hello_basm [''basm'', ''-o'', ''x'', ''a''] = Some (0, [], Some (''x'', file)) \<and>
    bvgz_main (demo_bvgz file) [''bvgz'', ''x''] [] () = Some (retval, out, ()) \<and> exit_status retval = 0"
proof -
  have a: "basm_parse_args (e_defs (b_asm hello_basm)) [''basm'', ''-o'', ''x'', ''a''] = Some (Inr hello_args)"
    "bvgz_parse_args [''bvgz'', ''x''] = Inr \<lparr>imgfile = ''x'', gen_dir = None, v_debug = False\<rparr>"
    by (simp_all add: basm_parse_args_def hello_args_def DefaultEntryPointLabel_def bvgz_parse_args_def)
  have o: "outfile hello_args = Some ''x''" "b_room hello_basm ''x'' = Some 100" "b_debug hello_args = False"
    by (simp_all add: hello_args_def hello_basm_def)
  have l: "length (image_file (b_debug hello_args) (l_offset hello_label) (full_code (b_debug hello_args) hello_result) mem d) \<le> 100"
    if "length mem = unat (pr_memsz hello_result)" for mem d
    using that by (simp add: o hello_code hello_instns image_file_def length_image)
  note run = assembled_runs [OF hello_assembles [of demo_debug] a(1) o(1,2) l a(2), where lines = "[]" and w = "()"]
  obtain fl m where w: "basm_main hello_basm [''basm'', ''-o'', ''x'', ''a''] = Some (0, [], Some (''x'', fl))"
      "\<And>v. v_files v ''x'' = Some fl \<Longrightarrow> bvgz_main v [''bvgz'', ''x''] [] () =
        bvgz_run v False [] None (loaded_vm (v_junk v) () 0 [72, 1] (take 0 m))"
    using run unfolding o(3) hello_code hello_instns hello_label_def by auto
  have "destroy_vm demo_os hello_stopped = Some ()"
    by (simp add: destroy_vm_def destroy_vm_io_def hello_stopped_def loaded_vm_def small_vm_simps)
  moreover have "exceptions hello_stopped = 0" by (simp add: hello_stopped_def loaded_vm_def small_vm_simps)
  ultimately have "bvgz_run (demo_bvgz fl) False [] None (loaded_vm [] () 0 [72, 1] []) =
      Some (0, print_vm_state (g_strerror (v_dbg (demo_bvgz fl))) hello_stopped, ())"
    using hello_runs by (simp add: bvgz_run_def)
  then show ?thesis using w by (simp add: exit_status_def)
qed

end
