(* ===== verification/DataRoundtrip.thy ===== *)
theory DataRoundtrip
  imports ParserRoundtrip ParserInv
begin

text \<open>
  Printing and parsing a data directive: a number of one, two, four or eight bytes, printed in
  base sixteen, with or without a label. Its bytes are put at the end of the memory.
\<close>

section \<open>The end of the memory\<close>

text \<open>\<open>mem\<close> holds what \<open>r\<close> holds, and \<open>bs\<close> behind it.\<close>

definition grown :: "prs_result_t \<Rightarrow> u8 list \<Rightarrow> u8 list \<Rightarrow> bool" where
  "grown r bs mem \<longleftrightarrow> unat (pr_memsz r) + length bs \<le> length mem \<and> length mem < 2 ^ 32 \<and>
     take (unat (pr_memsz r) + length bs) mem = take (unat (pr_memsz r)) (pr_memory r) @ bs"

definition with_memory :: "u8 list \<Rightarrow> nat \<Rightarrow> prs_result_t \<Rightarrow> prs_result_t" where
  "with_memory mem k r = r\<lparr>pr_memory := mem, pr_memsz := pr_memsz r + of_nat k, mem_alloc := of_nat (length mem)\<rparr>"

lemma grown_nothing: "mem_inv r \<Longrightarrow> grown r [] (pr_memory r) \<and> with_memory (pr_memory r) 0 r = r"
  using unat_u32_lt [of "mem_alloc r"] by (simp add: grown_def with_memory_def mem_inv_def word_le_nat_alt)

lemma unat_memsz_grown:
  "grown r bs mem \<Longrightarrow> unat (pr_memsz (with_memory mem (length bs) r)) = unat (pr_memsz r) + length bs"
  by (simp add: grown_def with_memory_def unat_word_ariths)

lemma mem_inv_grown: "grown r bs mem \<Longrightarrow> mem_inv (with_memory mem (length bs) r)"
  using unat_memsz_grown [of r bs mem] by (simp add: mem_inv_def word_le_nat_alt) (simp add: grown_def with_memory_def)

lemma grown_again:
  assumes "grown r as mem" "grown (with_memory mem (length as) r) bs mem'"
  shows "grown r (as @ bs) mem'"
    and "with_memory mem' (length bs) (with_memory mem (length as) r) = with_memory mem' (length (as @ bs)) r"
proof -
  have m: "pr_memory (with_memory mem (length as) r) = mem" by (simp add: with_memory_def)
  show "grown r (as @ bs) mem'"
    using assms unat_memsz_grown [OF assms(1)] unfolding grown_def m by (simp add: add.assoc)
qed (simp add: with_memory_def add.assoc)

lemma grow_size_returns:
  assumes "0 < block" "unat alloc + block < 2 ^ 32"
  shows "\<exists>n'. grow_size block alloc n = Some n' \<and> n \<le> n'"
proof (induction "unat alloc - unat n" arbitrary: n rule: less_induct)
  case less
  show ?case
  proof (cases "alloc > n")
    case True
    then have l: "unat n < unat alloc" by (simp add: word_less_nat_alt)
    then have "unat (n + of_nat block) = unat n + block" using assms(2) by (simp add: unat_word_ariths)
    then have "unat alloc - unat (n + of_nat block) < unat alloc - unat n" "n \<le> n + of_nat block"
      using l assms(1) by (simp_all add: word_le_nat_alt)
    moreover obtain n' where "grow_size block alloc (n + of_nat block) = Some n'" "n + of_nat block \<le> n'"
      using less [OF calculation(1)] by blast
    ultimately show ?thesis using True by (subst grow_size.simps) auto
  next
    case False
    then show ?thesis by (subst grow_size.simps) simp
  qed
qed

lemma ensure_memory_alloc_ok:
  assumes inv: "mem_inv (result s)" and b: "0 < MEM_ALLOC_BLOCK_SZ env" "unat alloc + MEM_ALLOC_BLOCK_SZ env < 2 ^ 32"
    and a: "alloc > pr_memsz (result s)"
  shows "\<exists>mem. ensure_memory_alloc env alloc s =
      Some (s\<lparr>result := (result s)\<lparr>pr_memory := mem, mem_alloc := of_nat (length mem)\<rparr>\<rparr>) \<and>
    unat alloc \<le> length mem \<and> length mem < 2 ^ 32 \<and> take (length (pr_memory (result s))) mem = pr_memory (result s)"
proof -
  let ?r = "result s"
  have l: "length (pr_memory ?r) = unat (mem_alloc ?r)" using inv by (simp add: mem_inv_def)
  obtain n where n: "grow_size (MEM_ALLOC_BLOCK_SZ env) alloc (mem_alloc ?r) = Some n" "mem_alloc ?r \<le> n"
    using grow_size_returns [OF b] by blast
  have an: "alloc \<le> n" by (rule grow_size_ge [OF n(1)])
  show ?thesis
  proof (cases "n > mem_alloc ?r")
    case True
    define mem where "mem = pr_memory ?r @ replicate (unat (n - mem_alloc ?r)) 0"
    have len: "length mem = unat n" using l n(2) by (simp add: mem_def unat_sub word_le_nat_alt)
    have "ensure_memory_alloc env alloc s = Some (s\<lparr>result := ?r\<lparr>pr_memory := mem, mem_alloc := n\<rparr>\<rparr>)"
      using a n(1) True l by (simp add: ensure_memory_alloc_def Let_def mem_def)
    moreover have "take (length (pr_memory ?r)) mem = pr_memory ?r" by (simp add: mem_def)
    ultimately show ?thesis using len an unat_u32_lt [of n] by (intro exI [of _ mem]) (simp add: word_le_nat_alt)
  next
    case False
    then have e: "n = mem_alloc ?r" using n(2) by simp
    have "of_nat (length (pr_memory ?r)) = mem_alloc ?r" using l by simp
    with a n(1) e have "ensure_memory_alloc env alloc s =
        Some (s\<lparr>result := ?r\<lparr>pr_memory := pr_memory ?r, mem_alloc := of_nat (length (pr_memory ?r))\<rparr>\<rparr>)"
      by (simp add: ensure_memory_alloc_def Let_def)
    then show ?thesis using an l e unat_u32_lt [of n] by (intro exI [of _ "pr_memory ?r"]) (simp add: word_le_nat_alt)
  qed
qed

lemma write_at_end:
  assumes inv: "mem_inv (result s)" and bs: "bs \<noteq> []" and b: "0 < MEM_ALLOC_BLOCK_SZ env"
    "unat (pr_memsz (result s)) + length bs + MEM_ALLOC_BLOCK_SZ env < 2 ^ 32"
  shows "\<exists>mem. write_to_memory env bs (pr_memsz (result s)) s =
      Some (s\<lparr>result := with_memory mem (length bs) (result s)\<rparr>) \<and> grown (result s) bs mem"
proof -
  let ?r = "result s" and ?t = "pr_memsz (result s) + of_nat (length bs)"
  have t: "unat ?t = unat (pr_memsz ?r) + length bs" using b(2) by (simp add: unat_word_ariths)
  then have "?t > pr_memsz ?r" using bs by (simp add: word_less_nat_alt)
  then obtain mem where e: "ensure_memory_alloc env ?t s =
      Some (s\<lparr>result := ?r\<lparr>pr_memory := mem, mem_alloc := of_nat (length mem)\<rparr>\<rparr>)"
      "unat ?t \<le> length mem" "length mem < 2 ^ 32" "take (length (pr_memory ?r)) mem = pr_memory ?r"
    using ensure_memory_alloc_ok [OF inv b(1), of ?t] b(2) t by auto
  obtain mem' where m: "store_bytes mem (unat (pr_memsz ?r)) bs = Some mem'" using e(2) t by (simp add: store_bytes_def)
  have l: "length mem' = length mem" by (rule store_bytes_length [OF m])
  have k: "unat (pr_memsz ?r) \<le> length (pr_memory ?r)" using inv by (simp add: mem_inv_def word_le_nat_alt)
  then have p: "take (unat (pr_memsz ?r)) mem = take (unat (pr_memsz ?r)) (pr_memory ?r)"
    using e(4) by (metis min.absorb1 take_take)
  have "mem' = take (unat (pr_memsz ?r)) mem @ bs @ drop (unat (pr_memsz ?r) + length bs) mem"
    using m by (auto simp: store_bytes_def split: if_splits)
  then have "take (unat (pr_memsz ?r) + length bs) mem' = take (unat (pr_memsz ?r)) (pr_memory ?r) @ bs"
    using e(2) t p k by simp
  then show ?thesis
    using e m l t by (intro exI [of _ mem']) (simp add: write_to_memory_def with_memory_def grown_def)
qed

section \<open>Hexadecimal numbers\<close>

definition hex_digit :: "nat \<Rightarrow> char" where
  "hex_digit n = ''0123456789ABCDEF'' ! n"

text \<open>The \<open>k\<close> last digits of a number.\<close>

fun hex :: "nat \<Rightarrow> nat \<Rightarrow> string" where
  "hex 0 v = []"
| "hex (Suc k) v = hex k (v div 16) @ [hex_digit (v mod 16)]"

lemma length_hex [simp]: "length (hex k v) = k"
  by (induction k arbitrary: v) simp_all

lemma hex_digit_facts:
  assumes "n < 16"
  shows "digit_val (hex_digit n) = n" "plain (hex_digit n)" "hex_digit n \<notin> set ''-+xX''"
proof -
  have "\<forall>n \<in> set [0..<16]. digit_val (hex_digit n) = n \<and> plain (hex_digit n) \<and> hex_digit n \<notin> set ''-+xX''" by code_simp
  then show "digit_val (hex_digit n) = n" "plain (hex_digit n)" "hex_digit n \<notin> set ''-+xX''" using assms by simp_all
qed

lemma hex_set: "c \<in> set (hex k v) \<Longrightarrow> \<exists>n < 16. c = hex_digit n"
proof (induction k arbitrary: v)
  case (Suc k)
  then consider "c \<in> set (hex k (v div 16))" | "c = hex_digit (v mod 16)" by auto
  then show ?case
  proof cases
    case 2
    then show ?thesis by (intro exI [of _ "v mod 16"]) simp
  qed (rule Suc.IH)
qed simp

lemma number_of_hex: "number_of 16 (hex k v) = v mod 16 ^ k"
proof (induction k arbitrary: v)
  case 0
  then show ?case by (simp add: number_of_def)
next
  case (Suc k)
  have "(v div 16) mod 16 ^ k * 16 + v mod 16 = v mod 16 ^ Suc k"
    by (simp add: mod_mult2_eq)
  with Suc show ?case by (simp add: number_of_append hex_digit_facts(1))
qed

lemma strtoull_hex:
  assumes "0 < k" "k \<le> 16" "v < 16 ^ k"
  shows "strtoull 16 (hex k v) = (of_nat v, k, False)"
proof -
  obtain c cs where h: "hex k v = c # cs" using assms(1) by (cases "hex k v") (auto dest: arg_cong [where f = length])
  have hc: "\<And>c. c \<in> set (hex k v) \<Longrightarrow> digit_val c < 16 \<and> \<not> isspace c \<and> c \<notin> set ''-+xX''"
    using hex_set hex_digit_facts plain_facts by fastforce
  then have c: "\<not> isspace c" "c \<notin> set ''-+xX''" using h by auto
  have x: "chr (hex k v) 1 \<noteq> CHR ''x'' \<and> chr (hex k v) 1 \<noteq> CHR ''X''"
  proof (cases "1 < k")
    case True
    then have "hex k v ! 1 \<in> set (hex k v)" by simp
    with True hc show ?thesis by (fastforce simp: chr_def)
  qed (simp add: chr_def NUL_def)
  have ds: "takeWhile (\<lambda>c. digit_val c < 16) (hex k v) = hex k v" using hc by (simp add: takeWhile_eq_all_conv)
  have ne: "hex k v \<noteq> []" using h by simp
  have "takeWhile isspace (hex k v) = []" using c(1) h by simp
  moreover have "chr (hex k v) 0 = c" using h by (simp add: chr_def)
  moreover have "base_prefix 16 (hex k v) = (16, 0)" using x by (simp add: base_prefix_def)
  moreover have "(16 :: nat) ^ k \<le> 16 ^ 16" using assms(2) by (intro power_increasing) simp_all
  then have "v < 2 ^ 64" using assms(3) by simp
  ultimately show ?thesis
    using c(2) ne assms(3) by (simp add: strtoull_def digits_of_def Let_def ds number_of_hex)
qed

section \<open>The directive\<close>

definition show_data :: "string option \<Rightarrow> nat \<Rightarrow> nat \<Rightarrow> string" where
  "show_data lbl k v = ''%data '' @ (case lbl of None \<Rightarrow> [] | Some l \<Rightarrow> ''@'' @ l @ '' '') @ ''0x'' @ hex (2 * k) v @ [CHR 0x0A]"

definition data_label :: "nat \<Rightarrow> u32 \<Rightarrow> u32 \<Rightarrow> string option \<Rightarrow> (string \<times> label_t option) list" where
  "data_label fn n p lbl = (case lbl of None \<Rightarrow> []
     | Some l \<Rightarrow> [(l, Some \<lparr>l_filename = fn, l_lineno = n, l_offset = p, is_mem_ref = True\<rparr>)])"

lemma next_token_word:
  assumes "word w" "isspace c"
  shows "next_token req (pre @ w @ c # post) (length pre) =
    Some (Some (pre @ w @ NUL # post, length pre, length pre + length w, c))"
proof -
  obtain d ds where w: "w = d # ds" "plain d" "\<forall>x \<in> set w. plain x" using assms(1) by (cases w) (auto simp: word_def)
  note d = plain_facts [OF w(2)]
  have "\<not> isspace (CHR '';'')" by (simp add: isspace_def)
  then have c: "c \<noteq> NUL" "c \<noteq> CHR '';''" using assms(2) isspace_not_NUL by blast+
  have s1: "scan isspace (pre @ w @ c # post) (length pre) = Some (length pre)" using d w(1) by (simp add: scan_def)
  have "takeWhile (\<lambda>c. c \<noteq> NUL \<and> \<not> isspace c \<and> c \<noteq> CHR '';'') (w @ c # post) = w"
    using w(3) plain_facts assms(2) by (subst takeWhile_append2) auto
  then have s2: "scan (\<lambda>c. \<not> isspace c \<and> c \<noteq> CHR '';'') (pre @ w @ c # post) (length pre) = Some (length pre + length w)"
    by (simp add: scan_def)
  have e: "chr (pre @ w @ c # post) (length pre + length w) = c"
    using chr_append [of "pre @ w" c post] by simp
  have u: "(pre @ w @ c # post)[length pre + length w := NUL] = pre @ w @ NUL # post"
    using list_update_length [of "pre @ w" c post NUL] by simp
  have t: "chr (pre @ w @ c # post) (length pre) = d" using w(1) by simp
  have ne: "length pre \<noteq> length pre + length w" using w(1) by simp
  have p: "chr_at (pre @ w @ c # post) (length pre + length w) = Some c" "chr_at (pre @ w @ c # post) (length pre) = Some d"
      "put_chr (pre @ w @ c # post) (length pre + length w) NUL = Some (pre @ w @ NUL # post)"
    using e t u by (simp_all add: chr_at_def put_chr_def del: put_chr_length)
  show ?thesis
    using c(1) ne d unfolding next_token_def s1 s2 bind.bind_lunit p by (simp only: simp_thms if_False bind.bind_lunit p)
qed

lemma data_options_end: "data_options b (length b) unset unset s = Some (b, unset, unset, s)"
proof -
  have n: "NUL \<noteq> CHR '';''" by (simp add: NUL_def)
  have e: "chr b (length b) = NUL" by (simp add: chr_def)
  have sc: "scan P b (length b) = Some (length b)" for P by (simp add: scan_def)
  have p: "chr_at b (length b) = Some NUL" "put_chr b (length b) NUL = Some b"
    by (simp_all add: chr_at_def e put_chr_def del: put_chr_length)
  have "next_token False b (length b) = Some (Some (b, length b, length b, NUL))"
    unfolding next_token_def sc bind.bind_lunit p by (simp only: n if_False simp_thms bind.bind_lunit p)
  then show ?thesis unfolding data_options.simps [of b "length b" unset unset s] by (simp only: option.case prod.case e if_True simp_thms)
qed

text \<open>The two words of the directive, or the one, have been cut out; then the number is written.\<close>

lemma hex_word: "0 < k \<Longrightarrow> word (''0x'' @ hex k v)"
proof -
  have "plain (CHR ''0'')" "plain (CHR ''x'')" by code_simp+
  then show "0 < k \<Longrightarrow> word (''0x'' @ hex k v)"
    using hex_set hex_digit_facts(2) by (fastforce simp: word_def)
qed

lemma isspace_blank: "isspace (CHR 0x20)" "isspace (CHR 0x0A)"
  by (simp_all add: isspace_def)

lemma parse_data_words:
  assumes "case lbl of None \<Rightarrow> True | Some l \<Rightarrow> word l" "0 < k"
  shows "parse_preproc_data env fn n (show_data lbl k v) paths s =
    add_data env fn n (map_option (Cons (CHR ''@'')) lbl) (''0x'' @ hex (2 * k) v) unset unset paths s"
proof -
  let ?h = "''0x'' @ hex (2 * k) v" and ?pre = "''%data ''"
  have h: "word ?h" using assms(2) by (intro hex_word) simp
  note h2 = next_token_word [OF h isspace_blank(2)]
  have len: "length PREPROC_DATA + 1 = length ?pre" by (simp add: PREPROC_DATA_def)
  have q: "CHR ''0'' \<noteq> CHR 0x22" "CHR ''0'' \<noteq> CHR ''@''" by simp_all
  show ?thesis
  proof (cases lbl)
    case None
    let ?b = "?pre @ ?h @ NUL # []"
    have t: "next_token True (show_data lbl k v) (length PREPROC_DATA + 1) =
        Some (Some (?b, length ?pre, length ?pre + length ?h, CHR 0x0A))"
      using h2 [of True ?pre "[]"] unfolding len by (simp only: show_data_def None option.case append_Nil append.assoc)
    have c: "chr ?b (length ?pre) = CHR ''0''" "cstr ?b (length ?pre) = ?h"
      using cstr_word [OF h, of ?pre "[]"] by (simp_all add: chr_def)
    have e: "length ?pre + length ?h + 1 = length ?b" by simp
    show ?thesis
      unfolding parse_preproc_data_def t bind.bind_lunit option.case prod.case c(1)
      by (simp only: q if_False bind.bind_lunit option.case prod.case c e data_options_end Let_def None option.map)
  next
    case (Some l)
    let ?w = "CHR ''@'' # l"
    have "plain (CHR ''@'')" by code_simp
    then have w: "word ?w" using assms(1) Some by (simp add: word_def)
    let ?b1 = "?pre @ ?w @ NUL # ?h @ [CHR 0x0A]" and ?p2 = "?pre @ ?w @ [NUL]"
    let ?b = "?p2 @ ?h @ NUL # []"
    have t1: "next_token True (show_data lbl k v) (length PREPROC_DATA + 1) =
        Some (Some (?b1, length ?pre, length ?pre + length ?w, CHR 0x20))"
      using next_token_word [OF w isspace_blank(1), of True ?pre "?h @ [CHR 0x0A]"] unfolding len
      by (simp only: show_data_def Some option.case append_Nil append_Cons append.assoc)
    have t2: "next_token True ?b1 (length ?pre + length ?w + 1) =
        Some (Some (?b, length ?p2, length ?p2 + length ?h, CHR 0x0A))"
      using h2 [of True ?p2 "[]"] by simp
    have c: "chr ?b1 (length ?pre) = CHR ''@''" "chr ?b (length ?p2) = CHR ''0''" "chr ?b (length ?pre) = CHR ''@''"
      by (simp_all add: chr_def nth_append)
    have cs: "cstr ?b (length ?p2) = ?h" "cstr ?b (length ?pre) = ?w"
      using cstr_word [OF h, of ?p2 "[]"] cstr_word [OF w, of ?pre "?h @ [NUL]"] by simp_all
    have e: "length ?p2 + length ?h + 1 = length ?b" by simp
    show ?thesis
      unfolding parse_preproc_data_def t1 bind.bind_lunit option.case prod.case c(1)
      by (simp only: q c if_True if_False simp_thms t2 bind.bind_lunit option.case prod.case cs e data_options_end Let_def Some option.map)
  qed
qed

lemma add_data_hex:
  assumes inv: "mem_inv (result s)" and e: "\<not> erange s" and k: "k \<in> {1, 2, 4, 8}" "v < 256 ^ k"
    and b: "0 < MEM_ALLOC_BLOCK_SZ env" "unat (pr_memsz (result s)) + k + MEM_ALLOC_BLOCK_SZ env < 2 ^ 32"
    and m: "insert_all (hm_insert (e_calloc env)) (labels (result s)) (data_label fn n (pr_memsz (result s)) lbl) = Some m"
  shows "\<exists>mem. add_data env fn n (map_option (Cons (CHR ''@'')) lbl) (''0x'' @ hex (2 * k) v) unset unset paths s =
      Some (s\<lparr>result := (with_memory mem k (result s))\<lparr>labels := m\<rparr>\<rparr>) \<and> grown (result s) (le_bytes k v) mem"
proof -
  have k16: "0 < 2 * k" "2 * k \<le> 16" "(16 :: nat) ^ (2 * k) = 256 ^ k" "hex_width (2 * k) = k"
    using k(1) by (auto simp: power_mult hex_width_def)
  have "v < 2 ^ 64"
  proof -
    have "(256 :: nat) ^ k \<le> 256 ^ 8" using k(1) by (intro power_increasing) auto
    then show ?thesis using k(2) by simp
  qed
  then have u: "unat (of_nat v :: u64) = v" by simp
  have r: "read_number 16 (hex (2 * k) v) s = (of_nat v, [], s)"
    using strtoull_hex [OF k16(1,2), of v] k(2) k16(3) by (simp add: read_number_def)
  have "le_bytes k v \<noteq> []" "length (le_bytes k v) = k" using k(1) by (auto simp flip: length_0_conv)
  then obtain mem where w: "write_to_memory env (le_bytes k v) (pr_memsz (result s)) s =
      Some (s\<lparr>result := with_memory mem k (result s)\<rparr>)" and g: "grown (result s) (le_bytes k v) mem"
    using write_at_end [OF inv _ b(1), of "le_bytes k v"] b(2) by auto
  have mi: "mem_inv (with_memory mem k (result s))" using mem_inv_grown [OF g] by simp
  let ?s = "s\<lparr>result := with_memory mem k (result s)\<rparr>"
  have x: "chr (''0x'' @ hex (2 * k) v) 2 \<noteq> NUL"
  proof -
    have "hex (2 * k) v ! 0 \<in> set (hex (2 * k) v)" using k16(1) by (intro nth_mem) simp
    then have "hex (2 * k) v ! 0 \<noteq> NUL" using hex_set hex_digit_facts(2) plain_facts by metis
    then show ?thesis using k16(1) by (simp add: chr_def numeral_2_eq_2)
  qed
  have "end_data env fn n (map_option (Cons (CHR ''@'')) lbl) (pr_memsz (result s)) unset ?s =
      Some (s\<lparr>result := (with_memory mem k (result s))\<lparr>labels := m\<rparr>\<rparr>)"
    using m by (cases lbl) (auto simp: end_data_def set_memory_size_def add_label_def data_label_def hm_insert_Some with_memory_def)
  then have "add_hex_to_memory env fn n (map_option (Cons (CHR ''@'')) lbl) (''0x'' @ hex (2 * k) v) unset unset s =
      Some (s\<lparr>result := (with_memory mem k (result s))\<lparr>labels := m\<rparr>\<rparr>)"
    using r w k16 u by (simp add: add_hex_to_memory_def ensure_memory_at_offset_def place_def Let_def)
  moreover have "chr (''0x'' @ hex (2 * k) v) 0 = CHR ''0''" "chr (''0x'' @ hex (2 * k) v) 1 = CHR ''x''"
    by (simp_all add: chr_def)
  ultimately show ?thesis
    using g mi x by (intro exI [of _ mem]) (simp add: add_data_def mem_inv_def with_memory_def)
qed

end
