(* ===== verification/SourceRoundtrip.thy ===== *)
theory SourceRoundtrip
  imports DataRoundtrip Assemble
begin

text \<open>
  Printing and parsing a whole source: a list of labels, instructions, data and comments is
  printed line by line, and \<open>parse_asm\<close> delivers exactly these instructions, labels and bytes. The only thing that can
  go wrong on the way is an insertion into one of the two tables of names.
\<close>

section \<open>Sources\<close>

text \<open>
  A line is a label, an instruction (its index in the table and its operands), a number of so many
  bytes in the memory that may have a label, or a comment.
\<close>

datatype source_line = Lbl string | Ins nat "prs_arg_t list" | Dat "string option" nat nat | Note string

definition show_source_line :: "instn_def_t list \<Rightarrow> source_line \<Rightarrow> string" where
  "show_source_line defs x =
     (case x of
        Lbl l \<Rightarrow> l @ '':'' @ [CHR 0x0A]
      | Ins j as \<Rightarrow> show_line (defs ! j) as
      | Dat lbl k v \<Rightarrow> show_data lbl k v
      | Note c \<Rightarrow> '';'' @ c @ [CHR 0x0A])"

definition show_source :: "instn_def_t list \<Rightarrow> source_line list \<Rightarrow> string" where
  "show_source defs xs = concat (map (show_source_line defs) xs)"

text \<open>
  Lines that can be printed: names of labels that the parser takes as such, and instructions of
  the table with operands it accepts for them.
\<close>

definition source_line_ok :: "instn_def_t list \<Rightarrow> source_line \<Rightarrow> bool" where
  "source_line_ok defs x \<longleftrightarrow>
     (case x of
        Lbl l \<Rightarrow> word l \<and> hd l \<noteq> CHR ''%''
      | Ins j as \<Rightarrow> j < length defs \<and> length as = arg_count (defs ! j) \<and> (\<forall>a \<in> set as. printable a) \<and>
          (as \<noteq> [] \<longrightarrow> a_type (hd as) = T_ARG_IMM \<longrightarrow> flags (defs ! j) AND F_ALLOW_IMM_1st_Arg \<noteq> 0)
      | Dat lbl k v \<Rightarrow> (case lbl of None \<Rightarrow> True | Some l \<Rightarrow> word l) \<and> k \<in> {1, 2, 4, 8} \<and> v < 256 ^ k
      | Note c \<Rightarrow> CHR 0x0A \<notin> set c)"

section \<open>What a source means\<close>

text \<open>
  The instructions and the bytes of a line, and the labels of the line number \<open>n\<close> when \<open>k\<close>
  instructions and \<open>d\<close> bytes precede.
\<close>

fun line_instns :: "instn_def_t list \<Rightarrow> u32 \<Rightarrow> source_line \<Rightarrow> prs_instn_t list" where
  "line_instns defs n (Ins j as) =
     [\<lparr>i_filename = 0, i_lineno = n, i_def = defs ! j, i_args = as, mem_offset = - 1\<rparr>]"
| "line_instns defs n _ = []"

fun line_data :: "source_line \<Rightarrow> u8 list" where
  "line_data (Dat lbl k v) = le_bytes k v"
| "line_data _ = []"

fun line_labels :: "u32 \<Rightarrow> u32 \<Rightarrow> u32 \<Rightarrow> source_line \<Rightarrow> (string \<times> label_t option) list" where
  "line_labels n k d (Lbl l) = [(l, Some \<lparr>l_filename = 0, l_lineno = n, l_offset = k, is_mem_ref = False\<rparr>)]"
| "line_labels n k d (Dat lbl w v) = data_label 0 n d lbl"
| "line_labels n k d _ = []"

definition arg_refs :: "prs_arg_t list \<Rightarrow> (string \<times> unit option) list" where
  "arg_refs as = concat (map (\<lambda>a. case a_data a of Label l \<Rightarrow> [(l, None)] | Value v \<Rightarrow> []) as)"

definition arg_warnings :: "prs_arg_t list \<Rightarrow> nat" where
  "arg_warnings as = length (filter (\<lambda>a. case a_data a of Value v \<Rightarrow> big_imm v | Label l \<Rightarrow> False) as)"

fun ins_args :: "source_line \<Rightarrow> prs_arg_t list" where
  "ins_args (Ins j as) = as"
| "ins_args _ = []"

fun source_instns :: "instn_def_t list \<Rightarrow> u32 \<Rightarrow> source_line list \<Rightarrow> prs_instn_t list" where
  "source_instns defs n [] = []"
| "source_instns defs n (x # xs) = line_instns defs (n + 1) x @ source_instns defs (n + 1) xs"

definition source_data :: "source_line list \<Rightarrow> u8 list" where
  "source_data xs = concat (map line_data xs)"

fun source_labels :: "u32 \<Rightarrow> u32 \<Rightarrow> u32 \<Rightarrow> source_line list \<Rightarrow> (string \<times> label_t option) list" where
  "source_labels n k d [] = []"
| "source_labels n k d (x # xs) = line_labels (n + 1) k d x @
     source_labels (n + 1) (case x of Ins j as \<Rightarrow> k + 1 | _ \<Rightarrow> k) (d + of_nat (length (line_data x))) xs"

definition source_args :: "source_line list \<Rightarrow> prs_arg_t list" where
  "source_args xs = concat (map ins_args xs)"

text \<open>The block \<open>mem\<close> of the memory has the bytes of the data in front.\<close>

definition source_result :: "instn_def_t list \<Rightarrow> source_line list \<Rightarrow> label_t hashmap_map \<Rightarrow> u8 list \<Rightarrow> prs_result_t" where
  "source_result defs xs m mem = \<lparr>pr_files = 1, errors = 0, warnings = of_nat (arg_warnings (source_args xs)),
     pr_instns = source_instns defs 0 xs, pr_memory = mem, pr_memsz = of_nat (length (source_data xs)),
     mem_alloc = of_nat (length mem), labels = m, label_refs = []\<rparr>"

section \<open>The lines of a file\<close>

lemma get_lines_line: "CHR 0x0A \<notin> set w \<Longrightarrow> get_lines (w @ CHR 0x0A # rest) = (w @ [CHR 0x0A]) # get_lines rest"
proof (induction w)
  case (Cons c w)
  then have "c \<noteq> CHR 0x0A" "get_lines (w @ CHR 0x0A # rest) = (w @ [CHR 0x0A]) # get_lines rest" by auto
  then show ?case by (simp only: append_Cons get_lines.simps if_False list.case)
qed simp

lemma plain_no_newline: "\<forall>c \<in> set w. plain c \<Longrightarrow> CHR 0x0A \<notin> set w"
proof -
  have "isspace (CHR 0x0A)" by (simp add: isspace_def)
  then show "\<forall>c \<in> set w. plain c \<Longrightarrow> CHR 0x0A \<notin> set w" unfolding plain_def by blast
qed

lemma show_source_line_ends:
  assumes "instn_table defs" "source_line_ok defs x"
  shows "\<exists>w. show_source_line defs x = w @ [CHR 0x0A] \<and> CHR 0x0A \<notin> set w"
proof (cases x)
  case (Ins j as)
  have a: "\<forall>a \<in> set as. printable a" and j: "j < length defs" using assms(2) by (simp_all add: source_line_ok_def Ins)
  have "\<forall>c \<in> set (name (defs ! j)). plain c" using table_names(1) [OF assms(1) j] by (simp add: word_def)
  then have "CHR 0x0A \<notin> set (name (defs ! j))" by (rule plain_no_newline)
  moreover have "CHR 0x0A \<notin> set (show_arg b)" if "b \<in> set as" for b
    using word_show_arg [of b] a that by (intro plain_no_newline) (simp add: word_def)
  then have "CHR 0x0A \<notin> set (sep_words (arg_words as))"
    by (cases as) (auto simp: sep_words_def arg_words_def)
  ultimately show ?thesis
    by (intro exI [of _ "name (defs ! j) @ sep_words (arg_words as)"]) (simp add: show_source_line_def Ins show_line_def)
next
  case (Lbl l)
  then show ?thesis using assms(2) plain_no_newline [of l]
    by (intro exI [of _ "l @ '':''"]) (simp add: show_source_line_def source_line_ok_def word_def)
next
  case (Dat lbl k v)
  have h: "word (''0x'' @ hex (2 * k) v)" using assms(2) by (intro hex_word) (auto simp: source_line_ok_def Dat)
  have p: "\<forall>c \<in> set (''0x'' @ hex (2 * k) v). plain c" using h unfolding word_def by blast
  have l: "CHR 0x0A \<notin> set l" if "lbl = Some l" for l
    using assms(2) that plain_no_newline [of l] by (simp add: source_line_ok_def Dat word_def)
  show ?thesis using plain_no_newline [OF p] l
    by (intro exI [of _ "''%data '' @ (case lbl of None \<Rightarrow> [] | Some l \<Rightarrow> ''@'' @ l @ '' '') @ ''0x'' @ hex (2 * k) v"])
      (simp add: show_source_line_def Dat show_data_def split: option.split)
next
  case (Note c)
  then show ?thesis using assms(2)
    by (intro exI [of _ "'';'' @ c"]) (simp add: show_source_line_def source_line_ok_def)
qed

lemma get_lines_source:
  assumes "instn_table defs" "\<forall>x \<in> set xs. source_line_ok defs x"
  shows "get_lines (show_source defs xs) = map (show_source_line defs) xs"
  using assms(2)
proof (induction xs)
  case (Cons x xs)
  then obtain w where "show_source_line defs x = w @ [CHR 0x0A]" "CHR 0x0A \<notin> set w"
    using show_source_line_ends [OF assms(1), of x] by auto
  then show ?case using Cons get_lines_line [of w "show_source defs xs"] by (simp add: show_source_def)
qed (simp add: show_source_def)

section \<open>One line\<close>

text \<open>The operands of an instruction: the labels they refer to are noted, and large numbers counted.\<close>

definition noted :: "prs_arg_t list \<Rightarrow> unit hashmap_map \<Rightarrow> asm_t \<Rightarrow> asm_t" where
  "noted as m s = s\<lparr>result := (result s)\<lparr>warnings := warnings (result s) + of_nat (arg_warnings as)\<rparr>, seen_refs := m\<rparr>"

lemma arg_effect_noted:
  assumes "insert_all (hm_insert (e_calloc env)) (seen_refs s) (arg_refs [a]) = Some m"
  shows "arg_effect env a s = Some (noted [a] m s)"
  using assms
  by (auto simp: arg_effect_def noted_def arg_refs_def arg_warnings_def hset_add_def hm_insert_Some split: arg_data.splits)

lemma args_effect_noted:
  "insert_all (hm_insert (e_calloc env)) (seen_refs s) (arg_refs as) = Some m \<Longrightarrow>
     args_effect env as s = Some (noted as m s)"
proof (induction as arbitrary: s)
  case Nil
  then show ?case by (simp add: noted_def arg_refs_def arg_warnings_def)
next
  case (Cons a as)
  have "arg_refs (a # as) = arg_refs [a] @ arg_refs as" by (simp add: arg_refs_def)
  then obtain m1 where m1: "insert_all (hm_insert (e_calloc env)) (seen_refs s) (arg_refs [a]) = Some m1"
      "insert_all (hm_insert (e_calloc env)) m1 (arg_refs as) = Some m"
    using Cons.prems by (auto simp: insert_all_append)
  then have "args_effect env as (noted [a] m1 s) = Some (noted as m (noted [a] m1 s))"
    by (intro Cons.IH) (simp add: noted_def)
  moreover have "arg_warnings (a # as) = arg_warnings [a] + arg_warnings as" by (simp add: arg_warnings_def)
  ultimately show ?case using arg_effect_noted [OF m1(1)] by (simp add: noted_def add.assoc)
qed

definition line_done ::
  "instn_def_t list \<Rightarrow> u32 \<Rightarrow> source_line list \<Rightarrow> label_t hashmap_map \<Rightarrow> unit hashmap_map \<Rightarrow> u8 list \<Rightarrow> asm_t \<Rightarrow> asm_t" where
  "line_done defs n xs m m2 mem s = s\<lparr>result := (with_memory mem (length (source_data xs)) (result s))
     \<lparr>warnings := warnings (result s) + of_nat (arg_warnings (source_args xs)),
      pr_instns := pr_instns (result s) @ source_instns defs n xs, labels := m\<rparr>, seen_refs := m2\<rparr>"

lemma parse_preproc_show:
  "parse_line env f fn n paths (show_data lbl k v) s = parse_preproc_data env fn n (show_data lbl k v) paths s"
proof -
  have "scan isspace (show_data lbl k v) 0 = Some 0" "chr (show_data lbl k v) 0 = CHR ''%''"
      "take (length PREPROC_DATA) (show_data lbl k v) = PREPROC_DATA"
    by (simp_all add: scan_def chr_def isspace_def show_data_def PREPROC_DATA_def)
  moreover have "CHR ''%'' \<noteq> NUL" by (simp add: NUL_def)
  ultimately show ?thesis by (simp add: parse_line_def parse_preproc_line_def)
qed

lemma parse_source_line:
  assumes t: "instn_table (e_defs env)" and x: "source_line_ok (e_defs env) x" and e: "\<not> erange s" and inv: "mem_inv (result s)"
    and b: "0 < MEM_ALLOC_BLOCK_SZ env" "unat (pr_memsz (result s)) + length (line_data x) + MEM_ALLOC_BLOCK_SZ env < 2 ^ 32"
    and m: "insert_all (hm_insert (e_calloc env)) (labels (result s))
      (line_labels (n + 1) (n_instns (result s)) (pr_memsz (result s)) x) = Some m"
    and m2: "insert_all (hm_insert (e_calloc env)) (seen_refs s) (arg_refs (ins_args x)) = Some m2"
  shows "\<exists>mem. parse_line env f 0 (n + 1) paths (show_source_line (e_defs env) x) s =
      Some (line_done (e_defs env) n [x] m m2 mem s) \<and> grown (result s) (line_data x) mem"
proof -
  note none = grown_nothing [OF inv]
  show ?thesis
  proof (cases x)
    case (Ins j as)
    have "parse_line env f 0 (n + 1) paths (show_line (e_defs env ! j) as) s =
      map_option (\<lambda>s. s\<lparr>result := (result s)\<lparr>pr_instns := pr_instns (result s) @
          [\<lparr>i_filename = 0, i_lineno = n + 1, i_def = e_defs env ! j, i_args = as, mem_offset = - 1\<rparr>]\<rparr>\<rparr>)
        (args_effect env as s)"
      using x e by (intro parse_line_show [OF t]) (auto simp: source_line_ok_def Ins)
    moreover have "args_effect env as s = Some (noted as m2 s)" using m2 by (intro args_effect_noted) (simp add: Ins)
    ultimately show ?thesis using m none
      by (intro exI [of _ "pr_memory (result s)"])
        (simp add: show_source_line_def Ins noted_def line_done_def source_args_def source_data_def)
  next
    case (Lbl l)
    then have "parse_line env f 0 (n + 1) paths ([] @ l @ '':'' @ [CHR 0x0A]) s = add_label env 0 (n + 1) l (n_instns (result s)) False s"
      using x by (intro parse_line_label) (auto simp: source_line_ok_def isspace_def)
    then show ?thesis using m m2 none
      by (intro exI [of _ "pr_memory (result s)"]) (simp add: show_source_line_def Lbl add_label_def hm_insert_Some
          line_done_def source_args_def source_data_def arg_refs_def arg_warnings_def)
  next
    case (Dat lbl k v)
    have k: "k \<in> {1, 2, 4, 8}" "v < 256 ^ k" "case lbl of None \<Rightarrow> True | Some l \<Rightarrow> word l" "0 < k"
      using x by (auto simp: source_line_ok_def Dat)
    obtain mem where "add_data env 0 (n + 1) (map_option (Cons (CHR ''@'')) lbl) (''0x'' @ hex (2 * k) v) unset unset paths s =
        Some (s\<lparr>result := (with_memory mem k (result s))\<lparr>labels := m\<rparr>\<rparr>)" "grown (result s) (le_bytes k v) mem"
      using add_data_hex [OF inv e k(1,2) b(1), of 0 "n + 1" lbl m paths] b(2) m by (auto simp: Dat)
    then show ?thesis using m2
      by (intro exI [of _ mem]) (simp add: show_source_line_def Dat parse_preproc_show parse_data_words [OF k(3,4)]
          line_done_def source_args_def source_data_def arg_refs_def arg_warnings_def with_memory_def)
  next
    case (Note c)
    have "scan isspace ('';'' @ c @ [CHR 0x0A]) 0 = Some 0" "chr ('';'' @ c @ [CHR 0x0A]) 0 = CHR '';''"
      by (simp_all add: scan_def chr_def isspace_def)
    then show ?thesis using m m2 none
      by (intro exI [of _ "pr_memory (result s)"]) (simp add: show_source_line_def Note parse_line_def line_done_def
          source_args_def source_data_def arg_refs_def arg_warnings_def)
  qed
qed

section \<open>A file\<close>

lemma source_parts:
  "source_instns defs n (x # xs) = source_instns defs n [x] @ source_instns defs (n + 1) xs"
  "source_labels n k d (x # xs) = line_labels (n + 1) k d x @
     source_labels (n + 1) (k + of_nat (length (source_instns defs n [x]))) (d + of_nat (length (line_data x))) xs"
  "arg_refs (source_args (x # xs)) = arg_refs (ins_args x) @ arg_refs (source_args xs)"
  "arg_warnings (source_args (x # xs)) = arg_warnings (source_args [x]) + arg_warnings (source_args xs)"
  "source_data (x # xs) = line_data x @ source_data xs"
  by (cases x; simp add: source_args_def arg_refs_def arg_warnings_def source_data_def)+

lemma parse_lines_source:
  assumes t: "instn_table (e_defs env)" and b: "0 < MEM_ALLOC_BLOCK_SZ env"
  shows "\<forall>x \<in> set xs. source_line_ok (e_defs env) x \<Longrightarrow> \<not> erange s \<Longrightarrow> mem_inv (result s) \<Longrightarrow>
    unat (pr_memsz (result s)) + length (source_data xs) + MEM_ALLOC_BLOCK_SZ env < 2 ^ 32 \<Longrightarrow>
    insert_all (hm_insert (e_calloc env)) (labels (result s))
      (source_labels n (n_instns (result s)) (pr_memsz (result s)) xs) = Some m \<Longrightarrow>
    insert_all (hm_insert (e_calloc env)) (seen_refs s) (arg_refs (source_args xs)) = Some m2 \<Longrightarrow>
    \<exists>mem. parse_lines env f 0 n paths (map (show_source_line (e_defs env)) xs) s =
      Some (line_done (e_defs env) n xs m m2 mem s) \<and> grown (result s) (source_data xs) mem"
proof (induction xs arbitrary: n s)
  case Nil
  then show ?case using grown_nothing [of "result s"]
    by (intro exI [of _ "pr_memory (result s)"]) (simp add: line_done_def source_args_def source_data_def arg_refs_def arg_warnings_def)
next
  case (Cons x xs)
  let ?defs = "e_defs env" and ?ins = "insert_all (hm_insert (e_calloc env))"
  let ?k = "n_instns (result s)" and ?d = "pr_memsz (result s)"
  obtain m' m2' where 1: "insert_all (hm_insert (e_calloc env)) (labels (result s)) (line_labels (n + 1) ?k ?d x) = Some m'"
      "insert_all (hm_insert (e_calloc env)) (seen_refs s) (arg_refs (ins_args x)) = Some m2'"
    and 2: "insert_all (hm_insert (e_calloc env)) m'
        (source_labels (n + 1) (?k + of_nat (length (source_instns ?defs n [x]))) (?d + of_nat (length (line_data x))) xs) = Some m"
      "insert_all (hm_insert (e_calloc env)) m2' (arg_refs (source_args xs)) = Some m2"
    using Cons.prems(5,6)
    unfolding source_parts(2) [where x = x and xs = xs and defs = ?defs] source_parts(3) [of x xs] insert_all_append bind_eq_Some_conv
    by blast
  have sz: "unat ?d + length (line_data x) + length (source_data xs) + MEM_ALLOC_BLOCK_SZ env < 2 ^ 32"
    using Cons.prems(4) unfolding source_parts(5) [of x xs] by simp
  obtain mem where x: "parse_line env f 0 (n + 1) paths (show_source_line ?defs x) s = Some (line_done ?defs n [x] m' m2' mem s)"
    and g: "grown (result s) (line_data x) mem"
    using parse_source_line [OF t _ _ _ b _ 1, of f paths] Cons.prems(1-3) sz by auto
  let ?s = "line_done ?defs n [x] m' m2' mem s"
  have d: "source_data [x] = line_data x" by (simp add: source_data_def)
  have r: "pr_memsz (result ?s) = ?d + of_nat (length (line_data x))" "pr_memory (result ?s) = mem"
      "mem_alloc (result ?s) = of_nat (length mem)" "n_instns (result ?s) = ?k + of_nat (length (source_instns ?defs n [x]))"
    by (simp_all add: line_done_def n_instns_def with_memory_def d)
  have u: "unat (pr_memsz (result ?s)) = unat ?d + length (line_data x)"
    using unat_memsz_grown [OF g] by (simp add: r with_memory_def)
  have "mem_inv (result ?s)" using mem_inv_grown [OF g] by (simp add: mem_inv_def r with_memory_def)
  then obtain mem' where xs: "parse_lines env f 0 (n + 1) paths (map (show_source_line ?defs) xs) ?s =
      Some (line_done ?defs (n + 1) xs m m2 mem' ?s)" and g': "grown (result ?s) (source_data xs) mem'"
    using Cons.IH [of ?s "n + 1"] Cons.prems(1,2) 2 sz u by (auto simp: r) (auto simp: line_done_def)
  have "grown (with_memory mem (length (line_data x)) (result s)) (source_data xs) mem'"
    using g' by (simp add: grown_def r with_memory_def)
  note gg = grown_again [OF g this]
  have "line_done ?defs (n + 1) xs m m2 mem' ?s = line_done ?defs n (x # xs) m m2 mem' s"
    unfolding line_done_def source_parts(1) [of _ _ x xs] source_parts(4,5) [of x xs] d
    by (simp add: with_memory_def add.assoc)
  with x xs gg(1) show ?case unfolding source_parts(5) [of x xs] by (intro exI [of _ mem']) simp
qed

text \<open>Every label that is referred to is defined: the check at the end of parsing reports nothing.\<close>

lemma label_check_passes:
  assumes "insert_all (hm_insert calloc) hm_new kvs = Some (seen_refs s)"
    and "insert_all (hm_insert calloc') hm_new lvs = Some (labels (result s))"
    and "fst ` set kvs \<subseteq> fst ` set lvs"
  shows "snd (hmap_iterate (seen_refs s) s label_refs_visitor) = s"
proof -
  have inv: "hm_inv (seen_refs s)" using hm.inv_insert_all [OF hm.inv_new assms(1)] .
  have "label_refs_visitor s l v = s" if e: "(l, v) \<in> set (hm_entries (seen_refs s))" for l v
  proof -
    have "map_of (rev kvs) l \<noteq> None"
      using e hm.look_built [OF assms(1), of l] by (simp add: hm_entries_abs [OF inv])
    then have "map_of (rev lvs) l \<noteq> None" using assms(3) by (auto simp: map_of_eq_None_iff)
    then show ?thesis
      using hm.look_built [OF assms(2), of l] by (auto simp: label_refs_visitor_def hmap_get_hm_abs)
  qed
  then have "fold (\<lambda>(k, x) s. label_refs_visitor s k x) es s = s" if "set es \<subseteq> set (hm_entries (seen_refs s))" for es
    using that by (induction es) auto
  then show ?thesis unfolding hmap_iterate_fold [OF inv] by blast
qed

text \<open>
  A source that can be printed, whose data fits into the memory and whose names find places in the
  two tables, \<open>m\<close> and \<open>m2\<close>: that of the labels, and that of the labels referred to, all of which
  are defined.
\<close>

definition source_ready ::
  "asm_env \<Rightarrow> source_line list \<Rightarrow> label_t hashmap_map \<Rightarrow> unit hashmap_map \<Rightarrow> bool" where
  "source_ready env xs m m2 \<longleftrightarrow> instn_table (e_defs env) \<and> (\<forall>x \<in> set xs. source_line_ok (e_defs env) x) \<and>
     0 < MEM_ALLOC_BLOCK_SZ env \<and> length (source_data xs) + MEM_ALLOC_BLOCK_SZ env < 2 ^ 32 \<and>
     fst ` set (arg_refs (source_args xs)) \<subseteq> fst ` set (source_labels 0 0 0 xs) \<and>
     insert_all (hm_insert (e_calloc env)) hm_new (source_labels 0 0 0 xs) = Some m \<and>
     insert_all (hm_insert (e_calloc env)) hm_new (arg_refs (source_args xs)) = Some m2"

lemma parse_asm_show_ok:
  assumes r: "source_ready env xs m m2" and fl: "e_files env f = Some (show_source (e_defs env) xs)"
  shows "\<exists>mem. parse_files (Suc depth) env f paths False =
        Some (Some \<lparr>result = source_result (e_defs env) xs m mem, seen_refs = m2, erange = False\<rparr>) \<and>
      parse_asm (Suc depth) env f paths False = Some (Some (source_result (e_defs env) xs m mem)) \<and>
      length (source_data xs) \<le> length mem \<and> length mem < 2 ^ 32 \<and> take (length (source_data xs)) mem = source_data xs"
proof -
  have t: "instn_table (e_defs env)" and xs: "\<forall>x \<in> set xs. source_line_ok (e_defs env) x"
    and b: "0 < MEM_ALLOC_BLOCK_SZ env" "length (source_data xs) + MEM_ALLOC_BLOCK_SZ env < 2 ^ 32"
    and refs: "fst ` set (arg_refs (source_args xs)) \<subseteq> fst ` set (source_labels 0 0 0 xs)"
    and m: "insert_all (hm_insert (e_calloc env)) hm_new (source_labels 0 0 0 xs) = Some m"
    and m2: "insert_all (hm_insert (e_calloc env)) hm_new (arg_refs (source_args xs)) = Some m2"
    using r by (simp_all add: source_ready_def)
  let ?s = "\<lparr>result = init_parse_result, seen_refs = hm_new, erange = False\<rparr>"
  define ps where "ps = (case dir_of f of Some d \<Rightarrow> d # paths | None \<Rightarrow> paths)"
  obtain mem where l: "parse_lines env (parse_asm_into depth env ps) 0 0 ps (map (show_source_line (e_defs env)) xs) ?s =
      Some (line_done (e_defs env) 0 xs m m2 mem ?s)" and g: "grown init_parse_result (source_data xs) mem"
    using parse_lines_source [OF t b(1) xs, of ?s 0 m m2 "parse_asm_into depth env ps" ps] b(2) m m2
    by (auto simp: init_parse_result_def n_instns_def mem_inv_def)
  let ?r = "\<lparr>result = source_result (e_defs env) xs m mem, seen_refs = m2, erange = False\<rparr>"
  have "parse_asm_into (Suc depth) env ps 0 f ?s = Some ?r"
    using fl l by (simp add: get_lines_source [OF t xs] line_done_def source_result_def init_parse_result_def with_memory_def)
  then have p: "parse_files (Suc depth) env f paths False = Some (Some ?r)"
    using fl by (simp add: parse_files_def Let_def ps_def del: parse_asm_into.simps cong: option.case_cong)
  have "snd (hmap_iterate (seen_refs ?r) ?r label_refs_visitor) = ?r"
    using m m2 refs by (intro label_check_passes) (simp_all add: source_result_def)
  with p have "parse_asm (Suc depth) env f paths False = Some (Some (source_result (e_defs env) xs m mem))"
    by (simp add: parse_asm_def)
  with p g show ?thesis by (intro exI [of _ mem]) (simp add: grown_def init_parse_result_def)
qed

lemma source_label_found:
  assumes "source_ready env xs m m2"
  shows "find_label (source_result (e_defs env) xs m mem) l =
    (case map_of (rev (source_labels 0 0 0 xs)) l of Some lbl \<Rightarrow> lbl | None \<Rightarrow> None)"
proof -
  have "insert_all (hm_insert (e_calloc env)) hm_new (source_labels 0 0 0 xs) = Some m"
    using assms by (simp add: source_ready_def)
  from hm.look_built [OF this, of l] show ?thesis
    by (simp add: find_label_def source_result_def hmap_get_hm_abs split: option.split)
qed

text \<open>
  C5. Printing and parsing a source: a file that holds printed labels, instructions, data and
  comments is parsed, without an error, as these instructions, with their operands and line numbers,
  these bytes, and these labels, each with the number of the instruction behind it or the place of
  its data, provided that the labels referred to are defined, the names find places in the two
  tables and the data fits; a label that is defined twice counts where it was defined last.
\<close>

lemma parse_asm_show:
  assumes "source_ready env xs m m2" and "e_files env f = Some (show_source (e_defs env) xs)"
  shows "\<exists>mem. parse_asm (Suc depth) env f paths False = Some (Some (source_result (e_defs env) xs m mem)) \<and>
    take (length (source_data xs)) mem = source_data xs \<and>
    (\<forall>l. find_label (source_result (e_defs env) xs m mem) l =
       (case map_of (rev (source_labels 0 0 0 xs)) l of Some lbl \<Rightarrow> lbl | None \<Rightarrow> None))"
  using parse_asm_show_ok [OF assms] source_label_found [OF assms(1)] by blast

section \<open>Tables with few names\<close>

text \<open>Eight insertions into a new table always succeed: every chain of eight slots has a free one.\<close>

lemma probe_free_None:
  "probe_free es n k i c = None \<Longrightarrow> c < n \<Longrightarrow> j < i \<Longrightarrow> in_use (es ! ((c + j) mod n))"
proof (induction i arbitrary: c j)
  case (Suc i)
  have u: "in_use (es ! c)" and r: "probe_free es n k i ((c + 1) mod n) = None"
    using Suc.prems(1) by (auto split: if_splits)
  show ?case
  proof (cases j)
    case 0
    with u Suc.prems(2) show ?thesis by simp
  next
    case (Suc j')
    have "in_use (es ! (((c + 1) mod n + j') mod n))"
      using Suc.IH [OF r, of j'] Suc.prems(2,3) Suc by simp
    then show ?thesis using Suc by (simp add: mod_add_left_eq)
  qed
qed simp

lemma probe_free_room:
  assumes "c < n" "length es = n" "MAX_CHAIN_LENGTH \<le> n" "length (filter in_use es) < MAX_CHAIN_LENGTH"
  shows "\<exists>i. probe_free es n k MAX_CHAIN_LENGTH c = Some i"
proof (rule ccontr)
  assume "\<nexists>i. probe_free es n k MAX_CHAIN_LENGTH c = Some i"
  then have none: "probe_free es n k MAX_CHAIN_LENGTH c = None" by simp
  let ?f = "\<lambda>j. (c + j) mod n"
  have "inj_on ?f {..<MAX_CHAIN_LENGTH}"
  proof (rule inj_onI)
    fix x y assume xy: "x \<in> {..<MAX_CHAIN_LENGTH}" "y \<in> {..<MAX_CHAIN_LENGTH}" "?f x = ?f y"
    have "int (c + x) mod int n = int (c + y) mod int n" using xy(3) by (simp only: flip: of_nat_mod)
    then have d: "int n dvd int x - int y" by (simp add: mod_eq_dvd_iff)
    have "\<bar>int x - int y\<bar> < int n" using xy(1,2) assms(3) by simp
    then have "int x - int y = 0" using d dvd_imp_le_int [of "int x - int y" "int n"] by fastforce
    then show "x = y" by simp
  qed
  then have "card (?f ` {..<MAX_CHAIN_LENGTH}) = MAX_CHAIN_LENGTH" by (simp add: card_image)
  moreover have "?f ` {..<MAX_CHAIN_LENGTH} \<subseteq> {i. i < length es \<and> in_use (es ! i)}"
    using probe_free_None [OF none assms(1)] assms(1,2) by (auto intro!: mod_less_divisor)
  ultimately have "MAX_CHAIN_LENGTH \<le> card {i. i < length es \<and> in_use (es ! i)}"
    using card_mono [of "{i. i < length es \<and> in_use (es ! i)}" "?f ` {..<MAX_CHAIN_LENGTH}"] by simp
  then show False using assms(4) by (simp add: length_filter_conv_card)
qed

definition few :: "nat \<Rightarrow> 'v hashmap_map \<Rightarrow> bool" where
  "few k m \<longleftrightarrow> table_size m = INITIAL_SIZE \<and> length (hdata m) = INITIAL_SIZE \<and> hsize m = int k \<and> length (filter in_use (hdata m)) \<le> k"

lemma few_insert:
  assumes "few j m" "j < MAX_CHAIN_LENGTH"
  shows "\<exists>m'. hm_insert calloc m k v = Some m' \<and> few (Suc j) m'"
proof -
  have "hash_of INITIAL_SIZE k < INITIAL_SIZE" by (rule hash_of_less) (simp add: INITIAL_SIZE_def)
  then obtain i where "probe_free (hdata m) INITIAL_SIZE k MAX_CHAIN_LENGTH (hash_of INITIAL_SIZE k) = Some i"
    using probe_free_room [of "hash_of INITIAL_SIZE k" INITIAL_SIZE "hdata m" k] assms
    by (auto simp: few_def INITIAL_SIZE_def MAX_CHAIN_LENGTH_def)
  moreover have "\<not> int j \<ge> int (INITIAL_SIZE div 2)" using assms(2) by (simp add: INITIAL_SIZE_def MAX_CHAIN_LENGTH_def)
  ultimately have "hashmap_hash m k = Some i" using assms(1) by (simp add: hashmap_hash_def hashmap_hash_int_def few_def)
  then have "hm_insert calloc m k v = Some (put_at i k v m)"
    by (simp add: hm_insert_def hmap_put_def hmap_put_f_free)
  moreover have "few (Suc j) (put_at i k v m)"
    using assms(1) filter_in_use_update [of "hdata m" i "\<lparr>key = Some k, in_use = True, edata = v\<rparr>"]
    by (simp add: few_def put_at_def)
  ultimately show ?thesis by blast
qed

lemma few_insertions:
  "few j m \<Longrightarrow> j + length kvs \<le> MAX_CHAIN_LENGTH \<Longrightarrow>
     \<exists>m'. insert_all (hm_insert calloc) m kvs = Some m' \<and> few (j + length kvs) m'"
proof (induction kvs arbitrary: j m)
  case (Cons x kvs)
  obtain k v where x: "x = (k, v)" by (cases x)
  obtain m1 where m1: "hm_insert calloc m k v = Some m1" "few (Suc j) m1"
    using few_insert [OF Cons.prems(1)] Cons.prems(2) by fastforce
  then obtain m' where "insert_all (hm_insert calloc) m1 kvs = Some m'" "few (Suc j + length kvs) m'"
    using Cons.IH [OF m1(2)] Cons.prems(2) by auto
  with m1 x show ?case by simp
qed simp

lemma few_new: "few 0 hm_new"
  by (simp add: few_def hm_new_def blank_element_def)

text \<open>So a source with at most eight labels and eight uses of labels is always ready.\<close>

lemma few_labels_ready:
  assumes "instn_table (e_defs env)" "\<forall>x \<in> set xs. source_line_ok (e_defs env) x"
    and "0 < MEM_ALLOC_BLOCK_SZ env" "length (source_data xs) + MEM_ALLOC_BLOCK_SZ env < 2 ^ 32"
    and "fst ` set (arg_refs (source_args xs)) \<subseteq> fst ` set (source_labels 0 0 0 xs)"
    and "length (source_labels 0 0 0 xs) \<le> 8" "length (arg_refs (source_args xs)) \<le> 8"
  shows "\<exists>m m2. source_ready env xs m m2 \<and> table_size m2 = 256"
  using assms few_insertions [OF few_new, of "source_labels 0 0 0 xs" "e_calloc env"]
    few_insertions [OF few_new, of "arg_refs (source_args xs)" "e_calloc env"]
  by (auto simp: source_ready_def MAX_CHAIN_LENGTH_def few_def INITIAL_SIZE_def)

section \<open>A loop\<close>

definition loop_instn :: prs_instn_t where
  "loop_instn = \<lparr>i_filename = 0, i_lineno = 4, i_def = std_defs ! 15,
     i_args = [\<lparr>a_type = T_ARG_IMM_LBL, n_bytes = 4, a_data = Label ''loop''\<rparr>], mem_offset = - 1\<rparr>"

definition loop_source :: "source_line list" where
  "loop_source = [Note '' for ever'', Dat (Some ''x'') 2 258, Lbl ''loop'', Ins 15 (i_args loop_instn)]"

definition loop_env :: asm_env where
  "loop_env = line_env\<lparr>e_files := (\<lambda>p. if p = ''a'' then Some (''; for ever'' @ [CHR 0x0A] @ ''%data @x 0x0102'' @ [CHR 0x0A] @
     ''loop:'' @ [CHR 0x0A] @ ''jmp &loop'' @ [CHR 0x0A]) else None)\<rparr>"

definition loop_label :: label_t where
  "loop_label = \<lparr>l_filename = 0, l_lineno = 3, l_offset = 0, is_mem_ref = False\<rparr>"

definition x_label :: label_t where
  "x_label = \<lparr>l_filename = 0, l_lineno = 2, l_offset = 0, is_mem_ref = True\<rparr>"

lemma loop_shown: "show_source std_defs loop_source =
    ''; for ever'' @ [CHR 0x0A] @ ''%data @x 0x0102'' @ [CHR 0x0A] @ ''loop:'' @ [CHR 0x0A] @ ''jmp &loop'' @ [CHR 0x0A]"
  by code_simp

lemma loop_parts:
  "source_labels 0 0 0 loop_source = [(''x'', Some x_label), (''loop'', Some loop_label)]"
  "arg_refs (source_args loop_source) = [(''loop'', None)]" "source_data loop_source = [2, 1]"
  "source_instns std_defs 0 loop_source = [loop_instn]"
proof -
  have "le_bytes 2 258 = [2, 1]" by (simp add: le_bytes_2_4)
  then show "source_labels 0 0 0 loop_source = [(''x'', Some x_label), (''loop'', Some loop_label)]"
    "arg_refs (source_args loop_source) = [(''loop'', None)]" "source_data loop_source = [2, 1]"
    "source_instns std_defs 0 loop_source = [loop_instn]"
    by (simp_all add: loop_source_def data_label_def x_label_def loop_label_def source_args_def arg_refs_def
        loop_instn_def source_data_def)
qed

lemma loop_ready: "\<exists>m m2. source_ready loop_env loop_source m m2"
proof -
  have "word ''loop''" "label_name ''loop''" "word ''x''" by code_simp+
  then have "\<forall>x \<in> set loop_source. source_line_ok std_defs x"
    using std_entries table_length [OF std_table]
    by (simp add: loop_source_def source_line_ok_def printable_def loop_instn_def)
  then show ?thesis
    using few_labels_ready [of loop_env loop_source] by (auto simp: loop_parts loop_env_def line_env_def std_table)
qed

lemma parse_asm_show_witness:
  "\<exists>r. parse_asm 1 loop_env ''a'' [] False = Some (Some r) \<and> errors r = 0 \<and> pr_instns r = [loop_instn] \<and>
     find_label r ''loop'' = Some loop_label \<and> find_label r ''x'' = Some x_label \<and>
     take (unat (pr_memsz r)) (pr_memory r) = [2, 1]"
proof -
  obtain m m2 where r: "source_ready loop_env loop_source m m2" using loop_ready by blast
  have d: "e_defs loop_env = std_defs" by (simp add: loop_env_def line_env_def)
  have f: "e_files loop_env ''a'' = Some (show_source (e_defs loop_env) loop_source)"
    unfolding d loop_shown by (simp add: loop_env_def)
  obtain mem where "parse_asm (Suc 0) loop_env ''a'' [] False = Some (Some (source_result std_defs loop_source m mem))"
      "take (Suc (Suc 0)) mem = [2, 1]" "\<forall>l. find_label (source_result std_defs loop_source m mem) l =
        (case map_of [(''loop'', Some loop_label), (''x'', Some x_label)] l of Some lbl \<Rightarrow> lbl | None \<Rightarrow> None)"
    using parse_asm_show [OF r f, of 0 "[]"] unfolding d loop_parts by auto
  moreover have "unat (pr_memsz (source_result std_defs loop_source m mem)) = Suc (Suc 0)"
      "pr_memory (source_result std_defs loop_source m mem) = mem" "errors (source_result std_defs loop_source m mem) = 0"
      "pr_instns (source_result std_defs loop_source m mem) = [loop_instn]"
    by (simp_all add: source_result_def loop_parts)
  ultimately show ?thesis by (intro exI [of _ "source_result std_defs loop_source m mem"]) simp
qed

end
