(* ===== verification/SourceRuns.thy ===== *)
theory SourceRuns
  imports Toolchain SourceRoundtrip
begin

text \<open>
  From the text of a program to the machine that runs it: a printed source assembles, so that the
  two programs, given its file, run the code its instructions stand for on the bytes of its data.
\<close>

text \<open>The code does not depend on the block of the memory.\<close>

definition source_code :: "instn_def_t list \<Rightarrow> source_line list \<Rightarrow> label_t hashmap_map \<Rightarrow> u8 list" where
  "source_code defs xs m = full_code False (source_result defs xs m [])"

lemma source_result_memory:
  "find_label (source_result defs xs m mem) = find_label (source_result defs xs m [])"
  "pr_instns (source_result defs xs m mem) = source_instns defs 0 xs"
  "full_code False (source_result defs xs m mem) = source_code defs xs m"
  "labels_inside (source_result defs xs m mem) = labels_inside (source_result defs xs m [])"
proof -
  show f: "find_label (source_result defs xs m mem) = find_label (source_result defs xs m [])"
    by (simp add: find_label_def source_result_def fun_eq_iff)
  show p: "pr_instns (source_result defs xs m mem) = source_instns defs 0 xs" for mem by (simp add: source_result_def)
  have "resolve False (source_result defs xs m mem) = resolve False (source_result defs xs m [])"
    unfolding resolve_def f p fun_eq_iff by simp
  then show "full_code False (source_result defs xs m mem) = source_code defs xs m"
    by (simp add: source_code_def full_code_def p)
  show "labels_inside (source_result defs xs m mem) = labels_inside (source_result defs xs m [])"
    by (simp add: labels_inside_def f p)
qed

text \<open>
  A program: a source that is ready, in a file the assembler is called with, with code that fits, an
  entry point, and no use of a label behind the last instruction.
\<close>

definition source_program ::
  "basm_env \<Rightarrow> basm_args \<Rightarrow> source_line list \<Rightarrow> label_t hashmap_map \<Rightarrow> unit hashmap_map \<Rightarrow> label_t \<Rightarrow> bool" where
  "source_program g a xs m m2 lbl \<longleftrightarrow> source_ready (b_asm g) xs m m2 \<and> (\<forall>n. e_calloc (b_asm g) n) \<and> table_size m2 < 2 ^ 32 \<and>
     e_files (b_asm g) (asmfile a) = Some (show_source (e_defs (b_asm g)) xs) \<and> b_depth g \<noteq> 0 \<and> \<not> b_erange g \<and> \<not> b_debug a \<and>
     labels_inside (source_result (e_defs (b_asm g)) xs m []) \<and>
     source_code (e_defs (b_asm g)) xs m \<noteq> [] \<and> length (source_code (e_defs (b_asm g)) xs m) \<le> 2 ^ 32 - 256 \<and>
     (\<exists>e. entry_pt_label a = Some e \<and> map_of (rev (source_labels 0 0 0 xs)) e = Some (Some lbl)) \<and>
     \<not> is_mem_ref lbl \<and> l_offset lbl \<noteq> - 1"

lemma source_assembles:
  assumes "source_program g a xs m m2 lbl"
  shows "\<exists>mem. assembles g a (source_result (e_defs (b_asm g)) xs m mem) lbl d \<and>
    length (source_data xs) \<le> length mem \<and> take (length (source_data xs)) mem = source_data xs"
proof -
  let ?defs = "e_defs (b_asm g)"
  obtain depth where depth: "b_depth g = Suc depth" using assms by (cases "b_depth g") (auto simp: source_program_def)
  have ready: "source_ready (b_asm g) xs m m2" "e_files (b_asm g) (asmfile a) = Some (show_source ?defs xs)"
    using assms by (simp_all add: source_program_def)
  obtain mem where mem:
    "parse_files (b_depth g) (b_asm g) (asmfile a) (include_paths a) False =
      Some (Some \<lparr>result = source_result ?defs xs m mem, seen_refs = m2, erange = False\<rparr>)"
    "parse_asm (b_depth g) (b_asm g) (asmfile a) (include_paths a) False = Some (Some (source_result ?defs xs m mem))"
    "length (source_data xs) \<le> length mem" "take (length (source_data xs)) mem = source_data xs"
    using parse_asm_show_ok [OF ready, of depth "include_paths a"] unfolding depth by blast
  obtain e where e: "entry_pt_label a = Some e" "find_label (source_result ?defs xs m mem) e = Some lbl"
    using assms source_label_found [OF ready(1), of mem] by (auto simp: source_program_def)
  have "env_ok (b_asm g)" using assms by (simp add: env_ok_def source_program_def source_ready_def)
  moreover have "errors (source_result ?defs xs m mem) = 0" "label_refs (source_result ?defs xs m mem) = []"
    by (simp_all add: source_result_def)
  ultimately have "assembles g a (source_result ?defs xs m mem) lbl d"
    using assms mem(1,2) e unfolding source_program_def assembles_def refs_fit_def
    by (simp add: source_result_memory(3,4) [of _ _ _ mem])
  with mem(3,4) show ?thesis by blast
qed

text \<open>
  C2. A printed source runs: given the file of a program, the assembler writes an image, and the
  machine, given this image, starts with the encodings of the instructions of the program as its
  code, the bytes of its data as its memory, and its first procedure at the offset that is the
  number of the instruction behind the label of the entry point.
\<close>

lemma source_runs:
  assumes "source_program g a xs m m2 lbl" "basm_parse_args (e_defs (b_asm g)) argv = Some (Inr a)"
    and "outfile a = Some out" "b_room g out = Some room"
    and "16 + length (source_code (e_defs (b_asm g)) xs m) + length (source_data xs) \<le> room"
    and "bvgz_parse_args argv' = Inr a'" "imgfile a' = out"
  shows "\<exists>file. basm_main g argv = Some (0, [], Some (out, file)) \<and>
    (\<forall>v. v_files v out = Some file \<longrightarrow> bvgz_main v argv' lines w =
       bvgz_run v (v_debug a') lines None
         (loaded_vm (v_junk v) w (l_offset lbl) (source_code (e_defs (b_asm g)) xs m) (source_data xs)))"
proof -
  let ?cd = "source_code (e_defs (b_asm g)) xs m" and ?d = "undefined :: debug_t"
  obtain mem where ok: "assembles g a (source_result (e_defs (b_asm g)) xs m mem) lbl ?d"
    and mem: "length (source_data xs) \<le> length mem" "take (length (source_data xs)) mem = source_data xs"
    using source_assembles [OF assms(1)] by blast
  let ?r = "source_result (e_defs (b_asm g)) xs m mem"
  have b: "\<not> b_debug a" "?cd \<noteq> []" "length ?cd < 2 ^ 32" "length (source_data xs) < 2 ^ 32"
    using assms(1) by (auto simp: source_program_def source_ready_def)
  have sz: "unat (pr_memsz ?r) = length (source_data xs)" and refs: "label_refs ?r = []" and pm: "pr_memory ?r = mem"
    using b(4) by (simp_all add: source_result_def)
  have "resolve_data_label_refs (laid_out False ?r) = Some (0, (laid_out False ?r)\<lparr>pr_memory := mem\<rparr>)"
    by (simp add: resolve_data_label_refs_def refs laid_out_def source_result_def)
  then have w: "basm_main g argv = Some (0, [], Some (out, image_file False (l_offset lbl) ?cd (source_data xs) ?d))"
    using basm_writes [OF ok assms(2-4), of mem] b(1) assms(5) mem(2)
    by (simp add: source_result_memory(3) sz pm image_file_def length_image)
  have "bvgz_main v argv' lines w = bvgz_run v (v_debug a') lines None (loaded_vm (v_junk v) w (l_offset lbl) ?cd (source_data xs))"
    if "v_files v out = Some (image_file False (l_offset lbl) ?cd (source_data xs) ?d)" for v
    using read_image_file [of False ?d ?cd "source_data xs" "v_junk v" w "l_offset lbl"] b that assms(6,7)
    by (auto simp: bvgz_main_def simp del: bind_Some_iff)
  with w show ?thesis by blast
qed

section \<open>A program with data\<close>

definition pair_source :: "source_line list" where
  "pair_source = [Dat (Some ''x'') 2 258, Lbl ''_entry'', Ins 41 []]"

definition pair_basm :: basm_env where
  "pair_basm = hello_basm\<lparr>b_asm := line_env\<lparr>e_files := (\<lambda>p. if p = ''a'' then
     Some (''%data @x 0x0102'' @ [CHR 0x0A] @ ''_entry:'' @ [CHR 0x0A] @ ''ret'' @ [CHR 0x0A]) else None)\<rparr>\<rparr>"

definition pair_label :: label_t where
  "pair_label = \<lparr>l_filename = 0, l_lineno = 2, l_offset = 0, is_mem_ref = False\<rparr>"

lemma pair_simps: "e_defs (b_asm pair_basm) = std_defs" "b_depth pair_basm = 1" "b_erange pair_basm = False"
    "b_room pair_basm ''x'' = Some 100" "e_calloc (b_asm pair_basm) n" "MEM_ALLOC_BLOCK_SZ (b_asm pair_basm) = 512"
  by (simp_all add: pair_basm_def line_env_def hello_basm_def)

lemma pair_parts:
  "source_labels 0 0 0 pair_source = [(''x'', Some (x_label\<lparr>l_lineno := 1\<rparr>)), (''_entry'', Some pair_label)]"
  "arg_refs (source_args pair_source) = []" "source_data pair_source = [2, 1]"
  "source_instns std_defs 0 pair_source = [demo_ret\<lparr>i_lineno := 3, i_filename := 0\<rparr>]"
proof -
  have "le_bytes 2 258 = [2, 1]" by (simp add: le_bytes_2_4)
  then show "source_labels 0 0 0 pair_source = [(''x'', Some (x_label\<lparr>l_lineno := 1\<rparr>)), (''_entry'', Some pair_label)]"
    "arg_refs (source_args pair_source) = []" "source_data pair_source = [2, 1]"
    "source_instns std_defs 0 pair_source = [demo_ret\<lparr>i_lineno := 3, i_filename := 0\<rparr>]"
    by (simp_all add: pair_source_def data_label_def x_label_def pair_label_def source_args_def arg_refs_def source_data_def demo_ret_def)
qed

lemma pair_code: "source_code std_defs pair_source m = [72, 1]"
  using std_entries
  by (simp add: source_code_def full_code_def source_result_memory(2) pair_parts left_out_def demo_ret_def enc_instn_def
      op_ir_def compute_layout_def std_opcodes le_bytes_2_4)

lemma pair_program: "\<exists>m m2. source_program pair_basm hello_args pair_source m m2 pair_label"
proof -
  have "word ''x''" "word ''_entry''" by code_simp+
  then have "\<forall>x \<in> set pair_source. source_line_ok std_defs x"
    using std_entries table_length [OF std_table] by (simp add: pair_source_def source_line_ok_def)
  then obtain m m2 where r: "source_ready (b_asm pair_basm) pair_source m m2" "table_size m2 = 256"
    using few_labels_ready [of "b_asm pair_basm" pair_source] by (auto simp: pair_simps pair_parts std_table)
  have "show_source std_defs pair_source = ''%data @x 0x0102'' @ [CHR 0x0A] @ ''_entry:'' @ [CHR 0x0A] @ ''ret'' @ [CHR 0x0A]"
    by code_simp
  then have "e_files (b_asm pair_basm) (asmfile hello_args) = Some (show_source std_defs pair_source)"
    by (simp add: pair_basm_def hello_args_def)
  moreover have "labels_inside (source_result std_defs pair_source m [])"
    by (simp add: labels_inside_def source_result_memory(2) pair_parts demo_ret_def arg_labels_def)
  ultimately have "source_program pair_basm hello_args pair_source m m2 pair_label"
    using r by (simp add: source_program_def pair_simps pair_parts pair_code hello_args_def) (simp add: pair_label_def)
  then show ?thesis by blast
qed

lemma source_runs_witness:
  "\<exists>file. basm_main pair_basm [''basm'', ''-o'', ''x'', ''a''] = Some (0, [], Some (''x'', file)) \<and>
     bvgz_main (demo_bvgz file) [''bvgz'', ''x''] [] () =
       bvgz_run (demo_bvgz file) False [] None (loaded_vm [] () 0 [72, 1] [2, 1])"
proof -
  obtain m m2 where p: "source_program pair_basm hello_args pair_source m m2 pair_label" using pair_program by blast
  have a: "basm_parse_args (e_defs (b_asm pair_basm)) [''basm'', ''-o'', ''x'', ''a''] = Some (Inr hello_args)"
    "bvgz_parse_args [''bvgz'', ''x''] = Inr \<lparr>imgfile = ''x'', gen_dir = None, v_debug = False\<rparr>"
    by (simp_all add: basm_parse_args_def hello_args_def DefaultEntryPointLabel_def bvgz_parse_args_def)
  have o: "outfile hello_args = Some ''x''" by (simp add: hello_args_def)
  obtain fl where "basm_main pair_basm [''basm'', ''-o'', ''x'', ''a''] = Some (0, [], Some (''x'', fl))"
    "\<And>v. v_files v ''x'' = Some fl \<Longrightarrow> bvgz_main v [''bvgz'', ''x''] [] () =
       bvgz_run v False [] None (loaded_vm (v_junk v) () 0 [72, 1] [2, 1])"
    using source_runs [OF p a(1) o pair_simps(4) _ a(2), of "[]" "()"]
    by (auto simp: pair_simps pair_code pair_parts pair_label_def)
  then show ?thesis by simp
qed

end
