(* ===== verification/Spec2Isabelle.thy ===== *)
theory Spec2Isabelle
  imports LinkedList HashMap InstnDefs VmState Bytecode InstnOps InstnCtrl Os Timers RunQueue
    SyscallMem SyscallIo SyscallProc SyscallNetFs VmExec Image Asm BytecodeGen CodeRoundtrip
    CText Parser ParserInv ParserRoundtrip Assemble DebugData DebugCorrect
    Printing Debugger DebugExec DebugShell DebugBreak DebugSession DebugKeeps DebugStops Listing Completion Programs
    RunImages Toolchain DataRoundtrip SourceRoundtrip SourceRuns
begin

text \<open>
  A model of bvgz-vm, a virtual machine written in C: a byte code interpreter with cooperative
  procedures, timers, asynchronous I/O and child processes, and the assembler that makes its
  images. Sources are under \<open>src/src/\<close>.

  The theories, from the bottom up:

  \<^item> \<open>Prelude\<close>: machine words, little-endian loads and stores in a list of bytes, and blocks
    of \<open>malloc\<close> whose slots are lost when \<open>realloc\<close> cuts them.
  \<^item> \<open>LinkedList\<close> (\<open>util/list.c\<close>), \<open>HashMap\<close> (\<open>util/hashmap.c\<close>): the two
    containers, the first on a store of nodes, the second with its probing and rehashing.
    Chains implement lists and tables implement finite maps.
  \<^item> \<open>InstnDefs\<close> (\<open>instns/instn.c\<close>, \<open>instn_defs.inc\<close>, the lookup of \<open>parser.c\<close>): the
    table of instructions, sorted and numbered. The sort is a parameter; what is known of it is
    that it permutes and sorts by name.
  \<^item> \<open>VmState\<close> (\<open>vm.h\<close>, \<open>vm.c\<close>): the machine, its memory, procedures and call stacks.
  \<^item> \<open>Bytecode\<close> (\<open>decode_instn\<close> of \<open>bytecode.c\<close>), \<open>InstnOps\<close> and \<open>InstnCtrl\<close>
    (\<open>instns/instn_impl_*.c\<close>): decoding and the handlers of the instructions.
  \<^item> \<open>Os\<close>: the operating system as a record of functions on a world of any type, which the
    system calls take as an argument.
  \<^item> \<open>Timers\<close> (\<open>timers.c\<close>), \<open>SyscallMem\<close> (\<open>syscalls/syscall_mem.c\<close>,
    \<open>syscall_misc.c\<close>), \<open>SyscallIo\<close> (\<open>syscall_io.c\<close> and the event handlers of
    \<open>syscall_net.c\<close>), \<open>SyscallProc\<close> (\<open>syscall_proc.c\<close>), \<open>SyscallNetFs\<close>
    (\<open>syscall_net.c\<close>, \<open>syscall_fs.c\<close>): the system calls and the events. All of them keep
    the code and the well-formedness of the machine (\<open>keeps\<close>).
  \<^item> \<open>RunQueue\<close>: the run queue of procedures on the linked list, refining the list that the
    machine of \<open>VmState\<close> has.
  \<^item> \<open>VmExec\<close> (\<open>vm_exec.c\<close>, \<open>syscalls/syscall.c\<close>, \<open>instns/instn_impl_sys.c\<close>): the
    table of system calls and the execution loop, as a function that may not return and as a step
    relation, which agree; how machines stop.
  \<^item> \<open>Image\<close> (\<open>bytecode.c\<close>): writing and reading images, and reading debug data.
  \<^item> \<open>Asm\<close> (\<open>parser.h\<close>): the result of parsing. \<open>CText\<close>: C strings and \<open>strtoull\<close>.
    \<open>Parser\<close> (\<open>parser.c\<close>): files, lines, instructions, operands, labels and data
    directives. \<open>ParserInv\<close>: what a parse guarantees. \<open>ParserRoundtrip\<close>: printed
    instructions are parsed as themselves.
  \<^item> \<open>BytecodeGen\<close> (\<open>bytecode_gen.c\<close>): the code generator returns the concatenation of
    the encodings, labels resolved. \<open>CodeRoundtrip\<close>: the decoder undoes it.
    \<open>Assemble\<close>: what the parser delivers is what the generator needs.
  \<^item> \<open>DebugData\<close> (the debug section of \<open>bytecode_gen.c\<close>, the macros of \<open>bytecode.h\<close>):
    the lines, labels, files and strings, how they are written and read. \<open>DebugCorrect\<close>: what
    they say of the parsed source.
  \<^item> \<open>Printing\<close> (\<open>print_vm_state\<close> of \<open>vm.c\<close>) and the debugger, whose output is a string of
    its state: \<open>Debugger\<close> (\<open>debug/debug.c\<close>, \<open>debug_util.c\<close>, \<open>debug_dump.c\<close>,
    \<open>debug_misc.c\<close>, \<open>debug_procdr.c\<close>): symbols, dumps and listings. \<open>DebugExec\<close>
    (\<open>debug_brk.c\<close>, \<open>debug_exec.c\<close>): breakpoints and execution. \<open>DebugShell\<close>
    (\<open>vm_debug.c\<close>): the commands and the session. \<open>DebugBreak\<close>: the breakpoints as a list,
    and the turns of the debugger against those of the execution loop. \<open>DebugSession\<close>: command
    lines, programs run in the debugger, and how labels resolve. \<open>DebugKeeps\<close>: what commands and
    sessions change. \<open>DebugStops\<close>: where a program stops and how it goes on. \<open>Listing\<close>: the
    disassembler lists the source of generated code, with the labels and lines of the debug data.
    \<open>Completion\<close>: what the line editor is offered, given that its \<open>rl_completion_matches\<close> does
    what its manual says.
  \<^item> \<open>Programs\<close> (\<open>basm_app.c\<close>, \<open>bvgz.c\<close>): the options and \<open>main\<close> of the two programs.
    \<open>RunImages\<close>: the images that the system call \<open>run\<close> writes.
    \<open>Toolchain\<close>: the references of the data, and that the machine runs what was assembled.
  \<^item> \<open>DataRoundtrip\<close>, \<open>SourceRoundtrip\<close>: the text of a whole program, its labels,
    instructions, data and comments, is parsed as this program; sources with few labels never
    fail in the tables of names. \<open>SourceRuns\<close>: the two programs, given this text, run it.

  Conventions. A C function that may run into undefined behaviour (a wild pointer, a use of
  freed memory, \<open>abort\<close>) returns an option, \<open>None\<close> standing for it; errors the code handles
  are values. Pointers into the memory of the machine are offsets. A name that is used as a format
  of \<open>printf\<close> and has a per cent sign in it is undefined behaviour.

  Bounds and fuel. \<open>hmap_put\<close> nests insertions and rehashing at most 32 deep: every level
  doubles a table whose size is an \<open>int\<close>. \<open>fire_proc_loop\<close> and the depth of included files
  take the fuel as an argument; \<open>fire_proc_events_fuel\<close> shows when it is enough. The loops that
  may not end, the execution loop and the growth of the two buffers of the assembler, are
  \<open>partial_function\<close>s, \<open>None\<close> standing for a loop that does not return.

  Not modelled: what is printed on standard error, of which the errors and warnings of the
  assembler are counted; functions that only free; the child after \<open>fork\<close>, which is an
  operation of the system. Files, sockets, processes, the clock and memory allocation are those
  of the operating system, a parameter; so are \<open>qsort\<close> and the line editor with its completion.
\<close>

section \<open>From source to machine\<close>

text \<open>
  C1. What is assembled is what is executed: a source parsed without errors, none of whose
  operands refers to the end of the file, is turned into code, and in a machine with this code
  the decoder, at the offset the generator noted for an instruction, finds the entry of the
  table the source named, the operands it wrote, labels resolved, and the length of the
  instruction.
\<close>

lemma assemble_decodes:
  assumes "env_ok env" "parse_files depth env filename paths rng = Some (Some s)" "errors (result s) = 0"
    and "table_size (seen_refs s) < 2 ^ 32"
    and "parse_asm depth env filename paths rng = Some (Some r)" "errors r = 0"
    and "labels_inside r" "length (full_code dbg r) \<le> 2 ^ 32 - 256"
    and i: "i < length (pr_instns r)" "\<not> left_out dbg (pr_instns r ! i)"
    and vm: "code vm = full_code dbg r" "codesz vm = of_nat (length (full_code dbg r))"
    and refs: "\<forall>a \<in> set (i_args (pr_instns r ! i)). in_memory (resolve dbg r) vm a"
    and buf: "length (iargs instn) = 3"
  shows "\<exists>ys b instn'. parse_to_bytecode r dbg = Some (ys, b, codesz vm) \<and>
    (\<forall>q < length (code vm). blk_read b q = Some (code vm ! q)) \<and>
    decode_instn (e_defs env) (unat (mem_offset (ys ! i))) instn vm =
      Some (int (isize (pr_instns r ! i)), instn', vm) \<and>
    e_defs env ! unat (drop_bit 3 (icode instn')) = i_def (pr_instns r ! i) \<and>
    (\<forall>j < length (i_args (pr_instns r ! i)).
       iargs instn' ! j = dec_arg (resolve dbg r) (i_args (pr_instns r ! i) ! j))"
proof -
  let ?x = "pr_instns r ! i"
  have t: "instn_table (e_defs env)" using assms(1) by (simp add: env_ok_def)
  note wf = parsed_wf [OF assms(1-8)]
  from wf(2) [of ?x] i(1) obtain k where k: "k < length (e_defs env)" "i_def ?x = e_defs env ! k"
    by (metis in_set_conv_nth nth_mem)
  obtain ys b where g: "parse_to_bytecode r dbg = Some (ys, b, of_nat (length (full_code dbg r)))"
      "\<forall>q < length (full_code dbg r). blk_read b q = Some (full_code dbg r ! q)"
      "mem_offset (ys ! i) = final_off dbg (pr_instns r) i"
    using parse_to_bytecode_ok [OF wf(1)] i(1) by auto
  obtain instn' where d: "decode_instn (e_defs env) (unat (final_off dbg (pr_instns r) i)) instn vm =
      Some (int (isize ?x), instn', vm)" "drop_bit 3 (icode instn') = of_nat k"
      "\<forall>j < length (i_args ?x). iargs instn' ! j = dec_arg (resolve dbg r) (i_args ?x ! j)"
    using code_decodes_ok [OF t wf(1) i k vm refs buf] by blast
  have "unat (drop_bit 3 (icode instn')) = k" using d(2) k(1) table_length [OF t] by simp
  then show ?thesis
    using g d(1,3) k(2) vm by (intro exI [of _ ys] exI [of _ b] exI [of _ instn']) simp
qed

lemma tiny_code: "full_code False tiny_result = [72, 1]"
proof -
  have "pr_instns tiny_result = [demo_ret\<lparr>i_lineno := 1, i_filename := 0\<rparr>]"
    by (simp add: tiny_result_def demo_ret_def)
  then show ?thesis
    using std_entries
    by (simp add: full_code_def left_out_def demo_ret_def enc_instn_def op_ir_def compute_layout_def std_opcodes le_bytes_2_4)
qed

lemma assemble_decodes_witness:
  "\<exists>ys b i. parse_to_bytecode tiny_result False = Some (ys, b, 2) \<and>
     blk_read b 0 = Some 72 \<and> blk_read b 1 = Some 1 \<and>
     decode_instn std_defs (unat (mem_offset (ys ! 0))) no_instn ret_vm = Some (2, i, ret_vm) \<and>
     std_defs ! unat (drop_bit 3 (icode i)) = std_defs ! 41"
proof -
  have x: "pr_instns tiny_result = [demo_ret\<lparr>i_lineno := 1, i_filename := 0\<rparr>]"
    by (simp add: tiny_result_def demo_ret_def)
  then have z: "isize (pr_instns tiny_result ! 0) = 2" "i_def (pr_instns tiny_result ! 0) = std_defs ! 41"
      "i_args (pr_instns tiny_result ! 0) = []" "\<not> left_out False (pr_instns tiny_result ! 0)"
    using std_entries
    by (simp_all add: isize_def op_ir_def compute_layout_def demo_ret_def std_opcodes left_out_def)
  have r: "errors tiny_result = 0" "labels_inside tiny_result" "pr_instns tiny_result \<noteq> []"
    by (simp add: tiny_result_def init_parse_result_def) (simp_all add: x labels_inside_def arg_labels_def demo_ret_def)
  have "\<exists>ys b instn'. parse_to_bytecode tiny_result False = Some (ys, b, codesz ret_vm) \<and>
    (\<forall>q < length (code ret_vm). blk_read b q = Some (code ret_vm ! q)) \<and>
    decode_instn (e_defs tiny_env) (unat (mem_offset (ys ! 0))) no_instn ret_vm =
      Some (int (isize (pr_instns tiny_result ! 0)), instn', ret_vm) \<and>
    e_defs tiny_env ! unat (drop_bit 3 (icode instn')) = i_def (pr_instns tiny_result ! 0) \<and>
    (\<forall>j < length (i_args (pr_instns tiny_result ! 0)).
       iargs instn' ! j = dec_arg (resolve False tiny_result) (i_args (pr_instns tiny_result ! 0) ! j))"
    by (rule assemble_decodes [OF _ tiny_files _ _ tiny_parse])
      (simp_all add: tiny_code z r small_vm_simps no_instn_def env_ok_def tiny_env_def std_table hm_new_def INITIAL_SIZE_def)
  then show ?thesis
    by (auto simp: z tiny_env_def small_vm_simps)
qed

end
